(* ===== verification/Prelude.thy ===== *)
theory Prelude
  imports Complex_Main "HOL-Library.Word" "HOL-Library.AList" "HOL-Library.Sublist"
    "HOL-Library.Multiset"
begin

text \<open>
  The vocabulary the components share: Python exceptions as values, dictionaries as
  association lists in insertion order, text, byte strings and the integer syntax.

  A Python \<open>str\<close> is modelled by its UTF-8 encoding, a HOL \<open>string\<close>; ASCII literals read as
  they are, order by code point is the order of the bytes, and \<open>len\<close> counts the bytes that
  start a character (\<open>py_len\<close>). A \<open>bytes\<close> object is a list of 8-bit words; \<open>encode\<close> and
  \<open>decode\<close> go between the two. Python's unbounded \<open>int\<close> is \<open>int\<close>. A dictionary is an
  association list: \<open>AList.update\<close> keeps the position of an existing key and appends a new
  one, as \<open>d[k] = v\<close> does. White space and digits beyond ASCII are in \<open>Unicode\<close>; case is that of ASCII.
\<close>

named_theorems err_simps "what it means for a fallible computation to succeed or fail"
named_theorems str_simps "facts on text and on the integer syntax"

subsection \<open>Exceptions\<close>

text \<open>The message of an exception is kept only where the code reads it (the code of a refusal).\<close>

datatype exc =
    CodecError | KeyPathError | IndexError | KeyError | ValueError | TypeError | AttributeError
  | PermissionError | RuntimeError | WireDecodeError | CanonicalEncodingError | AssertionError
  | VerificationFailure string | ChannelFailure string | LinkFailure string
  | ConfigurationError | ResolverError | OverflowError

type_synonym 'a res = "exc + 'a"

text \<open>\<open>except ValueError\<close> also catches the classes the code derives from it.\<close>

fun is_value_error :: "exc \<Rightarrow> bool" where
  "is_value_error ValueError = True"
| "is_value_error CodecError = True"
| "is_value_error WireDecodeError = True"
| "is_value_error CanonicalEncodingError = True"
| "is_value_error ConfigurationError = True"
| "is_value_error _ = False"

definition rbind :: "'a res \<Rightarrow> ('a \<Rightarrow> 'b res) \<Rightarrow> 'b res" where
  "rbind r f = (case r of Inl e \<Rightarrow> Inl e | Inr x \<Rightarrow> f x)"

lemma rbind_simps [simp]:
  "rbind (Inl e) f = Inl e" "rbind (Inr x) f = f x"
  by (simp_all add: rbind_def)

lemma rbind_Inr_iff [err_simps]:
  "rbind r f = Inr y \<longleftrightarrow> (\<exists>x. r = Inr x \<and> f x = Inr y)"
  by (cases r) auto

lemma rbind_Inl_iff [err_simps]:
  "rbind r f = Inl e \<longleftrightarrow> r = Inl e \<or> (\<exists>x. r = Inr x \<and> f x = Inl e)"
  by (cases r) auto

lemma rbind_cong [fundef_cong]:
  "r = s \<Longrightarrow> (\<And>x. s = Inr x \<Longrightarrow> f x = g x) \<Longrightarrow> rbind r f = rbind s g"
  by (cases s) auto

text \<open>A list comprehension over a fallible function: the first error ends it.\<close>

fun rmap :: "('a \<Rightarrow> 'b res) \<Rightarrow> 'a list \<Rightarrow> 'b list res" where
  "rmap f [] = Inr []"
| "rmap f (x # xs) = rbind (f x) (\<lambda>y. rbind (rmap f xs) (\<lambda>ys. Inr (y # ys)))"

lemma rmap_cong [fundef_cong]:
  "xs = ys \<Longrightarrow> (\<And>x. x \<in> set ys \<Longrightarrow> f x = g x) \<Longrightarrow> rmap f xs = rmap g ys"
  by (induction ys arbitrary: xs) (auto intro!: rbind_cong)

lemma rmap_Inr_iff: "rmap f xs = Inr ys \<longleftrightarrow> list_all2 (\<lambda>x y. f x = Inr y) xs ys"
  by (induction xs arbitrary: ys) (auto simp: rbind_Inr_iff list_all2_Cons1)

lemma rmap_total: "(\<And>x. x \<in> set xs \<Longrightarrow> f x = Inr (g x)) \<Longrightarrow> rmap f xs = Inr (map g xs)"
  by (induction xs) auto

lemma rmap_Inr_set: "rmap f xs = Inr ys \<Longrightarrow> y \<in> set ys \<Longrightarrow> \<exists>x \<in> set xs. f x = Inr y"
  by (induction xs arbitrary: ys) (auto simp: rbind_Inr_iff)

lemma rmap_Inr_length: "rmap f xs = Inr ys \<Longrightarrow> length ys = length xs"
  by (simp add: rmap_Inr_iff list_all2_lengthD)

subsection \<open>Dictionaries\<close>

type_synonym 'v dict = "(string \<times> 'v) list"

abbreviation dget :: "('k \<times> 'v) list \<Rightarrow> 'k \<Rightarrow> 'v option" where
  "dget d k \<equiv> map_of d k"

abbreviation dset :: "('k \<times> 'v) list \<Rightarrow> 'k \<Rightarrow> 'v \<Rightarrow> ('k \<times> 'v) list" where
  "dset d k v \<equiv> AList.update k v d"

abbreviation ddel :: "('k \<times> 'v) list \<Rightarrow> 'k \<Rightarrow> ('k \<times> 'v) list" where
  "ddel d k \<equiv> AList.delete k d"

abbreviation dkeys :: "('k \<times> 'v) list \<Rightarrow> 'k list" where
  "dkeys d \<equiv> map fst d"

abbreviation dvalues :: "('k \<times> 'v) list \<Rightarrow> 'v list" where
  "dvalues d \<equiv> map snd d"

lemma dget_dset [simp]: "dget (dset d k v) k' = (if k' = k then Some v else dget d k')"
  by (simp add: update_conv')

lemma dget_ddel [simp]: "dget (ddel d k) k' = (if k' = k then None else dget d k')"
  by (simp add: delete_conv')

lemma dget_None_iff: "dget d k = None \<longleftrightarrow> k \<notin> set (dkeys d)"
  by (simp add: map_of_eq_None_iff)

lemma dkeys_dset: "set (dkeys (dset d k v)) = insert k (set (dkeys d))"
  by (induction d) auto

lemma distinct_dset: "distinct (dkeys d) \<Longrightarrow> distinct (dkeys (dset d k v))"
  by (rule distinct_update)

lemma distinct_ddel: "distinct (dkeys d) \<Longrightarrow> distinct (dkeys (ddel d k))"
  by (rule distinct_delete)

lemma dset_new: "k \<notin> set (dkeys d) \<Longrightarrow> dset d k v = d @ [(k, v)]"
  by (induction d) auto

text \<open>Two dictionaries with the same keys and bindings are permutations of each other.\<close>

lemma dict_mset_eqI:
  assumes "distinct (dkeys d)" "distinct (dkeys e)" "\<And>k. dget d k = dget e k"
  shows "mset d = mset e"
proof -
  have "set d = set e"
    using assms map_of_inject_set [of d e] by (simp add: fun_eq_iff)
  moreover have "distinct d" "distinct e"
    using assms by (simp_all add: distinct_map)
  ultimately show ?thesis by (simp add: set_eq_iff_mset_eq_distinct)
qed

subsection \<open>Byte strings and text\<close>

type_synonym bytes = "8 word list"

definition encode_utf8 :: "string \<Rightarrow> bytes" where
  "encode_utf8 s = map (of_char :: char \<Rightarrow> 8 word) s"

definition char_of_byte :: "8 word \<Rightarrow> char" where
  "char_of_byte b = char_of (unat b)"

text \<open>\<open>bytes.decode("utf-8")\<close>: the well-formed sequences of one to four bytes.\<close>

definition cont_byte :: "8 word \<Rightarrow> bool" where
  "cont_byte b \<longleftrightarrow> 0x80 \<le> b \<and> b < 0xC0"

fun valid_utf8 :: "bytes \<Rightarrow> bool" where
  "valid_utf8 [] = True"
| "valid_utf8 (b # bs) =
     (if b < 0x80 then valid_utf8 bs
      else if 0xC2 \<le> b \<and> b < 0xE0 then
        (case bs of c # cs \<Rightarrow> cont_byte c \<and> valid_utf8 cs | _ \<Rightarrow> False)
      else if 0xE0 \<le> b \<and> b < 0xF0 then
        (case bs of c # d # ds \<Rightarrow> cont_byte c \<and> cont_byte d \<and> (b = 0xE0 \<longrightarrow> 0xA0 \<le> c)
            \<and> (b = 0xED \<longrightarrow> c < 0xA0) \<and> valid_utf8 ds | _ \<Rightarrow> False)
      else if 0xF0 \<le> b \<and> b < 0xF5 then
        (case bs of c # d # e # es \<Rightarrow> cont_byte c \<and> cont_byte d \<and> cont_byte e
            \<and> (b = 0xF0 \<longrightarrow> 0x90 \<le> c) \<and> (b = 0xF4 \<longrightarrow> c < 0x90) \<and> valid_utf8 es | _ \<Rightarrow> False)
      else False)"

definition decode_utf8 :: "bytes \<Rightarrow> string res" where
  "decode_utf8 bs = (if valid_utf8 bs then Inr (map char_of_byte bs) else Inl ValueError)"

lemma unat_of_char: "unat (of_char c :: 8 word) = of_char c"
proof -
  have "(of_char c :: 8 word) = of_nat (of_char c)"
    by (simp add: of_nat_of_char)
  then show ?thesis by (simp add: unat_of_nat)
qed

lemma char_of_byte_of_char [simp]: "char_of_byte (of_char c) = c"
  by (simp add: char_of_byte_def unat_of_char)

lemma of_char_char_of_byte [simp]: "of_char (char_of_byte b) = b"
proof -
  have "unat (of_char (char_of (unat b)) :: 8 word) = unat b"
    using unsigned_less [of b, where 'a = nat] by (simp add: unat_of_char)
  then show ?thesis unfolding char_of_byte_def by (simp only: word_unat_eq_iff)
qed

lemma encode_utf8_inject [simp]: "encode_utf8 s = encode_utf8 t \<longleftrightarrow> s = t"
proof
  assume "encode_utf8 s = encode_utf8 t"
  then have "map char_of_byte (encode_utf8 s) = map char_of_byte (encode_utf8 t)" by simp
  then show "s = t" by (simp add: encode_utf8_def comp_def)
qed simp

lemma length_encode_utf8 [simp]: "length (encode_utf8 s) = length s"
  by (simp add: encode_utf8_def)

lemma decode_encode_utf8: "valid_utf8 (encode_utf8 s) \<Longrightarrow> decode_utf8 (encode_utf8 s) = Inr s"
  by (simp add: decode_utf8_def encode_utf8_def comp_def)

lemma encode_decode_utf8: "decode_utf8 bs = Inr s \<Longrightarrow> encode_utf8 s = bs"
  by (auto simp: decode_utf8_def encode_utf8_def comp_def split: if_splits)

definition is_ascii :: "string \<Rightarrow> bool" where
  "is_ascii s \<longleftrightarrow> (\<forall>c \<in> set s. of_char c < (128 :: nat))"

lemma valid_utf8_ascii: "is_ascii s \<Longrightarrow> valid_utf8 (encode_utf8 s)"
proof (induction s)
  case (Cons c s)
  then have "(of_char c :: 8 word) < 0x80"
    by (simp add: is_ascii_def word_less_nat_alt unat_of_char)
  with Cons show ?case by (simp add: encode_utf8_def is_ascii_def)
qed (simp add: encode_utf8_def)

text \<open>\<open>len(s)\<close> of a \<open>str\<close>: the bytes that are not continuation bytes.\<close>

definition py_len :: "string \<Rightarrow> nat" where
  "py_len s = length (filter (\<lambda>b. \<not> cont_byte b) (encode_utf8 s))"

lemma py_len_le: "py_len s \<le> length s"
  unfolding py_len_def by (metis length_encode_utf8 length_filter_le)

subsection \<open>String methods\<close>

text \<open>The white space of ASCII.\<close>

definition is_space :: "char \<Rightarrow> bool" where
  "is_space c \<longleftrightarrow> (let n = of_char c :: nat in (9 \<le> n \<and> n \<le> 13) \<or> (28 \<le> n \<and> n \<le> 32))"

definition rstrip_of :: "(char \<Rightarrow> bool) \<Rightarrow> string \<Rightarrow> string" where
  "rstrip_of P s = rev (dropWhile P (rev s))"

definition strip_of :: "(char \<Rightarrow> bool) \<Rightarrow> string \<Rightarrow> string" where
  "strip_of P s = rstrip_of P (dropWhile P s)"

definition startswith :: "string \<Rightarrow> string \<Rightarrow> bool" where
  "startswith s p \<longleftrightarrow> take (length p) s = p"

definition endswith :: "string \<Rightarrow> string \<Rightarrow> bool" where
  "endswith s p \<longleftrightarrow> length p \<le> length s \<and> drop (length s - length p) s = p"

definition removeprefix :: "string \<Rightarrow> string \<Rightarrow> string" where
  "removeprefix s p = (if startswith s p then drop (length p) s else s)"

text \<open>\<open>s.split(c)\<close>; \<open>s.partition(c)\<close> and \<open>s.split(c, 1)\<close> cut at the first \<open>c\<close>.\<close>

fun split_on :: "char \<Rightarrow> string \<Rightarrow> string list" where
  "split_on c [] = [[]]"
| "split_on c (x # xs) =
     (if x = c then [] # split_on c xs
      else (case split_on c xs of w # ws \<Rightarrow> (x # w) # ws | [] \<Rightarrow> [[x]]))"

definition before_first :: "char \<Rightarrow> string \<Rightarrow> string" where
  "before_first c s = takeWhile (\<lambda>x. x \<noteq> c) s"

definition after_first :: "char \<Rightarrow> string \<Rightarrow> string" where
  "after_first c s = drop 1 (dropWhile (\<lambda>x. x \<noteq> c) s)"

fun join_with :: "string \<Rightarrow> string list \<Rightarrow> string" where
  "join_with sep [] = []"
| "join_with sep [w] = w"
| "join_with sep (w # v # ws) = w @ sep @ join_with sep (v # ws)"

text \<open>\<open>s.replace(old, new)\<close> for a non-empty \<open>old\<close>, left to right without overlaps.\<close>

function py_replace :: "string \<Rightarrow> string \<Rightarrow> string \<Rightarrow> string" where
  "py_replace old new s =
     (case s of [] \<Rightarrow> []
      | c # cs \<Rightarrow>
          (if old \<noteq> [] \<and> startswith s old then new @ py_replace old new (drop (length old) s)
           else c # py_replace old new cs))"
  by pat_completeness auto
termination by (relation "measure (\<lambda>(old, new, s). length s)") auto

declare py_replace.simps [simp del]

definition ascii_lower :: "char \<Rightarrow> char" where
  "ascii_lower c = (let n = of_char c :: nat in if 65 \<le> n \<and> n \<le> 90 then char_of (n + 32) else c)"

definition py_lower :: "string \<Rightarrow> string" where
  "py_lower s = map ascii_lower s"

text \<open>Order by code point, which is the lexicographic order of the UTF-8 bytes.\<close>

fun str_less :: "string \<Rightarrow> string \<Rightarrow> bool" where
  "str_less [] [] = False"
| "str_less [] (y # ys) = True"
| "str_less (x # xs) [] = False"
| "str_less (x # xs) (y # ys) =
     (if x = y then str_less xs ys else (of_char x :: nat) < of_char y)"

lemma str_less_irrefl [simp]: "\<not> str_less s s"
  by (induction s) auto

lemma str_less_trans: "str_less r s \<Longrightarrow> str_less s t \<Longrightarrow> str_less r t"
  by (induction r s arbitrary: t rule: str_less.induct)
    (case_tac t; force split: if_splits)+

lemma char_code_linear:
  fixes x y :: char
  assumes "x \<noteq> y"
  shows "(of_char x :: nat) < of_char y \<or> (of_char y :: nat) < of_char x"
  using assms of_char_eq_iff [where 'a = nat, of x y] by (metis linorder_less_linear)

lemma str_less_linear: "str_less s t \<or> s = t \<or> str_less t s"
  by (induction s t rule: str_less.induct) (use char_code_linear in auto)

lemma str_less_asym: "str_less s t \<Longrightarrow> \<not> str_less t s"
  using str_less_trans str_less_irrefl by blast

lemma split_on_nonempty [simp]: "split_on c s \<noteq> []"
  by (induction s) (auto split: list.splits)

lemma split_on_no_sep: "c \<notin> set s \<Longrightarrow> split_on c s = [s]"
  by (induction s) auto

lemma split_on_append:
  "c \<notin> set w \<Longrightarrow> split_on c (w @ c # s) = w # split_on c s"
  by (induction w) auto

lemma split_on_join:
  "ws \<noteq> [] \<Longrightarrow> (\<And>w. w \<in> set ws \<Longrightarrow> c \<notin> set w) \<Longrightarrow> split_on c (join_with [c] ws) = ws"
  by (induction "[c]" ws rule: join_with.induct) (auto simp: split_on_no_sep split_on_append)

lemma join_split_on: "join_with [c] (split_on c s) = s"
proof (induction s)
  case (Cons x s)
  then show ?case
    by (cases "split_on c s" rule: list.exhaust; cases "tl (split_on c s)") auto
qed simp

lemma startswith_append [simp]: "startswith (p @ s) p"
  by (simp add: startswith_def)

lemma startswith_iff_prefix: "startswith s p \<longleftrightarrow> prefix p s"
  unfolding startswith_def prefix_def by (metis append_eq_conv_conj append_take_drop_id)

lemma removeprefix_append [simp]: "removeprefix (p @ s) p = s"
  by (simp add: removeprefix_def)

end
