(* ===== verification/Unicode.thy ===== *)
theory Unicode
  imports Prelude
begin

text \<open>
  The character classes of Python's \<open>str\<close> that the code relies on, for text in UTF-8: white space
  (\<open>str.strip\<close>), decimal digits (\<open>\d\<close>, \<open>int\<close>, \<open>float\<close>) and digits (\<open>str.isdigit\<close>), as the tables of
  Unicode 14 (Python 3.11) have them. Case mappings beyond ASCII are no part of it; where the code
  uses them they are parameters.
\<close>

subsection \<open>Characters\<close>

text \<open>The characters of a \<open>str\<close>: each byte that starts one, with the continuation bytes after it.\<close>

definition continues :: "char \<Rightarrow> bool" where
  "continues c \<longleftrightarrow> cont_byte (of_char c)"

function py_chars :: "string \<Rightarrow> string list" where
  "py_chars [] = []"
| "py_chars (c # cs) = (c # takeWhile continues cs) # py_chars (dropWhile continues cs)"
  by pat_completeness auto
termination
  by (relation "measure length") (auto simp: le_imp_less_Suc length_dropWhile_le)

lemma concat_py_chars: "concat (py_chars s) = s"
  by (induction s rule: py_chars.induct) auto

text \<open>\<open>ord\<close> of a character.\<close>

fun code_point :: "string \<Rightarrow> int" where
  "code_point [b] = of_char b"
| "code_point [b, c] = (of_char b mod 32) * 64 + of_char c mod 64"
| "code_point [b, c, d] = (of_char b mod 16) * 4096 + (of_char c mod 64) * 64 + of_char d mod 64"
| "code_point [b, c, d, e] =
     (of_char b mod 8) * 262144 + (of_char c mod 64) * 4096 + (of_char d mod 64) * 64 + of_char e mod 64"
| "code_point _ = 0"

lemma py_chars_ascii: "is_ascii s \<Longrightarrow> py_chars s = map (\<lambda>c. [c]) s"
proof (induction s)
  case (Cons c s)
  have "\<not> continues d" if "(of_char d :: nat) < 128" for d
    using that by (simp add: continues_def cont_byte_def word_le_nat_alt unat_of_char)
  then have "takeWhile continues s = [] \<and> dropWhile continues s = s"
    using Cons.prems by (cases s) (auto simp: is_ascii_def)
  with Cons show ?case by (simp add: is_ascii_def)
qed simp

subsection \<open>White space\<close>

definition WHITE :: "string list" where
  "WHITE = [
     [CHR 0x09], [CHR 0x0A], [CHR 0x0B], [CHR 0x0C], [CHR 0x0D], [CHR 0x1C], [CHR 0x1D], [CHR 0x1E],
     [CHR 0x1F], [CHR 0x20], [CHR 0xC2, CHR 0x85], [CHR 0xC2, CHR 0xA0],
     [CHR 0xE1, CHR 0x9A, CHR 0x80], [CHR 0xE2, CHR 0x80, CHR 0x80], [CHR 0xE2, CHR 0x80, CHR 0x81],
     [CHR 0xE2, CHR 0x80, CHR 0x82], [CHR 0xE2, CHR 0x80, CHR 0x83], [CHR 0xE2, CHR 0x80, CHR 0x84],
     [CHR 0xE2, CHR 0x80, CHR 0x85], [CHR 0xE2, CHR 0x80, CHR 0x86], [CHR 0xE2, CHR 0x80, CHR 0x87],
     [CHR 0xE2, CHR 0x80, CHR 0x88], [CHR 0xE2, CHR 0x80, CHR 0x89], [CHR 0xE2, CHR 0x80, CHR 0x8A],
     [CHR 0xE2, CHR 0x80, CHR 0xA8], [CHR 0xE2, CHR 0x80, CHR 0xA9], [CHR 0xE2, CHR 0x80, CHR 0xAF],
     [CHR 0xE2, CHR 0x81, CHR 0x9F], [CHR 0xE3, CHR 0x80, CHR 0x80]]"

function strip_front :: "string list \<Rightarrow> string \<Rightarrow> string" where
  "strip_front ws s =
     (case find (\<lambda>w. w \<noteq> [] \<and> startswith s w) ws of
        Some w \<Rightarrow> strip_front ws (drop (length w) s)
      | None \<Rightarrow> s)"
  by pat_completeness auto
termination
  by (relation "measure (\<lambda>(ws, s). length s)") (auto simp: find_Some_iff startswith_iff_prefix prefix_def)

declare strip_front.simps [simp del]

lemma strip_front_None: "find (\<lambda>w. w \<noteq> [] \<and> startswith s w) ws = None \<Longrightarrow> strip_front ws s = s"
  by (subst strip_front.simps) simp

lemma strip_front_Some:
  "find (\<lambda>w. w \<noteq> [] \<and> startswith s w) ws = Some w \<Longrightarrow> strip_front ws s = strip_front ws (drop (length w) s)"
  by (subst strip_front.simps) simp

text \<open>\<open>s.strip()\<close>\<close>

definition py_strip :: "string \<Rightarrow> string" where
  "py_strip s = rev (strip_front (map rev WHITE) (rev (strip_front WHITE s)))"

text \<open>An ASCII character that is not white space, and so ends both searches.\<close>

definition solid :: "char \<Rightarrow> bool" where
  "solid c \<longleftrightarrow> \<not> is_space c \<and> (of_char c :: nat) < 128"

lemma white_not_solid: "w \<in> set WHITE \<Longrightarrow> c \<in> set w \<Longrightarrow> \<not> solid c"
proof -
  have "list_all (list_all (\<lambda>c. \<not> solid c)) WHITE" by code_simp
  then show "w \<in> set WHITE \<Longrightarrow> c \<in> set w \<Longrightarrow> \<not> solid c" by (auto simp: list_all_iff)
qed

lemma strip_front_stop: "\<forall>w \<in> set ws. w = [] \<or> \<not> startswith s w \<Longrightarrow> strip_front ws s = s"
  by (rule strip_front_None) (auto simp: find_None_iff)

lemma strip_front_done: "w \<in> set ws \<Longrightarrow> w \<noteq> [] \<Longrightarrow> \<not> startswith (strip_front ws s) w"
proof (induction ws s rule: strip_front.induct)
  case (1 ws s)
  show ?case
  proof (cases "find (\<lambda>w. w \<noteq> [] \<and> startswith s w) ws")
    case None
    with "1.prems" have "\<not> startswith s w" by (auto simp: find_None_iff)
    with None show ?thesis by (simp add: strip_front_None)
  next
    case (Some v)
    with 1 show ?thesis by (simp add: strip_front_Some)
  qed
qed

lemma strip_front_suffix: "\<exists>u. s = u @ strip_front ws s"
proof (induction ws s rule: strip_front.induct)
  case (1 ws s)
  show ?case
  proof (cases "find (\<lambda>w. w \<noteq> [] \<and> startswith s w) ws")
    case None
    then show ?thesis by (simp add: strip_front_None)
  next
    case (Some v)
    then obtain u where "drop (length v) s = u @ strip_front ws (drop (length v) s)" using 1 by blast
    then have "s = (take (length v) s @ u) @ strip_front ws s"
      by (metis append_assoc append_take_drop_id strip_front_Some [OF Some])
    then show ?thesis by blast
  qed
qed

text \<open>Text that ends in a character no white space contains is not stripped away.\<close>

lemma strip_front_keeps_last:
  "\<forall>w \<in> set ws. c \<notin> set w \<Longrightarrow> \<exists>u. strip_front ws (s @ [c]) = u @ [c]"
proof (induction "length s" arbitrary: s rule: less_induct)
  case less
  show ?case
  proof (cases "find (\<lambda>w. w \<noteq> [] \<and> startswith (s @ [c]) w) ws")
    case None
    then show ?thesis by (simp add: strip_front_None)
  next
    case (Some w)
    then have w: "w \<in> set ws" "w \<noteq> []" "prefix w (s @ [c])"
      by (auto simp: find_Some_iff startswith_iff_prefix simp del: prefix_snoc)
    then have "w \<noteq> s @ [c]" using less.prems by auto
    with w(3) have "prefix w s" by simp
    then obtain v where v: "s = w @ v" by (rule prefixE)
    then have "\<exists>u. strip_front ws (v @ [c]) = u @ [c]" using w(2) less by simp
    then show ?thesis unfolding strip_front_Some [OF Some] using v by simp
  qed
qed

lemma solid_head: "s \<noteq> [] \<Longrightarrow> solid (hd s) \<Longrightarrow> w \<in> set WHITE \<Longrightarrow> w = [] \<or> \<not> startswith s w"
  using white_not_solid [of w "hd w"]
  by (cases w; cases s) (auto simp: startswith_iff_prefix)

lemma solid_last: "s \<noteq> [] \<Longrightarrow> solid (last s) \<Longrightarrow> w \<in> set (map rev WHITE) \<Longrightarrow> w = [] \<or> \<not> startswith (rev s) w"
proof -
  assume s: "s \<noteq> []" "solid (last s)" "w \<in> set (map rev WHITE)"
  then obtain v where v: "v \<in> set WHITE" "w = rev v" by auto
  have "w = [] \<or> hd w \<in> set v" unfolding v(2) by (cases v rule: rev_cases) auto
  with white_not_solid [OF v(1)] s(1,2) show ?thesis
    by (cases w; cases s rule: rev_cases) (auto simp: startswith_iff_prefix)
qed

lemma py_strip_nil [simp]: "py_strip [] = []"
proof -
  have "strip_front ws [] = []" for ws by (rule strip_front_stop) (auto simp: startswith_def)
  then show ?thesis by (simp add: py_strip_def)
qed

lemma py_strip_id: "s \<noteq> [] \<Longrightarrow> solid (hd s) \<Longrightarrow> solid (last s) \<Longrightarrow> py_strip s = s"
proof -
  assume s: "s \<noteq> []" "solid (hd s)" "solid (last s)"
  have "strip_front WHITE s = s" by (rule strip_front_stop) (use solid_head s in blast)
  moreover have "strip_front (map rev WHITE) (rev s) = rev s"
    by (rule strip_front_stop) (use solid_last s in blast)
  ultimately show "py_strip s = s" by (simp add: py_strip_def)
qed

lemma py_strip_nonempty: "s \<noteq> [] \<Longrightarrow> solid (hd s) \<Longrightarrow> py_strip s \<noteq> []"
proof -
  assume s: "s \<noteq> []" "solid (hd s)"
  have f: "strip_front WHITE s = s" by (rule strip_front_stop) (use solid_head s in blast)
  obtain c t where c: "s = c # t" using s(1) by (cases s) auto
  have "\<exists>u. strip_front (map rev WHITE) (rev t @ [c]) = u @ [c]"
    by (rule strip_front_keeps_last) (use s(2) c white_not_solid in auto)
  then show "py_strip s \<noteq> []" unfolding py_strip_def f by (auto simp: c)
qed

lemma py_strip_idem: "py_strip (py_strip s) = py_strip s"
proof -
  define t where "t = strip_front WHITE s"
  define p where "p = rev (strip_front (map rev WHITE) (rev t))"
  obtain u where "rev t = u @ strip_front (map rev WHITE) (rev t)" using strip_front_suffix by blast
  then have "t = p @ rev u" unfolding p_def by (metis rev_append rev_rev_ident)
  then have "w = [] \<or> \<not> startswith p w" if "w \<in> set WHITE" for w
    using strip_front_done [OF that, of s] by (auto simp: t_def startswith_iff_prefix)
  then have "strip_front WHITE p = p" by (intro strip_front_stop) blast
  moreover have "strip_front (map rev WHITE) (rev p) = rev p"
    by (rule strip_front_stop) (use strip_front_done in \<open>auto simp: p_def\<close>)
  ultimately show ?thesis by (simp add: py_strip_def p_def [symmetric] t_def [symmetric])
qed

subsection \<open>Digits\<close>

text \<open>The zeros of the scripts that have decimal digits: the nine characters after one are its others.\<close>

definition ZEROS :: "int list" where
  "ZEROS = [
     0x30, 0x660, 0x6f0, 0x7c0, 0x966, 0x9e6, 0xa66, 0xae6, 0xb66, 0xbe6, 0xc66, 0xce6, 0xd66, 0xde6,
     0xe50, 0xed0, 0xf20, 0x1040, 0x1090, 0x17e0, 0x1810, 0x1946, 0x19d0, 0x1a80, 0x1a90, 0x1b50,
     0x1bb0, 0x1c40, 0x1c50, 0xa620, 0xa8d0, 0xa900, 0xa9d0, 0xa9f0, 0xaa50, 0xabf0, 0xff10, 0x104a0,
     0x10d30, 0x11066, 0x110f0, 0x11136, 0x111d0, 0x112f0, 0x11450, 0x114d0, 0x11650, 0x116c0, 0x11730,
     0x118e0, 0x11950, 0x11c50, 0x11d50, 0x11da0, 0x16a60, 0x16ac0, 0x16b50, 0x1d7ce, 0x1d7d8, 0x1d7e2,
     0x1d7ec, 0x1d7f6, 0x1e140, 0x1e2f0, 0x1e950, 0x1fbf0]"

definition decimal_value :: "string \<Rightarrow> nat option" where
  "decimal_value ch = map_option (\<lambda>z. nat (code_point ch - z)) (find (\<lambda>z. z \<le> code_point ch \<and> code_point ch < z + 10) ZEROS)"

text \<open>The other characters that \<open>isdigit\<close> accepts: superscripts, circled digits and the like.\<close>

definition OTHER_DIGITS :: "(int \<times> int) list" where
  "OTHER_DIGITS = [
     (0xb2, 0xb3), (0xb9, 0xb9), (0x1369, 0x1371), (0x19da, 0x19da), (0x2070, 0x2070),
     (0x2074, 0x2079), (0x2080, 0x2089), (0x2460, 0x2468), (0x2474, 0x247c), (0x2488, 0x2490),
     (0x24ea, 0x24ea), (0x24f5, 0x24fd), (0x24ff, 0x24ff), (0x2776, 0x277e), (0x2780, 0x2788),
     (0x278a, 0x2792), (0x10a40, 0x10a43), (0x10e60, 0x10e68), (0x11052, 0x1105a), (0x1f100, 0x1f10a)]"

definition digit_character :: "string \<Rightarrow> bool" where
  "digit_character ch \<longleftrightarrow> decimal_value ch \<noteq> None \<or> list_ex (\<lambda>(a, b). a \<le> code_point ch \<and> code_point ch \<le> b) OTHER_DIGITS"

text \<open>Every decimal digit by the ASCII digit of its value, as \<open>int\<close> and \<open>float\<close> read them.\<close>

definition ascii_digits :: "string \<Rightarrow> string" where
  "ascii_digits s =
     concat (map (\<lambda>ch. case decimal_value ch of Some n \<Rightarrow> [char_of (48 + n)] | None \<Rightarrow> ch) (py_chars s))"

lemma zeros_low: "z \<in> set (tl ZEROS) \<Longrightarrow> 128 \<le> z"
  by (auto simp: ZEROS_def)

lemma int_of_char: "(of_char c :: int) = int (of_char c)"
  by (metis of_nat_of_char)

lemma decimal_value_ascii:
  assumes "(of_char c :: nat) < 128"
  shows "decimal_value [c] = (if 48 \<le> (of_char c :: nat) \<and> (of_char c :: nat) \<le> 57 then Some (of_char c - 48) else None)"
proof -
  have hd: "ZEROS = 48 # tl ZEROS" by (simp add: ZEROS_def)
  have p: "code_point [c] = int (of_char c)" by (simp add: int_of_char)
  have "find (\<lambda>z. z \<le> code_point [c] \<and> code_point [c] < z + 10) (tl ZEROS) = None"
    using zeros_low assms unfolding p by (force simp: find_None_iff)
  then show ?thesis unfolding decimal_value_def p by (subst hd) (auto simp: nat_diff_distrib)
qed

lemma ascii_digits_id: "is_ascii s \<Longrightarrow> ascii_digits s = s"
proof -
  assume s: "is_ascii s"
  have "(case decimal_value [c] of Some n \<Rightarrow> [char_of (48 + n)] | None \<Rightarrow> [c]) = [c]" if "c \<in> set s" for c
  proof -
    have "(of_char c :: nat) < 128" using that s by (simp add: is_ascii_def)
    then show ?thesis by (simp add: decimal_value_ascii)
  qed
  then have "map (\<lambda>c. case decimal_value [c] of Some n \<Rightarrow> [char_of (48 + n)] | None \<Rightarrow> [c]) s = map (\<lambda>c. [c]) s"
    by simp
  then have "concat (map (\<lambda>c. case decimal_value [c] of Some n \<Rightarrow> [char_of (48 + n)] | None \<Rightarrow> [c]) s) = s"
    by (simp only: concat_map_singleton) simp
  then show ?thesis by (simp add: ascii_digits_def py_chars_ascii [OF s] comp_def)
qed

end
