(* ===== verification/Double.thy ===== *)
theory Double
  imports Unicode "HOL-Library.Log_Nat"
begin

text \<open>
  Rounding to an IEEE double: \<open>round_double q\<close> is the double nearest to \<open>q\<close>, ties to even, in the
  normal and the subnormal range; where it rounds to an infinity is left to its users
  (\<open>overflows\<close>). The error is at most \<open>2 ^ -53\<close> of the number, or \<open>2 ^ -1075\<close>, and what is a double
  already, as whole numbers below \<open>2 ^ 53\<close> are, stays as it is.
\<close>

definition round_even :: "rat \<Rightarrow> int" where
  "round_even q =
     (let f = \<lfloor>q\<rfloor>; r = q - of_int f
      in if r < 1 / 2 then f else if 1 / 2 < r then f + 1 else if even f then f else f + 1)"

text \<open>The exponent of the leading bit: \<open>2 ^ e \<le> q < 2 ^ (e + 1)\<close>.\<close>

definition leading_bit :: "rat \<Rightarrow> int" where
  "leading_bit q =
     (if 1 \<le> q then int (floorlog 2 (nat \<lfloor>q\<rfloor>)) - 1
      else - int (floorlog 2 (nat (\<lceil>1 / q\<rceil> - 1))))"

definition pow2 :: "int \<Rightarrow> rat" where
  "pow2 e = (if 0 \<le> e then 2 ^ nat e else 1 / 2 ^ nat (- e))"

definition round_double :: "rat \<Rightarrow> rat" where
  "round_double q =
     (if q = 0 then 0
      else (let u = pow2 (max (leading_bit \<bar>q\<bar> - 52) (- 1074)) in of_int (round_even (q / u)) * u))"

text \<open>From this magnitude on the nearest double would be an infinity.\<close>

definition overflows :: "rat \<Rightarrow> bool" where
  "overflows q \<longleftrightarrow> 2 ^ 1024 - 2 ^ 970 \<le> \<bar>q\<bar>"

subsection \<open>The error\<close>

lemma round_even_error: "\<bar>of_int (round_even q) - q\<bar> \<le> 1 / 2"
proof -
  have "of_int \<lfloor>q\<rfloor> \<le> q" "q < of_int \<lfloor>q\<rfloor> + 1" by linarith+
  then show ?thesis unfolding round_even_def Let_def abs_if by (auto simp del: floor_le_one) linarith?
qed

lemma round_even_int [simp]: "round_even (of_int i) = i"
  by (simp add: round_even_def)

lemma pow2_pos [simp]: "0 < pow2 e"
  by (simp add: pow2_def)

lemma pow2_add: "pow2 (a + b) = pow2 a * pow2 b"
proof -
  have e: "pow2 i = 2 powi i" for i
    by (simp add: pow2_def power_int_def field_simps)
  show ?thesis unfolding e by (simp add: power_int_add)
qed

lemma floorlog_lower: "0 < n \<Longrightarrow> 2 ^ (floorlog 2 n - 1) \<le> n"
  using floorlog_bounds [where b = 2 and x = n] by simp

lemma floorlog_upper: "n < 2 ^ floorlog 2 n"
  using floorlog_bounds [where b = 2 and x = n] by (cases "n = 0") (simp_all add: floorlog_def)

lemma leading_bit_lower:
  assumes "0 < q"
  shows "pow2 (leading_bit q) \<le> q"
proof (cases "1 \<le> q")
  case True
  let ?n = "nat \<lfloor>q\<rfloor>"
  have n: "0 < ?n" using True by simp
  then have "0 < floorlog 2 ?n" by (simp add: floorlog_def)
  then have "pow2 (leading_bit q) = 2 ^ (floorlog 2 ?n - 1)"
    using True by (simp add: leading_bit_def pow2_def nat_diff_distrib)
  also have "\<dots> \<le> of_nat ?n"
    using floorlog_lower [OF n] by (metis of_nat_le_iff of_nat_numeral of_nat_power)
  also have "\<dots> \<le> q" using True by (simp add: of_nat_nat)
  finally show ?thesis .
next
  case False
  let ?m = "\<lceil>1 / q\<rceil>" and ?k = "floorlog 2 (nat (\<lceil>1 / q\<rceil> - 1))"
  have m: "1 < ?m" using False assms by (simp add: field_simps)
  have "nat (?m - 1) < 2 ^ ?k" by (rule floorlog_upper)
  then have "?m - 1 < 2 ^ ?k" using m by (metis nat_less_iff of_nat_numeral of_nat_power order_less_imp_le diff_gt_0_iff_gt)
  then have "of_int ?m \<le> (2 ^ ?k :: rat)" by (metis of_int_le_iff of_int_numeral of_int_power zle_diff1_eq diff_less_eq add.commute zless_add1_eq le_less)
  then have "1 / q \<le> 2 ^ ?k" using le_of_int_ceiling order_trans by blast
  then have "1 / 2 ^ ?k \<le> q" using assms by (simp add: field_simps)
  then show ?thesis using False by (cases "?k = 0") (simp_all add: leading_bit_def pow2_def)
qed

lemma pow2_less: "a < b \<Longrightarrow> pow2 a < pow2 b"
proof -
  assume "a < b"
  then have "pow2 b = pow2 a * 2 ^ nat (b - a)" "(1 :: rat) < 2 ^ nat (b - a)"
    using pow2_add [of a "b - a"] by (simp_all add: pow2_def [of "b - a"] one_less_power)
  then show "pow2 a < pow2 b" using pow2_pos [of a] by simp
qed

lemma pow2_less_iff: "pow2 a < pow2 b \<longleftrightarrow> a < b"
  using pow2_less [of a b] pow2_less [of b a] by (cases a b rule: linorder_cases) auto

lemma round_double_error: "\<bar>round_double q - q\<bar> \<le> \<bar>q\<bar> / 2 ^ 53 + pow2 (- 1075)"
proof (cases "q = 0")
  case False
  let ?e = "leading_bit \<bar>q\<bar>"
  let ?u = "pow2 (max (?e - 52) (- 1074))"
  have "pow2 ?e = pow2 (?e - 52) * pow2 52" using pow2_add [of "?e - 52" 52] by simp
  moreover have "pow2 52 = 2 ^ 52" by (simp add: pow2_def)
  ultimately have "pow2 (?e - 52) * 2 ^ 52 \<le> \<bar>q\<bar>" using leading_bit_lower [of "\<bar>q\<bar>"] False by simp
  then have n: "1 / 2 * pow2 (?e - 52) \<le> \<bar>q\<bar> / 2 ^ 53" by (simp add: field_simps)
  have two: "pow2 (- 1074) = 2 * pow2 (- 1075)" using pow2_add [of 1 "- 1075"] by (simp add: pow2_def [of 1])
  then have u: "1 / 2 * ?u \<le> \<bar>q\<bar> / 2 ^ 53 + pow2 (- 1075)"
  proof -
    have "0 \<le> \<bar>q\<bar> / 2 ^ 53" by simp
    moreover have "?u = pow2 (?e - 52) \<or> ?u = pow2 (- 1074)" by (simp add: max_def)
    ultimately show ?thesis using n two pow2_pos [of "- 1075"] by (elim disjE) linarith+
  qed
  have "round_double q - q = (of_int (round_even (q / ?u)) - q / ?u) * ?u"
    using False pow2_pos [of "max (?e - 52) (- 1074)"] by (simp add: round_double_def Let_def left_diff_distrib less_le)
  then have "\<bar>round_double q - q\<bar> = \<bar>of_int (round_even (q / ?u)) - q / ?u\<bar> * ?u"
    by (simp add: abs_mult less_imp_le)
  also have "\<dots> \<le> 1 / 2 * ?u" by (intro mult_right_mono round_even_error) (simp add: less_imp_le)
  finally show ?thesis using u by linarith
qed (simp add: round_double_def less_imp_le)

lemma round_double_close: "\<bar>round_double q - q\<bar> \<le> (\<bar>q\<bar> + 1) / 2 ^ 53"
proof -
  have "(2 :: rat) ^ 53 \<le> 2 ^ 1075" by (rule power_increasing) simp_all
  then have "pow2 (- 1075) \<le> 1 / 2 ^ 53" unfolding pow2_def by (simp add: frac_le)
  then show ?thesis using round_double_error [of q] by (simp add: add_divide_distrib)
qed

text \<open>What has at most 53 significant bits is a double.\<close>

theorem round_double_id:
  assumes q: "q = of_int m * pow2 e" and m: "\<bar>m\<bar> < 2 ^ 53" and e: "- 1074 \<le> e"
  shows "round_double q = q"
proof (cases "m = 0")
  case False
  let ?k = "leading_bit \<bar>q\<bar>"
  define x where "x = max (?k - 52) (- 1074)"
  have abs: "\<bar>q\<bar> = of_int \<bar>m\<bar> * pow2 e" unfolding q by (simp add: abs_mult less_imp_le)
  have "of_int \<bar>m\<bar> < (of_int (2 ^ 53) :: rat)" using m by (simp only: of_int_less_iff)
  then have "\<bar>q\<bar> < 2 ^ 53 * pow2 e" unfolding abs by simp
  also have "2 ^ 53 * pow2 e = pow2 (53 + e)" unfolding pow2_add by (simp add: pow2_def [of 53])
  finally have up: "\<bar>q\<bar> < pow2 (53 + e)" .
  have "0 < \<bar>q\<bar>" unfolding abs using False by simp
  from le_less_trans [OF leading_bit_lower [OF this] up] have "?k < 53 + e" by (simp only: pow2_less_iff)
  then have x: "x \<le> e" using e by (simp add: x_def)
  then have p: "pow2 e = 2 ^ nat (e - x) * pow2 x" using pow2_add [of "e - x" x] by (simp add: pow2_def [of "e - x"])
  have nz: "pow2 x \<noteq> 0" using pow2_pos [of x] by (rule less_imp_neq [symmetric])
  then have "q / pow2 x = of_int (m * 2 ^ nat (e - x))" unfolding q p by simp
  then have "round_even (q / pow2 x) = m * 2 ^ nat (e - x)" by (simp only: round_even_int)
  moreover have "q \<noteq> 0" using \<open>0 < \<bar>q\<bar>\<close> by simp
  ultimately show ?thesis unfolding round_double_def Let_def x_def [symmetric] using q p by simp
qed (simp add: q round_double_def)

text \<open>Whole numbers below \<open>2 ^ 53\<close> are doubles.\<close>

lemma round_double_int:
  assumes "\<bar>i\<bar> < 2 ^ 53"
  shows "round_double (of_int i) = of_int i"
  by (rule round_double_id [of _ i 0]) (use assms in \<open>simp_all add: pow2_def\<close>)

end
