(* ===== verification/Py_Numbers.thy ===== *)
theory Py_Numbers
  imports Double
begin

text \<open>
  Python's integer and float syntax: \<open>str(int)\<close>, \<open>int(str)\<close> (surrounding white space, a
  sign, single underscores between digits), \<open>float(str)\<close>, and the values of type \<open>float\<close>.
  A finite float is the rational it stands for, and \<open>float\<close> rounds what it reads to the nearest double.
\<close>

subsection \<open>Digits\<close>

definition is_digit :: "char \<Rightarrow> bool" where
  "is_digit c \<longleftrightarrow> (let n = of_char c :: nat in 48 \<le> n \<and> n \<le> 57)"

definition digit_val :: "char \<Rightarrow> nat" where
  "digit_val c = of_char c - 48"

definition digit_char :: "nat \<Rightarrow> char" where
  "digit_char n = char_of (48 + n)"

fun show_nat :: "nat \<Rightarrow> string" where
  "show_nat n = (if n < 10 then [digit_char n] else show_nat (n div 10) @ [digit_char (n mod 10)])"

declare show_nat.simps [simp del]

definition read_digits :: "string \<Rightarrow> nat" where
  "read_digits s = foldl (\<lambda>acc c. 10 * acc + digit_val c) 0 s"

definition show_int :: "int \<Rightarrow> string" where
  "show_int i = (if i < 0 then CHR ''-'' # show_nat (nat (- i)) else show_nat (nat i))"

lemma of_char_digit_char: "n < 10 \<Longrightarrow> (of_char (digit_char n) :: nat) = 48 + n"
  by (simp add: digit_char_def)

lemma digit_val_digit_char [simp]: "n < 10 \<Longrightarrow> digit_val (digit_char n) = n"
  by (simp add: digit_val_def of_char_digit_char)

lemma is_digit_digit_char [simp]: "n < 10 \<Longrightarrow> is_digit (digit_char n)"
  by (simp add: is_digit_def of_char_digit_char)

lemma read_digits_simps [simp]:
  "read_digits [] = 0" "read_digits (s @ [c]) = 10 * read_digits s + digit_val c"
  by (simp_all add: read_digits_def)

lemma show_nat_digits: "list_all is_digit (show_nat n)"
proof (induction n rule: show_nat.induct)
  case (1 n)
  then show ?case by (subst show_nat.simps) simp
qed

lemma show_nat_nonempty [simp]: "show_nat n \<noteq> []"
  by (subst show_nat.simps) simp

lemma read_show_nat [simp]: "read_digits (show_nat n) = n"
proof (induction n rule: show_nat.induct)
  case (1 n)
  then show ?case
    by (subst show_nat.simps) (use read_digits_simps(2) [of "[]"] in auto)
qed

lemma show_nat_inject: "show_nat m = show_nat n \<longleftrightarrow> m = n"
  by (metis read_show_nat)

text \<open>A printed number has no leading zero unless it is zero.\<close>

lemma show_nat_head: "n \<noteq> 0 \<Longrightarrow> hd (show_nat n) \<noteq> CHR ''0''"
proof (induction n rule: show_nat.induct)
  case (1 n)
  show ?case
  proof (cases "n < 10")
    case True
    with 1 have "digit_val (digit_char n) \<noteq> digit_val (CHR ''0'')"
      by (simp add: digit_val_def of_char_digit_char)
    then have "digit_char n \<noteq> CHR ''0''" by metis
    with True show ?thesis by (subst show_nat.simps) simp
  next
    case False
    with 1 show ?thesis by (subst show_nat.simps) simp
  qed
qed

lemma show_nat_zero [simp]: "show_nat 0 = ''0''"
  using char_of_char [of "CHR ''0''", where 'a = nat]
  by (simp add: show_nat.simps digit_char_def)

lemma is_digit_not_minus: "is_digit c \<Longrightarrow> c \<noteq> CHR ''-'' \<and> c \<noteq> CHR ''+'' \<and> c \<noteq> CHR ''_''"
  by (auto simp: is_digit_def Let_def)

lemma digit_not_space: "is_digit c \<Longrightarrow> \<not> is_space c"
  by (auto simp: is_digit_def is_space_def Let_def)

subsection \<open>\<open>int(text)\<close>\<close>

text \<open>Digits with single underscores between them; the result has the underscores removed.\<close>

fun plain_digits :: "string \<Rightarrow> string option" where
  "plain_digits [] = None"
| "plain_digits [c] = (if is_digit c then Some [c] else None)"
| "plain_digits (c # d # s) =
     (if \<not> is_digit c then None
      else if d = CHR ''_'' then map_option (Cons c) (plain_digits s)
      else map_option (Cons c) (plain_digits (d # s)))"

definition py_int :: "string \<Rightarrow> int option" where
  "py_int text =
     (let s = ascii_digits (py_strip text) in
      case s of
        [] \<Rightarrow> None
      | c # cs \<Rightarrow>
          if c = CHR ''-'' then map_option (\<lambda>ds. - int (read_digits ds)) (plain_digits cs)
          else if c = CHR ''+'' then map_option (\<lambda>ds. int (read_digits ds)) (plain_digits cs)
          else map_option (\<lambda>ds. int (read_digits ds)) (plain_digits s))"

lemma plain_digits_id: "s \<noteq> [] \<Longrightarrow> list_all is_digit s \<Longrightarrow> plain_digits s = Some s"
  by (induction s rule: plain_digits.induct) (auto dest: is_digit_not_minus)

lemma digit_solid: "is_digit c \<Longrightarrow> solid c"
  by (auto simp: is_digit_def solid_def is_space_def Let_def)

lemma digit_ascii: "is_digit c \<Longrightarrow> (of_char c :: nat) < 128"
  by (simp add: is_digit_def Let_def)

lemma show_nat_ascii: "is_ascii (show_nat n)"
  using show_nat_digits [of n] digit_ascii by (auto simp: is_ascii_def list_all_iff)

lemma py_strip_show_nat [simp]: "py_strip (show_nat n) = show_nat n"
proof -
  have "solid (hd (show_nat n))" "solid (last (show_nat n))"
    using show_nat_digits [of n] digit_solid
    by (metis hd_in_set last_in_set list_all_iff show_nat_nonempty)+
  then show ?thesis by (simp add: py_strip_id)
qed

theorem py_int_show_nat: "py_int (show_nat n) = Some (int n)"
proof -
  obtain c cs where s: "show_nat n = c # cs" by (cases "show_nat n") auto
  then have "is_digit c" using show_nat_digits [of n] by simp
  then have "c \<noteq> CHR ''-''" "c \<noteq> CHR ''+''" by (simp_all add: is_digit_not_minus)
  moreover have "plain_digits (c # cs) = Some (c # cs)"
    using show_nat_digits [of n] s by (intro plain_digits_id) auto
  moreover have "read_digits (c # cs) = n" unfolding s [symmetric] by (rule read_show_nat)
  moreover have "py_strip (c # cs) = c # cs"
    using py_strip_show_nat [of n] unfolding s .
  moreover have "ascii_digits (c # cs) = c # cs"
    using ascii_digits_id [OF show_nat_ascii [of n]] unfolding s .
  ultimately show ?thesis unfolding s by (simp add: py_int_def)
qed

subsection \<open>Floats\<close>

datatype pyfloat = Fin rat | PosInf | NegInf | NaN

fun is_finite :: "pyfloat \<Rightarrow> bool" where
  "is_finite (Fin q) = True"
| "is_finite _ = False"

text \<open>The double nearest to a number, or an infinity.\<close>

definition double_of :: "rat \<Rightarrow> pyfloat" where
  "double_of q = (if overflows q then if 0 < q then PosInf else NegInf else Fin (round_double q))"

lemma double_of_id: "round_double q = q \<Longrightarrow> \<not> overflows q \<Longrightarrow> double_of q = Fin q"
  by (simp add: double_of_def)

text \<open>\<open>float(text)\<close>: an optional sign, then \<open>inf\<close>, \<open>infinity\<close>, \<open>nan\<close> or a decimal numeral.\<close>

definition split_exponent :: "string \<Rightarrow> string \<times> string option" where
  "split_exponent s =
     (let m = takeWhile (\<lambda>c. c \<noteq> CHR ''e'') s
      in (m, if length m = length s then None else Some (drop (Suc (length m)) s)))"

definition opt_digits :: "string \<Rightarrow> string option" where
  "opt_digits s = (if s = [] then Some [] else plain_digits s)"

definition mantissa :: "string \<Rightarrow> rat option" where
  "mantissa s =
     (let whole = before_first (CHR ''.'') s; frac = after_first (CHR ''.'') s
      in case (opt_digits whole, opt_digits frac) of
           (Some ds, Some fs) \<Rightarrow>
             if ds = [] \<and> fs = [] then None
             else Some (of_nat (read_digits (ds @ fs)) / 10 ^ length fs)
         | _ \<Rightarrow> None)"

definition pow10 :: "int \<Rightarrow> rat" where
  "pow10 e = (if 0 \<le> e then 10 ^ nat e else 1 / 10 ^ nat (- e))"

definition signed_digits :: "string \<Rightarrow> int option" where
  "signed_digits s =
     (case s of [] \<Rightarrow> None
      | c # cs \<Rightarrow>
          if c = CHR ''-'' then map_option (\<lambda>ds. - int (read_digits ds)) (plain_digits cs)
          else if c = CHR ''+'' then map_option (\<lambda>ds. int (read_digits ds)) (plain_digits cs)
          else map_option (\<lambda>ds. int (read_digits ds)) (plain_digits s))"

definition unsigned_float :: "string \<Rightarrow> pyfloat option" where
  "unsigned_float s =
     (if s = ''inf'' \<or> s = ''infinity'' then Some PosInf
      else if s = ''nan'' then Some NaN
      else let (m, e) = split_exponent s in
           case (mantissa m, e) of
             (Some q, None) \<Rightarrow> Some (double_of q)
           | (Some q, Some x) \<Rightarrow> map_option (\<lambda>k. double_of (q * pow10 k)) (signed_digits x)
           | _ \<Rightarrow> None)"

fun negate_float :: "pyfloat \<Rightarrow> pyfloat" where
  "negate_float (Fin q) = Fin (- q)"
| "negate_float PosInf = NegInf"
| "negate_float NegInf = PosInf"
| "negate_float NaN = NaN"

definition py_float :: "string \<Rightarrow> pyfloat option" where
  "py_float text =
     (let s = py_lower (ascii_digits (py_strip text)) in
      case s of [] \<Rightarrow> None
      | c # cs \<Rightarrow>
          if c = CHR ''-'' then map_option negate_float (unsigned_float cs)
          else if c = CHR ''+'' then unsigned_float cs
          else unsigned_float s)"

end
