(* ===== verification/Base64.thy ===== *)
theory Base64
  imports Py_Numbers
begin

text \<open>
  The \<open>base64\<close> functions the code calls: \<open>b64encode\<close>, \<open>b64decode(validate=True)\<close> (complete
  groups of four, padding only at the end) and the lenient \<open>b64decode\<close>, which skips what is
  not in the alphabet and stops at the padding. Neither decoder looks at the unused low bits
  of the last character, so several texts may decode to the same bytes; encoding is injective.
\<close>

definition b64_alphabet :: string where
  "b64_alphabet = ''ABCDEFGHIJKLMNOPQRSTUVWXYZabcdefghijklmnopqrstuvwxyz0123456789+/''"

definition sextet_char :: "nat \<Rightarrow> char" where
  "sextet_char n = b64_alphabet ! n"

definition char_sextet :: "char \<Rightarrow> nat option" where
  "char_sextet c =
     (if c \<in> set b64_alphabet then Some (length (takeWhile (\<lambda>x. x \<noteq> c) b64_alphabet)) else None)"

fun b64encode :: "bytes \<Rightarrow> string" where
  "b64encode [] = []"
| "b64encode [a] =
     (let n = unat a * 16
      in [sextet_char (n div 64), sextet_char (n mod 64), CHR ''='', CHR ''=''])"
| "b64encode [a, b] =
     (let n = (unat a * 256 + unat b) * 4
      in [sextet_char (n div 4096), sextet_char (n div 64 mod 64), sextet_char (n mod 64), CHR ''=''])"
| "b64encode (a # b # c # rest) =
     (let n = (unat a * 256 + unat b) * 256 + unat c
      in [sextet_char (n div 262144), sextet_char (n div 4096 mod 64),
          sextet_char (n div 64 mod 64), sextet_char (n mod 64)] @ b64encode rest)"

text \<open>\<open>b64decode(text, validate=True)\<close>.\<close>

fun b64decode_strict :: "string \<Rightarrow> bytes option" where
  "b64decode_strict [] = Some []"
| "b64decode_strict (w # x # y # z # rest) =
     (case (char_sextet w, char_sextet x, char_sextet y, char_sextet z) of
        (Some p, Some q, Some r, Some s) \<Rightarrow>
          (let n = ((p * 64 + q) * 64 + r) * 64 + s
           in map_option (\<lambda>bs. of_nat (n div 65536) # of_nat (n div 256 mod 256) # of_nat (n mod 256) # bs)
                (b64decode_strict rest))
      | (Some p, Some q, Some r, None) \<Rightarrow>
          (if z = CHR ''='' \<and> rest = []
           then let n = (p * 64 + q) * 64 + r
                in Some [of_nat (n div 1024), of_nat (n div 4 mod 256)]
           else None)
      | (Some p, Some q, None, None) \<Rightarrow>
          (if y = CHR ''='' \<and> z = CHR ''='' \<and> rest = []
           then Some [of_nat ((p * 64 + q) div 16)] else None)
      | _ \<Rightarrow> None)"
| "b64decode_strict _ = None"

text \<open>\<open>b64decode(text)\<close>: \<open>pos\<close> is the place in the group of four, \<open>left\<close> the bits carried over.\<close>

fun b64_lax :: "nat \<Rightarrow> nat \<Rightarrow> nat \<Rightarrow> string \<Rightarrow> bytes option" where
  "b64_lax pos left pads [] = (if pos = 0 then Some [] else None)"
| "b64_lax pos left pads (c # cs) =
     (if c = CHR ''='' then
        (if 2 \<le> pos then (if 4 \<le> pos + Suc pads then Some [] else b64_lax pos left (Suc pads) cs)
         else b64_lax pos left pads cs)
      else case char_sextet c of
        None \<Rightarrow> b64_lax pos left pads cs
      | Some v \<Rightarrow>
          (if pos = 0 then b64_lax 1 v 0 cs
           else if pos = 1 then map_option (Cons (of_nat (left * 4 + v div 16))) (b64_lax 2 (v mod 16) 0 cs)
           else if pos = 2 then map_option (Cons (of_nat (left * 16 + v div 4))) (b64_lax 3 (v mod 4) 0 cs)
           else map_option (Cons (of_nat (left * 64 + v))) (b64_lax 0 0 0 cs)))"

definition b64decode_lax :: "string \<Rightarrow> bytes option" where
  "b64decode_lax s = b64_lax 0 0 0 s"

subsection \<open>The alphabet\<close>

lemma alphabet_table:
  "\<forall>n \<in> set [0..<64]. char_sextet (sextet_char n) = Some n \<and> of_char (sextet_char n) < (128 :: nat)"
  by code_simp

lemma char_sextet_sextet [simp]: "n < 64 \<Longrightarrow> char_sextet (sextet_char n) = Some n"
  using alphabet_table by simp

lemma sextet_char_ascii: "n < 64 \<Longrightarrow> of_char (sextet_char n) < (128 :: nat)"
  using alphabet_table by simp

lemma char_sextet_pad [simp]: "char_sextet (CHR ''='') = None"
  by code_simp

lemma sextet_not_pad [simp]: "n < 64 \<Longrightarrow> sextet_char n \<noteq> CHR ''=''"
  by (metis char_sextet_sextet char_sextet_pad option.distinct(1))

lemma unat_byte_less [simp]: "unat (a :: 8 word) < 256"
  using unsigned_less [of a, where 'a = nat] by simp

lemma byte_of_unat: "unat (a :: 8 word) = n \<Longrightarrow> of_nat n = a"
  by auto

subsection \<open>Round trips\<close>

lemma group1:
  fixes a :: nat
  assumes "a < 256"
  shows "a * 16 div 64 < 64" "a * 16 mod 64 < 64" "(a * 16 div 64 * 64 + a * 16 mod 64) div 16 = a"
proof -
  have "a * 16 div 64 * 64 + a * 16 mod 64 = a * 16" by (rule div_mult_mod_eq)
  then show "(a * 16 div 64 * 64 + a * 16 mod 64) div 16 = a" by simp
qed (use assms in auto)

lemma byte_cons: "(b :: nat) < 256 \<Longrightarrow> (a * 256 + b) div 256 = a \<and> (a * 256 + b) mod 256 = b"
  by simp

lemma group2:
  fixes a b :: nat
  assumes "a < 256" "b < 256" and n: "n = (a * 256 + b) * 4"
  shows "n div 4096 < 64" "((n div 4096 * 64 + n div 64 mod 64) * 64 + n mod 64) = n"
    "n div 1024 = a" "n div 4 mod 256 = b"
proof -
  show "n div 4096 < 64" using assms by auto
  have "n div 4096 = n div 64 div 64" by (simp add: div_mult2_eq [symmetric])
  then have "n div 4096 * 64 + n div 64 mod 64 = n div 64" by simp
  then show "((n div 4096 * 64 + n div 64 mod 64) * 64 + n mod 64) = n" by simp
  show "n div 1024 = a" "n div 4 mod 256 = b" using assms by auto
qed

lemma group3:
  fixes a b c :: nat
  assumes "a < 256" "b < 256" "c < 256" and n: "n = (a * 256 + b) * 256 + c"
  shows "n div 262144 < 64"
    "(((n div 262144 * 64 + n div 4096 mod 64) * 64 + n div 64 mod 64) * 64 + n mod 64) = n"
    "n div 65536 = a" "n div 256 mod 256 = b" "n mod 256 = c"
proof -
  show "n div 262144 < 64" using assms by auto
  have "n div 262144 = n div 4096 div 64" "n div 4096 = n div 64 div 64"
    by (simp_all add: div_mult2_eq [symmetric])
  then have "n div 262144 * 64 + n div 4096 mod 64 = n div 4096"
    and "n div 4096 * 64 + n div 64 mod 64 = n div 64" by simp_all
  then show "(((n div 262144 * 64 + n div 4096 mod 64) * 64 + n div 64 mod 64) * 64 + n mod 64) = n"
    by simp
  have "n div 256 = a * 256 + b" "n mod 256 = c"
    unfolding n using byte_cons [OF assms(3), of "a * 256 + b"] by blast+
  moreover have "n div 65536 = n div 256 div 256" by (simp add: div_mult2_eq [symmetric])
  ultimately show "n div 65536 = a" "n div 256 mod 256 = b" "n mod 256 = c"
    using byte_cons [OF assms(2)] by simp_all
qed

theorem b64decode_encode: "b64decode_strict (b64encode bs) = Some bs"
proof (induction bs rule: b64encode.induct)
  case 1
  show ?case by simp
next
  case (2 a)
  show ?case using group1 [of "unat a"] by (simp add: Let_def)
next
  case (3 a b)
  define n where "n = (unat a * 256 + unat b) * 4"
  have g: "n div 4096 < 64" "((n div 4096 * 64 + n div 64 mod 64) * 64 + n mod 64) = n"
    "n div 1024 = unat a" "n div 4 mod 256 = unat b"
    using group2 [OF _ _ n_def] by simp_all
  show ?case unfolding b64encode.simps Let_def n_def [symmetric] using g by simp
next
  case (4 a b c rest)
  define n where "n = (unat a * 256 + unat b) * 256 + unat c"
  have g: "n div 262144 < 64"
    "(((n div 262144 * 64 + n div 4096 mod 64) * 64 + n div 64 mod 64) * 64 + n mod 64) = n"
    "n div 65536 = unat a" "n div 256 mod 256 = unat b" "n mod 256 = unat c"
    using group3 [OF _ _ _ n_def] by simp_all
  show ?case unfolding b64encode.simps Let_def n_def [symmetric] using g 4 by simp
qed

lemma b64encode_inject: "b64encode x = b64encode y \<longleftrightarrow> x = y"
  by (metis b64decode_encode option.inject)

lemma ascii_append: "is_ascii (s @ t) \<longleftrightarrow> is_ascii s \<and> is_ascii t"
  by (auto simp: is_ascii_def)

lemma ascii_sextets: "list_all (\<lambda>n. n < 64) ns \<Longrightarrow> is_ascii (map sextet_char ns)"
  by (induction ns) (auto simp: is_ascii_def sextet_char_ascii)

lemma b64encode_ascii: "is_ascii (b64encode bs)"
proof (induction bs rule: b64encode.induct)
  case 1
  show ?case by (simp add: is_ascii_def)
next
  case (2 a)
  show ?case using group1 [of "unat a"] by (simp add: is_ascii_def Let_def sextet_char_ascii)
next
  case (3 a b)
  define n where "n = (unat a * 256 + unat b) * 4"
  have "n div 4096 < 64" using group2 [OF _ _ n_def] by simp
  then show ?case unfolding b64encode.simps Let_def n_def [symmetric]
    by (simp add: is_ascii_def sextet_char_ascii)
next
  case (4 a b c rest)
  define n where "n = (unat a * 256 + unat b) * 256 + unat c"
  have "n div 262144 < 64" using group3 [OF _ _ _ n_def] by simp
  then have "is_ascii [sextet_char (n div 262144), sextet_char (n div 4096 mod 64),
      sextet_char (n div 64 mod 64), sextet_char (n mod 64)]"
    by (simp add: is_ascii_def sextet_char_ascii)
  with 4 show ?case unfolding b64encode.simps Let_def n_def [symmetric]
    by (simp only: ascii_append)
qed

text \<open>The lenient decoder agrees with the strict one on everything the strict one accepts.\<close>

lemma low_byte:
  fixes p q r :: nat
  assumes "r < 64"
  shows "(16 * (p * 64 + q) + r div 4) mod 256 = q mod 16 * 16 + r div 4"
proof -
  define u v where "u = q div 16" and "v = q mod 16"
  have q: "q = u * 16 + v" by (simp add: u_def v_def)
  have "16 * (p * 64 + (u * 16 + v)) + r div 4 = 256 * (p * 4 + u) + (v * 16 + r div 4)" by simp
  moreover have "v * 16 + r div 4 < 256" using assms by (simp add: v_def)
  ultimately have "(16 * (p * 64 + q) + r div 4) mod 256 = v * 16 + r div 4"
    unfolding q by (metis mod_less mod_mult_self4)
  then show ?thesis by (simp add: v_def)
qed

lemma b64_lax_group:
  assumes "char_sextet w = Some p" "char_sextet x = Some q" "char_sextet y = Some r"
    "char_sextet z = Some s" "q < 64" "r < 64" "s < 64"
  shows "b64_lax 0 l k (w # x # y # z # rest) =
    (let n = ((p * 64 + q) * 64 + r) * 64 + s
     in map_option (\<lambda>bs. of_nat (n div 65536) # of_nat (n div 256 mod 256) # of_nat (n mod 256) # bs)
          (b64_lax 0 0 0 rest))"
proof -
  define n where "n = ((p * 64 + q) * 64 + r) * 64 + s"
  have n4: "n div 64 = (p * 64 + q) * 64 + r" and n3: "n div 64 div 64 = p * 64 + q"
    using assms(6,7) by (simp_all add: n_def)
  have "n div 65536 = n div 64 div 64 div 16" by (simp add: div_mult2_eq [symmetric])
  then have 1: "n div 65536 = p * 4 + q div 16" unfolding n3 by simp
  have "n div 256 = n div 64 div 4" by (simp add: div_mult2_eq [symmetric])
  then have "n div 256 = 16 * (p * 64 + q) + r div 4" unfolding n4 by simp
  then have 2: "n div 256 mod 256 = q mod 16 * 16 + r div 4"
    using assms(6) by (simp only: low_byte)
  have 3: "n mod 256 = r mod 4 * 64 + s"
  proof -
    define u v where "u = r div 4" and "v = r mod 4"
    have r: "r = u * 4 + v" by (simp add: u_def v_def)
    have "n = 256 * ((p * 64 + q) * 16 + u) + (v * 64 + s)" unfolding n_def r by simp
    moreover have "v * 64 + s < 256" using assms(7) by (simp add: v_def)
    ultimately show ?thesis by (metis mod_less mod_mult_self4 v_def)
  qed
  have "w \<noteq> CHR ''=''" "x \<noteq> CHR ''=''" "y \<noteq> CHR ''=''" "z \<noteq> CHR ''=''"
    using assms(1-4) by auto
  then show ?thesis
    unfolding n_def [symmetric] Let_def 1 2 3
    using assms(1-4) by (simp add: option.map_comp comp_def mult.commute)
qed

lemma char_sextet_less: "char_sextet c = Some n \<Longrightarrow> n < 64"
proof -
  assume c: "char_sextet c = Some n"
  then have "c \<in> set b64_alphabet" and n: "n = length (takeWhile (\<lambda>x. x \<noteq> c) b64_alphabet)"
    by (auto simp: char_sextet_def split: if_splits)
  then have "n < length b64_alphabet"
    by (metis (mono_tags, lifting) le_neq_implies_less length_takeWhile_le takeWhile_eq_all_conv
        takeWhile_eq_take take_all_iff)
  then show "n < 64" by (simp add: b64_alphabet_def)
qed

theorem b64_lax_strict: "b64decode_strict s = Some bs \<Longrightarrow> b64_lax 0 l k s = Some bs"
proof (induction s arbitrary: bs l k rule: b64decode_strict.induct)
  case (2 w x y z rest)
  show ?case
  proof (cases "\<exists>s. char_sextet z = Some s")
    case True
    then obtain p q r s where c: "char_sextet w = Some p" "char_sextet x = Some q"
        "char_sextet y = Some r" "char_sextet z = Some s"
      using 2(2) by (auto split: option.splits)
    with 2(2) obtain cs where "b64decode_strict rest = Some cs" by (auto simp: Let_def)
    with 2(1) c have "b64_lax 0 0 0 rest = Some cs" by blast
    with 2(2) c \<open>b64decode_strict rest = Some cs\<close> show ?thesis
      using b64_lax_group [OF c] char_sextet_less by (simp add: Let_def)
  next
    case False
    then have z: "char_sextet z = None" by simp
    with 2(2) obtain p q where c: "char_sextet w = Some p" "char_sextet x = Some q"
      by (auto split: option.splits)
    have ne: "w \<noteq> CHR ''=''" "x \<noteq> CHR ''=''" using c by auto
    have "p < 64" "q < 64" using c char_sextet_less by auto
    show ?thesis
    proof (cases "char_sextet y")
      case None
      with 2(2) z c have "y = CHR ''=''" "z = CHR ''=''" "rest = []"
          "bs = [of_nat ((p * 64 + q) div 16)]"
        by (auto split: if_splits)
      moreover have "(p * 64 + q) div 16 = p * 4 + q div 16" by simp
      ultimately show ?thesis using c ne by (simp add: mult.commute)
    next
      case (Some r)
      with 2(2) z c have z': "z = CHR ''=''" "rest = []"
          and bs: "bs = [of_nat (((p * 64 + q) * 64 + r) div 1024), of_nat (((p * 64 + q) * 64 + r) div 4 mod 256)]"
        by (auto simp: Let_def split: if_splits)
      have r: "r < 64" "y \<noteq> CHR ''=''" using Some char_sextet_less by auto
      define n where "n = (p * 64 + q) * 64 + r"
      have "n div 64 = p * 64 + q" using r by (simp add: n_def)
      moreover have "n div 1024 = n div 64 div 16" by (simp add: div_mult2_eq [symmetric])
      ultimately have 1: "n div 1024 = p * 4 + q div 16" by simp
      have "n div 4 = 16 * (p * 64 + q) + r div 4" unfolding n_def by simp
      then have 2: "n div 4 mod 256 = q mod 16 * 16 + r div 4"
        using r by (simp only: low_byte)
      show ?thesis unfolding bs n_def [symmetric] 1 2
        using c ne r Some z' by (simp add: mult.commute)
    qed
  qed
qed auto

corollary b64decode_lax_encode: "b64decode_lax (b64encode bs) = Some bs"
  by (simp add: b64decode_lax_def b64_lax_strict b64decode_encode)

end
