(* ===== verification/Value.thy ===== *)
theory Value
  imports Base64
begin

text \<open>
  \<open>value.py\<close>: the values a cell exchanges, their JSON form, Python's equality on them, the
  typed payloads of the bridge and the \<open>KeyValue\<close> and \<open>SetValueResponse\<close> wire objects.

  A Python object is a \<open>pyval\<close>. JSON values are the first six constructors, lists and
  dictionaries (\<open>is_json\<close>); the others are what \<open>to_json_value\<close> turns into JSON or refuses.
  Dictionaries have string keys, as every dictionary of the program does; an absent optional
  field (Python's \<open>None\<close>) is \<open>VNull\<close> where the field holds any value.
\<close>

datatype pyval =
    VNull
  | VBool bool
  | VInt int
  | VFloat pyfloat
  | VStr string
  | VBytes bytes
  | VList "pyval list"
  | VTuple "pyval list"
  | VDict "(string \<times> pyval) list"
  | VTyped string pyval                       \<comment> \<open>TypedValue(kind, value)\<close>
  | VKeyValue string pyval "string option"    \<comment> \<open>KeyValue(key, value, target)\<close>
  | VResponse string pyval                    \<comment> \<open>SetValueResponse(state, value)\<close>
  | VObject string                            \<comment> \<open>an object of any other class\<close>

subsection \<open>JSON values\<close>

fun is_json :: "pyval \<Rightarrow> bool"
and is_json_list :: "pyval list \<Rightarrow> bool"
and is_json_items :: "(string \<times> pyval) list \<Rightarrow> bool" where
  "is_json VNull = True"
| "is_json (VBool b) = True"
| "is_json (VInt i) = True"
| "is_json (VFloat f) = True"
| "is_json (VStr s) = True"
| "is_json (VList vs) = is_json_list vs"
| "is_json (VDict d) = is_json_items d"
| "is_json _ = False"
| "is_json_list [] = True"
| "is_json_list (v # vs) = (is_json v \<and> is_json_list vs)"
| "is_json_items [] = True"
| "is_json_items ((k, v) # d) = (is_json v \<and> is_json_items d)"

fun untyped :: "pyval \<Rightarrow> pyval" where
  "untyped (VTyped k v) = v"
| "untyped v = v"

text \<open>The field a \<open>KeyValue\<close> writes its value to; none when there is no value.\<close>

fun kv_field :: "pyval \<Rightarrow> string option" where
  "kv_field (VDict d) = Some ''object''"
| "kv_field (VList vs) = Some ''list''"
| "kv_field (VStr s) = Some ''string''"
| "kv_field (VInt i) = Some ''integer''"
| "kv_field (VFloat f) = Some ''float''"
| "kv_field VNull = None"
| "kv_field _ = Some ''value''"

definition kv_head :: "string \<Rightarrow> string option \<Rightarrow> pyval dict" where
  "kv_head key target =
     (''key'', VStr key) # (case target of None \<Rightarrow> [] | Some t \<Rightarrow> [(''target'', VStr t)])"

fun to_json_value :: "pyval \<Rightarrow> pyval res"
and to_json_list :: "pyval list \<Rightarrow> pyval list res"
and to_json_items :: "(string \<times> pyval) list \<Rightarrow> (string \<times> pyval) list res" where
  "to_json_value (VTyped k v) = to_json_value v"
| "to_json_value (VKeyValue key v target) =
     (case kv_field (untyped v) of
        None \<Rightarrow> Inr (VDict (kv_head key target))
      | Some f \<Rightarrow> rbind (to_json_value v) (\<lambda>j. Inr (VDict (dset (kv_head key target) f j))))"
| "to_json_value (VResponse state v) =
     (if v = VNull then Inr (VDict [(''state'', VStr state)])
      else rbind (to_json_value v) (\<lambda>j. Inr (VDict [(''state'', VStr state), (''value'', j)])))"
| "to_json_value (VBytes bs) = Inr (VStr (b64encode bs))"
| "to_json_value VNull = Inr VNull"
| "to_json_value (VBool b) = Inr (VBool b)"
| "to_json_value (VInt i) = Inr (VInt i)"
| "to_json_value (VFloat f) = Inr (VFloat f)"
| "to_json_value (VStr s) = Inr (VStr s)"
| "to_json_value (VList vs) = rbind (to_json_list vs) (\<lambda>js. Inr (VList js))"
| "to_json_value (VTuple vs) = rbind (to_json_list vs) (\<lambda>js. Inr (VList js))"
| "to_json_value (VDict d) = rbind (to_json_items d) (\<lambda>js. Inr (VDict js))"
| "to_json_value (VObject cls) = Inl CodecError"
| "to_json_list [] = Inr []"
| "to_json_list (v # vs) = rbind (to_json_value v) (\<lambda>j. rbind (to_json_list vs) (\<lambda>js. Inr (j # js)))"
| "to_json_items [] = Inr []"
| "to_json_items ((k, v) # d) =
     rbind (to_json_value v) (\<lambda>j. rbind (to_json_items d) (\<lambda>js. Inr ((k, j) # js)))"

fun from_json_value :: "pyval \<Rightarrow> pyval res"
and from_json_list :: "pyval list \<Rightarrow> pyval list res"
and from_json_items :: "(string \<times> pyval) list \<Rightarrow> (string \<times> pyval) list res" where
  "from_json_value VNull = Inr VNull"
| "from_json_value (VBool b) = Inr (VBool b)"
| "from_json_value (VInt i) = Inr (VInt i)"
| "from_json_value (VFloat f) = Inr (VFloat f)"
| "from_json_value (VStr s) = Inr (VStr s)"
| "from_json_value (VList vs) = rbind (from_json_list vs) (\<lambda>js. Inr (VList js))"
| "from_json_value (VDict d) = rbind (from_json_items d) (\<lambda>js. Inr (VDict js))"
| "from_json_value _ = Inl CodecError"
| "from_json_list [] = Inr []"
| "from_json_list (v # vs) = rbind (from_json_value v) (\<lambda>j. rbind (from_json_list vs) (\<lambda>js. Inr (j # js)))"
| "from_json_items [] = Inr []"
| "from_json_items ((k, v) # d) =
     rbind (from_json_value v) (\<lambda>j. rbind (from_json_items d) (\<lambda>js. Inr ((k, j) # js)))"

subsection \<open>Python's \<open>==\<close>\<close>

text \<open>
  Booleans, integers and floats compare by their number (\<open>True == 1 == 1.0\<close>), dictionaries
  regardless of order.
\<close>

fun num_val :: "pyval \<Rightarrow> pyfloat option" where
  "num_val (VBool b) = Some (Fin (if b then 1 else 0))"
| "num_val (VInt i) = Some (Fin (of_int i))"
| "num_val (VFloat f) = Some f"
| "num_val _ = None"

fun py_eq :: "pyval \<Rightarrow> pyval \<Rightarrow> bool"
and py_eq_list :: "pyval list \<Rightarrow> pyval list \<Rightarrow> bool"
and py_eq_items :: "(string \<times> pyval) list \<Rightarrow> (string \<times> pyval) list \<Rightarrow> bool" where
  "py_eq VNull w = (w = VNull)"
| "py_eq (VBool b) w = (num_val w = num_val (VBool b))"
| "py_eq (VInt i) w = (num_val w = num_val (VInt i))"
| "py_eq (VFloat f) w = (num_val w = Some f \<and> f \<noteq> NaN)"
| "py_eq (VStr s) w = (w = VStr s)"
| "py_eq (VBytes bs) w = (w = VBytes bs)"
| "py_eq (VList vs) w = (case w of VList ws \<Rightarrow> py_eq_list vs ws | _ \<Rightarrow> False)"
| "py_eq (VTuple vs) w = (case w of VTuple ws \<Rightarrow> py_eq_list vs ws | _ \<Rightarrow> False)"
| "py_eq (VDict d) w = (case w of VDict e \<Rightarrow> length d = length e \<and> py_eq_items d e | _ \<Rightarrow> False)"
| "py_eq (VTyped k v) w = (case w of VTyped k' v' \<Rightarrow> k = k' \<and> py_eq v v' | _ \<Rightarrow> False)"
| "py_eq (VKeyValue k v t) w = (case w of VKeyValue k' v' t' \<Rightarrow> k = k' \<and> py_eq v v' \<and> t = t' | _ \<Rightarrow> False)"
| "py_eq (VResponse s v) w = (case w of VResponse s' v' \<Rightarrow> s = s' \<and> py_eq v v' | _ \<Rightarrow> False)"
| "py_eq (VObject c) w = (w = VObject c)"
| "py_eq_list [] ws = (ws = [])"
| "py_eq_list (v # vs) ws = (case ws of [] \<Rightarrow> False | w # ws' \<Rightarrow> py_eq v w \<and> py_eq_list vs ws')"
| "py_eq_items [] e = True"
| "py_eq_items ((k, v) # d) e = ((case dget e k of None \<Rightarrow> False | Some w \<Rightarrow> py_eq v w) \<and> py_eq_items d e)"

subsection \<open>Reading fields\<close>

text \<open>\<open>d.get(k)\<close>, truth values and \<open>a or b\<close>.\<close>

definition getn :: "pyval dict \<Rightarrow> string \<Rightarrow> pyval" where
  "getn d k = (case dget d k of Some v \<Rightarrow> v | None \<Rightarrow> VNull)"

fun truthy :: "pyval \<Rightarrow> bool" where
  "truthy VNull = False"
| "truthy (VBool b) = b"
| "truthy (VInt i) = (i \<noteq> 0)"
| "truthy (VFloat f) = (f \<noteq> Fin 0)"
| "truthy (VStr s) = (s \<noteq> [])"
| "truthy (VBytes bs) = (bs \<noteq> [])"
| "truthy (VList vs) = (vs \<noteq> [])"
| "truthy (VTuple vs) = (vs \<noteq> [])"
| "truthy (VDict d) = (d \<noteq> [])"
| "truthy _ = True"

definition py_or :: "pyval \<Rightarrow> pyval \<Rightarrow> pyval" where
  "py_or a b = (if truthy a then a else b)"

fun is_str :: "pyval \<Rightarrow> bool" where
  "is_str (VStr s) = True"
| "is_str _ = False"

fun str_val :: "pyval \<Rightarrow> string option" where
  "str_val (VStr s) = Some s"
| "str_val _ = None"

text \<open>\<open>str(v)\<close>: the parameter stands for the text of floats and containers.\<close>

fun py_str :: "(pyval \<Rightarrow> string) \<Rightarrow> pyval \<Rightarrow> string" where
  "py_str pystr (VStr s) = s"
| "py_str pystr (VInt i) = show_int i"
| "py_str pystr (VBool b) = (if b then ''True'' else ''False'')"
| "py_str pystr VNull = ''None''"
| "py_str pystr v = pystr v"

text \<open>
  \<open>float(v)\<close> of a number that is not a boolean; an integer beyond the largest double is an
  \<open>OverflowError\<close>.
\<close>

definition MAX_FLOAT_INT :: int where
  "MAX_FLOAT_INT = 2 ^ 1024 - 2 ^ 970"

fun float_of :: "pyval \<Rightarrow> pyfloat res" where
  "float_of (VInt i) = (if \<bar>i\<bar> < MAX_FLOAT_INT then Inr (Fin (of_int i)) else Inl OverflowError)"
| "float_of (VFloat f) = Inr f"
| "float_of _ = Inl TypeError"

fun is_number :: "pyval \<Rightarrow> bool" where
  "is_number (VInt i) = True"
| "is_number (VFloat f) = True"
| "is_number _ = False"

subsection \<open>Typed values\<close>

definition BRIDGE_KEYS :: "(string \<times> string) list" where
  "BRIDGE_KEYS =
    [(''description'', ''&description''), (''connectState'', ''&connectState''),
     (''agreementState'', ''&agreementState''), (''agreementPayload'', ''&agreementPayload''),
     (''verifiableCredential'', ''&verifiableCredential''), (''cellConfiguration'', ''&cellConfiguration''),
     (''cellReference'', ''&cellReference''), (''connectContext'', ''&connectContext''),
     (''flowElement'', ''&flowElement''), (''cell'', ''&cell''), (''keyValue'', ''&keyValue''),
     (''setValueState'', ''&setValueState''), (''setValueResponse'', ''&setValueResponse''),
     (''signData'', ''sign''), (''signature'', ''&signature''), (''object'', ''&object''),
     (''number'', ''&number''), (''string'', ''&string''), (''list'', ''&list''), (''bool'', ''bool''),
     (''float'', ''float''), (''data'', ''data''), (''integer'', ''integer'')]"

definition DECODE_PRIORITY :: "string list" where
  "DECODE_PRIORITY =
    [''&agreementPayload'', ''&description'', ''&connectState'', ''&agreementState'',
     ''&verifiableCredential'', ''&flowElement'', ''&object'', ''&list'', ''&string'', ''&number'',
     ''float'', ''data'', ''bool'', ''integer'', ''&cellReference'', ''&cellConfiguration'', ''&cell'',
     ''&keyValue'', ''&setValueState'', ''&setValueResponse'', ''sign'', ''&signature'',
     ''connectEmitter'', ''absorbFlow'', ''removeConnecion'', ''dropFlow'', ''disconnectAll'',
     ''unsubscribeAll'', ''keys'', ''typeForKey'']"

fun infer :: "pyval \<Rightarrow> (string \<times> pyval) res" where
  "infer (VTyped k v) = Inr (k, v)"
| "infer (VBool b) = Inr (''bool'', VBool b)"
| "infer (VInt i) = Inr (''integer'', VInt i)"
| "infer (VFloat f) = Inr (''float'', VFloat f)"
| "infer (VStr s) = Inr (''string'', VStr s)"
| "infer (VBytes bs) = Inr (''data'', VBytes bs)"
| "infer (VList vs) = Inr (''list'', VList vs)"
| "infer (VDict d) = Inr (''object'', VDict d)"
| "infer VNull = Inr (''null'', VNull)"
| "infer (VKeyValue k v t) = Inr (''keyValue'', VKeyValue k v t)"
| "infer (VResponse s v) = Inr (''setValueResponse'', VResponse s v)"
| "infer v = rbind (to_json_value v) (\<lambda>j. Inr (''object'', j))"

definition bridge_key_to_kind :: "string \<Rightarrow> string" where
  "bridge_key_to_kind key =
     (case find (\<lambda>(kind, bk). bk = key) BRIDGE_KEYS of Some (kind, bk) \<Rightarrow> kind | None \<Rightarrow> key)"

definition bridge_key :: "string \<Rightarrow> string res" where
  "bridge_key kind =
     (if kind = ''null'' then Inl CodecError
      else case dget BRIDGE_KEYS kind of Some k \<Rightarrow> Inr k | None \<Rightarrow> Inl CodecError)"

definition bridge_payload_json :: "string \<Rightarrow> pyval \<Rightarrow> pyval res" where
  "bridge_payload_json kind v =
     (case v of VBytes bs \<Rightarrow> if kind = ''data'' then Inr (VStr (b64encode bs)) else to_json_value v
      | _ \<Rightarrow> to_json_value v)"

subsection \<open>\<open>KeyValue\<close> and \<open>SetValueResponse\<close>\<close>

definition KV_FIELDS :: "string list" where
  "KV_FIELDS = [''string'', ''number'', ''float'', ''integer'', ''object'', ''list'']"

definition kv_value :: "pyval dict \<Rightarrow> pyval res" where
  "kv_value payload =
     (case find (\<lambda>f. dget payload f \<noteq> None) KV_FIELDS of
        Some f \<Rightarrow> from_json_value (the (dget payload f))
      | None \<Rightarrow> (case dget payload ''value'' of Some v \<Rightarrow> from_json_value v | None \<Rightarrow> Inr VNull))"

definition KeyValue_from_json :: "pyval \<Rightarrow> pyval res" where
  "KeyValue_from_json payload =
     (case payload of
        VDict d \<Rightarrow>
          (case dget d ''key'' of
             Some (VStr key) \<Rightarrow>
               (case dget d ''target'' of
                  None \<Rightarrow> rbind (kv_value d) (\<lambda>v. Inr (VKeyValue key v None))
                | Some VNull \<Rightarrow> rbind (kv_value d) (\<lambda>v. Inr (VKeyValue key v None))
                | Some (VStr t) \<Rightarrow> rbind (kv_value d) (\<lambda>v. Inr (VKeyValue key v (Some t)))
                | Some _ \<Rightarrow> Inl CodecError)
           | _ \<Rightarrow> Inl CodecError)
      | _ \<Rightarrow> Inl AttributeError)"

definition VALID_STATES :: "string list" where
  "VALID_STATES = [''ok'', ''denied'', ''paramErr'', ''error'']"

definition SetValueResponse_from_json :: "pyval \<Rightarrow> pyval res" where
  "SetValueResponse_from_json payload =
     (case payload of
        VDict d \<Rightarrow>
          (case dget d ''state'' of
             Some (VStr s) \<Rightarrow>
               (if s \<in> set VALID_STATES then
                  (case dget d ''value'' of
                     Some v \<Rightarrow> rbind (from_json_value v) (\<lambda>j. Inr (VResponse s j))
                   | None \<Rightarrow> Inr (VResponse s VNull))
                else Inl CodecError)
           | Some (VList _) \<Rightarrow> Inl TypeError
           | Some (VDict _) \<Rightarrow> Inl TypeError
           | _ \<Rightarrow> Inl CodecError)
      | _ \<Rightarrow> Inl AttributeError)"

definition payload_from_bridge_json :: "string \<Rightarrow> pyval \<Rightarrow> pyval res" where
  "payload_from_bridge_json key v =
     (let kind = bridge_key_to_kind key in
      if kind = ''keyValue'' then rbind (KeyValue_from_json v) (\<lambda>p. Inr (VTyped kind p))
      else if kind = ''setValueResponse'' then rbind (SetValueResponse_from_json v) (\<lambda>p. Inr (VTyped kind p))
      else if kind \<in> {''data'', ''signData'', ''signature''} then
        (case v of
           VStr s \<Rightarrow> (if is_ascii s
                      then case b64decode_lax s of Some bs \<Rightarrow> Inr (VTyped kind (VBytes bs)) | None \<Rightarrow> Inl ValueError
                      else Inl ValueError)
         | _ \<Rightarrow> Inl CodecError)
      else rbind (from_json_value v) (\<lambda>j. Inr (VTyped kind j)))"

text \<open>
  \<open>merge_json_object\<close> changes its target as it goes, so the dictionary is returned with the
  error, if any, that stopped it.
\<close>

function (sequential) merge_json_object :: "pyval dict \<Rightarrow> (string \<times> pyval) list \<Rightarrow> pyval dict \<times> exc option" where
  "merge_json_object target [] = (target, None)"
| "merge_json_object target ((k, VDict p) # patch) =
     (case dget target k of
        Some (VDict t) \<Rightarrow>
          (let (t', e) = merge_json_object t p; target' = dset target k (VDict t')
           in case e of None \<Rightarrow> merge_json_object target' patch | Some x \<Rightarrow> (target', Some x))
      | _ \<Rightarrow>
          (case from_json_value (VDict p) of
             Inl x \<Rightarrow> (target, Some x)
           | Inr j \<Rightarrow> merge_json_object (dset target k j) patch))"
| "merge_json_object target ((k, v) # patch) =
     (case from_json_value v of
        Inl x \<Rightarrow> (target, Some x)
      | Inr j \<Rightarrow> merge_json_object (dset target k j) patch)"
  by pat_completeness auto
termination
  by (relation "measure (\<lambda>(t, p). size_list (size_prod (\<lambda>_. 0) size) p)") auto

subsection \<open>What the codecs promise\<close>

lemma from_json_id:
  "is_json v \<Longrightarrow> from_json_value v = Inr v"
  "is_json_list vs \<Longrightarrow> from_json_list vs = Inr vs"
  "is_json_items d \<Longrightarrow> from_json_items d = Inr d"
  by (induction v and vs and d rule: is_json_is_json_list_is_json_items.induct) auto

lemma from_json_Inr:
  "from_json_value v = Inr w \<Longrightarrow> w = v \<and> is_json v"
  "from_json_list vs = Inr ws \<Longrightarrow> ws = vs \<and> is_json_list vs"
  "from_json_items d = Inr e \<Longrightarrow> e = d \<and> is_json_items d"
  by (induction v and vs and d arbitrary: w and ws and e
      rule: from_json_value_from_json_list_from_json_items.induct) (auto simp: rbind_Inr_iff)

lemma from_json_value_iff: "from_json_value v = Inr w \<longleftrightarrow> w = v \<and> is_json v"
  using from_json_Inr(1) from_json_id(1) by blast

lemma to_json_id:
  "is_json v \<Longrightarrow> to_json_value v = Inr v"
  "is_json_list vs \<Longrightarrow> to_json_list vs = Inr vs"
  "is_json_items d \<Longrightarrow> to_json_items d = Inr d"
  by (induction v and vs and d rule: is_json_is_json_list_is_json_items.induct) auto

lemma is_json_items_iff: "is_json_items d \<longleftrightarrow> (\<forall>(k, v) \<in> set d. is_json v)"
  by (induction d) auto

lemma is_json_list_iff: "is_json_list vs \<longleftrightarrow> (\<forall>v \<in> set vs. is_json v)"
  by (induction vs) auto

lemma is_json_dset: "is_json_items d \<Longrightarrow> is_json v \<Longrightarrow> is_json_items (dset d k v)"
  by (induction d) auto

lemma is_json_kv_head [simp]: "is_json_items (kv_head key target)"
  by (cases target) (simp_all add: kv_head_def)

lemma to_json_is_json:
  "to_json_value v = Inr w \<Longrightarrow> is_json w"
  "to_json_list vs = Inr ws \<Longrightarrow> is_json_list ws"
  "to_json_items d = Inr e \<Longrightarrow> is_json_items e"
proof (induction v and vs and d arbitrary: w and ws and e
    rule: to_json_value_to_json_list_to_json_items.induct)
  case (2 key v target)
  show ?case
  proof (cases "kv_field (untyped v)")
    case None
    with 2 show ?thesis by auto
  next
    case (Some f)
    with 2(2) obtain j where "to_json_value v = Inr j" "w = VDict (dset (kv_head key target) f j)"
      by (auto simp: rbind_Inr_iff)
    moreover from this have "is_json j" using 2(1) [OF Some] by blast
    ultimately show ?thesis by (simp add: is_json_dset)
  qed
next
  case (3 state v)
  show ?case
  proof (cases "v = VNull")
    case True
    with 3(2) show ?thesis by auto
  next
    case False
    with 3(2) obtain j where "to_json_value v = Inr j"
        "w = VDict [(''state'', VStr state), (''value'', j)]"
      by (simp add: rbind_Inr_iff) blast
    then show ?thesis using 3(1) [OF False] by simp
  qed
qed (auto simp: rbind_Inr_iff)

lemma to_json_untyped: "to_json_value (untyped v) = to_json_value v"
  by (cases v) auto

lemma kv_field_None: "kv_field v = None \<longleftrightarrow> v = VNull"
  by (cases v) auto

lemma kv_field_json:
  assumes "kv_field v = Some f" "to_json_value v = Inr j"
  shows "f \<in> {''string'', ''float'', ''integer'', ''object'', ''list'', ''value''}"
  using assms by (cases v) auto

lemma kv_decode:
  assumes "from_json_value j = Inr j"
    and "f \<in> {''string'', ''float'', ''integer'', ''object'', ''list'', ''value''}"
  shows "KeyValue_from_json (VDict (dset (kv_head key target) f j)) = Inr (VKeyValue key j target)"
  using assms(2)
  by (elim insertE emptyE; cases target;
      simp add: KeyValue_from_json_def kv_head_def kv_value_def KV_FIELDS_def assms(1))

text \<open>
  Whatever value a \<open>KeyValue\<close> holds (a typed value, bytes, a tuple, nested objects), what
  \<open>to_json\<close> writes \<open>from_json\<close> reads back: the same key and target, and the JSON of the value.
\<close>

lemma KeyValue_round_trip:
  assumes "to_json_value (VKeyValue key v target) = Inr w"
  shows "\<exists>j. to_json_value v = Inr j \<and> KeyValue_from_json w = Inr (VKeyValue key j target)"
proof (cases "kv_field (untyped v)")
  case None
  then have "untyped v = VNull" by (simp add: kv_field_None)
  then have "to_json_value v = Inr VNull" by (metis to_json_untyped to_json_value.simps(5))
  moreover have "w = VDict (kv_head key target)" using assms None by simp
  ultimately show ?thesis
    by (cases target) (simp_all add: KeyValue_from_json_def kv_head_def kv_value_def KV_FIELDS_def)
next
  case (Some f)
  with assms obtain j where j: "to_json_value v = Inr j" "w = VDict (dset (kv_head key target) f j)"
    by (auto simp: rbind_Inr_iff)
  have "from_json_value j = Inr j" using j to_json_is_json(1) from_json_id(1) by blast
  moreover have "f \<in> {''string'', ''float'', ''integer'', ''object'', ''list'', ''value''}"
    using kv_field_json [OF Some] j by (simp add: to_json_untyped)
  ultimately show ?thesis using j kv_decode by simp
qed

lemma KeyValue_round_trip_witness:
  "KeyValue_from_json (VDict [(''key'', VStr ''k''), (''target'', VStr ''t''), (''list'', VList [VStr ''AQ==''])])
    = Inr (VKeyValue ''k'' (VList [VStr ''AQ=='']) (Some ''t''))"
proof -
  have "to_json_value (VKeyValue ''k'' (VTyped ''list'' (VList [VBytes [1]])) (Some ''t''))
    = Inr (VDict [(''key'', VStr ''k''), (''target'', VStr ''t''), (''list'', VList [VStr ''AQ==''])])" by code_simp
  moreover have "to_json_value (VTyped ''list'' (VList [VBytes [1]])) = Inr (VList [VStr ''AQ==''])" by code_simp
  ultimately show ?thesis
    using KeyValue_round_trip [of "''k''" "VTyped ''list'' (VList [VBytes [1]])" "Some ''t''"] by auto
qed

theorem SetValueResponse_round_trip:
  assumes "to_json_value (VResponse state v) = Inr w" "state \<in> set VALID_STATES"
  shows "\<exists>j. to_json_value v = Inr j \<and> SetValueResponse_from_json w = Inr (VResponse state j)"
proof (cases "v = VNull")
  case True
  with assms show ?thesis by (auto simp: SetValueResponse_from_json_def)
next
  case False
  with assms obtain j where "to_json_value v = Inr j" "w = VDict [(''state'', VStr state), (''value'', j)]"
    by (auto simp: rbind_Inr_iff)
  moreover from this have "from_json_value j = Inr j"
    using to_json_is_json(1) from_json_id(1) by blast
  ultimately show ?thesis using assms(2) by (simp add: SetValueResponse_from_json_def)
qed

text \<open>The bridge-key table is a bijection between its kinds and its keys.\<close>

lemma bridge_keys_table:
  "\<forall>(kind, key) \<in> set BRIDGE_KEYS. bridge_key kind = Inr key \<and> bridge_key_to_kind key = kind"
  by code_simp

lemma bridge_key_round_trip: "bridge_key kind = Inr key \<Longrightarrow> bridge_key_to_kind key = kind"
  using bridge_keys_table
  by (auto simp: bridge_key_def split: if_splits option.splits dest!: map_of_SomeD)

lemma bridge_payload_json_eq: "bridge_payload_json kind v = to_json_value v"
  by (cases v) (simp_all add: bridge_payload_json_def)

lemma dget_json: "is_json_items d \<Longrightarrow> dget d k = Some v \<Longrightarrow> is_json v"
  by (auto simp: is_json_items_iff dest!: map_of_SomeD)

text \<open>What one side sends as the typed payload of a command, the other side reads as the JSON of
  the same value.\<close>

theorem bridge_payload_round_trip:
  assumes kind: "bridge_key kind = Inr key" "kind \<notin> {''data'', ''signData'', ''signature'', ''keyValue'', ''setValueResponse''}"
    and v: "bridge_payload_json kind v = Inr j"
  shows "payload_from_bridge_json key j = Inr (VTyped kind j)"
proof -
  have "is_json j" using v to_json_is_json(1) by (simp add: bridge_payload_json_eq)
  then show ?thesis using kind(2) bridge_key_round_trip [OF kind(1)]
    by (simp add: payload_from_bridge_json_def from_json_id Let_def)
qed

text \<open>
  Bytes sent under one of the three binary payload kinds come back as the same bytes under
  the same kind: the bridge key is found again, and lenient decoding inverts the encoding.
\<close>

lemma bridge_bytes_round_trip:
  assumes "kind \<in> {''data'', ''signData'', ''signature''}"
  shows "\<exists>key j. bridge_key kind = Inr key \<and> bridge_payload_json kind (VBytes bs) = Inr j
    \<and> payload_from_bridge_json key j = Inr (VTyped kind (VBytes bs))"
proof -
  have t: "(''data'', ''data'') \<in> set BRIDGE_KEYS" "(''signData'', ''sign'') \<in> set BRIDGE_KEYS"
    "(''signature'', ''&signature'') \<in> set BRIDGE_KEYS" by (simp_all add: BRIDGE_KEYS_def)
  then obtain key where "bridge_key kind = Inr key" "bridge_key_to_kind key = kind"
    using assms bridge_keys_table by blast
  moreover have "bridge_payload_json kind (VBytes bs) = Inr (VStr (b64encode bs))"
    by (simp add: bridge_payload_json_def)
  ultimately show ?thesis using assms
    by (auto simp: payload_from_bridge_json_def Let_def b64encode_ascii b64decode_lax_encode)
qed

lemma bridge_bytes_round_trip_witness:
  "payload_from_bridge_json ''&signature'' (VStr ''AQ=='') = Inr (VTyped ''signature'' (VBytes [1]))"
proof -
  have b: "b64encode [1] = ''AQ==''" by code_simp
  have "bridge_key ''signature'' = Inr ''&signature''" by code_simp
  moreover have "bridge_payload_json ''signature'' (VBytes [1]) = Inr (VStr ''AQ=='')"
    unfolding bridge_payload_json_def using b by simp
  moreover obtain key j where "bridge_key ''signature'' = Inr key"
    "bridge_payload_json ''signature'' (VBytes [1]) = Inr j"
    "payload_from_bridge_json key j = Inr (VTyped ''signature'' (VBytes [1]))"
    using bridge_bytes_round_trip [of "''signature''" "[1]"] by blast
  ultimately show ?thesis by (simp only: sum.inject)
qed

text \<open>Merging a JSON patch into a JSON object never fails and gives a JSON object.\<close>

lemma merge_json_total:
  "is_json_items target \<Longrightarrow> is_json_items patch \<Longrightarrow>
   snd (merge_json_object target patch) = None \<and> is_json_items (fst (merge_json_object target patch))"
proof (induction target patch rule: merge_json_object.induct)
  case (2 target k p patch)
  have p: "is_json_items p" "is_json_items patch" using "2.prems" by auto
  show ?case
  proof (cases "\<exists>t. dget target k = Some (VDict t)")
    case True
    then obtain t where t: "dget target k = Some (VDict t)" by blast
    moreover have "is_json_items t" using dget_json [OF "2.prems"(1) t] by simp
    ultimately show ?thesis using 2 p
      by (auto simp: is_json_dset split: prod.splits)
  next
    case False
    have "is_json_items (dset target k (VDict p))" using "2.prems"(1) p by (simp add: is_json_dset)
    with False p 2 show ?thesis
      by (cases "dget target k") (auto simp: from_json_id split: pyval.splits)
  qed
qed (auto simp: from_json_id is_json_dset)

subsection \<open>Equality\<close>

fun wf_val :: "pyval \<Rightarrow> bool"
and wf_list :: "pyval list \<Rightarrow> bool"
and wf_items :: "(string \<times> pyval) list \<Rightarrow> bool" where
  "wf_val (VFloat f) = (f \<noteq> NaN)"
| "wf_val (VList vs) = wf_list vs"
| "wf_val (VTuple vs) = wf_list vs"
| "wf_val (VDict d) = (distinct (map fst d) \<and> wf_items d)"
| "wf_val (VTyped k v) = wf_val v"
| "wf_val (VKeyValue k v t) = wf_val v"
| "wf_val (VResponse s v) = wf_val v"
| "wf_val _ = True"
| "wf_list [] = True"
| "wf_list (v # vs) = (wf_val v \<and> wf_list vs)"
| "wf_items [] = True"
| "wf_items ((k, v) # d) = (wf_val v \<and> wf_items d)"

lemma py_eq_items_iff:
  "py_eq_items d e \<longleftrightarrow> (\<forall>(k, v) \<in> set d. \<exists>w. dget e k = Some w \<and> py_eq v w)"
  by (induction d) (auto split: option.splits)

lemma py_eq_refl:
  "wf_val v \<Longrightarrow> py_eq v v"
  "wf_list vs \<Longrightarrow> py_eq_list vs vs"
  "distinct (map fst d) \<Longrightarrow> wf_items d \<Longrightarrow> (k, v) \<in> set d \<Longrightarrow> py_eq v v"
  by (induction v and vs and d arbitrary: and and k v rule: wf_val_wf_list_wf_items.induct)
    (auto simp: py_eq_items_iff)

lemma py_eq_true: "py_eq v (VBool True) \<longleftrightarrow> num_val v = Some (Fin 1)"
  by (cases v) auto

end
