(* ===== verification/Keypath.thy ===== *)
theory Keypath
  imports Value
begin

text \<open>
  \<open>keypath.py\<close>: the syntax of keypaths and reading and writing a value at one.

  \<open>set_keypath\<close> changes the tree in place while it walks, and an error does not undo what it
  has already created, so the model returns the tree together with the result. Trees are
  pure values: the tree passed in shares no node with anything else, and what is stored is the
  copy \<open>from_json_value\<close> makes.
\<close>

datatype token = TKey string | TIndex int | TAppend | TMatch string pyval

subsection \<open>Parsing\<close>

definition parse_literal :: "string \<Rightarrow> pyval" where
  "parse_literal raw =
     (let text = py_strip raw in
      if 2 \<le> length text \<and> hd text = CHR 0x22 \<and> last text = CHR 0x22
      then VStr (butlast (tl text))
      else if text = ''true'' then VBool True
      else if text = ''false'' then VBool False
      else case py_int text of Some i \<Rightarrow> VInt i
        | None \<Rightarrow> (case py_float text of Some f \<Rightarrow> VFloat f | None \<Rightarrow> VStr text))"

definition bracket_token :: "string \<Rightarrow> token res" where
  "bracket_token content =
     (if content = ''+'' then Inr TAppend
      else if CHR ''='' \<in> set content
      then Inr (TMatch (py_strip (before_first (CHR ''='') content))
                 (parse_literal (after_first (CHR ''='') content)))
      else case py_int content of Some i \<Rightarrow> Inr (TIndex i) | None \<Rightarrow> Inl KeyPathError)"

definition flush :: "string \<Rightarrow> token list" where
  "flush segment = (if segment = [] then [] else [TKey segment])"

function parse_loop :: "string \<Rightarrow> string \<Rightarrow> token list res" where
  "parse_loop segment [] = Inr (flush segment)"
| "parse_loop segment (c # cs) =
     (if c = CHR ''.'' then rbind (parse_loop [] cs) (\<lambda>ts. Inr (flush segment @ ts))
      else if c = CHR ''['' then
        (if CHR '']'' \<notin> set cs then Inl KeyPathError
         else rbind (bracket_token (py_strip (before_first (CHR '']'') cs)))
           (\<lambda>t. rbind (parse_loop [] (after_first (CHR '']'') cs))
             (\<lambda>ts. Inr (flush segment @ t # ts))))
      else parse_loop (segment @ [c]) cs)"
  by pat_completeness auto
termination
  by (relation "measure (\<lambda>(seg, s). length s)")
    (auto simp: after_first_def less_Suc_eq_le intro: le_trans [OF diff_le_self length_dropWhile_le])

definition parse_keypath :: "string \<Rightarrow> token list res" where
  "parse_keypath path = parse_loop [] (py_strip path)"

subsection \<open>Reading\<close>

fun empty_for_next :: "token option \<Rightarrow> pyval" where
  "empty_for_next (Some (TKey k)) = VDict []"
| "empty_for_next None = VDict []"
| "empty_for_next _ = VList []"

definition matches :: "string \<Rightarrow> pyval \<Rightarrow> pyval \<Rightarrow> bool" where
  "matches key val item =
     (case item of
        VDict d \<Rightarrow> py_eq (case dget d key of Some w \<Rightarrow> w | None \<Rightarrow> VNull) val
      | _ \<Rightarrow> False)"

text \<open>\<open>_find_match\<close>, as the position of the item.\<close>

fun find_match :: "pyval list \<Rightarrow> string \<Rightarrow> pyval \<Rightarrow> nat option" where
  "find_match [] key val = None"
| "find_match (x # xs) key val =
     (if matches key val x then Some 0 else map_option Suc (find_match xs key val))"

fun get_step :: "pyval \<Rightarrow> token \<Rightarrow> pyval res" where
  "get_step cur TAppend = Inl KeyPathError"
| "get_step cur (TIndex i) =
     (case cur of VList xs \<Rightarrow> (if 0 \<le> i \<and> i < int (length xs) then Inr (xs ! nat i) else Inl KeyPathError)
      | _ \<Rightarrow> Inl KeyPathError)"
| "get_step cur (TMatch key val) =
     (case cur of VList xs \<Rightarrow> (case find_match xs key val of Some p \<Rightarrow> Inr (xs ! p) | None \<Rightarrow> Inl KeyPathError)
      | _ \<Rightarrow> Inl KeyPathError)"
| "get_step cur (TKey k) =
     (case cur of VDict d \<Rightarrow> (case dget d k of Some v \<Rightarrow> Inr v | None \<Rightarrow> Inl KeyPathError)
      | _ \<Rightarrow> Inl KeyPathError)"

fun get_tokens :: "pyval \<Rightarrow> token list \<Rightarrow> pyval res" where
  "get_tokens cur [] = from_json_value cur"
| "get_tokens cur (t # ts) = rbind (get_step cur t) (\<lambda>v. get_tokens v ts)"

definition get_keypath :: "pyval \<Rightarrow> string \<Rightarrow> pyval res" where
  "get_keypath tree path = rbind (parse_keypath path) (get_tokens tree)"

subsection \<open>Writing\<close>

text \<open>Python indexing: a negative index counts from the end.\<close>

definition list_pos :: "'a list \<Rightarrow> int \<Rightarrow> nat option" where
  "list_pos xs i =
     (let n = int (length xs); j = (if i < 0 then n + i else i)
      in if 0 \<le> j \<and> j < n then Some (nat j) else None)"

definition ensure_list_slot :: "pyval list \<Rightarrow> int \<Rightarrow> token option \<Rightarrow> (pyval list \<times> nat) res" where
  "ensure_list_slot xs i next_token =
     (let xs' = xs @ replicate (nat (i + 1) - length xs) (empty_for_next next_token)
      in case list_pos xs' i of
           None \<Rightarrow> Inl IndexError
         | Some p \<Rightarrow> Inr (if xs' ! p = VNull then xs'[p := empty_for_next next_token] else xs', p))"

definition find_or_create :: "pyval list \<Rightarrow> string \<Rightarrow> pyval \<Rightarrow> pyval list \<times> nat" where
  "find_or_create xs key val =
     (case find_match xs key val of
        Some p \<Rightarrow> (xs, p)
      | None \<Rightarrow> (xs @ [VDict [(key, val)]], length xs))"

definition dict_update :: "('k \<times> 'v) list \<Rightarrow> ('k \<times> 'v) list \<Rightarrow> ('k \<times> 'v) list" where
  "dict_update d e = foldl (\<lambda>acc (k, v). dset acc k v) d e"

text \<open>\<open>current.index(item)\<close>: the first element that is the item or equals it.\<close>

definition index_of :: "pyval list \<Rightarrow> nat \<Rightarrow> nat" where
  "index_of xs p = length (takeWhile (\<lambda>x. \<not> py_eq x (xs ! p)) (take p xs))"

definition key_slot :: "pyval dict \<Rightarrow> string \<Rightarrow> token \<Rightarrow> pyval" where
  "key_slot d k next_token =
     (let v = (case dget d k of None \<Rightarrow> empty_for_next (Some next_token)
               | Some w \<Rightarrow> if w = VNull then empty_for_next (Some next_token) else w)
      in case next_token of
           TMatch key val \<Rightarrow> (case v of VList xs \<Rightarrow> v | _ \<Rightarrow> VList [])
         | _ \<Rightarrow> v)"

fun set_final :: "pyval \<Rightarrow> token \<Rightarrow> pyval \<Rightarrow> pyval \<times> exc option" where
  "set_final cur (TIndex i) enc =
     (case cur of
        VList xs \<Rightarrow>
          (case ensure_list_slot xs i None of
             Inl e \<Rightarrow> (cur, Some e)
           | Inr (xs', p) \<Rightarrow> (VList (xs'[p := enc]), None))
      | _ \<Rightarrow> (cur, Some KeyPathError))"
| "set_final cur TAppend enc =
     (case cur of VList xs \<Rightarrow> (VList (xs @ [enc]), None) | _ \<Rightarrow> (cur, Some KeyPathError))"
| "set_final cur (TMatch key val) enc =
     (case cur of
        VList xs \<Rightarrow>
          (let (xs', p) = find_or_create xs key val
           in case (enc, xs' ! p) of
                (VDict e, VDict d) \<Rightarrow> (VList (xs'[p := VDict (dict_update d e)]), None)
              | _ \<Rightarrow> (VList (xs'[index_of xs' p := enc]), None))
      | _ \<Rightarrow> (cur, Some KeyPathError))"
| "set_final cur (TKey k) enc =
     (case cur of VDict d \<Rightarrow> (VDict (dset d k enc), None) | _ \<Rightarrow> (cur, Some KeyPathError))"

fun set_tokens :: "pyval \<Rightarrow> token list \<Rightarrow> pyval \<Rightarrow> pyval \<times> exc option" where
  "set_tokens cur [] value = (cur, None)"
| "set_tokens cur [final] value =
     (case from_json_value value of
        Inl e \<Rightarrow> (cur, Some e)
      | Inr enc \<Rightarrow> set_final cur final enc)"
| "set_tokens cur (TIndex i # t # ts) value =
     (case cur of
        VList xs \<Rightarrow>
          (case ensure_list_slot xs i (Some t) of
             Inl e \<Rightarrow> (cur, Some e)
           | Inr (xs', p) \<Rightarrow>
               (let (sub, e) = set_tokens (xs' ! p) (t # ts) value in (VList (xs'[p := sub]), e)))
      | _ \<Rightarrow> (cur, Some KeyPathError))"
| "set_tokens cur (TAppend # t # ts) value =
     (case cur of
        VList xs \<Rightarrow>
          (let (sub, e) = set_tokens (empty_for_next (Some t)) (t # ts) value in (VList (xs @ [sub]), e))
      | _ \<Rightarrow> (cur, Some KeyPathError))"
| "set_tokens cur (TMatch key val # t # ts) value =
     (case cur of
        VList xs \<Rightarrow>
          (let (xs', p) = find_or_create xs key val;
               (sub, e) = set_tokens (xs' ! p) (t # ts) value
           in (VList (xs'[p := sub]), e))
      | _ \<Rightarrow> (cur, Some KeyPathError))"
| "set_tokens cur (TKey k # t # ts) value =
     (case cur of
        VDict d \<Rightarrow>
          (let (sub, e) = set_tokens (key_slot d k t) (t # ts) value in (VDict (dset d k sub), e))
      | _ \<Rightarrow> (cur, Some KeyPathError))"

text \<open>The tree afterwards, and what the call returns or raises.\<close>

definition set_keypath :: "pyval \<Rightarrow> string \<Rightarrow> pyval \<Rightarrow> pyval \<times> pyval res" where
  "set_keypath tree path value =
     (case parse_keypath path of
        Inl e \<Rightarrow> (tree, Inl e)
      | Inr [] \<Rightarrow> (tree, from_json_value value)
      | Inr ts \<Rightarrow>
          (case set_tokens tree ts value of
             (tree', None) \<Rightarrow> (tree', Inr tree')
           | (tree', Some e) \<Rightarrow> (tree', Inl e)))"


subsection \<open>Plain paths\<close>

text \<open>
  A plain path is made of keys and indexes from the front. \<open>fits\<close> says that the containers
  already on the way are of the kind the path asks for; what is missing, or \<open>null\<close>, is created.
\<close>

fun plain :: "token \<Rightarrow> bool" where
  "plain (TKey k) = True"
| "plain (TIndex i) = (0 \<le> i)"
| "plain _ = False"

fun fits :: "pyval \<Rightarrow> token list \<Rightarrow> bool" where
  "fits cur [] = True"
| "fits cur (TKey k # ts) =
     (case cur of
        VDict d \<Rightarrow> (case dget d k of None \<Rightarrow> True | Some v \<Rightarrow> v = VNull \<or> fits v ts)
      | _ \<Rightarrow> False)"
| "fits cur (TIndex i # ts) =
     (case cur of
        VList xs \<Rightarrow> (if nat i < length xs then xs ! nat i = VNull \<or> fits (xs ! nat i) ts else True)
      | _ \<Rightarrow> False)"
| "fits cur _ = False"

lemma fits_empty: "plain t \<Longrightarrow> fits (empty_for_next (Some t)) (t # ts)"
  by (cases t) auto

lemma ensure_list_slot_plain:
  assumes "0 \<le> i"
  shows "\<exists>xs'. ensure_list_slot xs i nt = Inr (xs', nat i) \<and> nat i < length xs'
    \<and> length xs \<le> length xs'
    \<and> xs' ! nat i = (if nat i < length xs \<and> xs ! nat i \<noteq> VNull then xs ! nat i else empty_for_next nt)
    \<and> (\<forall>j < length xs. j \<noteq> nat i \<longrightarrow> xs' ! j = xs ! j)"
proof -
  define ys where "ys = xs @ replicate (nat (i + 1) - length xs) (empty_for_next nt)"
  have len: "nat i < length ys" "length xs \<le> length ys" using assms by (auto simp: ys_def)
  have pos: "list_pos ys i = Some (nat i)" using assms len by (simp add: list_pos_def Let_def)
  have old: "j < length xs \<Longrightarrow> ys ! j = xs ! j" for j by (simp add: ys_def nth_append)
  have new: "\<not> nat i < length xs \<Longrightarrow> ys ! nat i = empty_for_next nt"
    using len by (simp add: ys_def nth_append)
  show ?thesis
    using len pos old new
    by (simp add: ensure_list_slot_def Let_def ys_def [symmetric]) fastforce
qed

lemma nat_index: "0 \<le> i \<Longrightarrow> i < int (length xs) \<longleftrightarrow> nat i < length xs"
  by auto

lemma key_slot_plain: "plain t \<Longrightarrow> key_slot d k t =
    (case dget d k of None \<Rightarrow> empty_for_next (Some t)
     | Some w \<Rightarrow> if w = VNull then empty_for_next (Some t) else w)"
  by (cases t) (auto simp: key_slot_def Let_def)

text \<open>A write at a plain path that fits succeeds, and reading there gives the value back.\<close>

lemma set_tokens_fits:
  assumes "ts \<noteq> []" "\<forall>t \<in> set ts. plain t" "fits cur ts" "is_json v"
  shows "\<exists>cur'. set_tokens cur ts v = (cur', None) \<and> get_tokens cur' ts = Inr v"
  using assms
proof (induction cur ts v rule: set_tokens.induct)
  case (2 cur final v)
  show ?case
  proof (cases final)
    case (TKey k)
    with 2 show ?thesis by (cases cur) (auto simp: from_json_value_iff from_json_id)
  next
    case (TIndex i)
    with 2 obtain xs where cur: "cur = VList xs" "0 \<le> i" by (cases cur) auto
    with ensure_list_slot_plain [of i xs None] TIndex 2 show ?thesis
      by (auto simp: from_json_id nat_index)
  qed (use 2 in auto)
next
  case (3 cur i t ts v)
  then obtain xs where cur: "cur = VList xs" and i: "0 \<le> i" by (cases cur) auto
  obtain xs' where xs': "ensure_list_slot xs i (Some t) = Inr (xs', nat i)" "nat i < length xs'"
    "xs' ! nat i = (if nat i < length xs \<and> xs ! nat i \<noteq> VNull then xs ! nat i else empty_for_next (Some t))"
    using ensure_list_slot_plain [OF i, of xs "Some t"] by blast
  have "fits (xs' ! nat i) (t # ts)" using "3.prems" cur xs' fits_empty by (auto split: if_splits)
  then obtain sub where "set_tokens (xs' ! nat i) (t # ts) v = (sub, None)" "get_tokens sub (t # ts) = Inr v"
    using 3(1) [of xs _ xs' "nat i"] cur xs' "3.prems" by fastforce
  then show ?case using cur xs' i by (auto simp: nat_index)
next
  case (6 cur k t ts v)
  then obtain d where cur: "cur = VDict d" by (cases cur) auto
  have "fits (key_slot d k t) (t # ts)"
    using "6.prems" cur fits_empty by (auto simp: key_slot_plain split: option.splits)
  then obtain sub where "set_tokens (key_slot d k t) (t # ts) v = (sub, None)" "get_tokens sub (t # ts) = Inr v"
    using 6 cur by fastforce
  then show ?case using cur by auto
qed auto

lemma set_tokens_only_fits:
  assumes "ts \<noteq> []" "\<forall>t \<in> set ts. plain t" "snd (set_tokens cur ts v) = None"
  shows "fits cur ts"
  using assms
proof (induction cur ts v rule: set_tokens.induct)
  case (2 cur final v)
  then show ?case
    by (cases final; cases cur) (auto split: sum.splits option.splits)
next
  case (3 cur i t ts v)
  then obtain xs where cur: "cur = VList xs" and i: "0 \<le> i" by (cases cur) auto
  obtain xs' where xs': "ensure_list_slot xs i (Some t) = Inr (xs', nat i)"
    "xs' ! nat i = (if nat i < length xs \<and> xs ! nat i \<noteq> VNull then xs ! nat i else empty_for_next (Some t))"
    using ensure_list_slot_plain [OF i, of xs "Some t"] by blast
  have "snd (set_tokens (xs' ! nat i) (t # ts) v) = None"
    using "3.prems"(3) cur xs'(1) by (auto split: prod.splits)
  then have "fits (xs' ! nat i) (t # ts)" using 3(1) [OF cur xs'(1) refl] "3.prems"(2) by simp
  with xs' cur show ?case by (auto split: if_splits)
next
  case (6 cur k t ts v)
  then obtain d where cur: "cur = VDict d" by (cases cur) auto
  with 6 have "fits (key_slot d k t) (t # ts)" by (auto split: prod.splits)
  with cur "6.prems" show ?case by (auto simp: key_slot_plain split: option.splits if_splits)
qed auto


text \<open>
  Two plain paths diverge when they leave their common prefix by different keys or different
  indexes. A write at one leaves what is read at the other as it was, also when it fails.
\<close>

fun diverge :: "token list \<Rightarrow> token list \<Rightarrow> bool" where
  "diverge (s # ss) (t # ts) =
     (case (s, t) of
        (TKey a, TKey b) \<Rightarrow> (if a = b then diverge ss ts else True)
      | (TIndex i, TIndex j) \<Rightarrow> (if i = j then diverge ss ts else True)
      | _ \<Rightarrow> False)"
| "diverge _ _ = False"

lemma diverge_nonempty: "diverge ss ts \<Longrightarrow> ss \<noteq> [] \<and> ts \<noteq> []"
  by (cases ss; cases ts) auto

lemma get_step_index: "0 \<le> j \<Longrightarrow> get_step (VList xs) (TIndex j) =
    (if nat j < length xs then Inr (xs ! nat j) else Inl KeyPathError)"
  by auto

lemma get_tokens_VNull: "ts \<noteq> [] \<Longrightarrow> get_tokens VNull ts = Inl KeyPathError"
  by (cases ts) (auto, case_tac a, auto)

lemma get_step_index_frame:
  assumes "0 \<le> i" "ensure_list_slot xs i nt = Inr (xs', p)" "i \<noteq> j" "0 \<le> j"
    "get_step (VList xs) (TIndex j) = Inr w"
  shows "get_step (VList (xs'[p := u])) (TIndex j) = Inr w"
proof -
  from ensure_list_slot_plain [OF assms(1), of xs nt] assms(2)
  have "p = nat i" "length xs \<le> length xs'" "\<forall>j < length xs. j \<noteq> nat i \<longrightarrow> xs' ! j = xs ! j"
    by auto
  with assms show ?thesis by (auto simp: get_step_index split: if_splits)
qed

lemma set_tokens_frame:
  assumes "diverge ss ts" "\<forall>t \<in> set ss \<union> set ts. plain t" "get_tokens cur ts = Inr w"
  shows "get_tokens (fst (set_tokens cur ss v)) ts = Inr w"
  using assms
proof (induction cur ss v arbitrary: ts rule: set_tokens.induct)
  case (2 cur final v)
  then obtain t ts' where ts: "ts = t # ts'" by (cases ts) auto
  show ?case
  proof (cases final)
    case (TKey a)
    then show ?thesis using 2 ts
      by (cases t; cases cur) (auto split: sum.splits if_splits simp: err_simps)
  next
    case (TIndex i)
    then obtain j where j: "t = TIndex j" "i \<noteq> j" "0 \<le> i" "0 \<le> j"
      using 2 ts by (cases t) (auto split: if_splits)
    show ?thesis
    proof (cases cur)
      case (VList xs)
      from 2 ts j VList obtain u where u: "get_step (VList xs) (TIndex j) = Inr u" "get_tokens u ts' = Inr w"
        by (auto simp del: get_step.simps simp: rbind_Inr_iff)
      show ?thesis
        using TIndex VList ts j u get_step_index_frame [OF j(3) _ j(2) j(4) u(1)]
        by (auto split: sum.splits simp del: get_step.simps)
    qed (use 2 TIndex in \<open>auto split: sum.splits\<close>)
  qed (use 2 in auto)
next
  case (3 cur i t' ss v)
  then obtain j ts' where ts: "ts = TIndex j # ts'" and ij: "0 \<le> i" "0 \<le> j"
    by (cases ts; cases "hd ts") auto
  show ?case
  proof (cases cur)
    case (VList xs)
    obtain xs' where xs': "ensure_list_slot xs i (Some t') = Inr (xs', nat i)" "nat i < length xs'"
      "length xs \<le> length xs'"
      "xs' ! nat i = (if nat i < length xs \<and> xs ! nat i \<noteq> VNull then xs ! nat i else empty_for_next (Some t'))"
      using ensure_list_slot_plain [OF ij(1), of xs "Some t'"] by blast
    from 3 ts VList obtain u where u: "get_step (VList xs) (TIndex j) = Inr u" "get_tokens u ts' = Inr w"
      by (auto simp del: get_step.simps simp: rbind_Inr_iff)
    show ?thesis
    proof (cases "i = j")
      case False
      show ?thesis using get_step_index_frame [OF ij(1) xs'(1) False ij(2) u(1)] xs'(1) VList ts u
        by (auto split: prod.splits simp del: get_step.simps)
    next
      case True
      then have d: "diverge (t' # ss) ts'" using 3 ts by simp
      then have "u \<noteq> VNull" using u(2) get_tokens_VNull diverge_nonempty by fastforce
      then have "xs' ! nat i = u" using u(1) True ij xs' by (auto split: if_splits)
      then have "get_tokens (fst (set_tokens (xs' ! nat i) (t' # ss) v)) ts' = Inr w"
        using 3(1) [OF VList xs'(1) refl, of ts'] d u(2) "3.prems"(2) ts by simp
      then show ?thesis using True VList ts xs' ij
        by (auto split: prod.splits simp: get_step_index simp del: get_step.simps)
    qed
  qed (use 3 in auto)
next
  case (6 cur k t' ss v)
  then obtain l ts' where ts: "ts = TKey l # ts'" by (cases ts; cases "hd ts") auto
  show ?case
  proof (cases cur)
    case (VDict d)
    from 6 ts VDict obtain u where u: "dget d l = Some u" "get_tokens u ts' = Inr w"
      by (auto simp: rbind_Inr_iff split: option.splits)
    show ?thesis
    proof (cases "k = l")
      case False
      then show ?thesis using VDict ts u by (auto split: prod.splits)
    next
      case True
      then have d: "diverge (t' # ss) ts'" using 6 ts by simp
      then have "u \<noteq> VNull" using u(2) get_tokens_VNull diverge_nonempty by fastforce
      then have "key_slot d k t' = u" using u True "6.prems"(2) by (simp add: key_slot_plain)
      then have "get_tokens (fst (set_tokens (key_slot d k t') (t' # ss) v)) ts' = Inr w"
        using 6(1) [OF VDict, of ts'] d u(2) "6.prems"(2) ts by simp
      then show ?thesis using True VDict ts by (auto split: prod.splits)
    qed
  qed (use 6 in auto)
qed auto


subsection \<open>The tree stays JSON\<close>

fun token_json :: "token \<Rightarrow> bool" where
  "token_json (TMatch k v) = is_json v"
| "token_json _ = True"

lemma parse_literal_json: "is_json (parse_literal raw)"
  by (simp add: parse_literal_def Let_def split: option.splits)

lemma bracket_token_json: "bracket_token s = Inr t \<Longrightarrow> token_json t"
  by (auto simp: bracket_token_def parse_literal_json split: if_splits option.splits)

lemma parse_loop_json: "parse_loop seg s = Inr ts \<Longrightarrow> t \<in> set ts \<Longrightarrow> token_json t"
proof (induction seg s arbitrary: ts rule: parse_loop.induct)
  case (2 seg c cs)
  then show ?case
    by (auto simp: rbind_Inr_iff flush_def dest: bracket_token_json split: if_splits)
qed (auto simp: flush_def split: if_splits)

lemma is_json_list_update: "is_json_list xs \<Longrightarrow> is_json v \<Longrightarrow> is_json_list (xs[p := v])"
  by (auto simp: is_json_list_iff dest: set_update_subset_insert [THEN subsetD])

lemma is_json_list_append [simp]: "is_json_list (xs @ ys) \<longleftrightarrow> is_json_list xs \<and> is_json_list ys"
  by (auto simp: is_json_list_iff)

lemma is_json_nth: "is_json_list xs \<Longrightarrow> p < length xs \<Longrightarrow> is_json (xs ! p)"
  by (auto simp: is_json_list_iff)

lemma is_json_empty [simp]: "is_json (empty_for_next t)"
  by (cases t rule: empty_for_next.cases) auto

lemma is_json_dict_update: "is_json_items d \<Longrightarrow> is_json_items e \<Longrightarrow> is_json_items (dict_update d e)"
  unfolding dict_update_def by (induction e arbitrary: d) (auto simp: is_json_dset)

lemma list_pos_bound: "list_pos ys i = Some p \<Longrightarrow> p < length ys"
  by (auto simp: list_pos_def Let_def split: if_splits)

lemma ensure_list_slot_json:
  assumes "is_json_list xs" "ensure_list_slot xs i nt = Inr (xs', p)"
  shows "is_json_list xs' \<and> p < length xs'"
proof -
  define ys where "ys = xs @ replicate (nat (i + 1) - length xs) (empty_for_next nt)"
  have "is_json_list ys" using assms by (auto simp: ys_def is_json_list_iff)
  moreover have "ensure_list_slot xs i nt = (case list_pos ys i of None \<Rightarrow> Inl IndexError
      | Some p \<Rightarrow> Inr (if ys ! p = VNull then ys[p := empty_for_next nt] else ys, p))"
    by (simp only: ensure_list_slot_def Let_def ys_def)
  ultimately show ?thesis using assms(2) list_pos_bound [of ys i]
    by (auto simp: is_json_list_update split: option.splits if_splits)
qed

lemma find_match_bound: "find_match xs k v = Some p \<Longrightarrow> p < length xs"
  by (induction xs arbitrary: p) (auto split: if_splits)

lemma find_or_create_json:
  assumes "is_json_list xs" "is_json v" "find_or_create xs k v = (xs', p)"
  shows "is_json_list xs' \<and> p < length xs'"
  using assms find_match_bound by (auto simp: find_or_create_def split: option.splits)

lemma key_slot_json:
  assumes "is_json_items d"
  shows "is_json (key_slot d k t)"
proof -
  define v where "v = (case dget d k of None \<Rightarrow> empty_for_next (Some t)
    | Some w \<Rightarrow> if w = VNull then empty_for_next (Some t) else w)"
  have "is_json v" using assms by (auto simp: v_def dget_json split: option.splits)
  moreover have "key_slot d k t = (case t of TMatch a b \<Rightarrow> (case v of VList xs \<Rightarrow> v | _ \<Rightarrow> VList []) | _ \<Rightarrow> v)"
    by (simp only: key_slot_def Let_def v_def)
  ultimately show ?thesis by (cases t; cases v) simp_all
qed

lemma set_final_json:
  assumes "is_json cur" "token_json t" "is_json enc"
  shows "is_json (fst (set_final cur t enc))"
proof (cases t)
  case (TMatch k v)
  show ?thesis
  proof (cases cur)
    case (VList xs)
    obtain xs' p where f: "find_or_create xs k v = (xs', p)" by fastforce
    then have j: "is_json_list xs'" "is_json (xs' ! p)"
      using find_or_create_json assms TMatch VList is_json_nth by fastforce+
    then show ?thesis
      using TMatch VList f assms
      by (auto simp: is_json_list_update is_json_dict_update split: pyval.splits)
  qed (use assms TMatch in auto)
next
  case (TIndex i)
  show ?thesis
  proof (cases cur)
    case (VList xs)
    show ?thesis
    proof (cases "ensure_list_slot xs i None")
      case (Inr y)
      then show ?thesis using VList TIndex assms ensure_list_slot_json [of xs i None]
        by (cases y) (simp add: is_json_list_update)
    qed (use VList TIndex assms in simp)
  qed (use assms TIndex in simp_all)
next
  case (TKey k)
  then show ?thesis using assms by (cases cur) (simp_all add: is_json_dset)
next
  case TAppend
  then show ?thesis using assms by (cases cur) simp_all
qed

lemma set_tokens_json:
  assumes "is_json cur" "\<forall>t \<in> set ts. token_json t"
  shows "is_json (fst (set_tokens cur ts v))"
  using assms
proof (induction cur ts v rule: set_tokens.induct)
  case (2 cur final v)
  then show ?case by (auto simp: set_final_json from_json_value_iff split: sum.splits)
next
  case (3 cur i t ts v)
  show ?case
  proof (cases "\<exists>xs xs' p. cur = VList xs \<and> ensure_list_slot xs i (Some t) = Inr (xs', p)")
    case True
    then obtain xs xs' p where c: "cur = VList xs" "ensure_list_slot xs i (Some t) = Inr (xs', p)" by blast
    with 3 have "is_json_list xs'" "is_json (xs' ! p)"
      using ensure_list_slot_json is_json_nth by fastforce+
    with 3(1) [OF c refl] c "3.prems" show ?thesis
      by (auto simp: is_json_list_update split: prod.splits)
  next
    case False
    with 3 show ?thesis by (auto split: pyval.splits sum.splits prod.splits)
  qed
next
  case (4 cur t ts v)
  then show ?case by (auto simp: is_json_list_iff split: pyval.splits prod.splits)
next
  case (5 cur k w t ts v)
  show ?case
  proof (cases cur)
    case (VList xs)
    obtain xs' p where f: "find_or_create xs k w = (xs', p)" by fastforce
    then have "is_json_list xs'" "is_json (xs' ! p)"
      using find_or_create_json 5 VList is_json_nth by fastforce+
    with 5(1) [OF VList f [symmetric] refl] VList f "5.prems" show ?thesis
      by (auto simp: is_json_list_update split: prod.splits)
  qed (use 5 in auto)
next
  case (6 cur k t ts v)
  show ?case
  proof (cases cur)
    case (VDict d)
    with 6(1) [OF VDict] "6.prems" show ?thesis
      by (auto simp: is_json_dset key_slot_json split: prod.splits)
  qed (use 6 in auto)
qed auto

lemma set_keypath_json: "is_json tree \<Longrightarrow> is_json (fst (set_keypath tree path v))"
  using set_tokens_json parse_loop_json
  by (auto simp: set_keypath_def parse_keypath_def split: sum.splits list.splits option.splits prod.splits)
    (metis fst_conv set_tokens_json parse_loop_json)+

lemma get_tokens_json: "get_tokens cur ts = Inr w \<Longrightarrow> is_json w"
  by (induction cur ts rule: get_tokens.induct) (auto simp: rbind_Inr_iff from_json_value_iff)

text \<open>Only a malformed path, a mismatch on the way, a bad negative index or a value that is
  not JSON makes \<open>set_keypath\<close> raise.\<close>

lemma parse_loop_error: "parse_loop seg s = Inl e \<Longrightarrow> e = KeyPathError"
  by (induction seg s rule: parse_loop.induct)
    (auto simp: rbind_Inl_iff bracket_token_def split: if_splits option.splits)

lemma from_json_error:
  "from_json_value v = Inl e \<Longrightarrow> e = CodecError"
  "from_json_list vs = Inl e \<Longrightarrow> e = CodecError"
  "from_json_items d = Inl e \<Longrightarrow> e = CodecError"
  by (induction v and vs and d rule: from_json_value_from_json_list_from_json_items.induct)
    (auto simp: rbind_Inl_iff)

lemma ensure_list_slot_error: "ensure_list_slot xs i nt = Inl e \<Longrightarrow> e = IndexError \<and> i < 0"
  using ensure_list_slot_plain [of i xs nt]
  by (cases "0 \<le> i") (auto simp: ensure_list_slot_def Let_def split: option.splits)

lemma set_tokens_error:
  "snd (set_tokens cur ts v) = Some e \<Longrightarrow>
   e = KeyPathError \<or> (e = CodecError \<and> \<not> is_json v) \<or> (e = IndexError \<and> (\<exists>i. TIndex i \<in> set ts \<and> i < 0))"
proof (induction cur ts v rule: set_tokens.induct)
  case (2 cur final v)
  show ?case
  proof (cases "from_json_value v")
    case (Inl x)
    with 2 from_json_error(1) [OF Inl] show ?thesis by (auto simp: from_json_id)
  next
    case (Inr enc)
    with 2 show ?thesis
      by (cases final) (auto split: pyval.splits sum.splits prod.splits dest!: ensure_list_slot_error)
  qed
next
  case (3 cur i t ts v)
  show ?case
  proof (cases cur)
    case (VList xs)
    show ?thesis
    proof (cases "ensure_list_slot xs i (Some t)")
      case (Inl x)
      with ensure_list_slot_error [OF Inl] VList 3 show ?thesis by auto
    next
      case (Inr y)
      obtain xs' p where y: "y = (xs', p)" by (cases y)
      with Inr VList "3.prems" have "snd (set_tokens (xs' ! p) (t # ts) v) = Some e"
        by (auto split: prod.splits)
      then show ?thesis using 3(1) [OF VList Inr] y by auto
    qed
  qed (use 3 in auto)
next
  case (4 cur t ts v)
  then show ?case by (cases cur) (auto split: prod.splits)
next
  case (5 cur k w t ts v)
  show ?case
  proof (cases cur)
    case (VList xs)
    obtain xs' p where f: "find_or_create xs k w = (xs', p)" by fastforce
    with VList "5.prems" have "snd (set_tokens (xs' ! p) (t # ts) v) = Some e"
      by (auto split: prod.splits)
    then show ?thesis using 5(1) [OF VList f [symmetric] refl] by auto
  qed (use 5 in auto)
next
  case (6 cur k t ts v)
  then show ?case by (cases cur) (auto split: prod.splits)
qed auto


subsection \<open>The syntax of plain paths\<close>

fun render_token :: "token \<Rightarrow> string" where
  "render_token (TKey k) = CHR ''.'' # k"
| "render_token (TIndex i) = ''['' @ show_nat (nat i) @ '']''"
| "render_token TAppend = ''[+]''"
| "render_token (TMatch k v) = []"

definition render :: "token list \<Rightarrow> string" where
  "render ts = concat (map render_token ts)"

definition key_ok :: "string \<Rightarrow> bool" where
  "key_ok k \<longleftrightarrow> k \<noteq> [] \<and> (\<forall>c \<in> set k. c \<noteq> CHR ''.'' \<and> c \<noteq> CHR ''['' \<and> solid c)"

fun token_ok :: "token \<Rightarrow> bool" where
  "token_ok (TKey k) = key_ok k"
| "token_ok (TIndex i) = (0 \<le> i)"
| "token_ok TAppend = True"
| "token_ok (TMatch k v) = False"

fun token_start :: "string \<Rightarrow> bool" where
  "token_start [] = True"
| "token_start (c # cs) = (c = CHR ''.'' \<or> c = CHR ''['')"

lemma parse_loop_segment:
  "\<forall>c \<in> set k. c \<noteq> CHR ''.'' \<and> c \<noteq> CHR ''['' \<Longrightarrow> parse_loop seg (k @ s) = parse_loop (seg @ k) s"
  by (induction k arbitrary: seg) auto

lemma parse_loop_flush:
  "token_start s \<Longrightarrow> parse_loop seg s = rbind (parse_loop [] s) (\<lambda>ts. Inr (flush seg @ ts))"
  by (cases s; cases "parse_loop [] (tl s)"; cases "bracket_token (py_strip (before_first CHR '']'' (tl s)))";
      cases "parse_loop [] (after_first CHR '']'' (tl s))") (auto simp: flush_def)

lemma token_start_render: "\<forall>t \<in> set ts. token_ok t \<Longrightarrow> token_start (render ts)"
  by (cases ts; cases "hd ts") (auto simp: render_def)

lemma not_in_show_nat: "\<not> is_digit c \<Longrightarrow> c \<notin> set (show_nat n)"
  using show_nat_digits [of n] by (auto simp: list_all_iff)

lemma bracket_show_nat: "bracket_token (show_nat n) = Inr (TIndex (int n))"
proof -
  have "show_nat n \<noteq> ''+''" "CHR ''='' \<notin> set (show_nat n)"
    using show_nat_digits [of n] by (auto simp: list_all_iff is_digit_def)
  then show ?thesis by (simp add: bracket_token_def py_int_show_nat)
qed

lemma before_first_append: "c \<notin> set w \<Longrightarrow> before_first c (w @ c # s) = w"
  by (simp add: before_first_def takeWhile_tail) (induction w, auto)

lemma after_first_append: "c \<notin> set w \<Longrightarrow> after_first c (w @ c # s) = s"
  by (induction w) (auto simp: after_first_def)

lemma parse_render_loop: "\<forall>t \<in> set ts. token_ok t \<Longrightarrow> parse_loop [] (render ts) = Inr ts"
proof (induction ts)
  case (Cons t ts)
  then have IH: "parse_loop [] (render ts) = Inr ts" and s: "token_start (render ts)"
    by (simp_all add: token_start_render)
  have r: "render (t # ts) = render_token t @ render ts" by (simp add: render_def)
  show ?case
  proof (cases t)
    case (TKey k)
    with Cons have "k \<noteq> []" "\<forall>c \<in> set k. c \<noteq> CHR ''.'' \<and> c \<noteq> CHR ''[''" by (auto simp: key_ok_def)
    then show ?thesis using TKey r IH parse_loop_flush [OF s, of k] parse_loop_segment [of k "[]" "render ts"]
      by (simp add: flush_def)
  next
    case (TIndex i)
    have "CHR '']'' \<notin> set (show_nat (nat i))" by (rule not_in_show_nat) (simp add: is_digit_def)
    then show ?thesis using TIndex r IH Cons.prems
      by (simp add: before_first_append after_first_append bracket_show_nat flush_def)
  next
    case TAppend
    have "bracket_token ''+'' = Inr TAppend" "py_strip ''+'' = ''+''"
      by (simp_all add: bracket_token_def, simp add: py_strip_id solid_def is_space_def)
    then show ?thesis using TAppend r IH
      by (simp add: before_first_def after_first_def flush_def)
  qed (use Cons in auto)
qed (simp add: render_def flush_def)

lemma render_token_ends:
  "token_ok t \<Longrightarrow> render_token t \<noteq> [] \<and> solid (hd (render_token t)) \<and> solid (last (render_token t))"
  by (cases t) (auto simp: key_ok_def solid_def is_space_def)

lemma render_strip: "\<forall>t \<in> set ts. token_ok t \<Longrightarrow> py_strip (render ts) = render ts"
proof (cases ts rule: rev_cases)
  case (snoc us u)
  assume ok: "\<forall>t \<in> set ts. token_ok t"
  then have "render ts \<noteq> [] \<and> solid (last (render ts))"
    using render_token_ends [of u] snoc by (auto simp: render_def)
  moreover obtain v vs where "ts = v # vs" using snoc that by (cases us) auto
  then have "solid (hd (render ts))"
    using render_token_ends [of v] ok by (simp add: render_def)
  ultimately show ?thesis by (simp add: py_strip_id)
qed (simp add: render_def)

lemma parse_render: "\<forall>t \<in> set ts. token_ok t \<Longrightarrow> parse_keypath (render ts) = Inr ts"
  by (simp add: parse_keypath_def render_strip parse_render_loop)

subsection \<open>What reading and writing promise\<close>

text \<open>
  C17: for a path of keys and non-negative indexes and a JSON value, \<open>set_keypath\<close> returns exactly
  when the containers already on the way have the kind the path asks for; it then returns the
  tree it changed, and \<open>get_keypath\<close> at the same path reads the value back.
\<close>

theorem set_keypath_get:
  assumes "parse_keypath path = Inr ts" "ts \<noteq> []" "\<forall>t \<in> set ts. plain t" "is_json v"
  shows "(\<exists>r. snd (set_keypath tree path v) = Inr r) = fits tree ts
    \<and> (fits tree ts \<longrightarrow> snd (set_keypath tree path v) = Inr (fst (set_keypath tree path v))
        \<and> get_keypath (fst (set_keypath tree path v)) path = Inr v)"
proof -
  obtain t ts' where ts: "ts = t # ts'" using assms(2) by (cases ts) auto
  obtain cur e where r: "set_tokens tree ts v = (cur, e)" by fastforce
  have sk: "set_keypath tree path v = (case e of None \<Rightarrow> (cur, Inr cur) | Some x \<Rightarrow> (cur, Inl x))"
    using assms(1) r by (simp add: set_keypath_def ts)
  show ?thesis
  proof (cases "fits tree ts")
    case True
    from set_tokens_fits [OF assms(2,3) True assms(4)] r
    have "e = None" "get_tokens cur ts = Inr v" by auto
    with True sk assms(1) show ?thesis by (simp add: get_keypath_def)
  next
    case False
    with set_tokens_only_fits [OF assms(2,3), of tree v] r show ?thesis
      by (cases e) (auto simp: sk)
  qed
qed

lemma set_keypath_get_witness:
  "get_keypath (fst (set_keypath (VDict [(''a'', VNull)]) ''a[1].b'' (VInt 7))) ''a[1].b'' = Inr (VInt 7)"
proof -
  have "parse_keypath ''a[1].b'' = Inr [TKey ''a'', TIndex 1, TKey ''b'']" by code_simp
  from set_keypath_get [OF this, of "VInt 7" "VDict [(''a'', VNull)]"] show ?thesis by simp
qed

text \<open>
  C18: a write at one plain path leaves what any diverging plain path read before it as it was,
  whether the write returns or raises half way. This is about paths that could be read: padding a
  list can make a diverging path readable that was not (\<open>padding_adds\<close>).
\<close>

theorem set_keypath_frame:
  assumes "parse_keypath p = Inr ss" "parse_keypath q = Inr ts" "diverge ss ts"
    and "\<forall>t \<in> set ss \<union> set ts. plain t" "get_keypath tree q = Inr w"
  shows "get_keypath (fst (set_keypath tree p v)) q = Inr w"
proof -
  obtain s ss' where "ss = s # ss'" using diverge_nonempty [OF assms(3)] by (cases ss) auto
  then have "fst (set_keypath tree p v) = fst (set_tokens tree ss v)"
    using assms(1) by (auto simp: set_keypath_def split: prod.splits option.splits)
  then show ?thesis using assms set_tokens_frame [OF assms(3,4)] by (simp add: get_keypath_def)
qed

lemma padding_adds:
  "get_keypath (VDict []) ''a[1]'' = Inl KeyPathError
   \<and> get_keypath (fst (set_keypath (VDict []) ''a[2].x'' VNull)) ''a[1]'' = Inr (VDict [])"
  by code_simp

lemma set_keypath_frame_witness:
  "get_keypath (fst (set_keypath (VDict [(''a'', VList [VInt 4])]) ''a[2].x'' (VInt 1))) ''a[0]'' = Inr (VInt 4)"
proof -
  have p: "parse_keypath ''a[2].x'' = Inr [TKey ''a'', TIndex 2, TKey ''x'']" by code_simp
  have q: "parse_keypath ''a[0]'' = Inr [TKey ''a'', TIndex 0]" by code_simp
  have "get_keypath (VDict [(''a'', VList [VInt 4])]) ''a[0]'' = Inr (VInt 4)"
    using q by (simp add: get_keypath_def)
  from set_keypath_frame [OF p q _ _ this, of "VInt 1"] show ?thesis by simp
qed

text \<open>
  C25: \<open>set_keypath\<close> keeps a JSON tree JSON even when it raises, whatever value and path it is given;
  it raises only \<open>KeyPathError\<close>, \<open>CodecError\<close> for a value that is not JSON, or \<open>IndexError\<close>
  for a path with a negative index.
\<close>

theorem set_keypath_safe:
  assumes "is_json tree"
  shows "is_json (fst (set_keypath tree path v))
    \<and> (\<forall>e. snd (set_keypath tree path v) = Inl e \<longrightarrow>
          e = KeyPathError \<or> (e = CodecError \<and> \<not> is_json v)
          \<or> (e = IndexError \<and> (\<exists>ts i. parse_keypath path = Inr ts \<and> TIndex i \<in> set ts \<and> i < 0)))"
proof (intro conjI allI impI)
  fix e assume "snd (set_keypath tree path v) = Inl e"
  then consider "parse_keypath path = Inl e" | "parse_keypath path = Inr []" "from_json_value v = Inl e"
    | ts where "parse_keypath path = Inr ts" "snd (set_tokens tree ts v) = Some e"
    by (auto simp: set_keypath_def split: sum.splits list.splits prod.splits option.splits)
  then show "e = KeyPathError \<or> (e = CodecError \<and> \<not> is_json v)
          \<or> (e = IndexError \<and> (\<exists>ts i. parse_keypath path = Inr ts \<and> TIndex i \<in> set ts \<and> i < 0))"
  proof cases
    case 1
    then show ?thesis using parse_loop_error by (auto simp: parse_keypath_def)
  next
    case 2
    then show ?thesis using from_json_error(1) by (auto simp: from_json_id)
  next
    case 3
    then show ?thesis using set_tokens_error by blast
  qed
qed (rule set_keypath_json [OF assms])

lemma set_keypath_safe_witness:
  "is_json (fst (set_keypath (VDict [(''a'', VInt 1)]) ''b.c[x]'' VNull))"
  using set_keypath_safe [of "VDict [(''a'', VInt 1)]" "''b.c[x]''" VNull] by simp

text \<open>
  Writing out a list of tokens (keys with a dot in front, indexes and the append token in
  brackets) and parsing it gives the tokens back.
\<close>

lemma parse_keypath_render:
  assumes "\<forall>t \<in> set ts. token_ok t"
  shows "parse_keypath (render ts) = Inr ts"
  by (rule parse_render [OF assms])

lemma parse_keypath_render_witness:
  "parse_keypath ''.notes[3].title[+]'' = Inr [TKey ''notes'', TIndex 3, TKey ''title'', TAppend]"
proof -
  have "show_nat 3 = ''3''" by code_simp
  then show ?thesis
    using parse_keypath_render [of "[TKey ''notes'', TIndex 3, TKey ''title'', TAppend]"]
    by (simp add: key_ok_def solid_def is_space_def render_def)
qed

end
