(* ===== verification/Json_Text.thy ===== *)
theory Json_Text
  imports Value
begin

text \<open>
  \<open>json.loads\<close>, the parser of the standard library that the code reads every wire document
  with: white space, the literals (\<open>NaN\<close> and the infinities among them), numbers, strings with
  escapes, arrays, and objects whose repeated key keeps the last value. Control characters in a
  string, a trailing comma and text after the value are errors.

  A \<open>\u\<close> escape of a lone surrogate gives the three bytes that \<open>surrogatepass\<close> would write. The
  recursion is bounded by fuel, and twice the length of the text is enough: a parse that succeeds
  with any fuel succeeds with that much (\<open>json_fuel_enough\<close>). Python's recursion limit, its limit
  on the digits of an integer, and the detection of UTF-16, UTF-32 and byte-order marks in
  \<open>json.loads(bytes)\<close> are not modelled.
\<close>

subsection \<open>Characters\<close>

definition json_space :: "char \<Rightarrow> bool" where
  "json_space c \<longleftrightarrow> (let n = of_char c :: nat in n = 32 \<or> n = 9 \<or> n = 10 \<or> n = 13)"

definition skip_space :: "string \<Rightarrow> string" where
  "skip_space s = dropWhile json_space s"

definition hex_val :: "char \<Rightarrow> nat option" where
  "hex_val c =
     (let n = of_char c :: nat in
      if 48 \<le> n \<and> n \<le> 57 then Some (n - 48)
      else if 97 \<le> n \<and> n \<le> 102 then Some (n - 87)
      else if 65 \<le> n \<and> n \<le> 70 then Some (n - 55) else None)"

fun hex4 :: "string \<Rightarrow> (nat \<times> string) option" where
  "hex4 (a # b # c # d # s) =
     (case (hex_val a, hex_val b, hex_val c, hex_val d) of
        (Some i, Some j, Some k, Some l) \<Rightarrow> Some (4096 * i + 256 * j + 16 * k + l, s)
      | _ \<Rightarrow> None)"
| "hex4 _ = None"

text \<open>The UTF-8 encoding of a code point.\<close>

definition utf8_of :: "nat \<Rightarrow> string" where
  "utf8_of n =
     (if n < 0x80 then [char_of n]
      else if n < 0x800 then [char_of (0xC0 + n div 64), char_of (0x80 + n mod 64)]
      else if n < 0x10000 then
        [char_of (0xE0 + n div 4096), char_of (0x80 + n div 64 mod 64), char_of (0x80 + n mod 64)]
      else
        [char_of (0xF0 + n div 262144), char_of (0x80 + n div 4096 mod 64),
         char_of (0x80 + n div 64 mod 64), char_of (0x80 + n mod 64)])"

subsection \<open>Strings\<close>

definition simple_escape :: "char \<Rightarrow> char option" where
  "simple_escape c =
     (if c = CHR 0x22 \<or> c = CHR 0x5C \<or> c = CHR ''/'' then Some c
      else if c = CHR ''b'' then Some (CHR 0x08)
      else if c = CHR ''f'' then Some (CHR 0x0C)
      else if c = CHR ''n'' then Some (CHR 0x0A)
      else if c = CHR ''r'' then Some (CHR 0x0D)
      else if c = CHR ''t'' then Some (CHR 0x09) else None)"

text \<open>The code point of a \<open>\u\<close> escape: a high surrogate takes the low one that follows.\<close>

definition unicode_escape :: "string \<Rightarrow> (nat \<times> string) option" where
  "unicode_escape s =
     (case hex4 s of
        None \<Rightarrow> None
      | Some (n, rest) \<Rightarrow>
          (if 0xD800 \<le> n \<and> n \<le> 0xDBFF \<and> take 2 rest = [CHR 0x5C, CHR ''u''] then
             (case hex4 (drop 2 rest) of
                Some (m, rest') \<Rightarrow>
                  (if 0xDC00 \<le> m \<and> m \<le> 0xDFFF
                   then Some (0x10000 + 1024 * (n - 0xD800) + (m - 0xDC00), rest')
                   else Some (n, rest))
              | None \<Rightarrow> None)
           else Some (n, rest)))"

lemma hex4_length: "hex4 s = Some (n, t) \<Longrightarrow> length t < length s"
  by (cases s rule: hex4.cases) (auto split: option.splits)

lemma unicode_escape_length: "unicode_escape s = Some (n, t) \<Longrightarrow> length t < length s"
  by (auto simp: unicode_escape_def split: option.splits if_splits dest!: hex4_length)

text \<open>After the opening quote: the text of the string and what follows the closing quote.\<close>

function json_string :: "string \<Rightarrow> (string \<times> string) option" where
  "json_string [] = None"
| "json_string (c # s) =
     (if c = CHR 0x22 then Some ([], s)
      else if c = CHR 0x5C then
        (case s of
           [] \<Rightarrow> None
         | d # s' \<Rightarrow>
             (if d = CHR ''u'' then
                (case unicode_escape s' of
                   Some (n, t) \<Rightarrow> map_option (\<lambda>(w, r). (utf8_of n @ w, r)) (json_string t)
                 | None \<Rightarrow> None)
              else
                (case simple_escape d of
                   Some e \<Rightarrow> map_option (\<lambda>(w, r). (e # w, r)) (json_string s')
                 | None \<Rightarrow> None)))
      else if (of_char c :: nat) < 32 then None
      else map_option (\<lambda>(w, r). (c # w, r)) (json_string s))"
  by pat_completeness auto
termination
  by (relation "measure length") (auto dest: unicode_escape_length)

subsection \<open>Numbers\<close>

definition json_sign :: "string \<Rightarrow> string \<times> string" where
  "json_sign s = (case s of c # t \<Rightarrow> if c = CHR ''-'' then ([c], t) else ([], s) | [] \<Rightarrow> ([], s))"

definition json_whole :: "string \<Rightarrow> (string \<times> string) option" where
  "json_whole s =
     (case s of
        [] \<Rightarrow> None
      | c # t \<Rightarrow>
          if c = CHR ''0'' then Some ([c], t)
          else if is_digit c then Some (takeWhile is_digit s, dropWhile is_digit s)
          else None)"

definition json_fraction :: "string \<Rightarrow> string \<times> string" where
  "json_fraction s =
     (case s of
        c # t \<Rightarrow>
          if c = CHR ''.'' \<and> takeWhile is_digit t \<noteq> []
          then (c # takeWhile is_digit t, dropWhile is_digit t) else ([], s)
      | [] \<Rightarrow> ([], s))"

definition json_exponent :: "string \<Rightarrow> string \<times> string" where
  "json_exponent s =
     (case s of
        c # t \<Rightarrow>
          (if c = CHR ''e'' \<or> c = CHR ''E'' then
             (let (sg, u) = (case t of d # u \<Rightarrow> if d = CHR ''-'' \<or> d = CHR ''+'' then ([d], u) else ([], t)
                             | [] \<Rightarrow> ([], t))
              in if takeWhile is_digit u \<noteq> [] then (c # sg @ takeWhile is_digit u, dropWhile is_digit u)
                 else ([], s))
           else ([], s))
      | [] \<Rightarrow> ([], s))"

definition json_number :: "string \<Rightarrow> (pyval \<times> string) option" where
  "json_number s =
     (let (sg, a) = json_sign s in
      case json_whole a of
        None \<Rightarrow> None
      | Some (w, b) \<Rightarrow>
          let (f, c) = json_fraction b; (e, d) = json_exponent c in
          if f = [] \<and> e = [] then map_option (\<lambda>i. (VInt i, d)) (py_int (sg @ w))
          else map_option (\<lambda>x. (VFloat x, d)) (py_float (sg @ w @ f @ e)))"

subsection \<open>Values\<close>

definition json_literals :: "(string \<times> pyval) list" where
  "json_literals =
     [(''null'', VNull), (''true'', VBool True), (''false'', VBool False),
      (''NaN'', VFloat NaN), (''Infinity'', VFloat PosInf), (''-Infinity'', VFloat NegInf)]"

definition json_literal :: "string \<Rightarrow> (pyval \<times> string) option" where
  "json_literal s =
     (case find (\<lambda>(w, v). startswith s w) json_literals of
        Some (w, v) \<Rightarrow> Some (v, drop (length w) s)
      | None \<Rightarrow> None)"

definition next_char :: "string \<Rightarrow> (char \<times> string) option" where
  "next_char s = (case skip_space s of [] \<Rightarrow> None | c # t \<Rightarrow> Some (c, t))"

text \<open>A member's name, the colon after it and the white space around the colon.\<close>

definition json_key :: "string \<Rightarrow> (string \<times> string) option" where
  "json_key s =
     (case s of
        [] \<Rightarrow> None
      | q # t \<Rightarrow>
          if q \<noteq> CHR 0x22 then None
          else Option.bind (json_string t) (\<lambda>(k, r).
            Option.bind (next_char r) (\<lambda>(c, u).
              if c = CHR '':'' then Some (k, skip_space u) else None)))"

definition json_atom :: "string \<Rightarrow> (pyval \<times> string) option" where
  "json_atom s =
     (if startswith s [CHR 0x22] then map_option (\<lambda>(w, r). (VStr w, r)) (json_string (drop 1 s))
      else case json_literal s of Some x \<Rightarrow> Some x | None \<Rightarrow> json_number s)"

fun json_value :: "nat \<Rightarrow> string \<Rightarrow> (pyval \<times> string) option"
and json_elems :: "nat \<Rightarrow> string \<Rightarrow> (pyval list \<times> string) option"
and json_members :: "nat \<Rightarrow> pyval dict \<Rightarrow> string \<Rightarrow> (pyval dict \<times> string) option" where
  "json_value 0 s = None"
| "json_value (Suc n) [] = None"
| "json_value (Suc n) (c # t) =
     (if c = CHR ''{'' then
        Option.bind (next_char t) (\<lambda>(d, u).
          if d = CHR ''}'' then Some (VDict [], u)
          else map_option (\<lambda>(es, r). (VDict es, r)) (json_members n [] (d # u)))
      else if c = CHR ''['' then
        Option.bind (next_char t) (\<lambda>(d, u).
          if d = CHR '']'' then Some (VList [], u)
          else map_option (\<lambda>(vs, r). (VList vs, r)) (json_elems n (d # u)))
      else json_atom (c # t))"
| "json_elems 0 s = None"
| "json_elems (Suc n) s =
     Option.bind (json_value n s) (\<lambda>(v, r).
       Option.bind (next_char r) (\<lambda>(c, u).
         if c = CHR '']'' then Some ([v], u)
         else if c = CHR '','' then map_option (\<lambda>(vs, x). (v # vs, x)) (json_elems n (skip_space u))
         else None))"
| "json_members 0 d s = None"
| "json_members (Suc n) d s =
     Option.bind (json_key s) (\<lambda>(k, t).
       Option.bind (json_value n t) (\<lambda>(v, r).
         Option.bind (next_char r) (\<lambda>(c, u).
           if c = CHR ''}'' then Some (dset d k v, u)
           else if c = CHR '','' then json_members n (dset d k v) (skip_space u)
           else None)))"

definition json_parse :: "string \<Rightarrow> pyval res" where
  "json_parse s =
     (case json_value (Suc (2 * length s)) (skip_space s) of
        Some (v, r) \<Rightarrow> (if skip_space r = [] then Inr v else Inl ValueError)
      | None \<Rightarrow> Inl ValueError)"

definition json_loads :: "bytes \<Rightarrow> pyval res" where
  "json_loads data = rbind (decode_utf8 data) json_parse"


subsection \<open>The fuel is enough\<close>

lemma skip_space_length: "length (skip_space s) \<le> length s"
  by (simp add: skip_space_def length_dropWhile_le)

lemma json_string_length: "json_string s = Some (w, r) \<Longrightarrow> length r < length s"
proof (induction s arbitrary: w r rule: json_string.induct)
  case (2 c s)
  show ?case
  proof (cases "c = CHR 0x22 \<or> c \<noteq> CHR 0x5C")
    case True
    with 2 show ?thesis by (auto split: if_splits)
  next
    case False
    then obtain d s' where s: "s = d # s'" using 2 by (cases s) auto
    show ?thesis
    proof (cases "d = CHR ''u''")
      case True
      with 2 False s obtain n t w' where "unicode_escape s' = Some (n, t)" "json_string t = Some (w', r)"
        by (auto split: option.splits)
      with 2(1) [of d s' "(n, t)" n t] False s True unicode_escape_length show ?thesis by force
    next
      case u: False
      with 2 False s obtain e w' where "simple_escape d = Some e" "json_string s' = Some (w', r)"
        by (auto split: option.splits)
      with 2(2) [of d s' e] False s u show ?thesis by force
    qed
  qed
qed simp

lemma json_number_length: "json_number s = Some (v, r) \<Longrightarrow> length r < length s"
proof -
  assume a: "json_number s = Some (v, r)"
  obtain sg x where sg: "json_sign s = (sg, x)" by fastforce
  then obtain w y where w: "json_whole x = Some (w, y)" using a by (auto simp: json_number_def split: option.splits)
  obtain f z where f: "json_fraction y = (f, z)" by fastforce
  obtain e r' where e: "json_exponent z = (e, r')" by fastforce
  have "r = r'" using a sg w f e by (auto simp: json_number_def Let_def split: if_splits)
  moreover have "length x \<le> length s" using sg by (auto simp: json_sign_def split: list.splits if_splits)
  moreover have "length y < length x"
    using w by (auto simp: json_whole_def less_Suc_eq_le length_dropWhile_le split: list.splits if_splits)
  moreover have "length z \<le> length y"
    using f by (auto simp: json_fraction_def le_SucI length_dropWhile_le split: list.splits if_splits)
  moreover have "length r' \<le> length z"
    using e by (auto simp: json_exponent_def Let_def le_SucI length_dropWhile_le split: list.splits if_splits)
  ultimately show "length r < length s" by simp
qed

lemma json_literal_length: "json_literal s = Some (v, r) \<Longrightarrow> length r < length s"
  unfolding json_literal_def json_literals_def
  by (cases s) (auto simp: startswith_def split: if_splits)

lemma next_char_length: "next_char s = Some (c, t) \<Longrightarrow> length t < length s"
  using skip_space_length [of s] by (auto simp: next_char_def split: list.splits)

lemma json_key_length: "json_key s = Some (k, t) \<Longrightarrow> length t < length s"
proof -
  assume a: "json_key s = Some (k, t)"
  then obtain q x r c u where "s = q # x" "json_string x = Some (k, r)" "next_char r = Some (c, u)" "t = skip_space u"
    by (auto simp: json_key_def bind_eq_Some_conv split: list.splits if_splits)
  then show "length t < length s"
    using json_string_length [of x k r] next_char_length [of r c u] skip_space_length [of u] by simp
qed

lemma json_atom_length: "json_atom s = Some (v, r) \<Longrightarrow> length r < length s"
  by (auto simp: json_atom_def startswith_def split: if_splits option.splits
      dest!: json_string_length json_literal_length json_number_length)

lemma json_value_length:
  "json_value n s = Some (v, r) \<Longrightarrow> length r < length s"
  "json_elems n s = Some (vs, r) \<Longrightarrow> length r < length s"
  "json_members n d s = Some (es, r) \<Longrightarrow> length r < length s"
proof (induction n s and n s and n d s arbitrary: v r and vs r and es r
    rule: json_value_json_elems_json_members.induct)
  case (3 n c t)
  show ?case
  proof (cases "c = CHR ''{'' \<or> c = CHR ''[''")
    case True
    with "3.prems" obtain d u where d: "next_char t = Some (d, u)"
      by (auto simp: bind_eq_Some_conv split: if_splits)
    show ?thesis
      using 3(1) [OF _ d refl] 3(2) [OF _ _ d refl] "3.prems" d next_char_length [OF d] True
      by (auto split: if_splits)
  qed (use "3.prems" json_atom_length [of "c # t" v r] in simp)
next
  case (5 n s)
  then obtain w x c u where w: "json_value n s = Some (w, x)" and c: "next_char x = Some (c, u)"
    by (auto simp: bind_eq_Some_conv)
  have "length u < length s"
    using 5(1) [OF w] next_char_length [OF c] by simp
  then show ?case
    using "5.prems" 5(2) [OF w refl c refl] w c skip_space_length [of u]
    by (auto split: if_splits)
next
  case (7 n d s)
  then obtain k t w x c u where k: "json_key s = Some (k, t)" and w: "json_value n t = Some (w, x)"
    and c: "next_char x = Some (c, u)"
    by (auto simp: bind_eq_Some_conv)
  have "length u < length s"
    using json_key_length [OF k] 7(1) [OF k refl w] next_char_length [OF c] by simp
  then show ?case
    using "7.prems" 7(2) [OF k refl w refl c refl] k w c skip_space_length [of u]
    by (auto split: if_splits)
qed auto

text \<open>More fuel does not change a result, and beyond twice the length it changes nothing.\<close>

lemma json_value_mono:
  "json_value n s = Some x \<Longrightarrow> json_value (Suc n) s = Some x"
  "json_elems n s = Some y \<Longrightarrow> json_elems (Suc n) s = Some y"
  "json_members n d s = Some z \<Longrightarrow> json_members (Suc n) d s = Some z"
proof (induction n s and n s and n d s arbitrary: x and y and z
    rule: json_value_json_elems_json_members.induct)
  case (3 n c t)
  show ?case
  proof (cases "c = CHR ''{'' \<or> c = CHR ''[''")
    case True
    with "3.prems" obtain d u where d: "next_char t = Some (d, u)"
      by (auto simp: bind_eq_Some_conv split: if_splits)
    show ?thesis
      using 3(1) [OF _ d refl] 3(2) [OF _ _ d refl] "3.prems" d True
      by (auto split: if_splits)
  qed (use "3.prems" in auto)
next
  case (5 n s)
  then obtain w r c u where w: "json_value n s = Some (w, r)" and c: "next_char r = Some (c, u)"
    by (auto simp: bind_eq_Some_conv)
  with "5.prems" 5(1) [OF w] 5(2) [OF w refl c refl] show ?case
    by (auto split: if_splits)
next
  case (7 n d s)
  then obtain k t w r c u where k: "json_key s = Some (k, t)" and w: "json_value n t = Some (w, r)"
    and c: "next_char r = Some (c, u)"
    by (auto simp: bind_eq_Some_conv)
  with "7.prems" 7(1) [OF k refl w] 7(2) [OF k refl w refl c refl] show ?case
    by (auto split: if_splits)
qed auto

lemma json_value_stable:
  "2 * length s < n \<Longrightarrow> json_value (Suc n) s = json_value n s"
  "2 * length s + 1 < n \<Longrightarrow> json_elems (Suc n) s = json_elems n s"
  "2 * length s + 1 < n \<Longrightarrow> json_members (Suc n) d s = json_members n d s"
proof (induction n s and n s and n d s rule: json_value_json_elems_json_members.induct)
  case (3 n c t)
  show ?case
  proof (cases "next_char t")
    case (Some du)
    then obtain d u where d: "next_char t = Some (d, u)" by (cases du) auto
    from 3(1) [OF _ d refl] 3(2) [OF _ _ d refl] "3.prems" next_char_length [OF d] d show ?thesis
      by (cases "c = CHR ''{''"; cases "c = CHR ''[''"; cases "d = CHR ''}''"; cases "d = CHR '']''")
        (simp_all del: json_elems.simps json_members.simps)
  qed simp
next
  case (5 n s)
  then have e: "json_value (Suc n) s = json_value n s" by simp
  show ?case
  proof (cases "\<exists>w r c u. json_value n s = Some (w, r) \<and> next_char r = Some (c, u)")
    case True
    then obtain w r c u where w: "json_value n s = Some (w, r)" and c: "next_char r = Some (c, u)" by blast
    have "length (skip_space u) + 1 < length s"
      using json_value_length(1) [OF w] next_char_length [OF c] skip_space_length [of u] by simp
    with e w c 5(2) [OF w refl c refl] "5.prems" show ?thesis by simp
  next
    case False
    then have "json_value n s = None \<or> (\<exists>w r. json_value n s = Some (w, r) \<and> next_char r = None)"
      by (cases "json_value n s") force+
    then show ?thesis unfolding json_elems.simps e by auto
  qed
next
  case (7 n d s)
  show ?case
  proof (cases "json_key s")
    case (Some kt)
    then obtain k t where k: "json_key s = Some (k, t)" by (cases kt) auto
    have l: "length t < length s" by (rule json_key_length [OF k])
    then have e: "json_value (Suc n) t = json_value n t" using 7(1) [OF k refl] "7.prems" by simp
    show ?thesis
    proof (cases "\<exists>w r c u. json_value n t = Some (w, r) \<and> next_char r = Some (c, u)")
      case True
      then obtain w r c u where w: "json_value n t = Some (w, r)" and c: "next_char r = Some (c, u)" by blast
      have "length (skip_space u) + 1 < length s"
        using l json_value_length(1) [OF w] next_char_length [OF c] skip_space_length [of u] by simp
      with e k w c 7(2) [OF k refl w refl c refl] "7.prems" show ?thesis by simp
    next
      case False
      then have "json_value n t = None \<or> (\<exists>w r. json_value n t = Some (w, r) \<and> next_char r = None)"
        by (cases "json_value n t") force+
      with e k show ?thesis by auto
    qed
  qed simp
qed auto

lemma json_value_more: "json_value n s = Some x \<Longrightarrow> n \<le> m \<Longrightarrow> json_value m s = Some x"
  by (induction m) (auto simp: le_Suc_eq json_value_mono)

lemma json_value_at_bound: "2 * length s < n \<Longrightarrow> json_value n s = json_value (Suc (2 * length s)) s"
  by (induction n) (auto simp: less_Suc_eq json_value_stable)

lemma json_fuel_enough: "json_value n s = Some x \<Longrightarrow> json_value (Suc (2 * length s)) s = Some x"
  using json_value_more [of n s x "max n (Suc (2 * length s))"]
    json_value_at_bound [of s "max n (Suc (2 * length s))"] by simp

text \<open>So a text parses exactly when some amount of fuel parses it.\<close>

lemma json_parse_complete:
  assumes "json_value n (skip_space s) = Some (v, r)" "skip_space r = []"
  shows "json_parse s = Inr v"
proof -
  have "json_value (Suc (2 * length s)) (skip_space s) = Some (v, r)"
    using json_value_more [OF json_fuel_enough [OF assms(1)]] skip_space_length [of s] by simp
  with assms(2) show ?thesis by (simp add: json_parse_def)
qed


subsection \<open>What is parsed is JSON\<close>

lemma json_atom_is_json: "json_atom s = Some (v, r) \<Longrightarrow> is_json v"
proof -
  assume a: "json_atom s = Some (v, r)"
  have "is_json w" if "json_literal s = Some (w, t)" for w t
  proof -
    from that obtain k where "find (\<lambda>(w, v). startswith s w) json_literals = Some (k, w)"
      by (auto simp: json_literal_def split: option.splits)
    then have "(k, w) \<in> set json_literals" by (auto simp: find_Some_iff in_set_conv_nth)
    then show ?thesis by (auto simp: json_literals_def)
  qed
  moreover have "is_json w" if "json_number s = Some (w, t)" for w t
    using that by (auto simp: json_number_def Let_def split: prod.splits option.splits if_splits)
  ultimately show "is_json v" using a
    by (auto simp: json_atom_def split: if_splits option.splits)
qed

lemma json_value_is_json:
  "json_value n s = Some (v, r) \<Longrightarrow> is_json v"
  "json_elems n s = Some (vs, r) \<Longrightarrow> is_json_list vs"
  "json_members n d s = Some (es, r) \<Longrightarrow> is_json_items d \<Longrightarrow> is_json_items es"
proof (induction n s and n s and n d s arbitrary: v r and vs r and es r
    rule: json_value_json_elems_json_members.induct)
  case (3 n c t)
  show ?case
  proof (cases "c = CHR ''{'' \<or> c = CHR ''[''")
    case True
    with "3.prems" obtain d u where d: "next_char t = Some (d, u)"
      by (auto simp: bind_eq_Some_conv split: if_splits)
    show ?thesis
      using 3(1) [OF _ d refl] 3(2) [OF _ _ d refl] "3.prems" d True by (auto split: if_splits)
  qed (use "3.prems" json_atom_is_json [of "c # t" v r] in simp)
next
  case (5 n s)
  then obtain w x c u where w: "json_value n s = Some (w, x)" and c: "next_char x = Some (c, u)"
    by (auto simp: bind_eq_Some_conv)
  show ?case using "5.prems" 5(1) [OF w] 5(2) [OF w refl c refl] w c by (auto split: if_splits)
next
  case (7 n d s)
  then obtain k t w x c u where k: "json_key s = Some (k, t)" and w: "json_value n t = Some (w, x)"
    and c: "next_char x = Some (c, u)"
    by (auto simp: bind_eq_Some_conv)
  have "is_json_items (dset d k w)" using 7(1) [OF k refl w] "7.prems"(2) is_json_dset by blast
  then show ?case using "7.prems" 7(2) [OF k refl w refl c refl] k w c by (auto split: if_splits)
qed auto

lemma json_loads_is_json: "json_loads data = Inr v \<Longrightarrow> is_json v"
  by (auto simp: json_loads_def json_parse_def rbind_Inr_iff dest: json_value_is_json split: option.splits if_splits)

end
