(* ===== verification/Canonical.thy ===== *)
theory Canonical
  imports Json_Text
begin

text \<open>
  \<open>interop/canonical.py\<close>: the bytes a signature covers. Keys are written in Foundation's order
  (numeric runs as numbers, letters without case, code points to break ties) or in plain
  code-point order, and strings and numbers as Foundation writes them.

  \<open>compare_keys\<close> is the comparison as the code has it, for any keys: with the digits of every
  script, \<open>str.casefold\<close> as a parameter, and the \<open>ValueError\<close> of \<open>int\<close> at a superscript digit. On
  such keys it is not an order (\<open>compare_keys_cyclic\<close>), so what \<open>sorted\<close> makes of them depends on
  how it sorts. The writer therefore uses the comparison of ASCII keys, \<open>compare_ascii\<close>, which is
  the code's on those (\<open>compare_keys_ascii\<close>), and its order \<open>foundation\<close> is the code's only for
  objects whose keys are ASCII, as the keys of every wire model are. The order \<open>encoder\<close> has no
  such limit.

  The text Python's \<open>repr\<close> gives for a float that is not a small whole number is the parameter
  \<open>frepr\<close>.
\<close>

subsection \<open>Sorting by an order\<close>

fun insert_by :: "('a \<Rightarrow> 'a \<Rightarrow> bool) \<Rightarrow> 'a \<Rightarrow> 'a list \<Rightarrow> 'a list" where
  "insert_by lt x [] = [x]"
| "insert_by lt x (y # ys) = (if lt y x then y # insert_by lt x ys else x # y # ys)"

definition sort_by :: "('a \<Rightarrow> 'a \<Rightarrow> bool) \<Rightarrow> 'a list \<Rightarrow> 'a list" where
  "sort_by lt xs = foldr (insert_by lt) xs []"

lemma mset_insert_by [simp]: "mset (insert_by lt x xs) = add_mset x (mset xs)"
  by (induction xs) auto

lemma mset_sort_by [simp]: "mset (sort_by lt xs) = mset xs"
  by (induction xs) (auto simp: sort_by_def)

lemma set_sort_by [simp]: "set (sort_by lt xs) = set xs"
  using mset_eq_setD [OF mset_sort_by] .

text \<open>
  A strict total order, the contract the two key orders share: what it sorts has one sorted
  form, whatever order the keys came in.
\<close>

locale key_order =
  fixes lt :: "'a \<Rightarrow> 'a \<Rightarrow> bool"
  assumes irrefl: "\<not> lt x x"
    and trans: "lt x y \<Longrightarrow> lt y z \<Longrightarrow> lt x z"
    and total: "lt x y \<or> x = y \<or> lt y x"
begin

lemma asym: "lt x y \<Longrightarrow> \<not> lt y x"
  using irrefl trans by blast

lemma sorted_insert_by:
  "sorted_wrt (\<lambda>x y. \<not> lt y x) xs \<Longrightarrow> sorted_wrt (\<lambda>x y. \<not> lt y x) (insert_by lt x xs)"
proof (induction xs)
  case (Cons y ys)
  have s: "set (insert_by lt x ys) = insert x (set ys)"
    using mset_eq_setD [of "insert_by lt x ys" "x # ys"] by simp
  show ?case
  proof (cases "lt y x")
    case True
    with Cons s asym [OF True] show ?thesis by simp
  next
    case False
    have "\<not> lt z x" if "z \<in> set ys" for z
      using that Cons.prems False total [of x y] trans [of z x y] by auto
    with Cons.prems False show ?thesis by simp
  qed
qed simp

lemma sorted_sort_by: "sorted_wrt (\<lambda>x y. \<not> lt y x) (sort_by lt xs)"
  by (induction xs) (simp_all add: sort_by_def sorted_insert_by)

lemma sorted_unique:
  assumes "sorted_wrt (\<lambda>x y. \<not> lt y x) xs" "sorted_wrt (\<lambda>x y. \<not> lt y x) ys" "mset xs = mset ys"
  shows "xs = ys"
  using assms
proof (induction xs arbitrary: ys)
  case (Cons x xs)
  then obtain y ys' where ys: "ys = y # ys'" by (cases ys) auto
  have "set (x # xs) = set ys" using Cons.prems(3) by (rule mset_eq_setD)
  then have "x \<in> set (y # ys')" "y \<in> set (x # xs)" unfolding ys by (metis list.set_intros(1))+
  then have "x \<noteq> y \<Longrightarrow> \<not> lt x y \<and> \<not> lt y x" using Cons.prems(1,2) ys by auto
  then have "x = y" using total by blast
  with Cons ys show ?case by simp
qed simp

lemma sort_by_perm: "mset xs = mset ys \<Longrightarrow> sort_by lt xs = sort_by lt ys"
  by (rule sorted_unique) (simp_all add: sorted_sort_by)

lemma sort_by_idem: "sort_by lt (sort_by lt xs) = sort_by lt xs"
  by (rule sort_by_perm) simp

end

interpretation code_point: key_order str_less
  by unfold_locales (use str_less_irrefl str_less_trans str_less_linear in blast)+

subsection \<open>Foundation's order\<close>

text \<open>\<open>_TOKEN.findall\<close>: runs of decimal digits and single other characters.\<close>

definition is_decimal :: "string \<Rightarrow> bool" where
  "is_decimal ch \<longleftrightarrow> decimal_value ch \<noteq> None"

function tokens_of :: "string list \<Rightarrow> string list" where
  "tokens_of [] = []"
| "tokens_of (c # cs) =
     (if is_decimal c then concat (takeWhile is_decimal (c # cs)) # tokens_of (dropWhile is_decimal (c # cs))
      else c # tokens_of cs)"
  by pat_completeness auto
termination
  by (relation "measure length") (auto simp: less_Suc_eq_le length_dropWhile_le)

definition key_tokens :: "string \<Rightarrow> string list" where
  "key_tokens s = tokens_of (py_chars s)"

definition isdigit :: "string \<Rightarrow> bool" where
  "isdigit s \<longleftrightarrow> s \<noteq> [] \<and> list_all digit_character (py_chars s)"

definition int_token :: "string \<Rightarrow> int res" where
  "int_token a = (case py_int a of Some i \<Rightarrow> Inr i | None \<Rightarrow> Inl ValueError)"

text \<open>The first tokens that differ decide; none if one list is a prefix of the other.\<close>

fun compare_tokens :: "(string \<Rightarrow> string) \<Rightarrow> string list \<Rightarrow> string list \<Rightarrow> int option res" where
  "compare_tokens casefold [] bs = Inr None"
| "compare_tokens casefold (a # as) [] = Inr None"
| "compare_tokens casefold (a # as) (b # bs) =
     (if isdigit a \<and> isdigit b then
        rbind (int_token a) (\<lambda>i. rbind (int_token b) (\<lambda>j.
          if i \<noteq> j then Inr (Some (if i < j then - 1 else 1)) else compare_tokens casefold as bs))
      else
        (let fa = casefold a; fb = casefold b in
         if fa \<noteq> fb then Inr (Some (if str_less fa fb then - 1 else 1)) else compare_tokens casefold as bs))"

definition compare_keys :: "(string \<Rightarrow> string) \<Rightarrow> string \<Rightarrow> string \<Rightarrow> int res" where
  "compare_keys casefold l r =
     (let ls = key_tokens l; rs = key_tokens r in
      rbind (compare_tokens casefold ls rs) (\<lambda>d. Inr (case d of
        Some c \<Rightarrow> c
      | None \<Rightarrow>
          if length ls \<noteq> length rs then (if length ls < length rs then - 1 else 1)
          else if l = r then 0
          else if str_less l r then - 1 else 1)))"

text \<open>The Arabic three, \<open>5\<close> and \<open>a\<close> go round in a circle, and a superscript two cannot be compared with a digit.\<close>

lemma compare_keys_cyclic:
  "compare_keys py_lower [CHR 0xD9, CHR 0xA3] ''5'' = Inr (- 1) \<and> compare_keys py_lower ''5'' ''a'' = Inr (- 1)
   \<and> compare_keys py_lower ''a'' [CHR 0xD9, CHR 0xA3] = Inr (- 1)
   \<and> compare_keys py_lower [CHR 0xC2, CHR 0xB2] ''5'' = Inl ValueError"
  by (intro conjI) code_simp+

text \<open>The same for ASCII keys.\<close>

function ascii_tokens :: "string \<Rightarrow> string list" where
  "ascii_tokens [] = []"
| "ascii_tokens (c # cs) =
     (if is_digit c then takeWhile is_digit (c # cs) # ascii_tokens (dropWhile is_digit (c # cs))
      else [c] # ascii_tokens cs)"
  by pat_completeness auto
termination
  by (relation "measure length") (auto simp: less_Suc_eq_le length_dropWhile_le)

definition ascii_isdigit :: "string \<Rightarrow> bool" where
  "ascii_isdigit s \<longleftrightarrow> s \<noteq> [] \<and> list_all is_digit s"

fun compare_ascii_tokens :: "string list \<Rightarrow> string list \<Rightarrow> int option" where
  "compare_ascii_tokens [] bs = None"
| "compare_ascii_tokens (a # as) [] = None"
| "compare_ascii_tokens (a # as) (b # bs) =
     (if ascii_isdigit a \<and> ascii_isdigit b then
        (if read_digits a \<noteq> read_digits b then Some (if read_digits a < read_digits b then - 1 else 1)
         else compare_ascii_tokens as bs)
      else
        (let fa = py_lower a; fb = py_lower b in
         if fa \<noteq> fb then Some (if str_less fa fb then - 1 else 1) else compare_ascii_tokens as bs))"

definition compare_ascii :: "string \<Rightarrow> string \<Rightarrow> int" where
  "compare_ascii l r =
     (let ls = ascii_tokens l; rs = ascii_tokens r in
      case compare_ascii_tokens ls rs of
        Some c \<Rightarrow> c
      | None \<Rightarrow>
          if length ls \<noteq> length rs then (if length ls < length rs then - 1 else 1)
          else if l = r then 0
          else if str_less l r then - 1 else 1)"

definition foundation_less :: "string \<Rightarrow> string \<Rightarrow> bool" where
  "foundation_less l r \<longleftrightarrow> compare_ascii l r < 0"

definition sorted_keys :: "string list \<Rightarrow> string list" where
  "sorted_keys ks = sort_by foundation_less ks"

subsection \<open>Writing\<close>

definition hex_digit :: "nat \<Rightarrow> char" where
  "hex_digit n = (if n < 10 then char_of (48 + n) else char_of (87 + n))"

definition ESCAPES :: "(char \<times> string) list" where
  "ESCAPES =
    [(CHR 0x22, [CHR 0x5C, CHR 0x22]), (CHR 0x5C, [CHR 0x5C, CHR 0x5C]),
     (CHR ''/'', [CHR 0x5C, CHR ''/'']), (CHR 0x08, [CHR 0x5C, CHR ''b'']),
     (CHR 0x0C, [CHR 0x5C, CHR ''f'']), (CHR 0x0A, [CHR 0x5C, CHR ''n'']),
     (CHR 0x0D, [CHR 0x5C, CHR ''r'']), (CHR 0x09, [CHR 0x5C, CHR ''t''])]"

definition escape_char :: "bool \<Rightarrow> char \<Rightarrow> string" where
  "escape_char escape_slashes c =
     (if c = CHR ''/'' \<and> \<not> escape_slashes then [c]
      else case dget ESCAPES c of
        Some e \<Rightarrow> e
      | None \<Rightarrow>
          let n = of_char c :: nat in
          if n < 32 then CHR 0x5C # ''u00'' @ [hex_digit (n div 16), hex_digit (n mod 16)] else [c])"

definition json_quote :: "bool \<Rightarrow> string \<Rightarrow> string" where
  "json_quote escape_slashes s = [CHR 0x22] @ concat (map (escape_char escape_slashes) s) @ [CHR 0x22]"

text \<open>\<open>float.is_integer\<close> and the bound below which Foundation writes a whole number as one.\<close>

definition small_whole :: "rat \<Rightarrow> bool" where
  "small_whole q \<longleftrightarrow> of_int \<lfloor>q\<rfloor> = q \<and> \<bar>q\<bar> < 2 ^ 53"

fun json_float :: "(rat \<Rightarrow> string) \<Rightarrow> pyfloat \<Rightarrow> string res" where
  "json_float frepr (Fin q) = Inr (if small_whole q then show_int \<lfloor>q\<rfloor> else frepr q)"
| "json_float frepr _ = Inl CanonicalEncodingError"

datatype korder = Foundation | Encoder

fun key_less :: "korder \<Rightarrow> string \<Rightarrow> string \<Rightarrow> bool" where
  "key_less Foundation = foundation_less"
| "key_less Encoder = str_less"

definition item_less :: "korder \<Rightarrow> string \<times> 'v \<Rightarrow> string \<times> 'v \<Rightarrow> bool" where
  "item_less ord a b \<longleftrightarrow> key_less ord (fst a) (fst b)"

lemma dict_item_size: "(k, w) \<in> set d \<Longrightarrow> size w \<le> size_list (size_prod (\<lambda>_. 0) size) d"
  by (induction d) auto

function write_json :: "(rat \<Rightarrow> string) \<Rightarrow> korder \<Rightarrow> bool \<Rightarrow> pyval \<Rightarrow> string res" where
  "write_json frepr ord esc v =
     (case v of
        VNull \<Rightarrow> Inr ''null''
      | VBool b \<Rightarrow> Inr (if b then ''true'' else ''false'')
      | VInt i \<Rightarrow> Inr (show_int i)
      | VFloat f \<Rightarrow> json_float frepr f
      | VStr s \<Rightarrow> Inr (json_quote esc s)
      | VDict d \<Rightarrow>
          rbind (rmap (\<lambda>(k, w). rbind (write_json frepr ord esc w) (\<lambda>t. Inr (json_quote esc k @ '':'' @ t)))
                   (sort_by (item_less ord) d))
            (\<lambda>ts. Inr (''{'' @ join_with '','' ts @ ''}''))
      | VList vs \<Rightarrow>
          rbind (rmap (write_json frepr ord esc) vs) (\<lambda>ts. Inr (''['' @ join_with '','' ts @ '']''))
      | VTuple vs \<Rightarrow>
          rbind (rmap (write_json frepr ord esc) vs) (\<lambda>ts. Inr (''['' @ join_with '','' ts @ '']''))
      | _ \<Rightarrow> Inl CanonicalEncodingError)"
  by pat_completeness auto
termination
  by (relation "measure (\<lambda>(_, _, _, v). size v)")
    (auto simp: less_Suc_eq_le size_list_estimation' dest: dict_item_size)

declare write_json.simps [simp del]

definition canonical_json :: "(rat \<Rightarrow> string) \<Rightarrow> pyval \<Rightarrow> string \<Rightarrow> bool \<Rightarrow> bytes res" where
  "canonical_json frepr v order escape_slashes =
     (if order \<notin> {''foundation'', ''encoder''} then Inl ValueError
      else rbind (write_json frepr (if order = ''encoder'' then Encoder else Foundation) escape_slashes v)
        (\<lambda>t. if valid_utf8 (encode_utf8 t) then Inr (encode_utf8 t) else Inl ValueError))"

definition canonical_payload :: "(rat \<Rightarrow> string) \<Rightarrow> pyval dict \<Rightarrow> string list \<Rightarrow> bytes res" where
  "canonical_payload frepr wire excluding =
     canonical_json frepr (VDict (filter (\<lambda>(k, v). k \<notin> set excluding) wire)) ''foundation'' True"


subsection \<open>The two orders are total orders\<close>

text \<open>
  A token's place in the order: a run of digits by its number, at the place of the digit
  characters, any other character by its lower case. The order is the order of the lists of
  these keys, and of the code points of the keys where those agree.
\<close>

definition token_key :: "string \<Rightarrow> nat \<times> nat" where
  "token_key a = (if ascii_isdigit a then (48, read_digits a) else (of_char (ascii_lower (hd a)), 0))"

definition token_form :: "string \<Rightarrow> bool" where
  "token_form a \<longleftrightarrow> ascii_isdigit a \<or> (\<exists>c. a = [c] \<and> \<not> is_digit c)"

definition pair_less :: "nat \<times> nat \<Rightarrow> nat \<times> nat \<Rightarrow> bool" where
  "pair_less a b \<longleftrightarrow> fst a < fst b \<or> (fst a = fst b \<and> snd a < snd b)"

fun keys_less :: "(nat \<times> nat) list \<Rightarrow> (nat \<times> nat) list \<Rightarrow> bool" where
  "keys_less [] ys = (ys \<noteq> [])"
| "keys_less (x # xs) [] = False"
| "keys_less (x # xs) (y # ys) = (if x = y then keys_less xs ys else pair_less x y)"

definition order_keys :: "string \<Rightarrow> (nat \<times> nat) list" where
  "order_keys s = map token_key (ascii_tokens s)"

lemma keys_less_irrefl: "\<not> keys_less xs xs"
  by (induction xs) auto

lemma keys_less_trans: "keys_less xs ys \<Longrightarrow> keys_less ys zs \<Longrightarrow> keys_less xs zs"
proof (induction xs arbitrary: ys zs)
  case Nil
  then show ?case by (cases ys; cases zs) auto
next
  case (Cons x xs)
  then obtain y ys' z zs' where "ys = y # ys'" "zs = z # zs'" by (cases ys; cases zs) auto
  with Cons show ?case by (auto simp: pair_less_def split: if_splits)
qed

lemma keys_less_total: "keys_less xs ys \<or> xs = ys \<or> keys_less ys xs"
proof (induction xs arbitrary: ys)
  case Nil
  then show ?case by (cases ys) auto
next
  case (Cons x xs)
  then show ?case by (cases ys) (auto simp: pair_less_def prod_eq_iff)
qed

lemma ascii_tokens_form: "list_all token_form (ascii_tokens s)"
proof (induction s rule: ascii_tokens.induct)
  case (2 c cs)
  have "is_digit c \<Longrightarrow> ascii_isdigit (takeWhile is_digit (c # cs))"
    by (auto simp: ascii_isdigit_def list_all_iff dest: set_takeWhileD)
  with 2 show ?case by (auto simp: token_form_def)
qed simp

lemma lower_digit: "is_digit c \<Longrightarrow> ascii_lower c = c"
  by (auto simp: ascii_lower_def is_digit_def Let_def)

lemma lower_not_digit: "\<not> is_digit c \<Longrightarrow>
    (of_char (ascii_lower c) :: nat) < 48 \<or> 57 < (of_char (ascii_lower c) :: nat)"
  by (auto simp: ascii_lower_def is_digit_def Let_def)

lemma lower_digits: "list_all is_digit s \<Longrightarrow> py_lower s = s"
  by (induction s) (auto simp: py_lower_def lower_digit)

lemma mixed_tokens:
  assumes "ascii_isdigit x" "\<not> is_digit c"
  shows "py_lower x \<noteq> py_lower [c] \<and> token_key x \<noteq> token_key [c]
    \<and> str_less (py_lower x) (py_lower [c]) = pair_less (token_key x) (token_key [c])
    \<and> str_less (py_lower [c]) (py_lower x) = pair_less (token_key [c]) (token_key x)"
proof -
  obtain d ds where x: "x = d # ds" "is_digit d" "list_all is_digit x"
    using assms(1) by (cases x) (auto simp: ascii_isdigit_def)
  have d: "48 \<le> (of_char d :: nat)" "(of_char d :: nat) \<le> 57" using x(2) by (auto simp: is_digit_def Let_def)
  have "py_lower x = d # ds" using lower_digits x by simp
  moreover have "\<not> ascii_isdigit [c]" using assms(2) by (simp add: ascii_isdigit_def)
  moreover have "d \<noteq> ascii_lower c" using lower_not_digit [OF assms(2)] d by auto
  ultimately show ?thesis using lower_not_digit [OF assms(2)] d assms(1)
    by (auto simp: py_lower_def token_key_def pair_less_def)
qed

text \<open>A comparison of two tokens is the comparison of their places.\<close>

lemma compare_token:
  assumes "token_form a" "token_form b"
  shows "(ascii_isdigit a \<and> ascii_isdigit b \<longrightarrow> (read_digits a = read_digits b) = (token_key a = token_key b)
            \<and> (read_digits a < read_digits b) = pair_less (token_key a) (token_key b))
    \<and> (\<not> (ascii_isdigit a \<and> ascii_isdigit b) \<longrightarrow> (py_lower a = py_lower b) = (token_key a = token_key b)
            \<and> str_less (py_lower a) (py_lower b) = pair_less (token_key a) (token_key b))"
proof -
  consider "ascii_isdigit a" "ascii_isdigit b" | c where "ascii_isdigit a" "b = [c]" "\<not> is_digit c"
    | c where "ascii_isdigit b" "a = [c]" "\<not> is_digit c"
    | c d where "a = [c]" "b = [d]" "\<not> is_digit c" "\<not> is_digit d"
    using assms by (auto simp: token_form_def)
  then show ?thesis
  proof cases
    case 1
    then show ?thesis by (auto simp: token_key_def pair_less_def)
  next
    case (2 c)
    then show ?thesis using mixed_tokens [of a c] by (auto simp: ascii_isdigit_def)
  next
    case (3 c)
    then show ?thesis using mixed_tokens [of b c] by (auto simp: ascii_isdigit_def)
  next
    case (4 c d)
    then show ?thesis
      by (auto simp: ascii_isdigit_def py_lower_def token_key_def pair_less_def)
  qed
qed

lemma compare_ascii_tokens_keys:
  assumes "list_all token_form as" "list_all token_form bs"
  shows "(case compare_ascii_tokens as bs of
      Some c \<Rightarrow> c = (if keys_less (map token_key as) (map token_key bs) then - 1 else 1)
         \<and> map token_key as \<noteq> map token_key bs
    | None \<Rightarrow> (length as < length bs) = keys_less (map token_key as) (map token_key bs)
         \<and> (length as = length bs) = (map token_key as = map token_key bs))"
    (is "?P as bs")
  using assms
proof (induction as bs rule: compare_ascii_tokens.induct)
  case (1 bs)
  then show ?case by (cases bs) auto
next
  case (3 a as b bs)
  have ab: "token_form a" "token_form b" using "3.prems" by auto
  note c = compare_token [OF ab]
  show ?case
  proof (cases "token_key a = token_key b")
    case True
    have e: "compare_ascii_tokens (a # as) (b # bs) = compare_ascii_tokens as bs"
      using c True by (cases "ascii_isdigit a"; cases "ascii_isdigit b") (simp_all add: Let_def)
    have "list_all token_form as" "list_all token_form bs" using "3.prems" by auto
    moreover have "ascii_isdigit a \<and> ascii_isdigit b \<and> \<not> read_digits a \<noteq> read_digits b
        \<or> \<not> (ascii_isdigit a \<and> ascii_isdigit b) \<and> \<not> py_lower a \<noteq> py_lower b" using c True by blast
    ultimately have "?P as bs" using 3(1,2) by blast
    then show ?thesis unfolding e using True by (simp split: option.splits)
  next
    case False
    then show ?thesis using c by (cases "ascii_isdigit a"; cases "ascii_isdigit b") (simp_all add: Let_def)
  qed
qed simp

lemma foundation_less_iff:
  "foundation_less l r \<longleftrightarrow> keys_less (order_keys l) (order_keys r)
     \<or> (order_keys l = order_keys r \<and> str_less l r)"
  using compare_ascii_tokens_keys [OF ascii_tokens_form ascii_tokens_form, of l r] keys_less_irrefl
  by (auto simp: foundation_less_def compare_ascii_def order_keys_def Let_def split: option.splits if_splits)

text \<open>On ASCII keys \<open>compare_keys\<close> is \<open>compare_ascii\<close>.\<close>

lemma decimal_ascii: "(of_char c :: nat) < 128 \<Longrightarrow> is_decimal [c] = is_digit c"
  by (simp add: is_decimal_def decimal_value_ascii is_digit_def Let_def)

lemma digit_character_ascii: "(of_char c :: nat) < 128 \<Longrightarrow> digit_character [c] = is_digit c"
proof -
  assume c: "(of_char c :: nat) < 128"
  have "\<not> list_ex (\<lambda>(a, b). a \<le> code_point [c] \<and> code_point [c] \<le> b) OTHER_DIGITS"
    using c by (auto simp: OTHER_DIGITS_def int_of_char)
  then show ?thesis using decimal_ascii [OF c] by (simp add: digit_character_def is_decimal_def)
qed

lemma ascii_run:
  assumes "is_ascii s"
  shows "takeWhile is_decimal (map (\<lambda>c. [c]) s) = map (\<lambda>c. [c]) (takeWhile is_digit s)"
    "dropWhile is_decimal (map (\<lambda>c. [c]) s) = map (\<lambda>c. [c]) (dropWhile is_digit s)"
  using assms by (induction s) (auto simp: is_ascii_def decimal_ascii)

lemma is_ascii_parts: "is_ascii s \<Longrightarrow> is_ascii (takeWhile P s)" "is_ascii s \<Longrightarrow> is_ascii (dropWhile P s)"
  by (auto simp: is_ascii_def dest: set_takeWhileD set_dropWhileD)

lemma tokens_ascii: "is_ascii s \<Longrightarrow> key_tokens s = ascii_tokens s"
proof -
  have "is_ascii s \<Longrightarrow> tokens_of (map (\<lambda>c. [c]) s) = ascii_tokens s"
  proof (induction s rule: ascii_tokens.induct)
    case (2 c cs)
    have "is_decimal [c] = is_digit c" using "2.prems" by (intro decimal_ascii) (simp add: is_ascii_def)
    moreover have "is_ascii cs" using "2.prems" by (simp add: is_ascii_def)
    ultimately show ?case
      using 2 ascii_run [of cs] is_ascii_parts(2) [of cs is_digit]
      by (cases "is_digit c") (simp_all add: concat_map_singleton)
  qed simp
  then show "is_ascii s \<Longrightarrow> key_tokens s = ascii_tokens s"
    by (simp add: key_tokens_def py_chars_ascii)
qed

lemma ascii_tokens_ascii: "is_ascii s \<Longrightarrow> list_all is_ascii (ascii_tokens s)"
proof (induction s rule: ascii_tokens.induct)
  case (2 c cs)
  have "is_ascii [c]" "is_ascii cs" using "2.prems" by (simp_all add: is_ascii_def)
  with 2 is_ascii_parts [of "c # cs" is_digit] is_ascii_parts(2) [of cs is_digit] show ?case
    by (cases "is_digit c") simp_all
qed simp

lemma isdigit_ascii: "is_ascii a \<Longrightarrow> isdigit a = ascii_isdigit a"
proof -
  assume a: "is_ascii a"
  have "list_all digit_character (map (\<lambda>c. [c]) a) = list_all is_digit a"
    using a digit_character_ascii by (auto simp: list_all_iff is_ascii_def)
  then show ?thesis using a by (simp add: isdigit_def ascii_isdigit_def py_chars_ascii)
qed

lemma int_token_digits:
  assumes "ascii_isdigit a"
  shows "int_token a = Inr (int (read_digits a))"
proof -
  obtain c cs where a: "a = c # cs" "list_all is_digit a" using assms by (cases a) (auto simp: ascii_isdigit_def)
  have "solid (hd a)" "solid (last a)" using a digit_solid by (auto simp: list_all_iff)
  then have "py_strip a = a" using a(1) by (intro py_strip_id) auto
  moreover have "ascii_digits a = a"
    using a(2) digit_ascii by (intro ascii_digits_id) (auto simp: is_ascii_def list_all_iff)
  moreover have "plain_digits a = Some a" using a by (intro plain_digits_id) auto
  moreover have "c \<noteq> CHR ''-''" "c \<noteq> CHR ''+''" using a is_digit_not_minus [of c] by auto
  ultimately show ?thesis using a(1) by (simp add: int_token_def py_int_def)
qed

lemma compare_tokens_ascii:
  assumes "\<forall>s. is_ascii s \<longrightarrow> casefold s = py_lower s" "list_all is_ascii as" "list_all is_ascii bs"
  shows "compare_tokens casefold as bs = Inr (compare_ascii_tokens as bs)"
  using assms(2,3)
  by (induction as bs rule: compare_ascii_tokens.induct)
    (simp_all add: isdigit_ascii int_token_digits assms(1) Let_def)

lemma compare_keys_ascii:
  assumes "\<forall>s. is_ascii s \<longrightarrow> casefold s = py_lower s" "is_ascii l" "is_ascii r"
  shows "compare_keys casefold l r = Inr (compare_ascii l r)"
  using compare_tokens_ascii [OF assms(1) ascii_tokens_ascii [OF assms(2)] ascii_tokens_ascii [OF assms(3)]] assms
  by (simp add: compare_keys_def compare_ascii_def tokens_ascii Let_def split: option.split)

interpretation foundation: key_order foundation_less
proof
  show "\<not> foundation_less x x" for x
    by (simp add: foundation_less_iff keys_less_irrefl)
  show "foundation_less x y \<Longrightarrow> foundation_less y z \<Longrightarrow> foundation_less x z" for x y z
    using keys_less_trans str_less_trans unfolding foundation_less_iff by metis
  show "foundation_less x y \<or> x = y \<or> foundation_less y x" for x y
    using keys_less_total str_less_linear unfolding foundation_less_iff by metis
qed


subsection \<open>What is written is read back\<close>

text \<open>Strings.\<close>

lemma hex_val_digit: "n < 16 \<Longrightarrow> hex_val (hex_digit n) = Some n"
  by (auto simp: hex_val_def hex_digit_def Let_def)

lemma unicode_escape_control:
  assumes "n < 32"
  shows "unicode_escape (''00'' @ hex_digit (n div 16) # hex_digit (n mod 16) # s) = Some (n, s)"
proof -
  have "hex_val (CHR ''0'') = Some 0" by (simp add: hex_val_def Let_def)
  moreover have "hex_val (hex_digit (n div 16)) = Some (n div 16)" "hex_val (hex_digit (n mod 16)) = Some (n mod 16)"
    using assms by (simp_all add: hex_val_digit)
  ultimately have "hex4 (''00'' @ hex_digit (n div 16) # hex_digit (n mod 16) # s) = Some (n, s)" by simp
  then show ?thesis using assms by (simp add: unicode_escape_def)
qed

lemma escapes_table:
  "\<forall>(c, e) \<in> set ESCAPES.
     case e of [b, d] \<Rightarrow> b = CHR 0x5C \<and> d \<noteq> CHR ''u'' \<and> simple_escape d = Some c | _ \<Rightarrow> False"
  by code_simp

lemma escapes_read:
  assumes "dget ESCAPES c = Some e"
  shows "\<exists>d. e = [CHR 0x5C, d] \<and> d \<noteq> CHR ''u'' \<and> simple_escape d = Some c"
proof -
  from assms escapes_table have "case e of [b, d] \<Rightarrow> b = CHR 0x5C \<and> d \<noteq> CHR ''u'' \<and> simple_escape d = Some c
      | _ \<Rightarrow> False" by (auto dest!: map_of_SomeD)
  then show ?thesis by (auto split: list.splits)
qed

lemma escapes_plain: "dget ESCAPES c = None \<Longrightarrow> c \<noteq> CHR 0x22 \<and> c \<noteq> CHR 0x5C"
  unfolding ESCAPES_def by (simp split: if_splits)

lemma json_string_escape:
  "json_string (escape_char esc c @ s) = map_option (\<lambda>(w, r). (c # w, r)) (json_string s)"
proof (cases "c = CHR ''/'' \<and> \<not> esc")
  case True
  then show ?thesis by (simp add: escape_char_def)
next
  case e: False
  show ?thesis
  proof (cases "dget ESCAPES c")
    case (Some x)
    then obtain d where "x = [CHR 0x5C, d]" "d \<noteq> CHR ''u''" "simple_escape d = Some c"
      using escapes_read by blast
    with Some e show ?thesis by (auto simp: escape_char_def)
  next
    case None
    define n where "n = (of_char c :: nat)"
    have c: "c = char_of n" unfolding n_def by simp
    show ?thesis
    proof (cases "n < 32")
      case True
      have "escape_char esc c = CHR 0x5C # ''u00'' @ [hex_digit (n div 16), hex_digit (n mod 16)]"
        using None e True by (auto simp: escape_char_def n_def Let_def)
      moreover have "utf8_of n = [c]" using True c by (simp add: utf8_of_def)
      ultimately show ?thesis using unicode_escape_control [OF True, of s] by simp
    next
      case False
      have "escape_char esc c = [c]" using None e False by (auto simp: escape_char_def n_def Let_def)
      then show ?thesis using escapes_plain [OF None] False by (simp add: n_def)
    qed
  qed
qed

lemma json_string_quote:
  "json_string (concat (map (escape_char esc) s) @ CHR 0x22 # r) = Some (s, r)"
  by (induction s) (simp_all add: json_string_escape)

text \<open>Numbers: what may follow one in a document does not change how it is read.\<close>

fun delim :: "string \<Rightarrow> bool" where
  "delim [] = True"
| "delim (c # s) = (c = CHR '','' \<or> c = CHR ''}'' \<or> c = CHR '']'')"

lemma delim_cons: "delim (CHR '','' # s)" "delim (CHR ''}'' # s)" "delim (CHR '']'' # s)"
  by simp_all

lemma delim_head: "delim (c # s) \<Longrightarrow> \<not> is_digit c \<and> c \<noteq> CHR ''.'' \<and> c \<noteq> CHR ''e''
    \<and> c \<noteq> CHR ''E'' \<and> c \<noteq> CHR ''-'' \<and> c \<noteq> CHR ''+''"
  by (auto simp: is_digit_def)

lemma digits_delim:
  assumes "delim r"
  shows "takeWhile is_digit (u @ r) = takeWhile is_digit u" "dropWhile is_digit (u @ r) = dropWhile is_digit u @ r"
proof -
  have "takeWhile is_digit r = [] \<and> dropWhile is_digit r = r"
    using assms delim_head by (cases r) auto
  then show "takeWhile is_digit (u @ r) = takeWhile is_digit u" "dropWhile is_digit (u @ r) = dropWhile is_digit u @ r"
    by (induction u) auto
qed

lemma json_whole_append:
  "json_whole x = Some (w, y) \<Longrightarrow> delim r \<Longrightarrow> json_whole (x @ r) = Some (w, y @ r)"
  using digits_delim [of r "tl x"]
  by (cases x) (auto simp: json_whole_def split: if_splits)

lemma json_sign_append:
  "json_sign x = (sg, y) \<Longrightarrow> x \<noteq> [] \<Longrightarrow> json_sign (x @ r) = (sg, y @ r)"
  by (cases x) (auto simp: json_sign_def split: if_splits)

lemma json_fraction_append:
  "json_fraction x = (f, y) \<Longrightarrow> delim r \<Longrightarrow> json_fraction (x @ r) = (f, y @ r)"
  using delim_head digits_delim [of r "tl x"]
  by (cases x; cases r) (auto simp: json_fraction_def split: if_splits)

lemma json_exponent_append:
  assumes "json_exponent x = (f, y)" "delim r"
  shows "json_exponent (x @ r) = (f, y @ r)"
proof (cases x)
  case Nil
  with assms show ?thesis using delim_head by (cases r) (auto simp: json_exponent_def)
next
  case (Cons c t)
  show ?thesis
  proof (cases t)
    case Nil
    then have "json_exponent (c # r) = ([], c # r)"
      using assms(2) delim_head digits_delim [OF assms(2), of "[]"]
      by (cases r) (auto simp: json_exponent_def Let_def)
    moreover have "json_exponent [c] = ([], [c])" by (simp add: json_exponent_def Let_def)
    ultimately show ?thesis using assms(1) Cons Nil by auto
  next
    case t: (Cons d u)
    show ?thesis
      using assms(1) digits_delim [OF assms(2), of u] digits_delim [OF assms(2), of t] Cons t
      by (cases "d = CHR ''-'' \<or> d = CHR ''+''") (auto simp: json_exponent_def Let_def split: if_splits)
  qed
qed

lemma json_number_append:
  assumes "json_number t = Some (v, [])" "delim r"
  shows "json_number (t @ r) = Some (v, r)"
proof -
  obtain sg x where sg: "json_sign t = (sg, x)" by fastforce
  obtain w y where w: "json_whole x = Some (w, y)"
    using assms(1) sg by (auto simp: json_number_def split: option.splits)
  then have "t \<noteq> []" using sg by (auto simp: json_sign_def json_whole_def split: list.splits)
  obtain f z where f: "json_fraction y = (f, z)" by fastforce
  obtain e q where e: "json_exponent z = (e, q)" by fastforce
  have "q = []" using assms(1) sg w f e by (auto simp: json_number_def Let_def split: if_splits)
  with e have e': "json_exponent z = (e, [])" by simp
  show ?thesis
    using assms(1) sg w f e' json_sign_append [OF sg \<open>t \<noteq> []\<close>, of r] json_whole_append [OF w assms(2)]
      json_fraction_append [OF f assms(2)] json_exponent_append [OF e' assms(2)]
    by (auto simp: json_number_def Let_def split: if_splits)
qed

text \<open>A number's text starts with a digit or a sign and a digit, so no literal hides it.\<close>

lemma json_number_head:
  "json_number t = Some (v, r) \<Longrightarrow>
     \<exists>c u. t = c # u \<and> (is_digit c \<or> (c = CHR ''-'' \<and> (\<exists>d u'. u = d # u' \<and> is_digit d)))"
  by (cases t; cases "tl t")
    (auto simp: json_number_def json_sign_def json_whole_def is_digit_def split: if_splits)

lemma json_literal_number: "json_number t = Some (v, r) \<Longrightarrow> json_literal (t @ s) = None"
  by (drule json_number_head)
    (auto simp: json_literal_def json_literals_def startswith_def is_digit_def)

lemma json_value_number:
  assumes "json_number t = Some (v, [])" "delim r"
  shows "json_value (Suc n) (t @ r) = Some (v, r)"
proof -
  obtain c u where c: "t = c # u" "is_digit c \<or> c = CHR ''-''" using json_number_head [OF assms(1)] by blast
  then have "c \<noteq> CHR ''{''" "c \<noteq> CHR ''[''" "c \<noteq> CHR 0x22" by (auto simp: is_digit_def)
  moreover have "json_atom (t @ r) = Some (v, r)"
    using json_literal_number [OF assms(1), of r] json_number_append [OF assms] c \<open>c \<noteq> CHR 0x22\<close>
    by (simp add: json_atom_def startswith_def)
  ultimately show ?thesis using c by simp
qed

lemma json_whole_show_nat: "json_whole (show_nat n) = Some (show_nat n, [])"
proof (cases "n = 0")
  case True
  then show ?thesis by (simp add: json_whole_def)
next
  case False
  obtain c s where s: "show_nat n = c # s" by (cases "show_nat n") auto
  have "c \<noteq> CHR ''0''" "\<forall>x \<in> set (c # s). is_digit x"
    using show_nat_head [OF False] show_nat_digits [of n] s by (auto simp: list_all_iff)
  then show ?thesis unfolding s by (auto simp: json_whole_def takeWhile_eq_all_conv dropWhile_eq_Nil_conv)
qed

lemma json_fraction_nil: "json_fraction [] = ([], [])" "json_exponent [] = ([], [])"
  by (simp_all add: json_fraction_def json_exponent_def)

lemma py_int_minus: "py_int (CHR ''-'' # show_nat n) = Some (- int n)"
proof -
  have l: "solid (last (show_nat n))"
    using show_nat_digits [of n] digit_solid by (metis last_in_set list_all_iff show_nat_nonempty)
  then have "py_strip (CHR ''-'' # show_nat n) = CHR ''-'' # show_nat n"
    by (intro py_strip_id) (simp_all add: solid_def is_space_def)
  moreover have "plain_digits (show_nat n) = Some (show_nat n)"
    by (intro plain_digits_id) (simp_all add: show_nat_digits)
  moreover have "ascii_digits (CHR ''-'' # show_nat n) = CHR ''-'' # show_nat n"
    by (rule ascii_digits_id) (use show_nat_ascii [of n] in \<open>simp add: is_ascii_def\<close>)
  ultimately show ?thesis by (simp add: py_int_def)
qed

lemma json_number_show_int: "json_number (show_int i) = Some (VInt i, [])"
proof (cases "i < 0")
  case True
  then have s: "show_int i = CHR ''-'' # show_nat (nat (- i))" by (simp add: show_int_def)
  have "json_sign (show_int i) = (''-'', show_nat (nat (- i)))" unfolding s by (simp add: json_sign_def)
  then show ?thesis using True
    by (simp add: json_number_def json_whole_show_nat json_fraction_nil py_int_minus)
next
  case False
  then have s: "show_int i = show_nat (nat i)" by (simp add: show_int_def)
  obtain c u where c: "show_nat (nat i) = c # u" by (cases "show_nat (nat i)") auto
  then have "c \<noteq> CHR ''-''" using show_nat_digits [of "nat i"] by (auto simp: is_digit_def)
  then have "json_sign (show_int i) = ([], show_nat (nat i))" unfolding s by (simp add: c json_sign_def)
  then show ?thesis using False
    by (simp add: json_number_def json_whole_show_nat json_fraction_nil py_int_show_nat)
qed

subsection \<open>The canonical form\<close>

text \<open>
  What a reader of the bytes sees: keys in order, tuples as lists, small whole floats as
  integers.
\<close>

fun canon :: "korder \<Rightarrow> pyval \<Rightarrow> pyval"
and canon_list :: "korder \<Rightarrow> pyval list \<Rightarrow> pyval list"
and canon_items :: "korder \<Rightarrow> (string \<times> pyval) list \<Rightarrow> (string \<times> pyval) list" where
  "canon ord (VFloat f) = (case f of Fin q \<Rightarrow> if small_whole q then VInt \<lfloor>q\<rfloor> else VFloat f | _ \<Rightarrow> VFloat f)"
| "canon ord (VList vs) = VList (canon_list ord vs)"
| "canon ord (VTuple vs) = VList (canon_list ord vs)"
| "canon ord (VDict d) = VDict (sort_by (item_less ord) (canon_items ord d))"
| "canon ord v = v"
| "canon_list ord [] = []"
| "canon_list ord (v # vs) = canon ord v # canon_list ord vs"
| "canon_items ord [] = []"
| "canon_items ord ((k, v) # d) = (k, canon ord v) # canon_items ord d"

text \<open>The floats that \<open>repr\<close> writes, and what is asked of \<open>repr\<close>: the text is a JSON number that
  \<open>float\<close>, which rounds to the nearest double, reads back as the float, as Python documents of it.\<close>

fun floats_ok :: "(rat \<Rightarrow> string) \<Rightarrow> pyval \<Rightarrow> bool"
and floats_ok_list :: "(rat \<Rightarrow> string) \<Rightarrow> pyval list \<Rightarrow> bool"
and floats_ok_items :: "(rat \<Rightarrow> string) \<Rightarrow> (string \<times> pyval) list \<Rightarrow> bool" where
  "floats_ok frepr (VFloat f) =
     (case f of Fin q \<Rightarrow> small_whole q \<or> json_number (frepr q) = Some (VFloat (Fin q), []) | _ \<Rightarrow> True)"
| "floats_ok frepr (VList vs) = floats_ok_list frepr vs"
| "floats_ok frepr (VTuple vs) = floats_ok_list frepr vs"
| "floats_ok frepr (VDict d) = floats_ok_items frepr d"
| "floats_ok frepr _ = True"
| "floats_ok_list frepr [] = True"
| "floats_ok_list frepr (v # vs) = (floats_ok frepr v \<and> floats_ok_list frepr vs)"
| "floats_ok_items frepr [] = True"
| "floats_ok_items frepr ((k, v) # d) = (floats_ok frepr v \<and> floats_ok_items frepr d)"

text \<open>Objects whose keys are ASCII: the ones that the writer sorts as the code does in Foundation's order.\<close>

fun ascii_keys :: "pyval \<Rightarrow> bool" and ascii_keys_list :: "pyval list \<Rightarrow> bool"
and ascii_keys_items :: "(string \<times> pyval) list \<Rightarrow> bool" where
  "ascii_keys (VList vs) = ascii_keys_list vs"
| "ascii_keys (VTuple vs) = ascii_keys_list vs"
| "ascii_keys (VDict d) = ascii_keys_items d"
| "ascii_keys _ = True"
| "ascii_keys_list [] = True"
| "ascii_keys_list (v # vs) = (ascii_keys v \<and> ascii_keys_list vs)"
| "ascii_keys_items [] = True"
| "ascii_keys_items ((k, v) # d) = (is_ascii k \<and> ascii_keys v \<and> ascii_keys_items d)"

lemma canon_list_map: "canon_list ord vs = map (canon ord) vs"
  by (induction vs) auto

lemma canon_items_map: "canon_items ord d = map (\<lambda>(k, v). (k, canon ord v)) d"
  by (induction d) auto

lemma floats_ok_list_iff: "floats_ok_list frepr vs \<longleftrightarrow> (\<forall>v \<in> set vs. floats_ok frepr v)"
  by (induction vs) auto

lemma floats_ok_items_iff: "floats_ok_items frepr d \<longleftrightarrow> (\<forall>(k, v) \<in> set d. floats_ok frepr v)"
  by (induction d) auto

lemma wf_list_iff: "wf_list vs \<longleftrightarrow> (\<forall>v \<in> set vs. wf_val v)"
  by (induction vs) auto

lemma wf_items_iff: "wf_items d \<longleftrightarrow> (\<forall>(k, v) \<in> set d. wf_val v)"
  by (induction d) auto

lemma insert_by_item:
  "insert_by (item_less ord) (k, f v) (map (\<lambda>(k, v). (k, f v)) d)
    = map (\<lambda>(k, v). (k, f v)) (insert_by (item_less ord) (k, v) d)"
  by (induction d) (auto simp: item_less_def)

lemma sort_by_item: "sort_by (item_less ord) (map (\<lambda>(k, v). (k, f v)) d)
    = map (\<lambda>(k, v). (k, f v)) (sort_by (item_less ord) d)"
  by (induction d) (auto simp: sort_by_def insert_by_item)

lemma canon_dict: "canon ord (VDict d) = VDict (map (\<lambda>(k, v). (k, canon ord v)) (sort_by (item_less ord) d))"
  by (simp add: canon_items_map sort_by_item)


text \<open>Where the text of a value starts, and the fuel it needs: some, and then any more.\<close>

definition reads :: "string \<Rightarrow> pyval \<Rightarrow> bool" where
  "reads t v \<longleftrightarrow> (\<exists>c u. t = c # u \<and> \<not> json_space c \<and> c \<noteq> CHR '']'' \<and> c \<noteq> CHR ''}'')
     \<and> (\<forall>r. delim r \<longrightarrow> (\<exists>n. json_value n (t @ r) = Some (v, r)))"

lemma json_elems_more: "json_elems n s = Some x \<Longrightarrow> n \<le> m \<Longrightarrow> json_elems m s = Some x"
  by (induction m) (auto simp: le_Suc_eq json_value_mono simp del: json_elems.simps)

lemma json_members_more: "json_members n d s = Some x \<Longrightarrow> n \<le> m \<Longrightarrow> json_members m d s = Some x"
  by (induction m) (auto simp: le_Suc_eq json_value_mono simp del: json_members.simps)

lemma next_char_plain: "\<not> json_space c \<Longrightarrow> next_char (c # s) = Some (c, s)"
  by (simp add: next_char_def skip_space_def)

lemma punct_not_space [simp]:
  "\<not> json_space (CHR '','')" "\<not> json_space (CHR ''}'')" "\<not> json_space (CHR '']'')"
  "\<not> json_space (CHR '':'')" "\<not> json_space (CHR 0x22)" "\<not> json_space (CHR ''{'')" "\<not> json_space (CHR ''['')"
  by (simp_all add: json_space_def)

lemma skip_space_reads: "reads t v \<Longrightarrow> skip_space (t @ r) = t @ r"
  by (auto simp: reads_def skip_space_def)

lemma reads_value: "reads t v \<Longrightarrow> delim r \<Longrightarrow> \<exists>n. json_value n (t @ r) = Some (v, r)"
  by (simp add: reads_def)

lemma json_elems_join:
  assumes "list_all2 reads ts vs" "ts \<noteq> []"
  shows "\<exists>n. json_elems n (join_with '','' ts @ CHR '']'' # r) = Some (vs, r)"
  using assms
proof (induction ts arbitrary: vs)
  case (Cons t ts)
  then obtain v vs' where v: "vs = v # vs'" "reads t v" "list_all2 reads ts vs'"
    by (auto simp: list_all2_Cons1)
  show ?case
  proof (cases "ts = []")
    case True
    obtain n where "json_value n (t @ CHR '']'' # r) = Some (v, CHR '']'' # r)"
      using reads_value [OF v(2) delim_cons(3)] by blast
    then have "json_elems (Suc n) (t @ CHR '']'' # r) = Some ([v], r)"
      by (simp add: next_char_plain)
    then show ?thesis using True v by (auto simp del: json_elems.simps)
  next
    case False
    define s where "s = join_with '','' ts @ CHR '']'' # r"
    obtain u us where ts: "ts = u # us" using False by (cases ts) auto
    obtain w ws where w: "vs' = w # ws" "reads u w" using v(3) ts by (auto simp: list_all2_Cons1)
    have "skip_space s = s"
      using skip_space_reads [OF w(2)] unfolding s_def ts by (cases us) auto
    moreover obtain n where n: "json_elems n s = Some (vs', r)"
      using Cons.IH [OF v(3) False] s_def by blast
    moreover obtain m where m: "json_value m (t @ CHR '','' # s) = Some (v, CHR '','' # s)"
      using reads_value [OF v(2) delim_cons(1)] by blast
    ultimately have "json_elems (Suc (max m n)) (t @ CHR '','' # s) = Some (vs, r)"
      using json_value_more [OF m, of "max m n"] json_elems_more [OF n, of "max m n"] v
      by (simp add: next_char_plain)
    then show ?thesis unfolding s_def ts by (auto simp del: json_elems.simps)
  qed
qed simp

lemma json_key_quote:
  assumes "reads t v"
  shows "json_key (json_quote esc k @ '':'' @ t @ r) = Some (k, t @ r)"
proof -
  have "json_quote esc k @ '':'' @ t @ r =
      CHR 0x22 # concat (map (escape_char esc) k) @ CHR 0x22 # CHR '':'' # t @ r"
    by (simp add: json_quote_def)
  then show ?thesis using skip_space_reads [OF assms]
    by (simp add: json_key_def json_string_quote next_char_plain)
qed

definition member :: "bool \<Rightarrow> string \<times> string \<Rightarrow> string" where
  "member esc kt = json_quote esc (fst kt) @ '':'' @ snd kt"

lemma json_members_join:
  assumes "list_all2 (\<lambda>kt kv. fst kt = fst kv \<and> reads (snd kt) (snd kv)) kts d" "kts \<noteq> []"
    "distinct (dkeys acc @ dkeys d)"
  shows "\<exists>n. json_members n acc (join_with '','' (map (member esc) kts) @ CHR ''}'' # r) = Some (acc @ d, r)"
  using assms
proof (induction kts arbitrary: d acc)
  case (Cons kt kts)
  obtain k t where kt: "kt = (k, t)" by (cases kt)
  then obtain v d' where d: "d = (k, v) # d'" "reads t v"
    "list_all2 (\<lambda>kt kv. fst kt = fst kv \<and> reads (snd kt) (snd kv)) kts d'"
    using Cons.prems(1) by (auto simp: list_all2_Cons1)
  have new: "dset acc k v = acc @ [(k, v)]" using Cons.prems(3) d by (intro dset_new) auto
  have key: "json_key (member esc kt @ s) = Some (k, t @ s)" for s
    using json_key_quote [OF d(2)] by (simp add: member_def kt)
  show ?case
  proof (cases "kts = []")
    case True
    obtain n where "json_value n (t @ CHR ''}'' # r) = Some (v, CHR ''}'' # r)"
      using reads_value [OF d(2) delim_cons(2)] by blast
    then have "json_members (Suc n) acc (member esc kt @ CHR ''}'' # r) = Some (acc @ [(k, v)], r)"
      by (simp add: key new next_char_plain)
    then show ?thesis using True d by (auto simp del: json_members.simps)
  next
    case False
    define s where "s = join_with '','' (map (member esc) kts) @ CHR ''}'' # r"
    obtain u us where kts: "kts = u # us" using False by (cases kts) auto
    have sp: "skip_space s = s"
      unfolding s_def kts by (cases us) (simp_all add: member_def json_quote_def skip_space_def)
    have "distinct (dkeys (acc @ [(k, v)]) @ dkeys d')" using Cons.prems(3) d by auto
    from Cons.IH [OF d(3) False this]
    obtain n where n: "json_members n (acc @ [(k, v)]) s = Some (acc @ d, r)"
      using d by (auto simp: s_def)
    obtain m where m: "json_value m (t @ CHR '','' # s) = Some (v, CHR '','' # s)"
      using reads_value [OF d(2) delim_cons(1)] by blast
    have "json_members (Suc (max m n)) acc (member esc kt @ CHR '','' # s) = Some (acc @ d, r)"
      using json_value_more [OF m, of "max m n"] json_members_more [OF n, of "max m n"]
      by (simp add: key new sp next_char_plain)
    then show ?thesis unfolding s_def kts by (auto simp del: json_members.simps)
  qed
qed simp


lemma readsI:
  assumes "t = c # u" "\<not> json_space c" "c \<noteq> CHR '']''" "c \<noteq> CHR ''}''"
    and "\<And>r. delim r \<Longrightarrow> \<exists>n. json_value n (t @ r) = Some (v, r)"
  shows "reads t v"
  using assms unfolding reads_def by blast

lemma reads_number:
  assumes "json_number t = Some (v, [])"
  shows "reads t v"
proof -
  obtain c u where t: "t = c # u" "is_digit c \<or> c = CHR ''-''" using json_number_head [OF assms] by blast
  then have "\<not> json_space c" "c \<noteq> CHR '']''" "c \<noteq> CHR ''}''"
    by (auto simp: is_digit_def json_space_def Let_def)
  with t(1) show ?thesis using json_value_number [OF assms] by (blast intro: readsI)
qed

lemma readsI1:
  assumes "t = c # u" "\<not> json_space c" "c \<noteq> CHR '']''" "c \<noteq> CHR ''}''"
    and "\<And>r. json_value 1 (t @ r) = Some (v, r)"
  shows "reads t v"
  using assms unfolding reads_def by blast

lemma reads_literal:
  "reads ''null'' VNull" "reads ''true'' (VBool True)" "reads ''false'' (VBool False)"
  by (rule readsI1 [OF refl];
      simp add: json_space_def json_literals_def json_atom_def json_literal_def startswith_def)+

lemma reads_string: "reads (json_quote esc s) (VStr s)"
proof (rule readsI1)
  show "json_quote esc s = CHR 0x22 # tl (json_quote esc s)" by (simp add: json_quote_def)
  fix r
  have "json_quote esc s @ r = CHR 0x22 # concat (map (escape_char esc) s) @ CHR 0x22 # r"
    by (simp add: json_quote_def)
  then show "json_value 1 (json_quote esc s @ r) = Some (VStr s, r)"
    by (simp add: json_atom_def startswith_def json_string_quote)
qed simp_all

lemma reads_list:
  assumes "list_all2 reads ts vs"
  shows "reads (''['' @ join_with '','' ts @ '']'') (VList vs)"
proof -
  have "\<exists>n. json_value n ((''['' @ join_with '','' ts @ '']'') @ r) = Some (VList vs, r)" for r
  proof (cases "ts = []")
    case True
    with assms show ?thesis by (intro exI [of _ 1]) (simp add: next_char_plain)
  next
    case False
    then obtain t us where ts: "ts = t # us" by (cases ts) auto
    define s where "s = join_with '','' ts @ CHR '']'' # r"
    obtain n where n: "json_elems n s = Some (vs, r)"
      using json_elems_join [OF assms False] s_def by blast
    obtain v ws where "vs = v # ws" "reads t v" using assms ts by (auto simp: list_all2_Cons1)
    then obtain c u where c: "t = c # u" "\<not> json_space c" "c \<noteq> CHR '']''" by (auto simp: reads_def)
    then obtain x where s: "s = c # x" unfolding s_def ts by (cases us) auto
    have "json_value (Suc n) (CHR ''['' # s) = Some (VList vs, r)"
      using n c unfolding s by (simp add: next_char_plain del: json_elems.simps)
    then have "json_value (Suc n) ((''['' @ join_with '','' ts @ '']'') @ r) = Some (VList vs, r)"
      unfolding s_def append.assoc append_Cons append_Nil .
    then show ?thesis by blast
  qed
  then show ?thesis by (intro readsI [OF append_Cons]) simp_all
qed

lemma reads_dict:
  assumes "list_all2 (\<lambda>kt kv. fst kt = fst kv \<and> reads (snd kt) (snd kv)) kts d" "distinct (dkeys d)"
  shows "reads (''{'' @ join_with '','' (map (member esc) kts) @ ''}'') (VDict d)"
proof -
  have "\<exists>n. json_value n ((''{'' @ join_with '','' (map (member esc) kts) @ ''}'') @ r) = Some (VDict d, r)" for r
  proof (cases "kts = []")
    case True
    with assms show ?thesis by (intro exI [of _ 1]) (simp add: next_char_plain)
  next
    case False
    then obtain kt us where kts: "kts = kt # us" by (cases kts) auto
    define s where "s = join_with '','' (map (member esc) kts) @ CHR ''}'' # r"
    obtain n where n: "json_members n [] s = Some (d, r)"
      using json_members_join [OF assms(1) False, of "[]"] assms(2) s_def by auto
    obtain x where s: "s = CHR 0x22 # x" unfolding s_def kts
      by (cases us) (simp_all add: member_def json_quote_def)
    have "json_value (Suc n) (CHR ''{'' # s) = Some (VDict d, r)"
      using n unfolding s by (simp add: next_char_plain del: json_members.simps)
    then have "json_value (Suc n) ((''{'' @ join_with '','' (map (member esc) kts) @ ''}'') @ r) = Some (VDict d, r)"
      unfolding s_def append.assoc append_Cons append_Nil .
    then show ?thesis by blast
  qed
  then show ?thesis by (intro readsI [OF append_Cons]) simp_all
qed

text \<open>Whatever is written reads back as the canonical form.\<close>

lemma rmap_reads:
  assumes "rmap f vs = Inr ts" "\<And>v t. v \<in> set vs \<Longrightarrow> f v = Inr t \<Longrightarrow> reads t (g v)"
  shows "list_all2 reads ts (map g vs)"
  using assms by (induction vs arbitrary: ts) (auto simp: rbind_Inr_iff)

lemma write_json_reads:
  "write_json frepr ord esc v = Inr t \<Longrightarrow> wf_val v \<Longrightarrow> floats_ok frepr v \<Longrightarrow> reads t (canon ord v)"
proof (induction frepr ord esc v arbitrary: t rule: write_json.induct)
  case (1 frepr ord esc v)
  note w = "1.prems"(1) [unfolded write_json.simps [of frepr ord esc v]]
  show ?case
  proof (cases v)
    case (VBool b)
    with w show ?thesis by (cases b) (auto intro!: reads_literal simp: json_literals_def)
  next
    case (VFloat f)
    with w "1.prems" obtain q where "f = Fin q"
      and "t = (if small_whole q then show_int \<lfloor>q\<rfloor> else frepr q)" by (cases f) auto
    with VFloat "1.prems"(3) show ?thesis
      by (auto intro: reads_number json_number_show_int)
  next
    case (VList vs)
    with w obtain ts where ts: "rmap (write_json frepr ord esc) vs = Inr ts" "t = ''['' @ join_with '','' ts @ '']''"
      by (auto simp: rbind_Inr_iff)
    have "list_all2 reads ts (map (canon ord) vs)"
      by (rule rmap_reads [OF ts(1)], rule "1.IH"(1))
        (use VList "1.prems" in \<open>auto simp: wf_list_iff floats_ok_list_iff\<close>)
    then show ?thesis using ts VList reads_list by (simp add: canon_list_map)
  next
    case (VTuple vs)
    with w obtain ts where ts: "rmap (write_json frepr ord esc) vs = Inr ts" "t = ''['' @ join_with '','' ts @ '']''"
      by (auto simp: rbind_Inr_iff)
    have "list_all2 reads ts (map (canon ord) vs)"
      by (rule rmap_reads [OF ts(1)], rule "1.IH"(2))
        (use VTuple "1.prems" in \<open>auto simp: wf_list_iff floats_ok_list_iff\<close>)
    then show ?thesis using ts VTuple reads_list by (simp add: canon_list_map)
  next
    case (VDict d)
    let ?s = "sort_by (item_less ord) d"
    let ?w = "\<lambda>(k, w). rbind (write_json frepr ord esc w) (\<lambda>t. Inr (json_quote esc k @ '':'' @ t))"
    from VDict w obtain ts where ts: "rmap ?w ?s = Inr ts" "t = ''{'' @ join_with '','' ts @ ''}''"
      by (auto simp: rbind_Inr_iff)
    have ih: "reads u (canon ord x)" if "(k, x) \<in> set ?s" "write_json frepr ord esc x = Inr u" for k x u
      by (rule "1.IH"(3) [OF VDict that(1) refl that(2)])
        (use VDict "1.prems" that(1) in \<open>auto simp: wf_items_iff floats_ok_items_iff\<close>)
    have "\<exists>kts. ts = map (member esc) kts
        \<and> list_all2 (\<lambda>kt kv. fst kt = fst kv \<and> reads (snd kt) (snd kv)) kts (map (\<lambda>(k, x). (k, canon ord x)) xs)"
      if "rmap ?w xs = Inr ts" "set xs \<subseteq> set ?s" for xs
      using that
    proof (induction xs arbitrary: ts)
      case (Cons kx xs)
      obtain k x where kx: "kx = (k, x)" by (cases kx)
      with Cons.prems obtain u us where u: "write_json frepr ord esc x = Inr u" "rmap ?w xs = Inr us"
        "ts = member esc (k, u) # us" by (auto simp: rbind_Inr_iff member_def)
      moreover from Cons u obtain kts where "us = map (member esc) kts"
        "list_all2 (\<lambda>kt kv. fst kt = fst kv \<and> reads (snd kt) (snd kv)) kts (map (\<lambda>(k, x). (k, canon ord x)) xs)"
        by auto
      ultimately show ?case using ih [of k x u] Cons.prems(2) kx
        by (intro exI [of _ "(k, u) # kts"]) auto
    qed simp
    then obtain kts where kts: "ts = map (member esc) kts"
      "list_all2 (\<lambda>kt kv. fst kt = fst kv \<and> reads (snd kt) (snd kv)) kts (map (\<lambda>(k, x). (k, canon ord x)) ?s)"
      using ts(1) by blast
    have "distinct (dkeys ?s)"
      using "1.prems"(2) VDict mset_sort_by [of "item_less ord" d]
      by (metis distinct_count_atmost_1 mset_map wf_val.simps(4) mset_eq_imp_distinct_iff)
    then have "distinct (dkeys (map (\<lambda>(k, x). (k, canon ord x)) ?s))"
      by (simp add: comp_def case_prod_beta)
    with reads_dict [OF kts(2) this] kts ts VDict show ?thesis by (simp only: canon_dict)
  qed (use w in \<open>auto intro!: reads_literal reads_string reads_number json_number_show_int simp: json_literals_def\<close>)
qed


subsection \<open>Sorting items by their keys\<close>

lemma key_less_order: "key_order (key_less ord)"
  by (cases ord) (simp_all add: foundation.key_order_axioms code_point.key_order_axioms)

lemma dkeys_insert_by: "dkeys (insert_by (item_less ord) x d) = insert_by (key_less ord) (fst x) (dkeys d)"
  by (induction d) (auto simp: item_less_def)

lemma dkeys_sort_by: "dkeys (sort_by (item_less ord) d) = sort_by (key_less ord) (dkeys d)"
  by (induction d) (simp_all add: sort_by_def dkeys_insert_by)

lemma sort_by_sorted: "sorted_wrt (\<lambda>x y. \<not> lt y x) xs \<Longrightarrow> sort_by lt xs = xs"
proof (induction xs)
  case (Cons x xs)
  then have "foldr (insert_by lt) xs [] = xs" by (simp add: sort_by_def)
  with Cons show ?case by (cases xs) (auto simp: sort_by_def)
qed (simp add: sort_by_def)

lemma sort_by_item_idem: "sort_by (item_less ord) (sort_by (item_less ord) d) = sort_by (item_less ord) d"
proof (rule sort_by_sorted)
  have "sorted_wrt (\<lambda>x y. \<not> key_less ord y x) (dkeys (sort_by (item_less ord) d))"
    unfolding dkeys_sort_by by (rule key_order.sorted_sort_by [OF key_less_order])
  then show "sorted_wrt (\<lambda>x y. \<not> item_less ord y x) (sort_by (item_less ord) d)"
    by (simp add: sorted_wrt_map item_less_def)
qed

lemma distinct_keys_sort_by: "distinct (dkeys (sort_by (item_less ord) d)) = distinct (dkeys d)"
  by (metis mset_eq_imp_distinct_iff mset_map mset_sort_by)

lemma dget_sort_by:
  assumes "distinct (dkeys d)"
  shows "dget (sort_by (item_less ord) d) k = dget d k"
  using map_of_inject_set [of "sort_by (item_less ord) d" d] assms
  by (simp add: distinct_keys_sort_by)

lemma dict_from_keys: "distinct (dkeys d) \<Longrightarrow> d = map (\<lambda>k. (k, the (dget d k))) (dkeys d)"
  by (simp add: comp_def) (rule map_idI [symmetric], auto)

lemma sort_by_item_cong:
  assumes "distinct (dkeys d)" "distinct (dkeys e)" "\<And>k. dget d k = dget e k"
  shows "sort_by (item_less ord) d = sort_by (item_less ord) e"
proof -
  have "mset (dkeys d) = mset (dkeys e)"
    using dict_mset_eqI [OF assms] by (metis mset_map)
  then have k: "dkeys (sort_by (item_less ord) d) = dkeys (sort_by (item_less ord) e)"
    unfolding dkeys_sort_by by (rule key_order.sort_by_perm [OF key_less_order])
  have f: "sort_by (item_less ord) f = map (\<lambda>k. (k, the (dget f k))) (dkeys (sort_by (item_less ord) f))"
    if "distinct (dkeys f)" for f :: "(string \<times> 'a) list"
    using dict_from_keys [of "sort_by (item_less ord) f"] that
    by (simp only: distinct_keys_sort_by dget_sort_by)
  have "sort_by (item_less ord) d = map (\<lambda>k. (k, the (dget d k))) (dkeys (sort_by (item_less ord) d))"
    by (rule f [OF assms(1)])
  also have "\<dots> = map (\<lambda>k. (k, the (dget e k))) (dkeys (sort_by (item_less ord) e))"
    by (simp only: k assms(3))
  also have "\<dots> = sort_by (item_less ord) e"
    by (rule f [OF assms(2), symmetric])
  finally show ?thesis .
qed

text \<open>The canonical form is written as the value itself is.\<close>

lemma write_json_canon: "write_json frepr ord esc (canon ord v) = write_json frepr ord esc v"
proof (induction frepr ord esc v rule: write_json.induct)
  case (1 frepr ord esc v)
  have sm: "small_whole q \<Longrightarrow> show_int \<lfloor>q\<rfloor> = show_int \<lfloor>q\<rfloor>" for q by simp
  have m: "rmap f (map g xs) = rmap f xs" if "\<And>x. x \<in> set xs \<Longrightarrow> f (g x) = f x"
    for f :: "pyval \<Rightarrow> string res" and g xs
    using that by (induction xs) auto
  have mi: "rmap f (map g xs) = rmap f xs" if "\<And>x. x \<in> set xs \<Longrightarrow> f (g x) = f x"
    for f :: "string \<times> pyval \<Rightarrow> string res" and g xs
    using that by (induction xs) auto
  show ?case
  proof (cases v)
    case (VFloat f)
    then show ?thesis by (cases f) (simp_all add: write_json.simps)
  next
    case (VList vs)
    then show ?thesis using m [of vs "write_json frepr ord esc" "canon ord"] "1.IH"(1) [OF VList]
      by (simp add: write_json.simps [of _ _ _ "VList _"] canon_list_map)
  next
    case (VTuple vs)
    then show ?thesis using m [of vs "write_json frepr ord esc" "canon ord"] "1.IH"(2) [OF VTuple]
      by (simp add: write_json.simps [of _ _ _ "VList _"] write_json.simps [of _ _ _ "VTuple _"] canon_list_map)
  next
    case (VDict d)
    define s where "s = sort_by (item_less ord) d"
    define w where "w = (\<lambda>(k, x). rbind (write_json frepr ord esc x) (\<lambda>t. Inr (json_quote esc k @ '':'' @ t)))"
    have "sort_by (item_less ord) (map (\<lambda>(k, x). (k, canon ord x)) s) = map (\<lambda>(k, x). (k, canon ord x)) s"
      by (simp add: s_def sort_by_item sort_by_item_idem)
    moreover have "write_json frepr ord esc (canon ord x) = write_json frepr ord esc x" if "(k, x) \<in> set s" for k x
      using that unfolding s_def by (rule "1.IH"(3) [OF VDict _ refl])
    then have "rmap w (map (\<lambda>(k, x). (k, canon ord x)) s) = rmap w s"
      by (intro mi) (auto simp: w_def)
    ultimately show ?thesis unfolding VDict canon_dict s_def [symmetric]
      by (simp add: write_json.simps [of _ _ _ "VDict _"] w_def s_def [symmetric])
  qed simp_all
qed

subsection \<open>What the canonical bytes promise\<close>

definition order_of :: "string \<Rightarrow> korder" where
  "order_of order = (if order = ''encoder'' then Encoder else Foundation)"

lemma canonical_json_Inr:
  "canonical_json frepr v order esc = Inr bs \<Longrightarrow>
     \<exists>t. write_json frepr (order_of order) esc v = Inr t \<and> decode_utf8 bs = Inr t"
  by (auto simp: canonical_json_def order_of_def rbind_Inr_iff decode_encode_utf8 split: if_splits)

lemma skip_space_nil: "skip_space [] = []"
  by (simp add: skip_space_def)

lemma canonical_reads_back:
  assumes "canonical_json frepr v order esc = Inr bs" "wf_val v" "floats_ok frepr v"
  shows "json_loads bs = Inr (canon (order_of order) v)"
proof -
  obtain t where t: "write_json frepr (order_of order) esc v = Inr t" "decode_utf8 bs = Inr t"
    using canonical_json_Inr [OF assms(1)] by blast
  have r: "reads t (canon (order_of order) v)" by (rule write_json_reads [OF t(1) assms(2,3)])
  then obtain n where "json_value n (t @ []) = Some (canon (order_of order) v, [])"
    using reads_value [of t _ "[]"] by auto
  then have "json_parse t = Inr (canon (order_of order) v)"
    using skip_space_reads [OF r, of "[]"] skip_space_nil by (intro json_parse_complete [of n]) simp_all
  with t(2) show ?thesis by (simp add: json_loads_def)
qed

lemma compare_ascii_order:
  "(compare_ascii l r = 0) = (l = r) \<and> compare_ascii r l = - compare_ascii l r
    \<and> (compare_ascii l r < 0 \<and> compare_ascii r s < 0 \<longrightarrow> compare_ascii l s < 0)"
proof -
  have "compare_ascii a b \<in> {-1, 0, 1}" for a b
    using compare_ascii_tokens_keys [OF ascii_tokens_form ascii_tokens_form, of a b]
    by (auto simp: compare_ascii_def Let_def split: option.splits if_splits)
  moreover have z: "compare_ascii a b = 0 \<longleftrightarrow> a = b" for a b
    using compare_ascii_tokens_keys [OF ascii_tokens_form ascii_tokens_form, of a b] keys_less_irrefl
    by (auto simp: compare_ascii_def Let_def split: option.splits if_splits)
  moreover have "(compare_ascii a b < 0) = foundation_less a b" for a b
    by (simp add: foundation_less_def)
  ultimately show ?thesis
    using foundation.total [of l r] foundation.asym [of l r] foundation.asym [of r l] foundation.trans [of l r s]
    by (smt (verit, best) insert_iff singletonD)
qed

text \<open>
  C26: on ASCII keys Foundation's comparison never raises and is a strict total order: comparing a key
  with itself gives zero and two different keys never tie, swapping the arguments flips the sign, and
  it is transitive; it is the order the canonical writer sorts by. Of \<open>casefold\<close> it is asked
  only that it lowers ASCII letters. Beyond ASCII this fails (\<open>compare_keys_cyclic\<close>).
\<close>

theorem foundation_order:
  assumes "\<forall>s. is_ascii s \<longrightarrow> casefold s = py_lower s" "is_ascii l" "is_ascii r" "is_ascii s"
  shows "\<exists>i j k. compare_keys casefold l r = Inr i \<and> compare_keys casefold r l = Inr (- i)
    \<and> compare_keys casefold r s = Inr j \<and> compare_keys casefold l s = Inr k
    \<and> (i = 0) = (l = r) \<and> (i < 0) = foundation_less l r \<and> (i < 0 \<and> j < 0 \<longrightarrow> k < 0)"
  using compare_ascii_order [of l r s] compare_keys_ascii [OF assms(1,2,3)] compare_keys_ascii [OF assms(1,3,2)]
    compare_keys_ascii [OF assms(1,3,4)] compare_keys_ascii [OF assms(1,2,4)]
  by (simp add: foundation_less_def)

lemma foundation_order_witness:
  "foundation_less ''requestedScopes'' ''requestID'' \<and> compare_keys py_lower ''requestedScopes'' ''z10'' = Inr (- 1)"
proof -
  have c: "compare_keys py_lower ''requestedScopes'' ''requestID'' = Inr (- 1)"
    "compare_keys py_lower ''requestID'' ''z10'' = Inr (- 1)" "compare_keys py_lower ''requestedScopes'' ''z10'' = Inr (- 1)"
    by code_simp+
  have a: "is_ascii ''requestedScopes''" "is_ascii ''requestID''" "is_ascii ''z10''" by (simp_all add: is_ascii_def)
  show ?thesis using foundation_order [OF _ a, of py_lower] c by auto
qed

text \<open>
  Parsing the canonical bytes of a value gives the value back in its canonical form: the same
  data with its keys in order, tuples as lists and whole floats as integers. \<open>repr\<close> is asked to
  write a float as a number that reads back.
\<close>

lemma canonical_json_reads_back:
  assumes "canonical_json frepr v order esc = Inr bs" "wf_val v" "floats_ok frepr v"
  shows "json_loads bs = Inr (canon (order_of order) v)"
  by (rule canonical_reads_back [OF assms])

text \<open>
  C12: two values have the same canonical bytes exactly when they have the same canonical form,
  so a signature over the bytes is a signature over the data. In Foundation's order this is about
  objects with ASCII keys. \<open>repr\<close> is asked, as Python documents, to write a double as a number that
  is read back as the same double.
\<close>

theorem canonical_json_determines:
  assumes "canonical_json frepr v order esc = Inr bs" "wf_val v" "floats_ok frepr v"
    and "canonical_json frepr w order esc = Inr cs" "wf_val w" "floats_ok frepr w"
    and "order = ''encoder'' \<or> ascii_keys v \<and> ascii_keys w"
  shows "bs = cs \<longleftrightarrow> canon (order_of order) v = canon (order_of order) w"
proof
  assume "bs = cs"
  then show "canon (order_of order) v = canon (order_of order) w"
    using canonical_reads_back [OF assms(1-3)] canonical_reads_back [OF assms(4-6)] by simp
next
  assume "canon (order_of order) v = canon (order_of order) w"
  then have "write_json frepr (order_of order) esc v = write_json frepr (order_of order) esc w"
    by (metis write_json_canon)
  then show "bs = cs"
    using canonical_json_Inr [OF assms(1)] canonical_json_Inr [OF assms(4)]
    by (auto dest!: encode_decode_utf8)
qed

text \<open>
  A signing payload is a function of the fields that are not excluded: two wires that bind
  them alike have the same payload, whatever order their keys are in and whatever the excluded
  fields (the signature itself) hold.
\<close>

lemma canonical_payload_covers:
  assumes "distinct (dkeys wire)" "distinct (dkeys wire')"
    and "\<And>k. k \<notin> set excluding \<Longrightarrow> dget wire k = dget wire' k"
  shows "canonical_payload frepr wire excluding = canonical_payload frepr wire' excluding"
proof -
  let ?f = "filter (\<lambda>(k, v). k \<notin> set excluding)"
  have g: "dget (?f d) k = (if k \<in> set excluding then None else dget d k)" for d k
    by (induction d) auto
  have d: "distinct (dkeys (?f d))" if "distinct (dkeys d)" for d
    using that by (induction d) auto
  have "sort_by (item_less Foundation) (?f wire) = sort_by (item_less Foundation) (?f wire')"
  proof (rule sort_by_item_cong)
    show "dget (?f wire) k = dget (?f wire') k" for k
      unfolding g using assms(3) by simp
  qed (rule d assms)+
  then show ?thesis
    by (simp add: canonical_payload_def canonical_json_def write_json.simps [of _ _ _ "VDict _"])
qed


lemma canonical_payload_covers_witness:
  "canonical_payload (\<lambda>q. []) [(''b'', VInt 1), (''signature'', VStr ''x''), (''a'', VNull)] [''signature'']
    = canonical_payload (\<lambda>q. []) [(''a'', VNull), (''b'', VInt 1)] [''signature'']"
  by (rule canonical_payload_covers) auto

text \<open>The double that \<open>repr\<close> writes as \<open>0.1\<close>.\<close>

definition double_tenth :: rat where
  "double_tenth = 3602879701896397 / 36028797018963968"

lemma round_tenth: "round_double (1 / 10) = double_tenth"
proof -
  have l: "leading_bit (1 / 10) = - 4" by code_simp
  have "\<lfloor>36028797018963968 / 5 :: rat\<rfloor> = 7205759403792793" by (simp add: floor_eq_iff)
  then show ?thesis by (simp add: round_double_def l pow2_def Let_def round_even_def double_tenth_def)
qed

lemma tenth_reads_back: "json_number ''0.1'' = Some (VFloat (Fin double_tenth), [])"
proof -
  have "json_sign ''0.1'' = ([], ''0.1'')" "json_whole ''0.1'' = Some (''0'', ''.1'')"
    "json_fraction ''.1'' = (''.1'', [])" "json_exponent [] = ([], [])"
    by code_simp+
  moreover have "py_lower (ascii_digits (py_strip ''0.1'')) = ''0.1''" "split_exponent ''0.1'' = (''0.1'', None)"
    "before_first (CHR ''.'') ''0.1'' = ''0''" "after_first (CHR ''.'') ''0.1'' = ''1''"
    "plain_digits ''0'' = Some ''0''" "plain_digits ''1'' = Some ''1''" "read_digits ''01'' = 1"
    by code_simp+
  then have "py_float ''0.1'' = Some (double_of (1 / 10))"
    by (simp add: py_float_def unsigned_float_def mantissa_def opt_digits_def)
  moreover have "\<not> overflows (1 / 10)" by (simp add: overflows_def)
  ultimately show ?thesis by (simp add: json_number_def double_of_def round_tenth)
qed

lemma tenth_not_small: "\<not> small_whole double_tenth"
proof -
  have "\<lfloor>double_tenth\<rfloor> = 0" by (simp add: floor_eq_iff double_tenth_def)
  then show ?thesis by (simp add: small_whole_def double_tenth_def)
qed

lemma canonical_json_example:
  "canonical_json (\<lambda>q. ''0.1'') (VDict [(''b'', VTuple [VFloat (Fin double_tenth)]), (''a'', VInt 2)]) ''foundation'' True
    = Inr (encode_utf8 ''{\"a\":2,\"b\":[0.1]}'')"
  (is "canonical_json _ (VDict ?d) _ _ = _")
proof -
  have "foundation_less ''a'' ''b''" by code_simp
  then have s: "sort_by (item_less Foundation) ?d = rev ?d" by (simp add: sort_by_def item_less_def)
  have q: "json_quote True ''a'' = ''\"a\"''" "json_quote True ''b'' = ''\"b\"''" "show_int 2 = ''2''"
    by code_simp+
  have "valid_utf8 (encode_utf8 ''{\"a\":2,\"b\":[0.1]}'')" by code_simp
  then show ?thesis
    by (simp add: canonical_json_def write_json.simps s q tenth_not_small)
qed

lemma canonical_json_reads_back_witness:
  "json_loads (encode_utf8 ''{\"a\":2,\"b\":[0.1]}'')
    = Inr (VDict [(''a'', VInt 2), (''b'', VList [VFloat (Fin double_tenth)])])"
proof -
  have "foundation_less ''a'' ''b''" by code_simp
  then show ?thesis
    using canonical_json_reads_back [OF canonical_json_example]
    by (simp add: order_of_def tenth_reads_back tenth_not_small sort_by_def item_less_def)
qed

lemma canonical_json_example_list:
  "canonical_json (\<lambda>q. ''0.1'') (VDict [(''a'', VFloat (Fin 2)), (''b'', VList [VFloat (Fin double_tenth)])]) ''foundation'' True
    = Inr (encode_utf8 ''{\"a\":2,\"b\":[0.1]}'')"
  (is "canonical_json _ (VDict ?d) _ _ = _")
proof -
  have "foundation_less ''a'' ''b''" "\<not> foundation_less ''b'' ''a''" by code_simp+
  then have s: "sort_by (item_less Foundation) ?d = ?d" by (simp add: sort_by_def item_less_def)
  have q: "json_quote True ''a'' = ''\"a\"''" "json_quote True ''b'' = ''\"b\"''" "show_int 2 = ''2''"
    by code_simp+
  have "small_whole 2" by (simp add: small_whole_def)
  moreover have "valid_utf8 (encode_utf8 ''{\"a\":2,\"b\":[0.1]}'')" by code_simp
  ultimately show ?thesis
    by (simp add: canonical_json_def write_json.simps s q tenth_not_small)
qed

lemma canonical_json_determines_witness:
  "canon Foundation (VDict [(''b'', VTuple [VFloat (Fin double_tenth)]), (''a'', VInt 2)])
    = canon Foundation (VDict [(''a'', VFloat (Fin 2)), (''b'', VList [VFloat (Fin double_tenth)])])"
  using canonical_json_determines [OF canonical_json_example _ _ canonical_json_example_list]
  by (simp add: order_of_def tenth_reads_back small_whole_def is_ascii_def)

end
