(* ===== verification/Act.thy ===== *)
theory Act
  imports Prelude
begin

text \<open>
  Operations of an object with state: a function of the state that gives a result or an exception
  and the state afterwards. What was changed before an exception stays changed, as in Python.
\<close>

named_theorems act_simps "how a composed operation runs"
named_theorems act_keeps "operations that preserve a property of the state"

type_synonym ('s, 'a) act = "'s \<Rightarrow> 'a res \<times> 's"

definition aret :: "'a \<Rightarrow> ('s, 'a) act" where
  "aret x s = (Inr x, s)"

definition athrow :: "exc \<Rightarrow> ('s, 'a) act" where
  "athrow e s = (Inl e, s)"

definition abind :: "('s, 'a) act \<Rightarrow> ('a \<Rightarrow> ('s, 'b) act) \<Rightarrow> ('s, 'b) act" where
  "abind m f s = (case m s of (Inl e, s') \<Rightarrow> (Inl e, s') | (Inr x, s') \<Rightarrow> f x s')"

definition aget :: "('s \<Rightarrow> 'a) \<Rightarrow> ('s, 'a) act" where
  "aget f s = (Inr (f s), s)"

definition amod :: "('s \<Rightarrow> 's) \<Rightarrow> ('s, unit) act" where
  "amod f s = (Inr (), f s)"

definition alift :: "'a res \<Rightarrow> ('s, 'a) act" where
  "alift r s = (r, s)"

text \<open>\<open>try\<close> with one handler that sees the exception.\<close>

definition acatch :: "('s, 'a) act \<Rightarrow> (exc \<Rightarrow> ('s, 'a) act) \<Rightarrow> ('s, 'a) act" where
  "acatch m h s = (case m s of (Inl e, s') \<Rightarrow> h e s' | (Inr x, s') \<Rightarrow> (Inr x, s'))"

definition aguard :: "bool \<Rightarrow> exc \<Rightarrow> ('s, unit) act" where
  "aguard b e = (if b then aret () else athrow e)"

lemma act_run [act_simps]:
  "aret x s = (Inr x, s)" "athrow e s = (Inl e, s)" "aget f s = (Inr (f s), s)"
  "amod g s = (Inr (), g s)" "alift r s = (r, s)"
  by (simp_all add: aret_def athrow_def aget_def amod_def alift_def)

lemma abind_run [act_simps]:
  "abind (aret x) f s = f x s" "abind (aget g) f s = f (g s) s" "abind (amod h) k s = k () (h s)"
  "abind (athrow e) f s = (Inl e, s)"
  by (simp_all add: abind_def act_run)

lemma abind_Inr:
  "abind m f s = (Inr y, t) \<longleftrightarrow> (\<exists>x u. m s = (Inr x, u) \<and> f x u = (Inr y, t))"
  by (auto simp: abind_def split: prod.splits sum.splits)

lemma abind_Inl:
  "abind m f s = (Inl e, t) \<longleftrightarrow> m s = (Inl e, t) \<or> (\<exists>x u. m s = (Inr x, u) \<and> f x u = (Inl e, t))"
  by (auto simp: abind_def split: prod.splits sum.splits)

lemma abind_assoc: "abind (abind m f) g = abind m (\<lambda>x. abind (f x) g)"
  by (rule ext) (simp add: abind_def split: prod.split sum.split)

lemma acatch_Inr:
  "acatch m h s = (Inr y, t) \<longleftrightarrow> m s = (Inr y, t) \<or> (\<exists>e u. m s = (Inl e, u) \<and> h e u = (Inr y, t))"
  by (auto simp: acatch_def split: prod.splits sum.splits)

text \<open>An operation keeps a property of the state, whether it returns or raises.\<close>

definition keeps_prop :: "('s \<Rightarrow> bool) \<Rightarrow> ('s, 'a) act \<Rightarrow> bool" where
  "keeps_prop P m \<longleftrightarrow> (\<forall>s. P s \<longrightarrow> P (snd (m s)))"

lemma keeps_propD: "keeps_prop P m \<Longrightarrow> P s \<Longrightarrow> m s = (r, t) \<Longrightarrow> P t"
  by (auto simp: keeps_prop_def)

lemma keeps_pure [act_keeps, intro]:
  "keeps_prop P (aret x)" "keeps_prop P (athrow e)" "keeps_prop P (aget f)" "keeps_prop P (alift r)"
  "keeps_prop P (aguard b e)"
  by (auto simp: keeps_prop_def act_run aguard_def)

lemma keeps_bind [act_keeps, intro]:
  "keeps_prop P m \<Longrightarrow> (\<And>x. keeps_prop P (f x)) \<Longrightarrow> keeps_prop P (abind m f)"
  by (auto simp: keeps_prop_def abind_def split: prod.splits sum.splits)

lemma keeps_catch [act_keeps, intro]:
  "keeps_prop P m \<Longrightarrow> (\<And>e. keeps_prop P (h e)) \<Longrightarrow> keeps_prop P (acatch m h)"
  by (auto simp: keeps_prop_def acatch_def split: prod.splits sum.splits)

lemma keeps_mod [act_keeps]: "(\<And>s. P s \<Longrightarrow> P (f s)) \<Longrightarrow> keeps_prop P (amod f)"
  by (simp add: keeps_prop_def act_run)

end
