(* ===== verification/Identity.thy ===== *)
theory Identity
  imports Json_Text
begin

text \<open>
  \<open>identity.py\<close>: identities and their JSON form, the in-memory vault, the delegated vault that
  signs through a bridge, signing challenges, and the proof that a requester controls an identity.

  Ed25519 is not code of the repository: the record \<open>crypto\<close> holds the key derivation, signing
  and verification functions it is used through, and \<open>crypto_ok\<close> the documented fact that an honest
  signature verifies. The clock, fresh keys, fresh identifiers and random bytes are arguments.
  Identity objects are shared between the vault and its callers, so a vault names them by a
  reference into a store; the files, the encryption and the master key of \<open>LocalIdentityVault\<close> are
  not modelled.
\<close>

record crypto =
  ed_public :: "bytes \<Rightarrow> bytes"
  ed_sign :: "bytes \<Rightarrow> bytes \<Rightarrow> bytes"
  ed_verify :: "bytes \<Rightarrow> bytes \<Rightarrow> bytes \<Rightarrow> bool"    \<comment> \<open>public key, signature, message\<close>

definition crypto_ok :: "crypto \<Rightarrow> bool" where
  "crypto_ok cr \<longleftrightarrow> (\<forall>sk msg. ed_verify cr (ed_public cr sk) (ed_sign cr sk msg) msg)"

datatype vault_ref = MemoryVault nat | BridgeVault nat

record identity =
  i_displayName :: string
  i_uuid :: string
  i_publicSecureKey :: "string option"
  i_publicKeyAgreementSecureKey :: "string option"
  i_properties :: pyval
  i_entityAnchorReference :: string
  i_identityVault :: "vault_ref option"
  i_public_secure_key_wire :: "pyval dict option"
  i_public_key_agreement_secure_key_wire :: "pyval dict option"

definition new_identity :: "string \<Rightarrow> string \<Rightarrow> identity" where
  "new_identity name uuid =
     \<lparr>i_displayName = name, i_uuid = uuid, i_publicSecureKey = None, i_publicKeyAgreementSecureKey = None,
      i_properties = VDict [], i_entityAnchorReference = ''cell:///EntityAnchor'', i_identityVault = None,
      i_public_secure_key_wire = None, i_public_key_agreement_secure_key_wire = None\<rparr>"

subsection \<open>Public keys\<close>

definition validated_public_key_bytes :: "string \<Rightarrow> bytes res" where
  "validated_public_key_bytes s =
     (case b64decode_strict s of
        Some bs \<Rightarrow> if length bs = 32 then Inr bs else Inl ValueError
      | None \<Rightarrow> Inl ValueError)"

text \<open>The optional coordinates are kept when they are base64 text.\<close>

definition add_coordinate :: "pyval dict \<Rightarrow> string \<Rightarrow> pyval dict \<Rightarrow> pyval dict res" where
  "add_coordinate value c wire =
     (case getn value c of
        VNull \<Rightarrow> Inr wire
      | VStr s \<Rightarrow> (case b64decode_strict s of Some _ \<Rightarrow> Inr (dset wire c (VStr s)) | None \<Rightarrow> Inl ValueError)
      | _ \<Rightarrow> Inl ValueError)"

definition key_wire :: "string \<Rightarrow> string \<Rightarrow> string \<Rightarrow> pyval \<Rightarrow> pyval dict" where
  "key_wire algorithm compressed_key use date =
     [(''algorithm'', VStr algorithm), (''compressedKey'', VStr compressed_key),
      (''curveType'', VStr ''Curve25519''), (''date'', date), (''privateKey'', VBool False),
      (''size'', VInt 256), (''use'', VStr use)]"

fun is_bool :: "pyval \<Rightarrow> bool" where
  "is_bool (VBool b) = True"
| "is_bool _ = False"

definition decode_public_secure_key ::
    "pyval \<Rightarrow> string \<Rightarrow> string \<Rightarrow> (string option \<times> pyval dict option) res" where
  "decode_public_secure_key value expected_use expected_algorithm =
     (case value of
        VNull \<Rightarrow> Inr (None, None)
      | VStr s \<Rightarrow> rbind (validated_public_key_bytes s) (\<lambda>_. Inr (Some s, None))
      | VDict d \<Rightarrow>
          (if getn d ''privateKey'' \<noteq> VBool False then Inl ValueError
           else if \<not> py_eq (getn d ''use'') (VStr expected_use)
             \<or> \<not> py_eq (getn d ''algorithm'') (VStr expected_algorithm) then Inl ValueError
           else if \<not> py_eq (getn d ''curveType'') (VStr ''Curve25519'') \<or> is_bool (getn d ''size'')
             \<or> \<not> (py_eq (getn d ''size'') (VInt 32) \<or> py_eq (getn d ''size'') (VInt 256)) then Inl ValueError
           else if \<not> is_number (getn d ''date'') then Inl ValueError
           else rbind (float_of (getn d ''date'')) (\<lambda>f.
             if \<not> is_finite f then Inl ValueError
             else case getn d ''compressedKey'' of
               VStr s \<Rightarrow>
                 rbind (validated_public_key_bytes s) (\<lambda>_.
                 rbind (add_coordinate d ''x'' (key_wire expected_algorithm s expected_use (getn d ''date'')))
                   (\<lambda>w. rbind (add_coordinate d ''y'' w) (\<lambda>w'. Inr (Some s, Some w'))))
             | _ \<Rightarrow> Inl ValueError))
      | _ \<Rightarrow> Inl ValueError)"

definition canonical_public_secure_key :: "rat \<Rightarrow> string \<Rightarrow> string \<Rightarrow> string \<Rightarrow> pyval dict res" where
  "canonical_public_secure_key now compressed_key use algorithm =
     rbind (validated_public_key_bytes compressed_key) (\<lambda>_.
       Inr (key_wire algorithm compressed_key use (VFloat (Fin (round_double (now - 978307200))))))"

subsection \<open>The JSON form\<close>

text \<open>The fresh identifier stands for \<open>uuid4()\<close>, used when the payload names none.\<close>

definition Identity_from_json ::
    "(pyval \<Rightarrow> string) \<Rightarrow> string \<Rightarrow> pyval dict \<Rightarrow> vault_ref option \<Rightarrow> identity res" where
  "Identity_from_json pystr fresh payload vault =
     rbind (decode_public_secure_key
             (py_or (getn payload ''publicSecureKey'') (getn payload ''publicKey'')) ''signature'' ''EdDSA'') (\<lambda>(pk, pkw).
     rbind (decode_public_secure_key (getn payload ''publicKeyAgreementSecureKey'') ''keyAgreement'' ''X25519'') (\<lambda>(ak, akw).
     rbind (from_json_value (case dget payload ''properties'' of Some v \<Rightarrow> v | None \<Rightarrow> VDict [])) (\<lambda>props.
       Inr \<lparr>i_displayName = py_str pystr
              (py_or (py_or (getn payload ''displayName'') (getn payload ''name'')) (VStr ''Identity'')),
            i_uuid = py_str pystr (py_or (getn payload ''uuid'') (VStr fresh)),
            i_publicSecureKey = pk, i_publicKeyAgreementSecureKey = ak, i_properties = props,
            i_entityAnchorReference = ''cell:///EntityAnchor'', i_identityVault = vault,
            i_public_secure_key_wire = pkw, i_public_key_agreement_secure_key_wire = akw\<rparr>)))"

text \<open>\<open>_wire_secure_key\<close>: the wire object of a key, kept from an earlier decode or made now.\<close>

definition wire_secure_key :: "rat \<Rightarrow> string \<Rightarrow> pyval dict option \<Rightarrow> string \<Rightarrow> string \<Rightarrow> pyval dict res" where
  "wire_secure_key now compressed_key existing use algorithm =
     (case existing of
        Some w \<Rightarrow>
          (if py_eq (getn w ''compressedKey'') (VStr compressed_key) then Inr w
           else canonical_public_secure_key now compressed_key use algorithm)
      | None \<Rightarrow> canonical_public_secure_key now compressed_key use algorithm)"

definition wire_key_opt ::
    "rat \<Rightarrow> string option \<Rightarrow> pyval dict option \<Rightarrow> string \<Rightarrow> string \<Rightarrow> pyval dict option res" where
  "wire_key_opt now key existing use algorithm =
     (case key of
        None \<Rightarrow> Inr None
      | Some k \<Rightarrow> rbind (wire_secure_key now k existing use algorithm) (\<lambda>w. Inr (Some w)))"

text \<open>\<open>to_json\<close> also stores a wire object it had to make in the identity.\<close>

definition Identity_to_json :: "rat \<Rightarrow> identity \<Rightarrow> (pyval dict \<times> identity) res" where
  "Identity_to_json now i =
     (let base = [(''uuid'', VStr (i_uuid i)), (''displayName'', VStr (i_displayName i)),
                  (''properties'', i_properties i)] in
      rbind (wire_key_opt now (i_publicSecureKey i) (i_public_secure_key_wire i) ''signature'' ''EdDSA'') (\<lambda>pkw.
      rbind (wire_key_opt now (i_publicKeyAgreementSecureKey i) (i_public_key_agreement_secure_key_wire i)
               ''keyAgreement'' ''X25519'') (\<lambda>akw.
        Inr (base @ (case pkw of None \<Rightarrow> [] | Some w \<Rightarrow> [(''publicSecureKey'', VDict w)])
                  @ (case akw of None \<Rightarrow> [] | Some w \<Rightarrow> [(''publicKeyAgreementSecureKey'', VDict w)]),
             i\<lparr>i_public_secure_key_wire := (case pkw of None \<Rightarrow> i_public_secure_key_wire i | _ \<Rightarrow> pkw),
               i_public_key_agreement_secure_key_wire :=
                 (case akw of None \<Rightarrow> i_public_key_agreement_secure_key_wire i | _ \<Rightarrow> akw)\<rparr>))))"

subsection \<open>Signatures and references\<close>

definition verify_identity_signature :: "crypto \<Rightarrow> bytes \<Rightarrow> bytes \<Rightarrow> identity \<Rightarrow> bool" where
  "verify_identity_signature cr signature message i =
     (case i_publicSecureKey i of
        None \<Rightarrow> False
      | Some k \<Rightarrow> (case b64decode_strict k of Some pk \<Rightarrow> ed_verify cr pk signature message | None \<Rightarrow> False))"

definition same_identity_reference :: "identity option \<Rightarrow> identity option \<Rightarrow> bool" where
  "same_identity_reference left right =
     (case (left, right) of
        (Some l, Some r) \<Rightarrow> i_uuid l = i_uuid r \<and> i_publicSecureKey l \<noteq> None
          \<and> i_publicSecureKey l = i_publicSecureKey r
      | _ \<Rightarrow> False)"

definition identity_signing_fingerprint :: "identity \<Rightarrow> string option" where
  "identity_signing_fingerprint i =
     (case i_publicSecureKey i of
        Some k \<Rightarrow> (if k = [] then None else Some (''EdDSA:Curve25519:'' @ k))
      | None \<Rightarrow> None)"

subsection \<open>Signing challenges\<close>

definition is_scope :: "pyval \<Rightarrow> bool" where
  "is_scope v = (case v of VStr s \<Rightarrow> py_strip s \<noteq> [] \<and> py_len s \<le> 512 | _ \<Rightarrow> False)"

definition challenge_nonce :: "pyval dict \<Rightarrow> bytes option" where
  "challenge_nonce d =
     (case (case dget d ''nonce'' of Some v \<Rightarrow> v | None \<Rightarrow> VStr []) of
        VStr s \<Rightarrow> b64decode_strict s
      | _ \<Rightarrow> None)"

definition finite_number :: "pyval \<Rightarrow> rat option res" where
  "finite_number v = rbind (float_of v) (\<lambda>f. Inr (case f of Fin q \<Rightarrow> Some q | _ \<Rightarrow> None))"

text \<open>
  The window in which a challenge may be signed. Python compares numbers exactly, subtracts two
  integers exactly and anything else as doubles.
\<close>

fun time_span :: "pyval \<Rightarrow> pyval \<Rightarrow> rat \<Rightarrow> rat \<Rightarrow> rat" where
  "time_span (VInt i) (VInt j) expires issued = expires - issued"
| "time_span v w expires issued = round_double (round_double expires - round_double issued)"

definition challenge_times :: "rat \<Rightarrow> pyval dict \<Rightarrow> unit res" where
  "challenge_times now d =
     (if \<not> is_number (getn d ''issuedAt'') \<or> \<not> is_number (getn d ''expiresAt'') then Inl PermissionError
      else rbind (finite_number (getn d ''issuedAt'')) (\<lambda>a.
        case a of None \<Rightarrow> Inl PermissionError
        | Some issued \<Rightarrow>
            rbind (finite_number (getn d ''expiresAt'')) (\<lambda>b.
              case b of None \<Rightarrow> Inl PermissionError
              | Some expires \<Rightarrow>
                  if expires < issued \<or> time_span (getn d ''expiresAt'') (getn d ''issuedAt'') expires issued > 60
                    then Inl PermissionError
                  else if issued > round_double (now + 300) then Inl PermissionError
                  else if expires < now then Inl PermissionError
                  else Inr ())))"

definition validated_signing_challenge ::
    "rat \<Rightarrow> bytes \<Rightarrow> identity \<Rightarrow> (pyval dict \<times> (string \<times> string)) res" where
  "validated_signing_challenge now message i =
     (if 8 * 1024 < length message then Inl PermissionError
      else case json_loads message of
        Inr (VDict d) \<Rightarrow>
          (if \<not> py_eq (getn d ''type'') (VStr ''org.haven.cellprotocol.identity-signing-challenge'') then Inl PermissionError
           else if \<not> py_eq (getn d ''version'') (VInt 1) \<or> \<not> py_eq (getn d ''purpose'') (VStr ''identity-origin-proof'')
             then Inl PermissionError
           else if \<not> py_eq (getn d ''identityUUID'') (VStr (i_uuid i)) then Inl PermissionError
           else case identity_signing_fingerprint i of
             None \<Rightarrow> Inl PermissionError
           | Some fp \<Rightarrow>
               if \<not> py_eq (getn d ''publicKeyFingerprint'') (VStr fp) then Inl PermissionError
               else if \<not> list_all (\<lambda>k. is_scope (getn d k)) [''domain'', ''resource'', ''action'', ''audience'']
                 then Inl PermissionError
               else case challenge_nonce d of
                 None \<Rightarrow> Inl PermissionError
               | Some nonce \<Rightarrow>
                   if \<not> (32 \<le> length nonce \<and> length nonce \<le> 128) then Inl PermissionError
                   else rbind (challenge_times now d) (\<lambda>_. Inr (d, (i_uuid i, b64encode nonce))))
      | _ \<Rightarrow> Inl PermissionError)"


subsection \<open>Vaults\<close>

record memory_vault =
  v_contexts :: "string dict"
  v_identities :: "nat dict"                 \<comment> \<open>by uuid: the reference of the identity object\<close>
  v_private_signing_keys :: "bytes dict"
  v_tag_keys :: "(string \<times> string) dict"

definition new_memory_vault :: memory_vault where
  "new_memory_vault = \<lparr>v_contexts = [], v_identities = [], v_private_signing_keys = [], v_tag_keys = []\<rparr>"

text \<open>
  The objects of a process: identities by reference, memory vaults by number, and for each bridge
  vault the challenges it has used.
\<close>

record store =
  s_objects :: "(nat \<times> identity) list"
  s_vaults :: "(nat \<times> memory_vault) list"
  s_used :: "(nat \<times> (string \<times> string) list) list"

definition get_object :: "store \<Rightarrow> nat \<Rightarrow> identity option" where
  "get_object s r = dget (s_objects s) r"

definition get_vault :: "store \<Rightarrow> nat \<Rightarrow> memory_vault" where
  "get_vault s n = (case dget (s_vaults s) n of Some v \<Rightarrow> v | None \<Rightarrow> new_memory_vault)"

definition used_challenges :: "store \<Rightarrow> nat \<Rightarrow> (string \<times> string) list" where
  "used_challenges s n = (case dget (s_used s) n of Some u \<Rightarrow> u | None \<Rightarrow> [])"

text \<open>\<open>InMemoryIdentityVault.add_identity\<close> of the vault \<open>n\<close>; \<open>fresh\<close> is the key it would generate.\<close>

definition add_identity ::
    "crypto \<Rightarrow> bytes \<Rightarrow> nat \<Rightarrow> nat \<Rightarrow> string \<Rightarrow> store \<Rightarrow> store res" where
  "add_identity cr fresh n r ctx s =
     (case get_object s r of
        None \<Rightarrow> Inl AttributeError
      | Some i \<Rightarrow>
          (let v = get_vault s n; existing = dget (v_identities v) (i_uuid i) in
           if existing \<noteq> None \<and> existing \<noteq> Some r then Inl PermissionError
           else
             (let key0 = dget (v_private_signing_keys v) (i_uuid i);
                  key = (if key0 = None \<and> i_publicSecureKey i = None then Some fresh else key0);
                  keys = (case key of Some k \<Rightarrow> dset (v_private_signing_keys v) (i_uuid i) k
                          | None \<Rightarrow> v_private_signing_keys v);
                  pub = map_option (\<lambda>k. b64encode (ed_public cr k)) key in
              if pub \<noteq> None \<and> i_publicSecureKey i \<noteq> None \<and> i_publicSecureKey i \<noteq> pub then Inl RuntimeError
              else
                (let i' = i\<lparr>i_publicSecureKey := (case pub of None \<Rightarrow> i_publicSecureKey i | _ \<Rightarrow> pub),
                           i_identityVault := (if key = None then None else Some (MemoryVault n))\<rparr>;
                     v' = v\<lparr>v_private_signing_keys := keys,
                            v_contexts := dset (v_contexts v) ctx (i_uuid i),
                            v_identities := dset (v_identities v) (i_uuid i) r\<rparr>
                 in Inr (s\<lparr>s_objects := dset (s_objects s) r i', s_vaults := dset (s_vaults s) n v'\<rparr>)))))"

text \<open>\<open>identity(context)\<close>: the reference of the identity of a context, made when asked for; \<open>r\<close> and
  \<open>uuid\<close> are the new object's reference and identifier.\<close>

definition vault_identity ::
    "crypto \<Rightarrow> bytes \<Rightarrow> string \<Rightarrow> nat \<Rightarrow> nat \<Rightarrow> string \<Rightarrow> bool \<Rightarrow> store \<Rightarrow> (nat option \<times> store) res" where
  "vault_identity cr fresh uuid r n ctx make_new s =
     (let v = get_vault s n in
      case dget (v_contexts v) ctx of
        Some u \<Rightarrow> (case dget (v_identities v) u of Some x \<Rightarrow> Inr (Some x, s) | None \<Rightarrow> Inl KeyError)
      | None \<Rightarrow>
          if \<not> make_new then Inr (None, s)
          else rbind (add_identity cr fresh n r ctx (s\<lparr>s_objects := dset (s_objects s) r (new_identity ctx uuid)\<rparr>))
            (\<lambda>s'. Inr (Some r, s')))"

definition identity_for_uuid :: "nat \<Rightarrow> string \<Rightarrow> store \<Rightarrow> nat option" where
  "identity_for_uuid n uuid s = dget (v_identities (get_vault s n)) uuid"

definition identity_exists_in_vault :: "nat \<Rightarrow> string \<Rightarrow> store \<Rightarrow> bool" where
  "identity_exists_in_vault n uuid s \<longleftrightarrow> uuid \<in> set (dkeys (v_identities (get_vault s n)))"

definition memory_sign :: "crypto \<Rightarrow> nat \<Rightarrow> identity \<Rightarrow> bytes \<Rightarrow> store \<Rightarrow> bytes res" where
  "memory_sign cr n i message s =
     (let v = get_vault s n in
      case dget (v_private_signing_keys v) (i_uuid i) of
        None \<Rightarrow> Inl RuntimeError
      | Some sk \<Rightarrow>
          if \<not> same_identity_reference (Some i)
                (Option.bind (dget (v_identities v) (i_uuid i)) (get_object s)) then Inl RuntimeError
          else Inr (ed_sign cr sk message))"

definition aquire_key_for_tag ::
    "nat \<Rightarrow> string \<Rightarrow> bytes \<Rightarrow> bytes \<Rightarrow> store \<Rightarrow> (string \<times> string) \<times> store" where
  "aquire_key_for_tag n tag rand1 rand2 s =
     (let v = get_vault s n in
      case dget (v_tag_keys v) tag of
        Some k \<Rightarrow> (k, s)
      | None \<Rightarrow>
          let k = (b64encode rand1, b64encode rand2)
          in (k, s\<lparr>s_vaults := dset (s_vaults s) n (v\<lparr>v_tag_keys := dset (v_tag_keys v) tag k\<rparr>)\<rparr>))"

text \<open>
  What a process is connected to: the clock, the peer behind each bridge, and the scope check each
  bridge vault was given, if any.
\<close>

record outside =
  o_crypto :: crypto
  o_now :: rat
  o_bridge_sign :: "nat \<Rightarrow> identity \<Rightarrow> bytes \<Rightarrow> pyval res"
  o_scope_validator :: "nat \<Rightarrow> (pyval dict \<Rightarrow> identity \<Rightarrow> pyval res) option"

definition signature_of :: "pyval \<Rightarrow> bytes res" where
  "signature_of v =
     (case v of
        VBytes bs \<Rightarrow> Inr bs
      | VStr s \<Rightarrow> (if is_ascii s then case b64decode_lax s of Some bs \<Rightarrow> Inr bs | None \<Rightarrow> Inl ValueError
                  else Inl ValueError)
      | _ \<Rightarrow> Inl RuntimeError)"

text \<open>\<open>BridgeIdentityVault.sign_message_for_identity\<close>: a signature is returned at most once for a challenge.\<close>

definition bridge_vault_sign :: "outside \<Rightarrow> nat \<Rightarrow> identity \<Rightarrow> bytes \<Rightarrow> store \<Rightarrow> bytes res \<times> store" where
  "bridge_vault_sign out n i message s =
     (case validated_signing_challenge (o_now out) message i of
        Inl e \<Rightarrow> (Inl e, s)
      | Inr (challenge, replay) \<Rightarrow>
          (case o_scope_validator out n of
             None \<Rightarrow> (Inl PermissionError, s)
           | Some validator \<Rightarrow>
               (case validator challenge i of
                  Inl e \<Rightarrow> (Inl e, s)
                | Inr ok \<Rightarrow>
                    if ok \<noteq> VBool True then (Inl PermissionError, s)
                    else if replay \<in> set (used_challenges s n) then (Inl PermissionError, s)
                    else
                      (case rbind (o_bridge_sign out n i message) signature_of of
                         Inl e \<Rightarrow> (Inl e, s)
                       | Inr signature \<Rightarrow>
                           if \<not> verify_identity_signature (o_crypto out) signature message i
                           then (Inl PermissionError, s)
                           else (Inr signature,
                                 s\<lparr>s_used := dset (s_used s) n (used_challenges s n @ [replay])\<rparr>)))))"

definition Identity_sign :: "outside \<Rightarrow> identity \<Rightarrow> bytes \<Rightarrow> store \<Rightarrow> bytes res \<times> store" where
  "Identity_sign out i message s =
     (case i_identityVault i of
        None \<Rightarrow> (Inl RuntimeError, s)
      | Some (MemoryVault n) \<Rightarrow> (memory_sign (o_crypto out) n i message s, s)
      | Some (BridgeVault n) \<Rightarrow> bridge_vault_sign out n i message s)"

subsection \<open>Proving control\<close>

definition control_challenge :: "bytes \<Rightarrow> bytes" where
  "control_challenge rand = encode_utf8 ''pycellprotocol.identity-control.v1'' @ [0] @ rand"

definition proves_identity_control ::
    "outside \<Rightarrow> bytes \<Rightarrow> identity option \<Rightarrow> identity option \<Rightarrow> store \<Rightarrow> bool \<times> store" where
  "proves_identity_control out rand requester expected s =
     (if \<not> same_identity_reference requester expected then (False, s)
      else case requester of
        None \<Rightarrow> (False, s)
      | Some i \<Rightarrow>
          if i_identityVault i = None then (False, s)
          else
            (case Identity_sign out i (control_challenge rand) s of
               (Inl e, s') \<Rightarrow> (False, s')
             | (Inr signature, s') \<Rightarrow>
                 (verify_identity_signature (o_crypto out) signature (control_challenge rand) (the expected), s')))"


subsection \<open>The JSON form is read back\<close>

lemma getn_simps [simp]:
  "getn [] k = VNull"
  "getn ((k', v) # d) k = (if k = k' then v else getn d k)"
  by (simp_all add: getn_def)

lemma getn_dset [simp]: "getn (dset d k v) k' = (if k' = k then v else getn d k')"
  by (simp add: getn_def)

definition wire_ok :: "string \<Rightarrow> string \<Rightarrow> pyval dict \<Rightarrow> bool" where
  "wire_ok use algorithm w \<longleftrightarrow>
     (\<exists>k. decode_public_secure_key (VDict w) use algorithm = Inr (Some k, Some w) \<and> getn w ''compressedKey'' = VStr k)"

text \<open>What may be added to the wire of a key: its two coordinates, in this order.\<close>

lemma add_coordinate_Inr:
  "add_coordinate d c w = Inr w' \<Longrightarrow>
     (w' = w \<and> getn d c = VNull) \<or> (\<exists>s. getn d c = VStr s \<and> b64decode_strict s \<noteq> None \<and> w' = dset w c (VStr s))"
  by (auto simp: add_coordinate_def split: pyval.splits option.splits)

lemma add_coordinate_none: "getn d c = VNull \<Longrightarrow> add_coordinate d c w = Inr w"
  by (simp add: add_coordinate_def)

lemma add_coordinate_some:
  "getn d c = VStr s \<Longrightarrow> b64decode_strict s \<noteq> None \<Longrightarrow> add_coordinate d c w = Inr (dset w c (VStr s))"
  by (auto simp: add_coordinate_def)

lemma key_wire_get [simp]:
  "getn (key_wire alg k use date) ''algorithm'' = VStr alg"
  "getn (key_wire alg k use date) ''compressedKey'' = VStr k"
  "getn (key_wire alg k use date) ''curveType'' = VStr ''Curve25519''"
  "getn (key_wire alg k use date) ''date'' = date"
  "getn (key_wire alg k use date) ''privateKey'' = VBool False"
  "getn (key_wire alg k use date) ''size'' = VInt 256"
  "getn (key_wire alg k use date) ''use'' = VStr use"
  "getn (key_wire alg k use date) ''x'' = VNull" "getn (key_wire alg k use date) ''y'' = VNull"
  by (simp_all add: key_wire_def)

lemma decode_key_wire:
  assumes "is_number date" "float_of date = Inr f" "is_finite f" "validated_public_key_bytes k = Inr bs"
    and w: "w = key_wire alg k use date \<or> (\<exists>s. w = dset (key_wire alg k use date) ''x'' (VStr s) \<and> b64decode_strict s \<noteq> None)"
    and w': "w' = w \<or> (\<exists>s. w' = dset w ''y'' (VStr s) \<and> b64decode_strict s \<noteq> None)"
  shows "wire_ok use alg w'"
proof -
  let ?b = "key_wire alg k use date"
  have get: "c \<noteq> ''x'' \<Longrightarrow> c \<noteq> ''y'' \<Longrightarrow> getn w' c = getn ?b c" for c using w w' by auto
  have x: "add_coordinate w' ''x'' ?b = Inr w"
    using w w' by (auto intro: add_coordinate_none add_coordinate_some)
  have y: "add_coordinate w' ''y'' w = Inr w'"
    using w w' by (auto intro: add_coordinate_none add_coordinate_some)
  have g: "getn w' ''privateKey'' = VBool False" "getn w' ''use'' = VStr use" "getn w' ''algorithm'' = VStr alg"
    "getn w' ''curveType'' = VStr ''Curve25519''" "getn w' ''size'' = VInt 256" "getn w' ''date'' = date"
    "getn w' ''compressedKey'' = VStr k"
    using get by simp_all
  show ?thesis
    unfolding wire_ok_def decode_public_secure_key_def
    using assms(1-4) x y by (simp add: g)
qed

lemma decode_wire_ok:
  assumes "decode_public_secure_key v use alg = Inr (pk, Some w)"
  shows "wire_ok use alg w \<and> (\<exists>k. pk = Some k \<and> getn w ''compressedKey'' = VStr k)"
proof (cases v)
  case (VDict d)
  define date where "date = getn d ''date''"
  from assms VDict obtain f s bs wx where
    f: "is_number date" "float_of date = Inr f" "is_finite f" "validated_public_key_bytes s = Inr bs"
    and x: "add_coordinate d ''x'' (key_wire alg s use date) = Inr wx"
    and y: "add_coordinate d ''y'' wx = Inr w" and pk: "pk = Some s"
    by (auto simp: decode_public_secure_key_def rbind_Inr_iff date_def split: if_splits pyval.splits)
  have wx: "wx = key_wire alg s use date
      \<or> (\<exists>t. wx = dset (key_wire alg s use date) ''x'' (VStr t) \<and> b64decode_strict t \<noteq> None)"
    using add_coordinate_Inr [OF x] by auto
  have w: "w = wx \<or> (\<exists>t. w = dset wx ''y'' (VStr t) \<and> b64decode_strict t \<noteq> None)"
    using add_coordinate_Inr [OF y] by auto
  have "getn w ''compressedKey'' = VStr s" using wx w by auto
  then show ?thesis using decode_key_wire [OF f wx w] pk by simp
qed (use assms in \<open>auto simp: decode_public_secure_key_def rbind_Inr_iff\<close>)

lemma canonical_wire_ok:
  assumes "canonical_public_secure_key now k use alg = Inr w"
  shows "wire_ok use alg w \<and> getn w ''compressedKey'' = VStr k"
proof -
  from assms obtain bs where "validated_public_key_bytes k = Inr bs"
    "w = key_wire alg k use (VFloat (Fin (round_double (now - 978307200))))"
    by (auto simp: canonical_public_secure_key_def rbind_Inr_iff)
  then show ?thesis using decode_key_wire [of "VFloat (Fin (round_double (now - 978307200)))" "Fin (round_double (now - 978307200))" k bs w alg use w]
    by simp
qed

lemma wire_secure_key_ok:
  assumes "wire_secure_key now k existing use alg = Inr w" "\<forall>e. existing = Some e \<longrightarrow> wire_ok use alg e"
  shows "wire_ok use alg w \<and> getn w ''compressedKey'' = VStr k"
proof (cases "existing \<noteq> None \<and> py_eq (getn (the existing) ''compressedKey'') (VStr k)")
  case True
  then obtain e where e: "existing = Some e" "py_eq (getn e ''compressedKey'') (VStr k)" by auto
  with assms obtain c where "getn e ''compressedKey'' = VStr c" "wire_ok use alg e" by (auto simp: wire_ok_def)
  with e assms(1) show ?thesis by (simp add: wire_secure_key_def)
next
  case False
  then have "canonical_public_secure_key now k use alg = Inr w"
    using assms(1) by (auto simp: wire_secure_key_def split: option.splits)
  then show ?thesis by (rule canonical_wire_ok)
qed

lemma wire_ok_decode:
  "wire_ok use alg w \<Longrightarrow> getn w ''compressedKey'' = VStr k \<Longrightarrow>
     decode_public_secure_key (VDict w) use alg = Inr (Some k, Some w)"
  by (auto simp: wire_ok_def)

lemma wire_ok_nonempty: "wire_ok use alg w \<Longrightarrow> w \<noteq> []"
  by (auto simp: wire_ok_def)

definition wires_ok :: "identity \<Rightarrow> bool" where
  "wires_ok i \<longleftrightarrow> (\<forall>w. i_public_secure_key_wire i = Some w \<longrightarrow> wire_ok ''signature'' ''EdDSA'' w)
     \<and> (\<forall>w. i_public_key_agreement_secure_key_wire i = Some w \<longrightarrow> wire_ok ''keyAgreement'' ''X25519'' w)"

lemma wire_key_opt_ok:
  assumes "wire_key_opt now key existing use alg = Inr r" "\<forall>e. existing = Some e \<longrightarrow> wire_ok use alg e"
  shows "(key = None \<and> r = None) \<or>
    (\<exists>k w. key = Some k \<and> r = Some w \<and> wire_ok use alg w \<and> getn w ''compressedKey'' = VStr k)"
proof (cases key)
  case (Some k)
  with assms(1) obtain w where "wire_secure_key now k existing use alg = Inr w" "r = Some w"
    by (auto simp: wire_key_opt_def rbind_Inr_iff)
  with wire_secure_key_ok [OF this(1) assms(2)] Some show ?thesis by blast
qed (use assms in \<open>simp add: wire_key_opt_def\<close>)

lemma from_json_wires_ok: "Identity_from_json pystr fresh d vault = Inr i \<Longrightarrow> wires_ok i"
  by (auto simp: Identity_from_json_def rbind_Inr_iff wires_ok_def dest: decode_wire_ok)

lemma decode_absent: "decode_public_secure_key VNull use alg = Inr (None, None)"
  by (simp add: decode_public_secure_key_def)

lemma wire_reuse: "getn w ''compressedKey'' = VStr k \<Longrightarrow> wire_key_opt now (Some k) (Some w) use alg = Inr (Some w)"
  by (simp add: wire_key_opt_def wire_secure_key_def)

lemma wire_absent: "wire_key_opt now None e use alg = Inr None"
  by (simp add: wire_key_opt_def)

text \<open>
  An identity written with \<open>to_json\<close> is read back by \<open>from_json\<close> with the same name,
  identifier, keys and properties, and writing the result again, at any later time, gives the
  same JSON: the date a key was first written with is kept.
\<close>

lemma identity_json_round_trip:
  assumes "Identity_to_json now i = Inr (d, i')" "wires_ok i"
    and "i_uuid i \<noteq> []" "i_displayName i \<noteq> []" "is_json (i_properties i)"
  shows "\<exists>j. Identity_from_json pystr fresh d vault = Inr j \<and> i_uuid j = i_uuid i
    \<and> i_displayName j = i_displayName i \<and> i_publicSecureKey j = i_publicSecureKey i
    \<and> i_publicKeyAgreementSecureKey j = i_publicKeyAgreementSecureKey i \<and> i_properties j = i_properties i
    \<and> Identity_to_json later j = Inr (d, j)"
proof -
  from assms(1) obtain pkw akw where
    pk: "wire_key_opt now (i_publicSecureKey i) (i_public_secure_key_wire i) ''signature'' ''EdDSA'' = Inr pkw"
    and ak: "wire_key_opt now (i_publicKeyAgreementSecureKey i) (i_public_key_agreement_secure_key_wire i)
      ''keyAgreement'' ''X25519'' = Inr akw"
    and d: "d = [(''uuid'', VStr (i_uuid i)), (''displayName'', VStr (i_displayName i)), (''properties'', i_properties i)]
      @ (case pkw of None \<Rightarrow> [] | Some w \<Rightarrow> [(''publicSecureKey'', VDict w)])
      @ (case akw of None \<Rightarrow> [] | Some w \<Rightarrow> [(''publicKeyAgreementSecureKey'', VDict w)])"
    by (auto simp: Identity_to_json_def rbind_Inr_iff Let_def)
  have p: "from_json_value (i_properties i) = Inr (i_properties i)" using assms(5) by (rule from_json_id(1))
  have pk'': "(i_publicSecureKey i = None \<and> pkw = None) \<or> (\<exists>k w. i_publicSecureKey i = Some k \<and> pkw = Some w
      \<and> wire_ok ''signature'' ''EdDSA'' w \<and> getn w ''compressedKey'' = VStr k)"
    using wire_key_opt_ok [OF pk] assms(2) by (simp add: wires_ok_def)
  have ak'': "(i_publicKeyAgreementSecureKey i = None \<and> akw = None) \<or>
      (\<exists>k w. i_publicKeyAgreementSecureKey i = Some k \<and> akw = Some w
      \<and> wire_ok ''keyAgreement'' ''X25519'' w \<and> getn w ''compressedKey'' = VStr k)"
    using wire_key_opt_ok [OF ak] assms(2) by (simp add: wires_ok_def)
  show ?thesis
    using pk'' ak'' assms(3,4) p
    by (elim disjE exE conjE)
      (simp_all add: d Identity_from_json_def Identity_to_json_def py_or_def wire_ok_nonempty wire_ok_decode
        decode_absent wire_reuse wire_absent)
qed


subsection \<open>Delegated signing\<close>

text \<open>The challenge of a control proof is not JSON, whatever its random part.\<close>

lemma not_json_p: "json_value n (CHR ''p'' # s) = None"
  by (cases n) (simp_all add: json_atom_def startswith_def json_literal_def json_literals_def
      json_number_def json_sign_def json_whole_def is_digit_def)

lemma control_challenge_not_json: "\<exists>e. json_loads (control_challenge rand) = Inl e"
proof -
  have "map char_of_byte (encode_utf8 u) = u" for u by (simp add: encode_utf8_def comp_def)
  then obtain s where s: "map char_of_byte (control_challenge rand) = CHR ''p'' # s"
    unfolding control_challenge_def map_append by simp
  have "json_parse (CHR ''p'' # s) = Inl ValueError"
    by (simp add: json_parse_def skip_space_def json_space_def not_json_p)
  then show ?thesis using s by (auto simp: json_loads_def decode_utf8_def)
qed

lemma bridge_vault_refuses:
  "bridge_vault_sign out n i (control_challenge rand) s = (Inl PermissionError, s)"
  using control_challenge_not_json [of rand]
  by (auto simp: bridge_vault_sign_def validated_signing_challenge_def)

lemma bridge_vault_sign_Inr:
  assumes "bridge_vault_sign out n i message s = (Inr signature, s')"
  obtains challenge replay validator where
    "validated_signing_challenge (o_now out) message i = Inr (challenge, replay)"
    "o_scope_validator out n = Some validator" "validator challenge i = Inr (VBool True)"
    "replay \<notin> set (used_challenges s n)"
    "rbind (o_bridge_sign out n i message) signature_of = Inr signature"
    "verify_identity_signature (o_crypto out) signature message i"
    "s' = s\<lparr>s_used := dset (s_used s) n (used_challenges s n @ [replay])\<rparr>"
  using assms
  by (auto simp: bridge_vault_sign_def split: sum.splits prod.splits option.splits if_splits)

lemma bridge_vault_sign_used:
  "set (used_challenges s m) \<subseteq> set (used_challenges (snd (bridge_vault_sign out n i message s)) m)"
  by (auto simp: bridge_vault_sign_def used_challenges_def split: sum.splits prod.splits option.splits if_splits)

text \<open>A run of signing requests to one bridge vault, and the challenges it returned signatures for.\<close>

fun signed_challenges ::
    "nat \<Rightarrow> (outside \<times> identity \<times> bytes) list \<Rightarrow> store \<Rightarrow> (string \<times> string) list" where
  "signed_challenges n [] s = []"
| "signed_challenges n ((out, i, message) # rest) s =
     (case bridge_vault_sign out n i message s of
        (Inl e, s') \<Rightarrow> signed_challenges n rest s'
      | (Inr signature, s') \<Rightarrow>
          (case validated_signing_challenge (o_now out) message i of
             Inr (challenge, replay) \<Rightarrow> replay # signed_challenges n rest s'
           | Inl e \<Rightarrow> signed_challenges n rest s'))"

lemma signed_not_used:
  "replay \<in> set (signed_challenges n reqs s) \<Longrightarrow> replay \<notin> set (used_challenges s n)"
proof (induction reqs arbitrary: s)
  case (Cons req rest)
  obtain out i message where req: "req = (out, i, message)" by (cases req)
  obtain r s' where b: "bridge_vault_sign out n i message s = (r, s')" by fastforce
  have mono: "set (used_challenges s n) \<subseteq> set (used_challenges s' n)"
    using bridge_vault_sign_used [of s n out n i message] b by simp
  have later: "replay \<in> set (signed_challenges n rest s') \<Longrightarrow> replay \<notin> set (used_challenges s n)"
    using Cons.IH [of s'] mono by blast
  show ?case
  proof (cases r)
    case (Inl e)
    with Cons.prems req b have "replay \<in> set (signed_challenges n rest s')" by simp
    then show ?thesis by (rule later)
  next
    case (Inr signature)
    with b have bi: "bridge_vault_sign out n i message s = (Inr signature, s')" by simp
    then obtain challenge x where x: "validated_signing_challenge (o_now out) message i = Inr (challenge, x)"
      "x \<notin> set (used_challenges s n)" by (rule bridge_vault_sign_Inr)
    with Cons.prems req bi have "replay = x \<or> replay \<in> set (signed_challenges n rest s')" by simp
    then show ?thesis using later x(2) by blast
  qed
qed simp

text \<open>
  C9: a delegated vault returns a signature only for a valid, unexpired challenge naming the
  identity and its key, with its scope explicitly authorised, and only a signature that verifies
  under the identity's published key.
\<close>

theorem delegated_signature_sound:
  assumes "bridge_vault_sign out n i message s = (Inr signature, s')"
  shows "\<exists>d nonce validator. json_loads message = Inr (VDict d)
    \<and> py_eq (getn d ''identityUUID'') (VStr (i_uuid i))
    \<and> py_eq (getn d ''publicKeyFingerprint'') (VStr (''EdDSA:Curve25519:'' @ the (i_publicSecureKey i)))
    \<and> challenge_nonce d = Some nonce \<and> 32 \<le> length nonce \<and> challenge_times (o_now out) d = Inr ()
    \<and> o_scope_validator out n = Some validator \<and> validator d i = Inr (VBool True)
    \<and> verify_identity_signature (o_crypto out) signature message i"
proof -
  obtain challenge replay validator where
    v: "validated_signing_challenge (o_now out) message i = Inr (challenge, replay)"
    "o_scope_validator out n = Some validator" "validator challenge i = Inr (VBool True)"
    "verify_identity_signature (o_crypto out) signature message i"
    by (rule bridge_vault_sign_Inr [OF assms])
  from v(1) show ?thesis using v(2-4)
    by (auto simp: validated_signing_challenge_def identity_signing_fingerprint_def rbind_Inr_iff
        split: sum.splits pyval.splits if_splits option.splits)
qed

text \<open>
  C3: over any run of requests to a bridge vault, whatever the peer, the clock and the scope check
  do, no challenge (identity and nonce) is signed twice, nor one that was used before.
\<close>

theorem delegated_no_replay:
  "distinct (signed_challenges n reqs s) \<and> set (signed_challenges n reqs s) \<inter> set (used_challenges s n) = {}"
proof
  show "set (signed_challenges n reqs s) \<inter> set (used_challenges s n) = {}"
    using signed_not_used by blast
  show "distinct (signed_challenges n reqs s)"
  proof (induction reqs arbitrary: s)
    case (Cons req rest)
    obtain out i message where req: "req = (out, i, message)" by (cases req)
    obtain r s' where b: "bridge_vault_sign out n i message s = (r, s')" by fastforce
    show ?case
    proof (cases r)
      case (Inl e)
      with Cons req b show ?thesis by simp
    next
      case (Inr signature)
      with b have bi: "bridge_vault_sign out n i message s = (Inr signature, s')" by simp
      then obtain challenge x where x: "validated_signing_challenge (o_now out) message i = Inr (challenge, x)"
        "s' = s\<lparr>s_used := dset (s_used s) n (used_challenges s n @ [x])\<rparr>" by (rule bridge_vault_sign_Inr)
      then have "x \<in> set (used_challenges s' n)" by (simp add: used_challenges_def)
      with signed_not_used [of x n rest s'] Cons.IH [of s'] req bi x(1) show ?thesis by auto
    qed
  qed simp
qed

text \<open>
  An identity whose vault is a bridge never proves control of anything: the vault refuses
  to sign the proof's challenge, whatever its random part, and asks the peer for nothing.
\<close>

lemma delegated_never_proves_control:
  assumes "i_identityVault i = Some (BridgeVault n)"
  shows "proves_identity_control out rand (Some i) expected s = (False, s)"
  using assms by (auto simp: proves_identity_control_def Identity_sign_def bridge_vault_refuses)

subsection \<open>Proofs of control\<close>

text \<open>
  C27: a control proof succeeds only for the same identifier and the same published key, and only
  when a vault of this process holds a private key for that identifier whose signature of the fresh
  challenge verifies under the expected identity's key.
\<close>

theorem proof_of_control_sound:
  assumes "proves_identity_control out rand requester expected s = (True, s')"
  shows "\<exists>i e n sk. requester = Some i \<and> expected = Some e \<and> i_uuid i = i_uuid e
    \<and> i_publicSecureKey i = i_publicSecureKey e \<and> i_identityVault i = Some (MemoryVault n)
    \<and> dget (v_private_signing_keys (get_vault s n)) (i_uuid e) = Some sk
    \<and> verify_identity_signature (o_crypto out) (ed_sign (o_crypto out) sk (control_challenge rand))
        (control_challenge rand) e"
proof -
  from assms obtain i e where ie: "requester = Some i" "expected = Some e"
    and same: "i_uuid i = i_uuid e" "i_publicSecureKey i = i_publicSecureKey e"
    by (auto simp: proves_identity_control_def same_identity_reference_def split: if_splits option.splits)
  obtain v where v: "i_identityVault i = Some v"
    using assms ie by (cases "i_identityVault i") (auto simp: proves_identity_control_def split: if_splits)
  show ?thesis
  proof (cases v)
    case (MemoryVault n)
    then show ?thesis using assms ie same v
      by (auto simp: proves_identity_control_def Identity_sign_def memory_sign_def Let_def
          split: if_splits option.splits sum.splits)
  next
    case (BridgeVault n)
    then show ?thesis using assms ie v
      by (auto simp: proves_identity_control_def Identity_sign_def bridge_vault_refuses split: if_splits)
  qed
qed


subsection \<open>The vault's invariant\<close>

text \<open>
  Every uuid a vault knows names an object with that uuid, whose published key is the one of the
  private key held for it; every context names a known uuid, and a key is held only for one.
\<close>

definition vault_inv :: "crypto \<Rightarrow> store \<Rightarrow> nat \<Rightarrow> bool" where
  "vault_inv cr s n \<longleftrightarrow>
     (\<forall>u r. dget (v_identities (get_vault s n)) u = Some r \<longrightarrow>
        (\<exists>i. get_object s r = Some i \<and> i_uuid i = u
          \<and> (\<forall>sk. dget (v_private_signing_keys (get_vault s n)) u = Some sk \<longrightarrow>
                i_publicSecureKey i = Some (b64encode (ed_public cr sk)))))
     \<and> (\<forall>c u. dget (v_contexts (get_vault s n)) c = Some u \<longrightarrow> dget (v_identities (get_vault s n)) u \<noteq> None)
     \<and> (\<forall>u. dget (v_private_signing_keys (get_vault s n)) u \<noteq> None \<longrightarrow> dget (v_identities (get_vault s n)) u \<noteq> None)"

definition store_inv :: "crypto \<Rightarrow> store \<Rightarrow> bool" where
  "store_inv cr s \<longleftrightarrow> (\<forall>n. vault_inv cr s n)"

text \<open>An object keeps its uuid, and a key once it is published.\<close>

definition keeps :: "store \<Rightarrow> store \<Rightarrow> bool" where
  "keeps s s' \<longleftrightarrow> (\<forall>r i. get_object s r = Some i \<longrightarrow>
     (\<exists>i'. get_object s' r = Some i' \<and> i_uuid i' = i_uuid i
       \<and> (\<forall>k. i_publicSecureKey i = Some k \<longrightarrow> i_publicSecureKey i' = Some k)))"

lemma get_vault_set [simp]:
  "get_vault (s\<lparr>s_objects := os, s_vaults := dset (s_vaults s) n v\<rparr>) m = (if m = n then v else get_vault s m)"
  by (simp add: get_vault_def)

lemma get_object_set [simp]:
  "get_object (s\<lparr>s_objects := dset (s_objects s) r i, s_vaults := vs\<rparr>) q = (if q = r then Some i else get_object s q)"
  by (simp add: get_object_def)

lemma add_identity_Inr:
  assumes "add_identity cr fresh n r ctx s = Inr s'"
  obtains i key pub where "get_object s r = Some i"
    "dget (v_identities (get_vault s n)) (i_uuid i) \<in> {None, Some r}"
    "key = (if dget (v_private_signing_keys (get_vault s n)) (i_uuid i) = None \<and> i_publicSecureKey i = None
            then Some fresh else dget (v_private_signing_keys (get_vault s n)) (i_uuid i))"
    "pub = map_option (\<lambda>k. b64encode (ed_public cr k)) key"
    "pub = None \<or> i_publicSecureKey i = None \<or> i_publicSecureKey i = pub"
    "s' = s\<lparr>s_objects := dset (s_objects s) r
               (i\<lparr>i_publicSecureKey := (case pub of None \<Rightarrow> i_publicSecureKey i | _ \<Rightarrow> pub),
                  i_identityVault := (if key = None then None else Some (MemoryVault n))\<rparr>),
            s_vaults := dset (s_vaults s) n
               ((get_vault s n)\<lparr>v_private_signing_keys := (case key of Some k \<Rightarrow>
                    dset (v_private_signing_keys (get_vault s n)) (i_uuid i) k
                  | None \<Rightarrow> v_private_signing_keys (get_vault s n)),
                v_contexts := dset (v_contexts (get_vault s n)) ctx (i_uuid i),
                v_identities := dset (v_identities (get_vault s n)) (i_uuid i) r\<rparr>)\<rparr>"
  using assms by (auto simp: add_identity_def Let_def split: option.splits if_splits)

lemma add_identity_keeps:
  assumes "add_identity cr fresh n r ctx s = Inr s'"
  shows "keeps s s'"
  using assms by (rule add_identity_Inr) (auto simp: keeps_def split: option.splits)

lemma add_identity_inv:
  assumes "store_inv cr s" "add_identity cr fresh n r ctx s = Inr s'"
  shows "vault_inv cr s' m"
proof -
  obtain i key pub where i: "get_object s r = Some i"
    "dget (v_identities (get_vault s n)) (i_uuid i) \<in> {None, Some r}"
    and key: "key = (if dget (v_private_signing_keys (get_vault s n)) (i_uuid i) = None \<and> i_publicSecureKey i = None
            then Some fresh else dget (v_private_signing_keys (get_vault s n)) (i_uuid i))"
    and pub: "pub = map_option (\<lambda>k. b64encode (ed_public cr k)) key"
      "pub = None \<or> i_publicSecureKey i = None \<or> i_publicSecureKey i = pub"
    and s': "s' = s\<lparr>s_objects := dset (s_objects s) r
               (i\<lparr>i_publicSecureKey := (case pub of None \<Rightarrow> i_publicSecureKey i | _ \<Rightarrow> pub),
                  i_identityVault := (if key = None then None else Some (MemoryVault n))\<rparr>),
            s_vaults := dset (s_vaults s) n
               ((get_vault s n)\<lparr>v_private_signing_keys := (case key of Some k \<Rightarrow>
                    dset (v_private_signing_keys (get_vault s n)) (i_uuid i) k
                  | None \<Rightarrow> v_private_signing_keys (get_vault s n)),
                v_contexts := dset (v_contexts (get_vault s n)) ctx (i_uuid i),
                v_identities := dset (v_identities (get_vault s n)) (i_uuid i) r\<rparr>)\<rparr>"
    by (rule add_identity_Inr [OF assms(2)])
  have inv: "vault_inv cr s m" "vault_inv cr s n" using assms(1) by (simp_all add: store_inv_def)
  have k: "keeps s s'" by (rule add_identity_keeps [OF assms(2)])
  show ?thesis
  proof (cases "m = n")
    case False
    then have v: "get_vault s' m = get_vault s m" unfolding s' by simp
    have "\<exists>i'. get_object s' q = Some i' \<and> i_uuid i' = u
          \<and> (\<forall>sk. dget (v_private_signing_keys (get_vault s m)) u = Some sk \<longrightarrow>
                i_publicSecureKey i' = Some (b64encode (ed_public cr sk)))"
      if q: "dget (v_identities (get_vault s m)) u = Some q" for u q
    proof -
      obtain j where "get_object s q = Some j" "i_uuid j = u"
        "\<forall>sk. dget (v_private_signing_keys (get_vault s m)) u = Some sk \<longrightarrow>
           i_publicSecureKey j = Some (b64encode (ed_public cr sk))"
        using inv(1) q unfolding vault_inv_def by blast
      with k show ?thesis unfolding keeps_def by fastforce
    qed
    then show ?thesis using inv(1) unfolding vault_inv_def v by blast
  next
    case True
    have "\<exists>i'. get_object s' q = Some i' \<and> i_uuid i' = u
          \<and> (\<forall>sk. dget (v_private_signing_keys (get_vault s' n)) u = Some sk \<longrightarrow>
                i_publicSecureKey i' = Some (b64encode (ed_public cr sk)))"
      if q: "dget (v_identities (get_vault s' n)) u = Some q" for u q
    proof (cases "u = i_uuid i")
      case True
      then have "q = r" using q unfolding s' by simp
      with True show ?thesis using key pub unfolding s' by (auto split: if_splits)
    next
      case False
      then have q': "dget (v_identities (get_vault s n)) u = Some q" using q unfolding s' by simp
      then obtain j where j: "get_object s q = Some j" "i_uuid j = u"
        "\<forall>sk. dget (v_private_signing_keys (get_vault s n)) u = Some sk \<longrightarrow>
           i_publicSecureKey j = Some (b64encode (ed_public cr sk))"
        using inv(2) unfolding vault_inv_def by blast
      then have "q \<noteq> r" using i(1) False by auto
      with j False show ?thesis unfolding s' by (auto split: option.splits)
    qed
    moreover have "\<forall>c u. dget (v_contexts (get_vault s' n)) c = Some u \<longrightarrow> dget (v_identities (get_vault s' n)) u \<noteq> None"
      using inv(2) unfolding s' vault_inv_def by auto
    moreover have "\<forall>u. dget (v_private_signing_keys (get_vault s' n)) u \<noteq> None \<longrightarrow>
        dget (v_identities (get_vault s' n)) u \<noteq> None"
      using inv(2) unfolding s' vault_inv_def by (auto split: option.splits if_splits)
    ultimately show ?thesis unfolding True vault_inv_def by blast
  qed
qed

text \<open>
  C30: adding an identity to any vault keeps the invariant of every vault of the process: each known
  uuid names an object with that uuid and with the public key of the private key held for it. No
  object's uuid changes and no published key is ever replaced.
\<close>

theorem add_identity_invariant:
  assumes "store_inv cr s" "add_identity cr fresh n r ctx s = Inr s'"
  shows "store_inv cr s' \<and> keeps s s'"
  using add_identity_inv [OF assms] add_identity_keeps [OF assms(2)] by (simp add: store_inv_def)

text \<open>
  C31: an identity that a vault generated a key for, or held one for, proves control of itself and
  of any reference with its uuid and published key, whatever the random part of the challenge,
  given that an honest Ed25519 signature verifies.
\<close>

theorem added_identity_proves_control:
  assumes "crypto_ok (o_crypto out)" "store_inv (o_crypto out) s"
    and "add_identity (o_crypto out) fresh n r ctx s = Inr s'"
    and "get_object s' r = Some i" "i_identityVault i \<noteq> None"
    and "i_uuid e = i_uuid i" "i_publicSecureKey e = i_publicSecureKey i"
  shows "proves_identity_control out rand (Some i) (Some e) s' = (True, s')"
proof -
  have inv: "vault_inv (o_crypto out) s' n" by (rule add_identity_inv [OF assms(2,3)])
  have v: "i_identityVault i = Some (MemoryVault n)" "dget (v_identities (get_vault s' n)) (i_uuid i) = Some r"
    "dget (v_private_signing_keys (get_vault s' n)) (i_uuid i) \<noteq> None"
    using assms(3-5) by (auto elim!: add_identity_Inr split: if_splits option.splits)
  then obtain sk where sk: "dget (v_private_signing_keys (get_vault s' n)) (i_uuid i) = Some sk" by auto
  then have pk: "i_publicSecureKey i = Some (b64encode (ed_public (o_crypto out) sk))"
    using inv v(2) assms(4) unfolding vault_inv_def by fastforce
  have "memory_sign (o_crypto out) n i m s' = Inr (ed_sign (o_crypto out) sk m)" for m
    using v sk pk assms(4) by (simp add: memory_sign_def same_identity_reference_def Let_def)
  then show ?thesis
    using assms(1,6,7) v pk
    by (simp add: proves_identity_control_def same_identity_reference_def Identity_sign_def
        verify_identity_signature_def b64decode_encode crypto_ok_def)
qed


subsection \<open>Concrete runs\<close>

text \<open>A signature scheme for the examples: a signature is the key followed by the message.\<close>

definition example_crypto :: crypto where
  "example_crypto = \<lparr>ed_public = (\<lambda>sk. sk), ed_sign = (\<lambda>sk m. sk @ m), ed_verify = (\<lambda>pk sig m. sig = pk @ m)\<rparr>"

definition empty_store :: store where
  "empty_store = \<lparr>s_objects = [(7, new_identity ''Alice'' ''u'')], s_vaults = [], s_used = []\<rparr>"

definition example_challenge :: string where
  "example_challenge = ''{\"type\":\"org.haven.cellprotocol.identity-signing-challenge\",\"version\":1,\"purpose\":\"identity-origin-proof\",\"identityUUID\":\"u\",\"publicKeyFingerprint\":\"EdDSA:Curve25519:AAAA\",\"domain\":\"d\",\"resource\":\"r\",\"action\":\"a\",\"audience\":\"b\",\"nonce\":\"AAAAAAAAAAAAAAAAAAAAAAAAAAAAAAAAAAAAAAAAAAAA\",\"issuedAt\":10,\"expiresAt\":60}''"

definition example_fields :: "pyval dict" where
  "example_fields =
    [(''type'', VStr ''org.haven.cellprotocol.identity-signing-challenge''), (''version'', VInt 1),
     (''purpose'', VStr ''identity-origin-proof''), (''identityUUID'', VStr ''u''),
     (''publicKeyFingerprint'', VStr ''EdDSA:Curve25519:AAAA''), (''domain'', VStr ''d''),
     (''resource'', VStr ''r''), (''action'', VStr ''a''), (''audience'', VStr ''b''),
     (''nonce'', VStr ''AAAAAAAAAAAAAAAAAAAAAAAAAAAAAAAAAAAAAAAAAAAA''), (''issuedAt'', VInt 10),
     (''expiresAt'', VInt 60)]"

definition example_delegate :: identity where
  "example_delegate = (new_identity ''D'' ''u'')\<lparr>i_publicSecureKey := Some ''AAAA'',
     i_identityVault := Some (BridgeVault 0)\<rparr>"

definition example_outside :: outside where
  "example_outside = \<lparr>o_crypto = example_crypto, o_now = 50,
     o_bridge_sign = (\<lambda>n i m. Inr (VBytes ([0, 0, 0] @ m))),
     o_scope_validator = (\<lambda>n. Some (\<lambda>d i. Inr (VBool True)))\<rparr>"

lemma example_json: "json_loads (encode_utf8 example_challenge) = Inr (VDict example_fields)"
proof -
  have "is_ascii example_challenge" by code_simp
  then have "valid_utf8 (encode_utf8 example_challenge)" by (rule valid_utf8_ascii)
  moreover have "json_parse example_challenge = Inr (VDict example_fields)" by code_simp
  ultimately show ?thesis by (simp add: json_loads_def decode_encode_utf8)
qed

lemma char_sextet_A: "char_sextet (CHR ''A'') = Some 0"
  by (simp add: char_sextet_def b64_alphabet_def)

lemma b64decode_A: "b64decode_strict (CHR ''A'' # CHR ''A'' # CHR ''A'' # CHR ''A'' # s) = map_option (\<lambda>bs. 0 # 0 # 0 # bs) (b64decode_strict s)"
  "b64decode_strict ''AAAA'' = Some [0, 0, 0]"
  by (simp_all add: char_sextet_A)

lemma b64encode_zero: "b64encode (0 # 0 # 0 # bs) = CHR ''A'' # CHR ''A'' # CHR ''A'' # CHR ''A'' # b64encode bs"
  by (simp add: sextet_char_def b64_alphabet_def)

lemma example_nonce: "challenge_nonce example_fields = Some (replicate 33 0)"
proof -
  have "b64decode_strict ''AAAAAAAAAAAAAAAAAAAAAAAAAAAAAAAAAAAAAAAAAAAA'' = Some (replicate 33 0)"
    by (simp add: b64decode_A eval_nat_numeral del: b64decode_strict.simps(2))
  then show ?thesis by (simp add: challenge_nonce_def example_fields_def)
qed

lemma example_validated:
  "validated_signing_challenge 50 (encode_utf8 example_challenge) example_delegate
    = Inr (example_fields, (''u'', ''AAAAAAAAAAAAAAAAAAAAAAAAAAAAAAAAAAAAAAAAAAAA''))"
proof -
  have l: "length example_challenge \<le> 8192" by (simp add: example_challenge_def)
  have sc: "list_all (\<lambda>k. is_scope (getn example_fields k)) [''domain'', ''resource'', ''action'', ''audience'']"
  proof -
    have "py_strip [c] = [c] \<and> py_len [c] \<le> 512" if "solid c" for c
      using that py_len_le [of "[c]"] by (simp add: py_strip_id)
    then show ?thesis by (simp add: is_scope_def example_fields_def solid_def is_space_def)
  qed
  have e: "b64encode (replicate 33 0) = ''AAAAAAAAAAAAAAAAAAAAAAAAAAAAAAAAAAAAAAAAAAAA''"
    by (simp add: eval_nat_numeral b64encode_zero del: b64encode.simps(4))
  have g: "getn example_fields ''type'' = VStr ''org.haven.cellprotocol.identity-signing-challenge''"
    "getn example_fields ''version'' = VInt 1" "getn example_fields ''purpose'' = VStr ''identity-origin-proof''"
    "getn example_fields ''identityUUID'' = VStr ''u''"
    "getn example_fields ''publicKeyFingerprint'' = VStr ''EdDSA:Curve25519:AAAA''"
    "getn example_fields ''issuedAt'' = VInt 10" "getn example_fields ''expiresAt'' = VInt 60"
    by (simp_all add: example_fields_def)
  have "round_double 350 = 350" using round_double_int [of 350] by simp
  then have "challenge_times 50 example_fields = Inr ()"
    by (simp add: challenge_times_def g finite_number_def MAX_FLOAT_INT_def)
  moreover have "identity_signing_fingerprint example_delegate = Some ''EdDSA:Curve25519:AAAA''"
    by (simp add: identity_signing_fingerprint_def example_delegate_def)
  moreover have "i_uuid example_delegate = ''u''" by (simp add: example_delegate_def new_identity_def)
  ultimately show ?thesis
    using l sc e by (simp add: validated_signing_challenge_def example_json g example_nonce)
qed

lemma example_signed:
  "bridge_vault_sign example_outside 0 example_delegate (encode_utf8 example_challenge) empty_store
    = (Inr ([0, 0, 0] @ encode_utf8 example_challenge),
       empty_store\<lparr>s_used := [(0, [(''u'', ''AAAAAAAAAAAAAAAAAAAAAAAAAAAAAAAAAAAAAAAAAAAA'')])]\<rparr>)"
proof -
  have c: "o_crypto example_outside = example_crypto" "o_now example_outside = 50"
    "o_bridge_sign example_outside n i m = Inr (VBytes ([0, 0, 0] @ m))"
    "o_scope_validator example_outside n = Some (\<lambda>d i. Inr (VBool True))" for n i m
    by (simp_all add: example_outside_def)
  have "i_publicSecureKey example_delegate = Some ''AAAA''" by (simp add: example_delegate_def)
  then have v: "verify_identity_signature example_crypto ([0, 0, 0] @ m) m example_delegate" for m
    unfolding verify_identity_signature_def by (simp add: b64decode_A(2) example_crypto_def del: b64decode_strict.simps(2))
  have u: "used_challenges empty_store 0 = []" "s_used empty_store = []"
    by (simp_all add: used_challenges_def empty_store_def)
  show ?thesis
    using v by (simp add: bridge_vault_sign_def example_validated c u signature_of_def)
qed

lemma delegated_signature_sound_witness:
  "verify_identity_signature example_crypto ([0, 0, 0] @ encode_utf8 example_challenge)
     (encode_utf8 example_challenge) example_delegate"
proof -
  have "o_crypto example_outside = example_crypto" by (simp add: example_outside_def)
  then show ?thesis using delegated_signature_sound [OF example_signed] by (simp only:) blast
qed

lemma delegated_never_proves_control_witness:
  "proves_identity_control example_outside [1, 2] (Some example_delegate) (Some example_delegate) empty_store
    = (False, empty_store)"
  by (rule delegated_never_proves_control [of _ 0]) (simp add: example_delegate_def)

text \<open>An identity added to the first vault, which generates the key \<open>[5]\<close> for it.\<close>

definition added_store :: store where
  "added_store =
     \<lparr>s_objects = [(7, (new_identity ''Alice'' ''u'')\<lparr>i_publicSecureKey := Some ''BQ=='',
                     i_identityVault := Some (MemoryVault 0)\<rparr>)],
      s_vaults = [(0, \<lparr>v_contexts = [(''home'', ''u'')], v_identities = [(''u'', 7)],
                     v_private_signing_keys = [(''u'', [5])], v_tag_keys = []\<rparr>)], s_used = []\<rparr>"

lemma add_identity_example: "add_identity example_crypto [5] 0 7 ''home'' empty_store = Inr added_store"
proof -
  have "b64encode [5] = ''BQ==''" by code_simp
  then show ?thesis
    by (simp add: add_identity_def get_object_def empty_store_def get_vault_def new_memory_vault_def
        new_identity_def example_crypto_def added_store_def)
qed

lemma empty_store_inv: "store_inv cr empty_store"
  by (simp add: store_inv_def vault_inv_def empty_store_def get_vault_def new_memory_vault_def)

lemma add_identity_invariant_witness: "store_inv example_crypto added_store"
  using add_identity_invariant [OF empty_store_inv add_identity_example] by simp

lemma added_identity_proves_control_witness:
  "proves_identity_control example_outside [9] (get_object added_store 7) (get_object added_store 7) added_store
    = (True, added_store)"
proof -
  have c: "crypto_ok (o_crypto example_outside)" by (simp add: example_outside_def crypto_ok_def example_crypto_def)
  have a: "add_identity (o_crypto example_outside) [5] 0 7 ''home'' empty_store = Inr added_store"
    using add_identity_example by (simp add: example_outside_def)
  obtain i where i: "get_object added_store 7 = Some i" "i_identityVault i \<noteq> None"
    by (simp add: added_store_def get_object_def)
  show ?thesis
    using added_identity_proves_control [OF c empty_store_inv a i refl refl, of "[9]"] i by simp
qed

lemma example_control:
  "proves_identity_control example_outside rand (get_object added_store 7) (get_object added_store 7) added_store
    = (True, added_store)"
proof -
  have "b64decode_strict ''BQ=='' = Some [5]" by code_simp
  then show ?thesis
    by (simp add: proves_identity_control_def same_identity_reference_def Identity_sign_def memory_sign_def
        added_store_def get_object_def get_vault_def example_outside_def example_crypto_def
        verify_identity_signature_def new_identity_def Let_def)
qed

lemma proof_of_control_sound_witness:
  "\<exists>sk. dget (v_private_signing_keys (get_vault added_store 0)) ''u'' = Some sk"
  using proof_of_control_sound [OF example_control]
  by (auto simp: added_store_def get_object_def new_identity_def get_vault_def)

lemma identity_json_round_trip_witness:
  "\<exists>j. Identity_from_json (\<lambda>v. []) ''fresh'' [(''uuid'', VStr ''u''), (''displayName'', VStr ''Alice''),
     (''properties'', VDict [])] None = Inr j \<and> i_displayName j = ''Alice''"
proof -
  have "Identity_to_json 0 (new_identity ''Alice'' ''u'')
    = Inr ([(''uuid'', VStr ''u''), (''displayName'', VStr ''Alice''), (''properties'', VDict [])], new_identity ''Alice'' ''u'')"
    by (simp add: Identity_to_json_def new_identity_def wire_absent)
  from identity_json_round_trip [OF this, of "\<lambda>v. []" "''fresh''" None 1] show ?thesis
    by (auto simp: wires_ok_def new_identity_def)
qed

end
