(* ===== verification/Agreement.thy ===== *)
theory Agreement
  imports Identity Canonical
begin

text \<open>
  \<open>agreement.py\<close>: permissions as bits, grants, lookup conditions, agreement templates, requests
  and contracts. Fresh identifiers are arguments. A condition's \<open>policy\<close>, the text two equal
  conditions share, is modelled by the fields \<open>json.dumps\<close> writes with its keys sorted, not by that
  text: \<open>json.dumps\<close> writes different JSON values differently.
\<close>

definition DEFAULT_DURATION :: int where "DEFAULT_DURATION = 60 * 60 * 24 * 365"
definition MAXIMUM_DURATION :: int where "MAXIMUM_DURATION = 60 * 60 * 24 * 365"
definition OWNER_APPROVAL_REQUIRED :: string where "OWNER_APPROVAL_REQUIRED = ''ownerApprovalRequired''"
definition AUTOMATIC_WHEN_CONDITIONS_MET :: string where
  "AUTOMATIC_WHEN_CONDITIONS_MET = ''automaticWhenConditionsMet''"
definition OWNER_PUBLISHED_READ :: string where "OWNER_PUBLISHED_READ = ''ownerPublishedRead''"

subsection \<open>Permissions\<close>

text \<open>Bits are non-negative integers: read 4, write 2, execute 1, share 8.\<close>

fun letter_bits :: "char \<Rightarrow> int \<Rightarrow> char \<Rightarrow> int option" where
  "letter_bits letter v c = (if c = letter then Some v else if c = CHR ''-'' then Some 0 else None)"

unbundle bit_operations_syntax

definition triplet :: "string \<Rightarrow> int option" where
  "triplet text =
     (case (letter_bits (CHR ''r'') 4 (text ! 0), letter_bits (CHR ''w'') 2 (text ! 1),
            letter_bits (CHR ''x'') 1 (text ! 2)) of
        (Some a, Some b, Some c) \<Rightarrow> Some (a OR b OR c)
      | _ \<Rightarrow> None)"

definition quad :: "string \<Rightarrow> int option" where
  "quad text =
     (case triplet (take 3 text) of
        None \<Rightarrow> None
      | Some bits \<Rightarrow>
          if text ! 3 = CHR ''s'' then Some (bits OR 8)
          else if text ! 3 = CHR ''-'' then Some bits else None)"

definition pair_of :: "int option \<Rightarrow> int option \<Rightarrow> (int \<times> int) option" where
  "pair_of g x = (case (g, x) of (Some a, Some b) \<Rightarrow> Some (a, b) | _ \<Rightarrow> None)"

text \<open>
  \<open>len(text)\<close> counts characters; a text with a character outside ASCII is refused by its
  letters, as it is here. A boolean is an \<open>int\<close> to Python's \<open>isinstance\<close>.
\<close>

fun int_val :: "pyval \<Rightarrow> int option" where
  "int_val (VInt i) = Some i"
| "int_val (VBool b) = Some (if b then 1 else 0)"
| "int_val _ = None"

definition permission_bits :: "pyval \<Rightarrow> (int \<times> int) option" where
  "permission_bits value =
     (case value of
        VDict d \<Rightarrow>
          (case (int_val (getn d ''group''), int_val (getn d ''other'')) of
             (Some g, Some x) \<Rightarrow> if 0 \<le> g \<and> g \<le> 15 \<and> 0 \<le> x \<and> x \<le> 15 then Some (g, x) else None
           | _ \<Rightarrow> None)
      | VStr s \<Rightarrow>
          (let text = py_strip s in
           if length text = 3 then pair_of (triplet text) (Some 0)
           else if length text = 4 then pair_of (quad text) (Some 0)
           else if length text = 6 then pair_of (triplet (take 3 text)) (triplet (drop 3 text))
           else if length text = 8 then pair_of (quad (take 4 text)) (quad (drop 4 text))
           else None)
      | _ \<Rightarrow> None)"

definition quad_string :: "int \<Rightarrow> string" where
  "quad_string bits =
     [if bits AND 4 \<noteq> 0 then CHR ''r'' else CHR ''-'', if bits AND 2 \<noteq> 0 then CHR ''w'' else CHR ''-'',
      if bits AND 1 \<noteq> 0 then CHR ''x'' else CHR ''-'', if bits AND 8 \<noteq> 0 then CHR ''s'' else CHR ''-'']"

subsection \<open>Grants\<close>

record grant =
  g_keypath :: string
  g_permission :: string
  g_uuid :: string
  g_name :: string

definition grant_bits :: "grant \<Rightarrow> int \<times> int" where
  "grant_bits g = (case permission_bits (VStr (g_permission g)) of Some b \<Rightarrow> b | None \<Rightarrow> (0, 0))"

definition grants_access :: "grant \<Rightarrow> grant \<Rightarrow> bool" where
  "grants_access g requested =
     (if g_keypath g \<noteq> g_keypath requested then False
      else
        (let (grp, other) = grant_bits g; (want_group, want_other) = grant_bits requested in
         if want_group = 0 \<or> grp AND want_group \<noteq> want_group then False
         else want_other = 0 \<or> other AND want_other = want_other))"

definition grant_to_json :: "grant \<Rightarrow> pyval" where
  "grant_to_json g =
     (let (grp, other) = grant_bits g in
      VDict [(''uuid'', VStr (g_uuid g)), (''name'', VStr (g_name g)), (''keypath'', VStr (g_keypath g)),
             (''permission'', VDict [(''group'', VInt grp), (''other'', VInt other)])])"

definition str_or :: "pyval \<Rightarrow> string \<Rightarrow> string" where
  "str_or v alternative = (case v of VStr s \<Rightarrow> s | _ \<Rightarrow> alternative)"

definition grant_from_json :: "string \<Rightarrow> pyval \<Rightarrow> grant option" where
  "grant_from_json fresh payload =
     (case payload of
        VDict d \<Rightarrow>
          (case getn d ''keypath'' of
             VStr keypath \<Rightarrow>
               (case permission_bits (getn d ''permission'') of
                  None \<Rightarrow> None
                | Some (grp, other) \<Rightarrow>
                    Some \<lparr>g_keypath = keypath,
                          g_permission = quad_string grp @ (if other \<noteq> 0 then quad_string other else []),
                          g_uuid = str_or (getn d ''uuid'') fresh,
                          g_name = str_or (getn d ''name'') ''Condition grant''\<rparr>)
           | _ \<Rightarrow> None)
      | _ \<Rightarrow> None)"

subsection \<open>Lookup conditions\<close>

record condition =
  c_keypath :: string
  c_expected_value :: pyval
  c_name :: string
  c_uuid :: string

definition condition_to_json :: "condition \<Rightarrow> pyval res" where
  "condition_to_json c =
     rbind (to_json_value (c_expected_value c)) (\<lambda>v.
       Inr (VDict [(''type'', VStr ''lookup''),
                   (''condition'', VDict [(''uuid'', VStr (c_uuid c)), (''name'', VStr (c_name c)),
                     (''keypath'', VStr (c_keypath c)), (''expectedValue'', v)])]))"

definition condition_from_json :: "string \<Rightarrow> pyval \<Rightarrow> condition option" where
  "condition_from_json fresh payload =
     (case payload of
        VDict d \<Rightarrow>
          (if \<not> py_eq (getn d ''type'') (VStr ''lookup'') then None
           else case getn d ''condition'' of
             VDict inner \<Rightarrow>
               (case (getn inner ''keypath'', dget inner ''expectedValue'') of
                  (VStr keypath, Some expected) \<Rightarrow>
                    Some \<lparr>c_keypath = keypath, c_expected_value = expected,
                          c_name = str_or (getn inner ''name'') ''Lookup condition'',
                          c_uuid = str_or (getn inner ''uuid'') fresh\<rparr>
                | _ \<Rightarrow> None)
           | _ \<Rightarrow> None)
      | _ \<Rightarrow> None)"

text \<open>What two conditions must share: the name, the keypath and the JSON of the expected value.\<close>

fun sorted_json :: "pyval \<Rightarrow> pyval"
and sorted_list :: "pyval list \<Rightarrow> pyval list"
and sorted_items :: "(string \<times> pyval) list \<Rightarrow> (string \<times> pyval) list" where
  "sorted_json (VList vs) = VList (sorted_list vs)"
| "sorted_json (VDict d) = VDict (sort_by (item_less Encoder) (sorted_items d))"
| "sorted_json v = v"
| "sorted_list [] = []"
| "sorted_list (v # vs) = sorted_json v # sorted_list vs"
| "sorted_items [] = []"
| "sorted_items ((k, v) # d) = (k, sorted_json v) # sorted_items d"

definition policy :: "condition \<Rightarrow> (string \<times> string \<times> pyval) res" where
  "policy c = rbind (to_json_value (c_expected_value c)) (\<lambda>v. Inr (c_name c, c_keypath c, sorted_json v))"

definition enforcing :: "condition \<Rightarrow> bool" where
  "enforcing c =
     (let keypath = py_strip (c_keypath c) in startswith keypath ''target.'' \<or> startswith keypath ''resolve.'')"

text \<open>
  \<open>is_met\<close> reads one value and compares it: which read a condition asks for, once the identifiers
  are filled in, and the comparison, Python's \<open>==\<close> on the JSON of both sides. A read that raises
  fails closed. \<open>is_met\<close> itself is in \<open>General_Cell\<close>, with the cell that is read.
\<close>

datatype lookup = NoLookup | TargetLookup string | IdentityLookup string

definition lookup_of :: "string \<Rightarrow> string \<Rightarrow> condition \<Rightarrow> lookup" where
  "lookup_of target_uuid requester_uuid c =
     (let k1 = py_replace ''$identity'' requester_uuid (c_keypath c);
          k2 = py_replace ''$target'' target_uuid k1;
          context = before_first (CHR ''.'') k2; child = after_first (CHR ''.'') k2
      in if child = [] then NoLookup
         else if context = ''target'' then TargetLookup child
         else if context = ''identity'' then IdentityLookup child
         else NoLookup)"

definition expected_met :: "condition \<Rightarrow> pyval res \<Rightarrow> bool res" where
  "expected_met c r =
     (case r of
        Inl e \<Rightarrow> Inr False
      | Inr v \<Rightarrow> rbind (to_json_value v) (\<lambda>a. rbind (to_json_value (c_expected_value c)) (\<lambda>b. Inr (py_eq a b))))"

subsection \<open>Templates, requests and contracts\<close>

record agreement_template =
  t_grants :: "grant list"
  t_conditions :: "condition list"
  t_duration :: int

definition new_agreement_template :: agreement_template where
  "new_agreement_template = \<lparr>t_grants = [], t_conditions = [], t_duration = DEFAULT_DURATION\<rparr>"

definition add_grant :: "string \<Rightarrow> string \<Rightarrow> string \<Rightarrow> agreement_template \<Rightarrow> agreement_template" where
  "add_grant permission keypath fresh t =
     t\<lparr>t_grants := t_grants t @ [\<lparr>g_keypath = keypath, g_permission = permission, g_uuid = fresh,
                                  g_name = ''Condition grant''\<rparr>]\<rparr>"

definition check_grant :: "agreement_template \<Rightarrow> grant \<Rightarrow> bool" where
  "check_grant t requested = list_ex (\<lambda>g. grants_access g requested) (t_grants t)"

text \<open>Both lists of policies, sorted: the same with the same multiplicities.\<close>

fun remove_first :: "'a \<Rightarrow> 'a list \<Rightarrow> 'a list option" where
  "remove_first x [] = None"
| "remove_first x (y # ys) = (if x = y then Some ys else map_option (Cons y) (remove_first x ys))"

fun same_elements :: "'a list \<Rightarrow> 'a list \<Rightarrow> bool" where
  "same_elements [] ys = (ys = [])"
| "same_elements (x # xs) ys =
     (case remove_first x ys of None \<Rightarrow> False | Some zs \<Rightarrow> same_elements xs zs)"

definition conditions_match :: "agreement_template \<Rightarrow> condition list \<Rightarrow> bool res" where
  "conditions_match t cs =
     rbind (rmap policy cs) (\<lambda>ps. rbind (rmap policy (t_conditions t)) (\<lambda>qs.
       Inr (same_elements ps qs \<and> length cs = length (t_conditions t))))"

definition template_to_json :: "agreement_template \<Rightarrow> pyval res" where
  "template_to_json t =
     rbind (rmap condition_to_json (t_conditions t)) (\<lambda>cs.
       Inr (VDict [(''grants'', VList (map grant_to_json (t_grants t))), (''conditions'', VList cs),
                   (''duration'', VInt (t_duration t))]))"

record agreement_request =
  r_owner :: "pyval dict"
  r_grants :: "grant list"
  r_conditions :: "condition list"
  r_duration :: int
  r_state :: string
  r_uuid :: string
  r_name :: string

text \<open>\<open>for item in payload.get(k) or []\<close>: what a JSON value gives when it is iterated over.\<close>

definition iter_items :: "pyval \<Rightarrow> pyval list res" where
  "iter_items v =
     (if \<not> truthy v then Inr []
      else case v of
        VList vs \<Rightarrow> Inr vs
      | VDict d \<Rightarrow> Inr (map (\<lambda>(k, _). VStr k) d)
      | VStr s \<Rightarrow> Inr (map (\<lambda>c. VStr [c]) s)
      | _ \<Rightarrow> Inl TypeError)"

definition all_some :: "'a option list \<Rightarrow> 'a list option" where
  "all_some xs = (if None \<in> set xs then None else Some (map the xs))"

definition request_from_json :: "string \<Rightarrow> pyval \<Rightarrow> agreement_request option res" where
  "request_from_json fresh payload =
     (case payload of
        VDict d \<Rightarrow>
          (case getn d ''owner'' of
             VDict owner \<Rightarrow>
               rbind (iter_items (getn d ''grants'')) (\<lambda>gs.
               rbind (iter_items (getn d ''conditions'')) (\<lambda>cs.
                 Inr (case (all_some (map (grant_from_json fresh) gs), all_some (map (condition_from_json fresh) cs),
                            int_val (case dget d ''duration'' of Some v \<Rightarrow> v | None \<Rightarrow> VInt DEFAULT_DURATION)) of
                        (Some grants, Some conditions, Some duration) \<Rightarrow>
                          Some \<lparr>r_owner = owner, r_grants = grants, r_conditions = conditions, r_duration = duration,
                                r_state = str_or (getn d ''state'') ''template'',
                                r_uuid = str_or (getn d ''uuid'') fresh,
                                r_name = str_or (getn d ''name'') ''Contract name here''\<rparr>
                      | _ \<Rightarrow> None)))
           | _ \<Rightarrow> Inr None)
      | _ \<Rightarrow> Inr None)"

record contract =
  k_uuid :: string
  k_subject :: identity
  k_grants :: "grant list"
  k_conditions :: "condition list"
  k_duration :: int
  k_issued_at :: rat

definition active :: "contract \<Rightarrow> rat \<Rightarrow> bool" where
  "active k now \<longleftrightarrow> k_issued_at k \<le> now \<and> now < k_issued_at k + of_int (k_duration k)"


subsection \<open>Permissions are read back\<close>

lemma quad_table:
  "\<forall>g \<in> set [0, 1, 2, 3, 4, 5, 6, 7, 8, 9, 10, 11, 12, 13, 14, 15].
     quad (quad_string g) = Some g \<and> list_all (\<lambda>c. solid c) (quad_string g)"
  by code_simp

lemma nibble_cases:
  fixes g :: int
  assumes "0 \<le> g" "g \<le> 15"
  shows "g \<in> set [0, 1, 2, 3, 4, 5, 6, 7, 8, 9, 10, 11, 12, 13, 14, 15]"
proof -
  have "g = 0 \<or> g = 1 \<or> g = 2 \<or> g = 3 \<or> g = 4 \<or> g = 5 \<or> g = 6 \<or> g = 7 \<or> g = 8 \<or> g = 9 \<or> g = 10
      \<or> g = 11 \<or> g = 12 \<or> g = 13 \<or> g = 14 \<or> g = 15"
    using assms by arith
  then show ?thesis by simp
qed

lemma quad_quad_string:
  assumes "0 \<le> g" "g \<le> 15"
  shows "quad (quad_string g) = Some g" "\<forall>c \<in> set (quad_string g). solid c"
  using quad_table nibble_cases [OF assms] unfolding list_all_iff by blast+

lemma length_quad_string [simp]: "length (quad_string g) = 4" "quad_string g \<noteq> []"
  by (simp_all add: quad_string_def)

lemma permission_round_trip:
  assumes "0 \<le> g" "g \<le> 15" "0 \<le> x" "x \<le> 15"
  shows "permission_bits (VStr (quad_string g @ (if x \<noteq> 0 then quad_string x else []))) = Some (g, x)"
proof -
  let ?s = "quad_string g @ (if x \<noteq> 0 then quad_string x else [])"
  have "\<forall>c \<in> set ?s. solid c" using assms quad_quad_string(2) by auto
  moreover have "hd ?s \<in> set ?s" "last ?s \<in> set ?s" by (rule hd_in_set last_in_set, simp)+
  ultimately have "py_strip ?s = ?s" by (intro py_strip_id) simp_all
  then show ?thesis using assms quad_quad_string(1) [of g] quad_quad_string(1) [of x]
    by (auto simp: permission_bits_def pair_of_def)
qed

lemma int_or_bound:
  fixes a b :: int
  assumes "0 \<le> a" "a \<le> 7" "b = 0 \<or> b = 8"
  shows "0 \<le> a OR b \<and> a OR b \<le> 15"
proof -
  have "a = 0 \<or> a = 1 \<or> a = 2 \<or> a = 3 \<or> a = 4 \<or> a = 5 \<or> a = 6 \<or> a = 7" using assms by arith
  with assms(3) show ?thesis by (elim disjE) simp_all
qed

lemma triplet_bound:
  assumes "triplet s = Some b"
  shows "0 \<le> b \<and> b \<le> 7"
  using assms by (auto simp: triplet_def split: option.splits if_splits)

lemma quad_bound: "quad s = Some b \<Longrightarrow> 0 \<le> b \<and> b \<le> 15"
  using triplet_bound [of "take 3 s"] int_or_bound [of _ 8]
  by (fastforce simp: quad_def split: option.splits if_splits)

lemma permission_bits_bound:
  assumes "permission_bits v = Some (g, x)"
  shows "0 \<le> g \<and> g \<le> 15 \<and> 0 \<le> x \<and> x \<le> 15"
  using assms
  by (auto simp: permission_bits_def pair_of_def Let_def split: pyval.splits option.splits if_splits
      dest!: triplet_bound quad_bound)

lemma grant_bits_bound:
  assumes "grant_bits g = (a, b)"
  shows "0 \<le> a \<and> a \<le> 15 \<and> 0 \<le> b \<and> b \<le> 15"
  using assms permission_bits_bound [of "VStr (g_permission g)" a b]
  by (auto simp: grant_bits_def split: option.splits)


lemma grant_round_trip:
  "\<exists>g'. grant_from_json fresh (grant_to_json g) = Some g' \<and> g_keypath g' = g_keypath g
    \<and> g_uuid g' = g_uuid g \<and> g_name g' = g_name g \<and> grant_bits g' = grant_bits g"
proof -
  obtain a b where ab: "grant_bits g = (a, b)" by fastforce
  note bound = grant_bits_bound [OF ab]
  have "permission_bits (VDict [(''group'', VInt a), (''other'', VInt b)]) = Some (a, b)"
    using bound by (simp add: permission_bits_def)
  then have "grant_from_json fresh (grant_to_json g) =
      Some \<lparr>g_keypath = g_keypath g, g_permission = quad_string a @ (if b \<noteq> 0 then quad_string b else []),
            g_uuid = g_uuid g, g_name = g_name g\<rparr>"
    by (simp add: grant_to_json_def grant_from_json_def ab str_or_def)
  then show ?thesis using permission_round_trip [of a b] bound ab by (simp add: grant_bits_def)
qed

lemma condition_round_trip:
  assumes "condition_to_json c = Inr v"
  shows "\<exists>c'. condition_from_json fresh v = Some c' \<and> policy c' = policy c \<and> c_uuid c' = c_uuid c"
proof -
  obtain e where e: "to_json_value (c_expected_value c) = Inr e"
    "v = VDict [(''type'', VStr ''lookup''),
        (''condition'', VDict [(''uuid'', VStr (c_uuid c)), (''name'', VStr (c_name c)),
          (''keypath'', VStr (c_keypath c)), (''expectedValue'', e)])]"
    using assms by (auto simp: condition_to_json_def rbind_Inr_iff)
  then have "to_json_value e = Inr e" using to_json_is_json(1) to_json_id(1) by blast
  with e show ?thesis by (simp add: condition_from_json_def policy_def str_or_def)
qed

text \<open>\<open>remove_first\<close> and \<open>same_elements\<close> compare multisets.\<close>

lemma remove_first_mset: "remove_first x ys = Some zs \<Longrightarrow> mset ys = add_mset x (mset zs)"
  by (induction ys arbitrary: zs) (auto split: if_splits)

lemma remove_first_None: "remove_first x ys = None \<longleftrightarrow> x \<notin> set ys"
  by (induction ys) auto

lemma same_elements_iff: "same_elements xs ys \<longleftrightarrow> mset xs = mset ys"
proof (induction xs arbitrary: ys)
  case (Cons x xs)
  show ?case
  proof (cases "remove_first x ys")
    case None
    then have "x \<notin># mset ys" by (simp add: remove_first_None)
    then show ?thesis using None by (metis same_elements.simps(2) option.simps(4) mset.simps(2) union_single_eq_member)
  next
    case (Some zs)
    with Cons.IH [of zs] remove_first_mset [OF Some] show ?thesis by simp
  qed
qed auto

lemma conditions_match_iff:
  assumes "rmap policy cs = Inr ps" "rmap policy (t_conditions t) = Inr qs"
  shows "conditions_match t cs = Inr (mset ps = mset qs)"
proof -
  have "mset ps = mset qs \<Longrightarrow> length cs = length (t_conditions t)"
    using rmap_Inr_length [OF assms(1)] rmap_Inr_length [OF assms(2)] by (metis mset_eq_length)
  with assms show ?thesis by (auto simp: conditions_match_def same_elements_iff)
qed

text \<open>What a granted grant grants was already granted.\<close>

lemma and_absorb_trans:
  fixes a b c :: int
  assumes "a AND b = b" "b AND c = c"
  shows "a AND c = c"
proof -
  have "a AND c = a AND (b AND c)" using assms(2) by simp
  also have "\<dots> = (a AND b) AND c" by (simp add: and.assoc)
  finally show ?thesis using assms by simp
qed

lemma grants_access_trans:
  assumes "grants_access a b" "grants_access b c"
  shows "grants_access a c"
proof -
  obtain ag ax bg bx cg cx where bits: "grant_bits a = (ag, ax)" "grant_bits b = (bg, bx)" "grant_bits c = (cg, cx)"
    by (metis surj_pair)
  then have "g_keypath a = g_keypath c" "cg \<noteq> 0" "ag AND bg = bg" "bg AND cg = cg"
    "bx = 0 \<or> ax AND bx = bx" "cx = 0 \<or> bx AND cx = cx"
    using assms by (auto simp: grants_access_def split: if_splits)
  then show ?thesis using bits and_absorb_trans [of ag bg cg] and_absorb_trans [of ax bx cx]
    by (auto simp: grants_access_def)
qed

subsection \<open>What agreements promise\<close>

text \<open>
  A grant written to JSON is read back with the same keypath, identifier, name and
  permission bits, so it grants, and is granted by, exactly the same grants.
\<close>

theorem grant_json_round_trip:
  "\<exists>g'. grant_from_json fresh (grant_to_json g) = Some g' \<and> g_uuid g' = g_uuid g \<and> g_name g' = g_name g
    \<and> (\<forall>r. grants_access g' r = grants_access g r \<and> grants_access r g' = grants_access r g)"
  using grant_round_trip [of fresh g] by (auto simp: grants_access_def)

text \<open>
  A template never gives more through a chain of grants than it gives itself: when it grants
  a grant (a contract's, say), and that grants a request, the template grants the request.
\<close>

lemma check_grant_attenuates:
  assumes "check_grant t g" "grants_access g requested"
  shows "check_grant t requested"
  using assms grants_access_trans by (fastforce simp: check_grant_def list_ex_iff)

lemma check_grant_attenuates_witness:
  "check_grant (add_grant ''rw--'' ''notes'' [] new_agreement_template)
     \<lparr>g_keypath = ''notes'', g_permission = ''r--'', g_uuid = [], g_name = []\<rparr>"
proof -
  have b: "permission_bits (VStr ''rw--'') = Some (6, 0)" "permission_bits (VStr ''r---'') = Some (4, 0)"
    "permission_bits (VStr ''r--'') = Some (4, 0)"
    by code_simp+
  show ?thesis
    by (rule check_grant_attenuates [of _ "\<lparr>g_keypath = ''notes'', g_permission = ''r---'', g_uuid = [], g_name = []\<rparr>"])
      (simp_all add: check_grant_def add_grant_def new_agreement_template_def grants_access_def grant_bits_def b)
qed

text \<open>
  A lookup condition that expects \<open>True\<close> is met by the number 1: the two sides are compared with
  Python's \<open>==\<close>.
\<close>

lemma expected_met_number:
  "expected_met \<lparr>c_keypath = ''target.ok'', c_expected_value = VBool True, c_name = [], c_uuid = []\<rparr>
     (Inr (VInt 1)) = Inr True"
  by (simp add: expected_met_def)

end
