(* ===== verification/General_Cell.thy ===== *)
theory General_Cell
  imports Agreement Keypath Act
begin

text \<open>
  \<open>general_cell.py\<close>: the base cell. Its storage, handlers, attachments, flow queue and contracts
  are a record, its coroutines operations on that record and the world around the cell (the
  identity store, random bytes, fresh identifiers, the clock). An operation runs under the
  cell's lock, so it is one step; the lock itself is the last part of the theory.

  Handlers are code registered by the user of a cell: the cell holds their names, and what they do
  is the argument \<open>H\<close>. Emitters and flow tasks are named by numbers. The context variable that is
  set while conditions are evaluated is the argument \<open>ev\<close>.
\<close>

subsection \<open>State\<close>

record world =
  w_outside :: outside
  w_store :: store
  w_random :: "nat \<Rightarrow> bytes"
  w_uuid :: "nat \<Rightarrow> string"
  w_tick :: nat

record flow_element =
  f_title :: string
  f_content :: pyval
  f_properties :: pyval
  f_topic :: "string option"
  f_origin :: "string option"
  f_id :: string

record cell =
  cl_owner :: "identity option"
  cl_uuid :: string
  cl_contract_template_uuid :: string
  cl_name :: string
  cl_cell_scope :: string
  cl_persistancy :: string
  cl_agreement_template :: agreement_template
  cl_agreement_admission_policy :: string
  cl_contracts :: "contract list"
  cl_revoked_before :: "rat dict"
  cl_identity_domain :: "string option"
  cl_storage :: "pyval dict"
  cl_get_handlers :: "nat dict"
  cl_set_handlers :: "nat dict"
  cl_explore_contracts :: "pyval dict dict"
  cl_attached :: "nat dict"
  cl_flow_tasks :: "nat dict"
  cl_flow_queue :: "flow_element option list"

type_synonym 'a cell_act = "(cell \<times> world, 'a) act"

record handlers =
  h_get :: "nat \<Rightarrow> string \<Rightarrow> identity option \<Rightarrow> pyval cell_act"
  h_set :: "nat \<Rightarrow> string \<Rightarrow> pyval \<Rightarrow> identity option \<Rightarrow> pyval cell_act"

definition the_cell :: "(cell \<Rightarrow> 'a) \<Rightarrow> 'a cell_act" where
  "the_cell f = aget (\<lambda>(c, w). f c)"

definition mod_cell :: "(cell \<Rightarrow> cell) \<Rightarrow> unit cell_act" where
  "mod_cell f = amod (\<lambda>(c, w). (f c, w))"

definition now :: "rat cell_act" where
  "now = aget (\<lambda>(c, w). o_now (w_outside w))"

definition fresh_uuid :: "string cell_act" where
  "fresh_uuid = abind (aget (\<lambda>(c, w). w_uuid w (w_tick w)))
     (\<lambda>u. abind (amod (\<lambda>(c, w). (c, w\<lparr>w_tick := Suc (w_tick w)\<rparr>))) (\<lambda>_. aret u))"

text \<open>A control proof takes 32 fresh random bytes, and may use up a challenge of a delegated vault.\<close>

definition prove :: "identity option \<Rightarrow> identity option \<Rightarrow> bool cell_act" where
  "prove requester expected = (\<lambda>(c, w).
     let (b, s') = proves_identity_control (w_outside w) (w_random w (w_tick w)) requester expected (w_store w)
     in (Inr b, (c, w\<lparr>w_store := s', w_tick := Suc (w_tick w)\<rparr>)))"

definition new_cell :: "identity option \<Rightarrow> string \<Rightarrow> string \<Rightarrow> string \<Rightarrow> cell" where
  "new_cell owner name uuid template_uuid =
     \<lparr>cl_owner = owner, cl_uuid = uuid, cl_contract_template_uuid = template_uuid, cl_name = name,
      cl_cell_scope = ''scaffoldUnique'', cl_persistancy = ''ephemeral'',
      cl_agreement_template = new_agreement_template,
      cl_agreement_admission_policy = OWNER_APPROVAL_REQUIRED, cl_contracts = [], cl_revoked_before = [],
      cl_identity_domain = None, cl_storage = [], cl_get_handlers = [], cl_set_handlers = [],
      cl_explore_contracts = [], cl_attached = [], cl_flow_tasks = [], cl_flow_queue = []\<rparr>"

subsection \<open>Flow elements\<close>

definition FlowElement_from_json :: "(pyval \<Rightarrow> string) \<Rightarrow> string \<Rightarrow> pyval dict \<Rightarrow> flow_element res" where
  "FlowElement_from_json pystr fresh payload =
     rbind (from_json_value (getn payload ''content'')) (\<lambda>content.
     rbind (from_json_value (case dget payload ''properties'' of Some v \<Rightarrow> v | None \<Rightarrow> VDict [])) (\<lambda>props.
       Inr \<lparr>f_title = (case dget payload ''title'' of Some v \<Rightarrow> py_str pystr v | None \<Rightarrow> []),
            f_content = content, f_properties = props,
            f_topic = str_val (getn payload ''topic''), f_origin = str_val (getn payload ''origin''),
            f_id = str_or (getn payload ''id'') fresh\<rparr>))"

definition FlowElement_to_json :: "flow_element \<Rightarrow> pyval dict res" where
  "FlowElement_to_json f =
     rbind (to_json_value (f_content f)) (\<lambda>content. rbind (to_json_value (f_properties f)) (\<lambda>props.
       Inr ([(''id'', VStr (f_id f)), (''title'', VStr (f_title f)), (''content'', content), (''properties'', props)]
         @ (case f_topic f of None \<Rightarrow> [] | Some t \<Rightarrow> [(''topic'', VStr t)])
         @ (case f_origin f of None \<Rightarrow> [] | Some x \<Rightarrow> [(''origin'', VStr x)]))))"

definition push_flow_element :: "flow_element \<Rightarrow> unit cell_act" where
  "push_flow_element e = mod_cell (\<lambda>c. c\<lparr>cl_flow_queue := cl_flow_queue c @ [Some e]\<rparr>)"

definition push_completion :: "unit cell_act" where
  "push_completion = mod_cell (\<lambda>c. c\<lparr>cl_flow_queue := cl_flow_queue c @ [None]\<rparr>)"

subsection \<open>Registration\<close>

definition add_get_handler :: "string \<Rightarrow> nat \<Rightarrow> unit cell_act" where
  "add_get_handler key h = mod_cell (\<lambda>c. c\<lparr>cl_get_handlers := dset (cl_get_handlers c) key h\<rparr>)"

definition add_set_handler :: "string \<Rightarrow> nat \<Rightarrow> unit cell_act" where
  "add_set_handler key h = mod_cell (\<lambda>c. c\<lparr>cl_set_handlers := dset (cl_set_handlers c) key h\<rparr>)"

definition register_explore_contract ::
    "string \<Rightarrow> string \<Rightarrow> pyval \<Rightarrow> pyval \<Rightarrow> string list \<Rightarrow> string \<Rightarrow> unit cell_act" where
  "register_explore_contract key mtd input_schema ret permissions description =
     mod_cell (\<lambda>c. c\<lparr>cl_explore_contracts := dset (cl_explore_contracts c) key
       [(''key'', VStr key), (''method'', VStr mtd),
        (''input'', if input_schema \<noteq> VNull then input_schema else VDict [(''type'', VStr ''null'')]),
        (''returns'', if ret \<noteq> VNull then ret else VDict [(''type'', VStr ''unknown'')]),
        (''permissions'', VList (map VStr permissions)), (''required'', VBool True),
        (''description'', VStr description)]\<rparr>)"

text \<open>\<open>_handler_for\<close>: the handler of the longest registered key that the keypath equals or extends by a dot.\<close>

definition handles :: "string \<Rightarrow> string \<Rightarrow> bool" where
  "handles key keypath \<longleftrightarrow> keypath = key \<or> startswith keypath (key @ ''.'')"

fun longest :: "string list \<Rightarrow> string option" where
  "longest [] = None"
| "longest (k # ks) =
     (case longest ks of None \<Rightarrow> Some k | Some l \<Rightarrow> if length k < length l then Some l else Some k)"

definition handler_for :: "string \<Rightarrow> 'h dict \<Rightarrow> 'h option" where
  "handler_for keypath hs =
     Option.bind (longest (filter (\<lambda>k. handles k keypath) (dkeys hs))) (dget hs)"

definition declared_keys :: "cell \<Rightarrow> string list" where
  "declared_keys c =
     sort_by str_less (remdups (dkeys (cl_explore_contracts c) @ dkeys (cl_get_handlers c)
       @ dkeys (cl_set_handlers c) @ dkeys (cl_storage c)))"

subsection \<open>Access\<close>

text \<open>While conditions are evaluated contracts give nothing, so only control of the owner counts.\<close>

definition owner_access :: "identity option \<Rightarrow> bool cell_act" where
  "owner_access requester =
     abind (the_cell cl_owner) (\<lambda>owner. if owner = None then aret True else prove requester owner)"

definition require :: "bool cell_act \<Rightarrow> unit cell_act" where
  "require check = abind check (\<lambda>b. aguard b PermissionError)"

definition read_keypath :: "handlers \<Rightarrow> string \<Rightarrow> identity option \<Rightarrow> pyval cell_act" where
  "read_keypath H keypath requester =
     abind (the_cell (\<lambda>c. handler_for keypath (cl_get_handlers c))) (\<lambda>h.
       case h of
         Some n \<Rightarrow> h_get H n keypath requester
       | None \<Rightarrow> abind (the_cell (\<lambda>c. get_keypath (VDict (cl_storage c)) keypath)) alift)"

text \<open>\<open>_identity_json\<close> of the owner; making its JSON stores the key wires in the owner.\<close>

definition identity_json_keys :: "string list" where
  "identity_json_keys = [''uuid'', ''displayName'', ''publicSecureKey'', ''publicKeyAgreementSecureKey'']"

definition identity_json :: "pyval cell_act" where
  "identity_json =
     abind (the_cell cl_owner) (\<lambda>owner.
       case owner of
         None \<Rightarrow> aret (VDict [(''uuid'', VStr ''00000000-0000-0000-0000-000000000000''),
                             (''displayName'', VStr ''Python Scaffold'')])
       | Some i \<Rightarrow> abind now (\<lambda>t. abind (alift (Identity_to_json t i)) (\<lambda>(d, i').
           abind (mod_cell (\<lambda>c. c\<lparr>cl_owner := Some i'\<rparr>)) (\<lambda>_.
             aret (VDict (List.map_filter (\<lambda>k. map_option (\<lambda>v. (k, v)) (dget d k)) identity_json_keys))))))"

definition advertise :: "pyval cell_act" where
  "advertise =
     abind identity_json (\<lambda>owner_json. abind (the_cell id) (\<lambda>c.
     let t = cl_agreement_template c; grants = VList (map grant_to_json (t_grants t)) in
     abind (alift (rmap condition_to_json (t_conditions t))) (\<lambda>conds.
     abind (alift (template_to_json t)) (\<lambda>tj.
       aret (VDict
         [(''uuid'', VStr (cl_uuid c)), (''name'', VStr (cl_name c)), (''cellScope'', VStr (cl_cell_scope c)),
          (''persistancy'', VStr (cl_persistancy c)),
          (''identityDomain'', VStr (case cl_identity_domain c of Some d \<Rightarrow> d | None \<Rightarrow> [])),
          (''contractTemplate'', VDict
            [(''uuid'', VStr (cl_contract_template_uuid c)), (''name'', VStr ''Contract name here''),
             (''state'', VStr ''template''), (''owner'', owner_json), (''signatories'', VList [owner_json]),
             (''grants'', grants), (''conditions'', VList conds), (''duration'', VInt (t_duration t))]),
          (''agreementTemplate'', tj),
          (''keys'', VList (map VStr (declared_keys c)))])))))"

text \<open>A read made by a condition: \<open>target.get(child, requester)\<close> with the context variable set.\<close>

definition condition_get :: "handlers \<Rightarrow> string \<Rightarrow> identity \<Rightarrow> pyval cell_act" where
  "condition_get H keypath requester =
     (if keypath = ''description'' then advertise
      else if keypath = ''keys'' then
        abind (require (owner_access (Some requester))) (\<lambda>_.
          abind (the_cell declared_keys) (\<lambda>ks. aret (VList (map VStr ks))))
      else abind (require (owner_access (Some requester))) (\<lambda>_. read_keypath H keypath (Some requester)))"

text \<open>An identity read without a resolver raises, so an \<open>identity.\<close> condition is not met.\<close>

definition is_met :: "handlers \<Rightarrow> condition \<Rightarrow> identity \<Rightarrow> bool cell_act" where
  "is_met H cond requester =
     abind (the_cell cl_uuid) (\<lambda>uuid.
       case lookup_of uuid (i_uuid requester) cond of
         NoLookup \<Rightarrow> aret False
       | IdentityLookup child \<Rightarrow> alift (expected_met cond (Inl RuntimeError))
       | TargetLookup child \<Rightarrow>
           abind (acatch (abind (condition_get H child requester) (\<lambda>v. aret (Inr v))) (\<lambda>e. aret (Inl e)))
             (\<lambda>r. alift (expected_met cond r)))"

fun conditions_hold :: "handlers \<Rightarrow> condition list \<Rightarrow> identity \<Rightarrow> bool cell_act" where
  "conditions_hold H [] i = aret True"
| "conditions_hold H (c # cs) i = abind (is_met H c i) (\<lambda>b. if b then conditions_hold H cs i else aret False)"

definition revoked_before :: "cell \<Rightarrow> string \<Rightarrow> rat option" where
  "revoked_before c uuid = dget (cl_revoked_before c) uuid"

definition not_revoked :: "cell \<Rightarrow> contract \<Rightarrow> bool" where
  "not_revoked c k \<longleftrightarrow>
     (case revoked_before c (i_uuid (k_subject k)) of None \<Rightarrow> True | Some t \<Rightarrow> t < k_issued_at k)"

text \<open>One contract of the loop of \<open>contract_allows\<close>, up to its conditions.\<close>

definition contract_applies :: "cell \<Rightarrow> rat \<Rightarrow> grant \<Rightarrow> identity \<Rightarrow> contract \<Rightarrow> bool res" where
  "contract_applies c t requested requester k =
     (if \<not> same_identity_reference (Some requester) (Some (k_subject k)) then Inr False
      else if \<not> not_revoked c k \<or> \<not> active k t then Inr False
      else if \<not> list_all (check_grant (cl_agreement_template c)) (k_grants k) then Inr False
      else rbind (conditions_match (cl_agreement_template c) (k_conditions k)) (\<lambda>m.
        Inr (m \<and> k_duration k \<le> t_duration (cl_agreement_template c)
             \<and> list_ex (\<lambda>g. grants_access g requested) (k_grants k))))"

fun contracts_allow :: "handlers \<Rightarrow> rat \<Rightarrow> grant \<Rightarrow> identity \<Rightarrow> contract list \<Rightarrow> bool cell_act" where
  "contracts_allow H t requested requester [] = aret False"
| "contracts_allow H t requested requester (k # ks) =
     abind (the_cell id) (\<lambda>c. abind (alift (contract_applies c t requested requester k)) (\<lambda>b.
       if \<not> b then contracts_allow H t requested requester ks
       else abind (conditions_hold H (k_conditions k) requester) (\<lambda>ok.
         if ok then aret True else contracts_allow H t requested requester ks)))"

definition requested_grant :: "string \<Rightarrow> string \<Rightarrow> grant" where
  "requested_grant permission keypath =
     \<lparr>g_keypath = keypath, g_permission = permission, g_uuid = [], g_name = ''Condition grant''\<rparr>"

definition contract_allows :: "handlers \<Rightarrow> bool \<Rightarrow> string \<Rightarrow> string \<Rightarrow> identity option \<Rightarrow> bool cell_act" where
  "contract_allows H ev permission keypath requester =
     (case requester of
        None \<Rightarrow> aret False
      | Some i \<Rightarrow>
          if ev then aret False
          else abind now (\<lambda>t. abind (the_cell cl_contracts) (\<lambda>ks.
            contracts_allow H t (requested_grant permission keypath) i ks)))"

definition validate_access :: "handlers \<Rightarrow> bool \<Rightarrow> string \<Rightarrow> string \<Rightarrow> identity option \<Rightarrow> bool cell_act" where
  "validate_access H ev permission keypath requester =
     abind (owner_access requester) (\<lambda>b. if b then aret True else contract_allows H ev permission keypath requester)"

definition require_access :: "handlers \<Rightarrow> bool \<Rightarrow> string \<Rightarrow> string \<Rightarrow> identity option \<Rightarrow> unit cell_act" where
  "require_access H ev permission keypath requester = require (validate_access H ev permission keypath requester)"


subsection \<open>Reading and writing\<close>

definition cell_keys :: "handlers \<Rightarrow> bool \<Rightarrow> identity option \<Rightarrow> string list cell_act" where
  "cell_keys H ev requester =
     abind (require_access H ev ''r---'' ''keys'' requester) (\<lambda>_. the_cell declared_keys)"

definition cell_get :: "handlers \<Rightarrow> bool \<Rightarrow> string \<Rightarrow> identity option \<Rightarrow> pyval cell_act" where
  "cell_get H ev keypath requester =
     (if keypath = ''description'' then advertise
      else if keypath = ''keys'' then
        abind (cell_keys H ev requester) (\<lambda>ks. aret (VList (map VStr ks)))
      else abind (require_access H ev ''r---'' keypath requester) (\<lambda>_. read_keypath H keypath requester))"

definition dict_of :: "pyval \<Rightarrow> pyval dict" where
  "dict_of v = (case v of VDict d \<Rightarrow> d | _ \<Rightarrow> [])"

definition set_storage :: "string \<Rightarrow> pyval \<Rightarrow> unit cell_act" where
  "set_storage keypath v =
     abind (the_cell (\<lambda>c. set_keypath (VDict (cl_storage c)) keypath v)) (\<lambda>(tree, r).
       abind (mod_cell (\<lambda>c. c\<lparr>cl_storage := dict_of tree\<rparr>)) (\<lambda>_. abind (alift r) (\<lambda>_. aret ())))"

definition cell_set :: "handlers \<Rightarrow> bool \<Rightarrow> string \<Rightarrow> pyval \<Rightarrow> identity option \<Rightarrow> pyval cell_act" where
  "cell_set H ev keypath v requester =
     abind (require_access H ev ''-w--'' keypath requester) (\<lambda>_.
     abind (the_cell (\<lambda>c. handler_for keypath (cl_set_handlers c))) (\<lambda>h.
       case h of
         Some n \<Rightarrow> h_set H n keypath v requester
       | None \<Rightarrow>
           abind (set_storage keypath v) (\<lambda>_. abind fresh_uuid (\<lambda>u. abind (the_cell cl_uuid) (\<lambda>origin.
             abind (push_flow_element
               \<lparr>f_title = ''Cell update'',
                f_content = VDict [(''keypath'', VStr keypath), (''data'', v)],
                f_properties = VDict [(''type'', VStr ''content''), (''contentType'', VStr ''object'')],
                f_topic = Some ''cell.update'', f_origin = Some origin, f_id = u\<rparr>) (\<lambda>_. aret VNull))))))"

fun type_name :: "pyval \<Rightarrow> string" where
  "type_name VNull = ''null''"
| "type_name (VBool b) = ''bool''"
| "type_name (VInt i) = ''integer''"
| "type_name (VFloat f) = ''float''"
| "type_name (VStr s) = ''string''"
| "type_name (VList vs) = ''list''"
| "type_name (VDict d) = ''object''"
| "type_name (VBytes bs) = ''bytes''"
| "type_name (VTuple vs) = ''tuple''"
| "type_name (VTyped k v) = ''TypedValue''"
| "type_name (VKeyValue k v t) = ''KeyValue''"
| "type_name (VResponse s v) = ''SetValueResponse''"
| "type_name (VObject c) = c"

definition contract_type :: "pyval dict option \<Rightarrow> string option" where
  "contract_type contract =
     (case contract of
        Some d \<Rightarrow> (case getn d ''returns'' of VDict r \<Rightarrow> str_val (getn r ''type'') | _ \<Rightarrow> None)
      | None \<Rightarrow> None)"

definition type_for_key :: "handlers \<Rightarrow> bool \<Rightarrow> string \<Rightarrow> identity option \<Rightarrow> string option cell_act" where
  "type_for_key H ev keypath requester =
     abind (the_cell (\<lambda>c. contract_type (dget (cl_explore_contracts c) keypath))) (\<lambda>t.
       if t \<noteq> None then aret t
       else acatch (abind (cell_get H ev keypath requester) (\<lambda>v. aret (Some (type_name v)))) (\<lambda>e. aret None))"

subsection \<open>Attachments and flows\<close>

definition attach :: "handlers \<Rightarrow> nat \<Rightarrow> string \<Rightarrow> identity option \<Rightarrow> string cell_act" where
  "attach H emitter label requester =
     abind (require_access H False ''--x-'' label requester) (\<lambda>_.
     abind (mod_cell (\<lambda>c. c\<lparr>cl_attached := dset (cl_attached c) label emitter\<rparr>)) (\<lambda>_. aret ''connected''))"

definition drop_flow :: "string \<Rightarrow> unit cell_act" where
  "drop_flow label = mod_cell (\<lambda>c. c\<lparr>cl_flow_tasks := ddel (cl_flow_tasks c) label\<rparr>)"

definition drop_all_flows :: "unit cell_act" where
  "drop_all_flows = mod_cell (\<lambda>c. c\<lparr>cl_flow_tasks := []\<rparr>)"

definition absorb_flow :: "handlers \<Rightarrow> string \<Rightarrow> identity option \<Rightarrow> unit cell_act" where
  "absorb_flow H label requester =
     abind (require_access H False ''r---'' label requester) (\<lambda>_.
     abind (the_cell (\<lambda>c. dget (cl_attached c) label)) (\<lambda>emitter.
       case emitter of
         None \<Rightarrow> athrow KeyPathError
       | Some n \<Rightarrow> abind (drop_flow label) (\<lambda>_.
           mod_cell (\<lambda>c. c\<lparr>cl_flow_tasks := dset (cl_flow_tasks c) label n\<rparr>))))"

text \<open>One element that the pump of a live flow task takes from its emitter.\<close>

definition pump :: "string \<Rightarrow> flow_element \<Rightarrow> unit cell_act" where
  "pump label e =
     abind (the_cell (\<lambda>c. dget (cl_flow_tasks c) label)) (\<lambda>task.
       if task = None then aret () else push_flow_element e)"

definition detach :: "handlers \<Rightarrow> string \<Rightarrow> identity option \<Rightarrow> unit cell_act" where
  "detach H label requester =
     abind (require_access H False ''--x-'' label requester) (\<lambda>_. abind (drop_flow label) (\<lambda>_.
       mod_cell (\<lambda>c. c\<lparr>cl_attached := ddel (cl_attached c) label\<rparr>)))"

definition detach_all :: "unit cell_act" where
  "detach_all = abind drop_all_flows (\<lambda>_. mod_cell (\<lambda>c. c\<lparr>cl_attached := []\<rparr>))"

definition attached_status :: "handlers \<Rightarrow> string \<Rightarrow> identity option \<Rightarrow> string cell_act" where
  "attached_status H label requester =
     abind (require_access H False ''r---'' label requester) (\<lambda>_.
     abind (the_cell (\<lambda>c. dget (cl_attached c) label)) (\<lambda>a.
       aret (if a \<noteq> None then ''connected'' else ''notConnected'')))"

definition attached_statuses :: "handlers \<Rightarrow> identity option \<Rightarrow> string dict cell_act" where
  "attached_statuses H requester =
     abind (require_access H False ''r---'' ''attachedStatuses'' requester) (\<lambda>_.
       the_cell (\<lambda>c. map (\<lambda>(l, _). (l, ''connected'')) (cl_attached c)))"

text \<open>
  \<open>flow\<close>: access is checked when the iteration starts, then each step takes the head of the queue:
  nothing yet (the reader waits), the end, or an element.
\<close>

definition flow_start :: "handlers \<Rightarrow> identity option \<Rightarrow> unit cell_act" where
  "flow_start H requester = require_access H False ''r---'' ''flow'' requester"

definition flow_next :: "flow_element option option cell_act" where
  "flow_next =
     abind (the_cell cl_flow_queue) (\<lambda>q.
       case q of
         [] \<Rightarrow> aret None
       | x # rest \<Rightarrow> abind (mod_cell (\<lambda>c. c\<lparr>cl_flow_queue := rest\<rparr>)) (\<lambda>_. aret (Some x)))"

subsection \<open>Contracts\<close>

definition admit :: "string cell_act" where
  "admit = athrow PermissionError"

definition caught_by_agreement :: "exc \<Rightarrow> bool" where
  "caught_by_agreement e \<longleftrightarrow> is_value_error e \<or> e \<in> {TypeError, KeyError, KeyPathError}"

text \<open>The request stays inside the template; the conjuncts are evaluated in order.\<close>

definition inside_template :: "cell \<Rightarrow> identity \<Rightarrow> agreement_request \<Rightarrow> bool res" where
  "inside_template c request_owner r =
     (let t = cl_agreement_template c in
      if \<not> (same_identity_reference (Some request_owner) (cl_owner c) \<and> r_state r = ''template''
            \<and> 0 < r_duration r \<and> r_duration r \<le> t_duration t \<and> r_duration r \<le> MAXIMUM_DURATION
            \<and> r_grants r \<noteq> [] \<and> list_all (check_grant t) (r_grants r))
      then Inr False
      else conditions_match t (r_conditions r))"

definition policy_admits :: "cell \<Rightarrow> bool \<Rightarrow> agreement_request \<Rightarrow> bool" where
  "policy_admits c owner_authorized r =
     (if owner_authorized then True
      else if cl_agreement_admission_policy c = AUTOMATIC_WHEN_CONDITIONS_MET
      then list_ex enforcing (t_conditions (cl_agreement_template c))
      else if cl_agreement_admission_policy c = OWNER_PUBLISHED_READ
      then list_all (\<lambda>g. grant_bits g = (4, 0)) (r_grants r)
      else False)"

definition issue_time :: "cell \<Rightarrow> rat \<Rightarrow> string \<Rightarrow> rat" where
  "issue_time c t uuid = (case revoked_before c uuid of None \<Rightarrow> t | Some r \<Rightarrow> max t (r + 1 / 1000000))"

text \<open>The last part of \<open>add_agreement\<close>: the contract is made and kept.\<close>

definition sign_contract :: "identity \<Rightarrow> agreement_request \<Rightarrow> string cell_act" where
  "sign_contract i r =
     abind now (\<lambda>t. abind fresh_uuid (\<lambda>u.
     abind (mod_cell (\<lambda>c. c\<lparr>cl_contracts := cl_contracts c @
       [\<lparr>k_uuid = u, k_subject = i, k_grants = r_grants r,
         k_conditions = t_conditions (cl_agreement_template c), k_duration = r_duration r,
         k_issued_at = issue_time c t (i_uuid i)\<rparr>]\<rparr>)) (\<lambda>_. aret ''signed'')))"

definition parse_request_owner ::
    "(pyval \<Rightarrow> string) \<Rightarrow> string \<Rightarrow> agreement_request \<Rightarrow> identity option res" where
  "parse_request_owner pystr fresh r =
     (case Identity_from_json pystr fresh (r_owner r) None of
        Inr i \<Rightarrow> Inr (Some i)
      | Inl e \<Rightarrow> if caught_by_agreement e then Inr None else Inl e)"

text \<open>What is decided once the request's owner is known: by the template, the policy and the conditions.\<close>

definition decide_request ::
    "handlers \<Rightarrow> identity \<Rightarrow> agreement_request \<Rightarrow> identity \<Rightarrow> bool \<Rightarrow> string cell_act" where
  "decide_request H i r request_owner owner_authorized =
     abind (the_cell id) (\<lambda>c. abind (alift (inside_template c request_owner r)) (\<lambda>inside.
       if \<not> inside \<or> \<not> policy_admits c owner_authorized r then aret ''rejected''
       else abind (conditions_hold H (t_conditions (cl_agreement_template c)) i) (\<lambda>held.
         if \<not> held then aret ''rejected'' else sign_contract i r)))"

definition add_agreement ::
    "handlers \<Rightarrow> (pyval \<Rightarrow> string) \<Rightarrow> pyval \<Rightarrow> identity option \<Rightarrow> identity option \<Rightarrow> string cell_act" where
  "add_agreement H pystr contract identity authorized_by =
     abind fresh_uuid (\<lambda>fresh. abind (alift (request_from_json fresh contract)) (\<lambda>request.
     abind (the_cell cl_owner) (\<lambda>owner.
       case (request, identity, owner) of
         (Some r, Some i, Some own) \<Rightarrow>
           abind (if i_identityVault i = None then aret True else prove (Some i) (Some i)) (\<lambda>self_ok.
           if \<not> self_ok then aret ''rejected''
           else abind (if authorized_by = None then aret False else prove authorized_by (Some own)) (\<lambda>owner_authorized.
             abind (alift (parse_request_owner pystr fresh r)) (\<lambda>request_owner.
               case request_owner of
                 None \<Rightarrow> aret ''rejected''
               | Some ro \<Rightarrow> decide_request H i r ro owner_authorized)))
       | _ \<Rightarrow> aret ''rejected'')))"

definition remove_contracts :: "string \<Rightarrow> unit cell_act" where
  "remove_contracts subject_uuid =
     abind now (\<lambda>t. mod_cell (\<lambda>c. c\<lparr>cl_revoked_before := dset (cl_revoked_before c) subject_uuid t,
       cl_contracts := filter (\<lambda>k. i_uuid (k_subject k) \<noteq> subject_uuid) (cl_contracts c)\<rparr>))"

definition is_member :: "handlers \<Rightarrow> identity option \<Rightarrow> identity option \<Rightarrow> bool cell_act" where
  "is_member H identity requester =
     abind (the_cell cl_owner) (\<lambda>owner.
       if owner = None then aret True
       else if requester \<noteq> None then
         abind (require_access H False ''r---'' ''isMember'' requester) (\<lambda>_.
           aret (same_identity_reference identity owner))
       else prove identity owner)"


subsection \<open>The lock\<close>

text \<open>
  \<open>_ReentrantAsyncLock\<close>: entering by the task that holds it nests, entering by another waits until it
  is free (\<open>None\<close>), and leaving by a task that does not hold it raises.
\<close>

record lock =
  lk_locked :: bool
  lk_owner :: "nat option"
  lk_depth :: nat

definition new_lock :: lock where
  "new_lock = \<lparr>lk_locked = False, lk_owner = None, lk_depth = 0\<rparr>"

definition lock_enter :: "lock \<Rightarrow> nat \<Rightarrow> lock option" where
  "lock_enter l task =
     (if lk_owner l = Some task then Some (l\<lparr>lk_depth := lk_depth l + 1\<rparr>)
      else if lk_locked l then None
      else Some \<lparr>lk_locked = True, lk_owner = Some task, lk_depth = 1\<rparr>)"

definition lock_exit :: "lock \<Rightarrow> nat \<Rightarrow> lock res" where
  "lock_exit l task =
     (if lk_owner l \<noteq> Some task \<or> lk_depth l = 0 then Inl RuntimeError
      else if lk_depth l - 1 = 0 then Inr (l\<lparr>lk_depth := 0, lk_owner := None, lk_locked := False\<rparr>)
      else Inr (l\<lparr>lk_depth := lk_depth l - 1\<rparr>))"

text \<open>The states tasks can bring the lock to, with how often each task is inside.\<close>

inductive lock_reach :: "lock \<Rightarrow> (nat \<Rightarrow> nat) \<Rightarrow> bool" where
  start: "lock_reach new_lock (\<lambda>_. 0)"
| enter: "lock_reach l h \<Longrightarrow> lock_enter l t = Some l' \<Longrightarrow> lock_reach l' (h(t := Suc (h t)))"
| leave: "lock_reach l h \<Longrightarrow> lock_exit l t = Inr l' \<Longrightarrow> lock_reach l' (h(t := h t - 1))"

lemma lock_reach_inv:
  "lock_reach l h \<Longrightarrow>
     h = (\<lambda>t. if lk_owner l = Some t then lk_depth l else 0)
     \<and> lk_locked l = (lk_owner l \<noteq> None) \<and> (lk_owner l \<noteq> None \<longrightarrow> 0 < lk_depth l)"
proof (induction rule: lock_reach.induct)
  case start
  show ?case by (simp add: new_lock_def)
next
  case (enter l h t l')
  then show ?case by (auto simp: lock_enter_def fun_eq_iff split: if_splits)
next
  case (leave l h t l')
  then show ?case by (auto simp: lock_exit_def fun_eq_iff split: if_splits)
qed

subsection \<open>Access is checked\<close>

lemma the_cell_run [act_simps]: "the_cell f (c, w) = (Inr (f c), (c, w))"
  by (simp add: the_cell_def act_run)

lemma mod_cell_run [act_simps]: "mod_cell f (c, w) = (Inr (), (f c, w))"
  by (simp add: mod_cell_def act_run)

lemma now_run [act_simps]: "now (c, w) = (Inr (o_now (w_outside w)), (c, w))"
  by (simp add: now_def act_run)

lemma abind_cell [act_simps]:
  "abind (the_cell f) k (c, w) = k (f c) (c, w)" "abind (mod_cell g) k' (c, w) = k' () (g c, w)"
  "abind now k'' (c, w) = k'' (o_now (w_outside w)) (c, w)"
  by (simp_all add: abind_def act_simps)

lemma prove_none: "\<exists>w'. prove None expected (c, w) = (Inr False, (c, w'))"
  by (auto simp: prove_def proves_identity_control_def same_identity_reference_def)

lemma validate_none:
  assumes "cl_owner c \<noteq> None"
  shows "\<exists>w'. validate_access H ev p k None (c, w) = (Inr False, (c, w'))"
proof -
  obtain w' where "prove None (cl_owner c) (c, w) = (Inr False, (c, w'))" using prove_none by blast
  with assms show ?thesis
    by (simp add: validate_access_def owner_access_def contract_allows_def abind_def act_simps)
qed

lemma require_none:
  assumes "cl_owner c \<noteq> None"
  shows "\<exists>w'. require_access H ev p k None (c, w) = (Inl PermissionError, (c, w'))"
proof -
  obtain w' where "validate_access H ev p k None (c, w) = (Inr False, (c, w'))"
    using validate_none [OF assms] by blast
  then show ?thesis by (simp add: require_access_def require_def abind_def aguard_def act_run)
qed

lemma denied_bind:
  assumes "cl_owner c \<noteq> None"
  shows "\<exists>w'. abind (require_access H ev p k None) f (c, w) = (Inl PermissionError, (c, w'))"
proof -
  obtain w' where "require_access H ev p k None (c, w) = (Inl PermissionError, (c, w'))"
    using require_none [OF assms] by blast
  then show ?thesis by (simp add: abind_def)
qed

text \<open>
  C29: without a requester, a cell that has an owner answers each operation that asks for access with
  \<open>PermissionError\<close> and is left as it was: every read but that of the description, the keys, every
  write, attaching, detaching and absorbing under a label, the flow and both attachment states. (The
  description is open to all, and \<open>drop_flow\<close>, \<open>drop_all_flows\<close> and \<open>detach_all\<close> ask for no access.)
\<close>

theorem owned_cell_refuses_anonymous:
  assumes "cl_owner c \<noteq> None"
  shows "(keypath \<noteq> ''description'' \<longrightarrow>
            (\<exists>w'. cell_get H ev keypath None (c, w) = (Inl PermissionError, (c, w'))))
    \<and> (\<exists>w'. cell_keys H ev None (c, w) = (Inl PermissionError, (c, w')))
    \<and> (\<exists>w'. cell_set H ev keypath v None (c, w) = (Inl PermissionError, (c, w')))
    \<and> (\<exists>w'. attach H emitter label None (c, w) = (Inl PermissionError, (c, w')))
    \<and> (\<exists>w'. detach H label None (c, w) = (Inl PermissionError, (c, w')))
    \<and> (\<exists>w'. absorb_flow H label None (c, w) = (Inl PermissionError, (c, w')))
    \<and> (\<exists>w'. attached_status H label None (c, w) = (Inl PermissionError, (c, w')))
    \<and> (\<exists>w'. attached_statuses H None (c, w) = (Inl PermissionError, (c, w')))
    \<and> (\<exists>w'. flow_start H None (c, w) = (Inl PermissionError, (c, w')))"
  by (simp add: cell_get_def cell_keys_def cell_set_def attach_def detach_def absorb_flow_def flow_start_def
      attached_status_def attached_statuses_def abind_assoc denied_bind [OF assms] require_none [OF assms])

text \<open>
  Evaluating conditions leaves the template and the revocations as they are when the get handlers
  of the cell do.
\<close>

definition same_access :: "cell \<Rightarrow> cell \<Rightarrow> bool" where
  "same_access c c' \<longleftrightarrow> cl_agreement_template c' = cl_agreement_template c \<and> cl_revoked_before c' = cl_revoked_before c"

definition reads_only :: "handlers \<Rightarrow> bool" where
  "reads_only H \<longleftrightarrow> (\<forall>n keypath requester c w. same_access c (fst (snd (h_get H n keypath requester (c, w)))))"

lemma same_access_owner [simp]: "same_access c (c\<lparr>cl_owner := x\<rparr>)"
  by (simp add: same_access_def)

abbreviation keeps_access :: "cell \<Rightarrow> 'a cell_act \<Rightarrow> bool" where
  "keeps_access c0 \<equiv> keeps_prop (\<lambda>(c, w). same_access c0 c)"

lemma keeps_access_basic [act_keeps]:
  "keeps_access c0 (the_cell f)" "keeps_access c0 now" "keeps_access c0 (prove a b)"
  "(\<And>c. same_access c (f' c)) \<Longrightarrow> keeps_access c0 (mod_cell f')"
  by (auto simp: keeps_prop_def the_cell_def now_def prove_def mod_cell_def act_run same_access_def split: prod.splits)

lemma keeps_access_get:
  assumes "reads_only H"
  shows "keeps_access c0 (condition_get H keypath i)"
proof -
  have h: "keeps_access c0 (h_get H n keypath r)" for n r
  proof -
    have "same_access c (fst (snd (h_get H n keypath r (c, w))))" for c w
      using assms by (simp add: reads_only_def)
    then show ?thesis by (simp add: keeps_prop_def same_access_def case_prod_beta)
  qed
  have r: "keeps_access c0 (require (owner_access x))" for x
    unfolding require_def owner_access_def by (intro act_keeps) (simp_all add: act_keeps)
  have "keeps_access c0 identity_json"
    unfolding identity_json_def
    by (auto intro!: act_keeps split: option.split prod.split)
  then have a: "keeps_access c0 advertise"
    unfolding advertise_def Let_def by (intro act_keeps) (assumption | rule act_keeps)+
  have "keeps_access c0 (read_keypath H keypath x)" for x
    unfolding read_keypath_def using h by (auto intro!: act_keeps split: option.split)
  then show ?thesis
    unfolding condition_get_def using a r by (auto intro!: act_keeps)
qed

lemma keeps_access_conditions:
  assumes "reads_only H"
  shows "keeps_access c0 (conditions_hold H cs i)"
proof (induction cs)
  case (Cons c cs)
  have "keeps_access c0 (is_met H c i)"
    unfolding is_met_def using keeps_access_get [OF assms] by (auto intro!: act_keeps split: lookup.split)
  with Cons show ?case by (auto intro!: act_keeps)
qed (auto intro!: act_keeps)

lemma keeps_access_contracts:
  assumes "reads_only H"
  shows "keeps_access c0 (contracts_allow H t requested i ks)"
  by (induction ks) (auto intro!: act_keeps keeps_access_conditions [OF assms])

text \<open>
  A contract of the list is what made the loop say yes, in the state that the contracts before it
  left when they said no.
\<close>

lemma contracts_allow_sound:
  assumes "contracts_allow H t requested i ks s = (Inr True, s')"
  shows "\<exists>pre k post c' w'. ks = pre @ k # post
    \<and> contracts_allow H t requested i pre s = (Inr False, (c', w'))
    \<and> contract_applies c' t requested i k = Inr True
    \<and> conditions_hold H (k_conditions k) i (c', w') = (Inr True, s')"
  using assms
proof (induction ks arbitrary: s)
  case (Cons k ks)
  obtain c w where s: "s = (c, w)" by (cases s)
  have later: ?case if "contracts_allow H t requested i ks s1 = (Inr True, s')"
    and "\<And>pre. contracts_allow H t requested i (k # pre) s = contracts_allow H t requested i pre s1" for s1
  proof -
    from Cons.IH [OF that(1)] obtain pre k' post c' w' where "ks = pre @ k' # post"
      "contracts_allow H t requested i pre s1 = (Inr False, (c', w'))" "contract_applies c' t requested i k' = Inr True"
      "conditions_hold H (k_conditions k') i (c', w') = (Inr True, s')" by blast
    then show ?thesis using that(2) by (intro exI [of _ "k # pre"]) auto
  qed
  from Cons.prems obtain b where b: "contract_applies c t requested i k = Inr b"
    by (cases "contract_applies c t requested i k") (auto simp: s act_simps abind_def)
  show ?case
  proof (cases b)
    case False
    then have "contracts_allow H t requested i (k # l) s = contracts_allow H t requested i l s" for l
      using b by (simp add: s act_simps abind_def)
    with later Cons.prems show ?thesis by metis
  next
    case True
    with Cons.prems b obtain ok s1 where ok: "conditions_hold H (k_conditions k) i (c, w) = (Inr ok, s1)"
      by (cases "conditions_hold H (k_conditions k) i (c, w)"; cases "fst (conditions_hold H (k_conditions k) i (c, w))")
        (auto simp: s act_simps abind_def)
    show ?thesis
    proof (cases ok)
      case False
      then have "contracts_allow H t requested i (k # l) s = contracts_allow H t requested i l s1" for l
        using b True ok by (simp add: s act_simps abind_def)
      with later Cons.prems show ?thesis by metis
    next
      case ok': True
      then have "s1 = s'" using Cons.prems b True ok by (simp add: s act_simps abind_def)
      then show ?thesis
        by (intro exI [of _ "[]"] exI [of _ k] exI [of _ ks] exI [of _ c] exI [of _ w])
          (use b True ok ok' in \<open>simp add: s act_run\<close>)
    qed
  qed
qed (simp add: act_simps)

lemma contract_applies_sound:
  assumes "contract_applies c t requested i k = Inr True"
  shows "same_identity_reference (Some i) (Some (k_subject k)) \<and> active k t \<and> not_revoked c k
    \<and> list_ex (\<lambda>g. grants_access g requested) (k_grants k)
    \<and> list_all (check_grant (cl_agreement_template c)) (k_grants k)
    \<and> check_grant (cl_agreement_template c) requested
    \<and> conditions_match (cl_agreement_template c) (k_conditions k) = Inr True
    \<and> k_duration k \<le> t_duration (cl_agreement_template c)"
proof -
  from assms have a: "same_identity_reference (Some i) (Some (k_subject k))" "active k t" "not_revoked c k"
    "list_all (check_grant (cl_agreement_template c)) (k_grants k)"
    "conditions_match (cl_agreement_template c) (k_conditions k) = Inr True"
    "k_duration k \<le> t_duration (cl_agreement_template c)" "list_ex (\<lambda>g. grants_access g requested) (k_grants k)"
    by (auto simp: contract_applies_def rbind_Inr_iff split: if_splits)
  then obtain g where "g \<in> set (k_grants k)" "grants_access g requested" "check_grant (cl_agreement_template c) g"
    by (auto simp: list_ex_iff list_all_iff)
  then have "check_grant (cl_agreement_template c) requested"
    using grants_access_trans by (fastforce simp: check_grant_def list_ex_iff)
  with a show ?thesis by blast
qed

text \<open>
  C2: access is given only on a cell without an owner, to a requester who proves control of the
  owner with a fresh challenge, or, outside the evaluation of conditions, by a contract of the
  cell. That contract's subject is the requester, it is active, and in the state \<open>c'\<close> of the cell
  that the contracts before it left when they gave nothing, it is not revoked, all its grants, its
  conditions and its duration are inside the cell's template, one of its grants covers the request
  (so the template grants it too), and its conditions hold. When the get handlers do not touch
  them, the template and the revocations of \<open>c'\<close> are those of the cell at the call.
\<close>

theorem access_sound:
  assumes "validate_access H ev permission keypath requester (c, w) = (Inr True, s')"
  shows "cl_owner c = None
    \<or> fst (proves_identity_control (w_outside w) (w_random w (w_tick w)) requester (cl_owner c) (w_store w))
    \<or> (\<not> ev \<and> (\<exists>i pre k post w1 c' w'. requester = Some i \<and> cl_contracts c = pre @ k # post
          \<and> prove requester (cl_owner c) (c, w) = (Inr False, (c, w1))
          \<and> contracts_allow H (o_now (w_outside w)) (requested_grant permission keypath) i pre (c, w1) = (Inr False, (c', w'))
          \<and> same_identity_reference (Some i) (Some (k_subject k)) \<and> active k (o_now (w_outside w)) \<and> not_revoked c' k
          \<and> list_ex (\<lambda>g. grants_access g (requested_grant permission keypath)) (k_grants k)
          \<and> list_all (check_grant (cl_agreement_template c')) (k_grants k)
          \<and> check_grant (cl_agreement_template c') (requested_grant permission keypath)
          \<and> conditions_match (cl_agreement_template c') (k_conditions k) = Inr True
          \<and> k_duration k \<le> t_duration (cl_agreement_template c')
          \<and> conditions_hold H (k_conditions k) i (c', w') = (Inr True, s')
          \<and> (reads_only H \<longrightarrow> same_access c c')))"
proof (cases "cl_owner c = None \<or>
    fst (proves_identity_control (w_outside w) (w_random w (w_tick w)) requester (cl_owner c) (w_store w))")
  case False
  obtain s1 p where p: "proves_identity_control (w_outside w) (w_random w (w_tick w)) requester (cl_owner c) (w_store w) = (p, s1)"
    by fastforce
  define w1 where "w1 = w\<lparr>w_store := s1, w_tick := Suc (w_tick w)\<rparr>"
  have pr: "prove requester (cl_owner c) (c, w) = (Inr False, (c, w1))"
    using False p by (simp add: prove_def w1_def)
  then have "owner_access requester (c, w) = (Inr False, (c, w1))"
    using False by (simp add: owner_access_def act_simps)
  with assms have "contract_allows H ev permission keypath requester (c, w1) = (Inr True, s')"
    by (simp add: validate_access_def abind_def)
  then obtain i where i: "requester = Some i" "\<not> ev"
    and "contracts_allow H (o_now (w_outside w1)) (requested_grant permission keypath) i (cl_contracts c) (c, w1) = (Inr True, s')"
    by (cases requester; cases ev) (auto simp: contract_allows_def act_simps)
  then have "contracts_allow H (o_now (w_outside w)) (requested_grant permission keypath) i (cl_contracts c) (c, w1) = (Inr True, s')"
    by (simp add: w1_def)
  from contracts_allow_sound [OF this] obtain pre k post c' w' where k: "cl_contracts c = pre @ k # post"
    "contracts_allow H (o_now (w_outside w)) (requested_grant permission keypath) i pre (c, w1) = (Inr False, (c', w'))"
    "contract_applies c' (o_now (w_outside w)) (requested_grant permission keypath) i k = Inr True"
    "conditions_hold H (k_conditions k) i (c', w') = (Inr True, s')" by blast
  have "same_access c c'" if "reads_only H"
    using keeps_propD [OF keeps_access_contracts [OF that] _ k(2), of c] by (simp add: same_access_def)
  then show ?thesis using contract_applies_sound [OF k(3)] i pr k by blast
qed blast


text \<open>
  C21: after \<open>remove_contracts\<close> no contract gives the subject anything: until it is admitted again
  every check of its contracts says no and changes nothing, whatever the handlers do.
\<close>

theorem removed_subject_has_no_access:
  assumes "remove_contracts u (c, w) = (r, s)" "i_uuid i = u"
  shows "contract_allows H ev permission keypath (Some i) s = (Inr False, s)"
proof -
  obtain c' where s: "s = (c', w)" and c': "cl_contracts c' = filter (\<lambda>k. i_uuid (k_subject k) \<noteq> u) (cl_contracts c)"
    using assms(1) by (auto simp: remove_contracts_def act_simps)
  have "contracts_allow H t g i ks (c', w) = (Inr False, (c', w))"
    if "\<forall>k \<in> set ks. i_uuid (k_subject k) \<noteq> u" for t g ks
    using that
  proof (induction ks)
    case (Cons k ks)
    then have "\<not> same_identity_reference (Some i) (Some (k_subject k))"
      using assms(2) by (auto simp: same_identity_reference_def)
    then have "contract_applies c' t g i k = Inr False" by (simp add: contract_applies_def)
    with Cons show ?case by (simp add: act_simps abind_def)
  qed (simp add: act_simps)
  then show ?thesis using c' unfolding s by (simp add: contract_allows_def act_simps)
qed

lemma fresh_uuid_run: "fresh_uuid (c, w) = (Inr (w_uuid w (w_tick w)), (c, w\<lparr>w_tick := Suc (w_tick w)\<rparr>))"
  by (simp add: fresh_uuid_def act_simps)

text \<open>How an identity is asked to prove control before its request is decided: only the world changes.\<close>

definition self_proof :: "identity \<Rightarrow> bool cell_act" where
  "self_proof i = (if i_identityVault i = None then aret True else prove (Some i) (Some i))"

definition approval_proof :: "identity option \<Rightarrow> identity \<Rightarrow> bool cell_act" where
  "approval_proof authorized_by own = (if authorized_by = None then aret False else prove authorized_by (Some own))"

lemma proof_world:
  "self_proof i (c, w) = (r, s) \<Longrightarrow> \<exists>w'. s = (c, w')" "approval_proof a own (c, w) = (r, s) \<Longrightarrow> \<exists>w'. s = (c, w')"
  by (auto simp: self_proof_def approval_proof_def prove_def act_run split: if_splits prod.splits)

lemma add_agreement_decides:
  assumes "add_agreement H pystr contract identity authorized_by (c, w) = (Inr ''signed'', s')"
  shows "\<exists>i r ro b w2 w3 own. identity = Some i \<and> cl_owner c = Some own
    \<and> request_from_json (w_uuid w (w_tick w)) contract = Inr (Some r)
    \<and> parse_request_owner pystr (w_uuid w (w_tick w)) r = Inr (Some ro)
    \<and> self_proof i (c, w\<lparr>w_tick := Suc (w_tick w)\<rparr>) = (Inr True, (c, w2))
    \<and> approval_proof authorized_by own (c, w2) = (Inr b, (c, w3))
    \<and> decide_request H i r ro b (c, w3) = (Inr ''signed'', s')"
proof -
  have nr: "aret ''rejected'' s \<noteq> (Inr ''signed'', s')" for s :: "cell \<times> world" by (simp add: act_run)
  define w1 where "w1 = w\<lparr>w_tick := Suc (w_tick w)\<rparr>"
  obtain request where q: "request_from_json (w_uuid w (w_tick w)) contract = Inr request"
    using assms by (auto simp: add_agreement_def abind_Inr fresh_uuid_run act_run)
  show ?thesis
  proof (cases "request = None \<or> identity = None \<or> cl_owner c = None")
    case True
    with assms q nr show ?thesis
      by (auto simp: add_agreement_def abind_def fresh_uuid_run act_run the_cell_run split: option.splits)
  next
    case False
    then obtain r i own where ids: "request = Some r" "identity = Some i" "cl_owner c = Some own" by auto
    define D where "D = (\<lambda>b. abind (alift (parse_request_owner pystr (w_uuid w (w_tick w)) r)) (\<lambda>request_owner.
               case request_owner of None \<Rightarrow> aret ''rejected'' | Some ro \<Rightarrow> decide_request H i r ro b))"
    have "add_agreement H pystr contract identity authorized_by (c, w)
        = abind (self_proof i) (\<lambda>ok. if \<not> ok then aret ''rejected'' else abind (approval_proof authorized_by own) D) (c, w1)"
      unfolding self_proof_def approval_proof_def D_def w1_def using q ids
      by (simp add: add_agreement_def abind_def fresh_uuid_run act_run the_cell_run)
    with assms have "abind (self_proof i)
        (\<lambda>ok. if \<not> ok then aret ''rejected'' else abind (approval_proof authorized_by own) D) (c, w1) = (Inr ''signed'', s')"
      by simp
    then obtain s2 b s3 where s: "self_proof i (c, w1) = (Inr True, s2)"
      "approval_proof authorized_by own s2 = (Inr b, s3)" "D b s3 = (Inr ''signed'', s')"
      using nr by (auto simp: abind_Inr split: if_splits)
    obtain w2 where w2: "s2 = (c, w2)" using proof_world(1) [OF s(1)] by blast
    obtain w3 where w3: "s3 = (c, w3)" using proof_world(2) [OF s(2) [unfolded w2]] by blast
    obtain ro where "parse_request_owner pystr (w_uuid w (w_tick w)) r = Inr (Some ro)"
      "decide_request H i r ro b s3 = (Inr ''signed'', s')"
      using s(3) nr by (auto simp: D_def abind_Inr act_run split: option.splits)
    with ids q s(1,2) show ?thesis unfolding w1_def w2 w3 by blast
  qed
qed

text \<open>
  C28: a contract is signed only for an identity that proved control of itself, or has no vault, and
  for a request, read from the argument, whose owner is the cell's. Every grant of it is granted by
  the cell's template, its duration is positive and no longer than the template's and the overall
  maximum, its conditions are the template's. Either somebody proved control of the cell's owner to
  approve it, or the policy admits it: automatically with an enforcing condition in the template, or
  because it asks to read only. Then the template's conditions held. The new contract is the only
  change of the contracts: it has just these grants and this duration, and comes after every
  revocation of the subject.
\<close>

theorem add_agreement_sound:
  assumes "add_agreement H pystr contract identity authorized_by (c, w) = (Inr ''signed'', s')"
  shows "\<exists>i r ro own b w2 w3 c1 w4 k. identity = Some i \<and> cl_owner c = Some own
    \<and> request_from_json (w_uuid w (w_tick w)) contract = Inr (Some r)
    \<and> parse_request_owner pystr (w_uuid w (w_tick w)) r = Inr (Some ro)
    \<and> self_proof i (c, w\<lparr>w_tick := Suc (w_tick w)\<rparr>) = (Inr True, (c, w2))
    \<and> approval_proof authorized_by own (c, w2) = (Inr b, (c, w3))
    \<and> same_identity_reference (Some ro) (Some own) \<and> r_state r = ''template''
    \<and> r_grants r \<noteq> [] \<and> list_all (check_grant (cl_agreement_template c)) (r_grants r)
    \<and> 0 < r_duration r \<and> r_duration r \<le> t_duration (cl_agreement_template c) \<and> r_duration r \<le> MAXIMUM_DURATION
    \<and> conditions_match (cl_agreement_template c) (r_conditions r) = Inr True
    \<and> (b \<or> cl_agreement_admission_policy c = AUTOMATIC_WHEN_CONDITIONS_MET
              \<and> list_ex enforcing (t_conditions (cl_agreement_template c))
         \<or> cl_agreement_admission_policy c = OWNER_PUBLISHED_READ \<and> list_all (\<lambda>g. grant_bits g = (4, 0)) (r_grants r))
    \<and> conditions_hold H (t_conditions (cl_agreement_template c)) i (c, w3) = (Inr True, (c1, w4))
    \<and> cl_contracts (fst s') = cl_contracts c1 @ [k] \<and> k_subject k = i
    \<and> k_grants k = r_grants r \<and> k_duration k = r_duration r \<and> k_conditions k = t_conditions (cl_agreement_template c1)
    \<and> not_revoked c1 k \<and> o_now (w_outside w4) \<le> k_issued_at k"
proof -
  obtain i r ro own b w2 w3 where ids: "identity = Some i" "cl_owner c = Some own"
    "request_from_json (w_uuid w (w_tick w)) contract = Inr (Some r)"
    "parse_request_owner pystr (w_uuid w (w_tick w)) r = Inr (Some ro)"
    "self_proof i (c, w\<lparr>w_tick := Suc (w_tick w)\<rparr>) = (Inr True, (c, w2))"
    "approval_proof authorized_by own (c, w2) = (Inr b, (c, w3))"
    and d: "decide_request H i r ro b (c, w3) = (Inr ''signed'', s')"
    using add_agreement_decides [OF assms] by blast
  obtain c1 w1 where in_: "inside_template c ro r = Inr True" "policy_admits c b r"
    and held: "conditions_hold H (t_conditions (cl_agreement_template c)) i (c, w3) = (Inr True, (c1, w1))"
    and sign: "sign_contract i r (c1, w1) = (Inr ''signed'', s')"
    using d unfolding decide_request_def
    by (auto simp: abind_Inr the_cell_run act_run split: if_splits)
  define k where "k = \<lparr>k_uuid = w_uuid w1 (w_tick w1), k_subject = i, k_grants = r_grants r,
      k_conditions = t_conditions (cl_agreement_template c1), k_duration = r_duration r,
      k_issued_at = issue_time c1 (o_now (w_outside w1)) (i_uuid i)\<rparr>"
  have "cl_contracts (fst s') = cl_contracts c1 @ [k]"
    using sign unfolding sign_contract_def k_def
    by (auto simp: act_simps fresh_uuid_def abind_def)
  moreover have "not_revoked c1 k" "o_now (w_outside w1) \<le> k_issued_at k"
    by (auto simp: not_revoked_def k_def issue_time_def revoked_before_def split: option.splits)
  moreover have "k_subject k = i" "k_grants k = r_grants r" "k_duration k = r_duration r"
    "k_conditions k = t_conditions (cl_agreement_template c1)" by (simp_all add: k_def)
  moreover have "same_identity_reference (Some ro) (Some own)" "r_state r = ''template''" "r_grants r \<noteq> []"
    "list_all (check_grant (cl_agreement_template c)) (r_grants r)" "0 < r_duration r"
    "r_duration r \<le> t_duration (cl_agreement_template c)" "r_duration r \<le> MAXIMUM_DURATION"
    "conditions_match (cl_agreement_template c) (r_conditions r) = Inr True"
    using in_(1) ids(2) by (auto simp: inside_template_def Let_def split: if_splits)
  moreover have "b \<or> cl_agreement_admission_policy c = AUTOMATIC_WHEN_CONDITIONS_MET
              \<and> list_ex enforcing (t_conditions (cl_agreement_template c))
         \<or> cl_agreement_admission_policy c = OWNER_PUBLISHED_READ \<and> list_all (\<lambda>g. grant_bits g = (4, 0)) (r_grants r)"
    using in_(2) by (auto simp: policy_admits_def split: if_splits)
  ultimately show ?thesis using ids held by blast
qed

subsection \<open>Handlers and storage\<close>

lemma longest_in: "longest ks = Some k \<Longrightarrow> k \<in> set ks \<and> (\<forall>l \<in> set ks. length l \<le> length k)"
proof (induction ks arbitrary: k)
  case (Cons x ks)
  show ?case
  proof (cases "longest ks")
    case None
    then have "ks = []" by (cases ks) (auto split: option.splits if_splits)
    with Cons.prems show ?thesis by simp
  next
    case (Some l)
    with Cons.IH [OF Some] Cons.prems show ?thesis by (auto split: if_splits)
  qed
qed simp

lemma longest_None: "longest ks = None \<longleftrightarrow> ks = []"
  by (cases ks) (auto split: option.splits)

lemma handles_prefix: "handles k p \<Longrightarrow> prefix k p"
  by (auto simp: handles_def startswith_iff_prefix dest: append_prefixD)

text \<open>
  The handler that serves a keypath is the one registered under the longest key that the
  keypath equals or extends by a dot, and there is none exactly when no key does.
\<close>

theorem handler_for_longest:
  "(handler_for keypath hs = None) = (\<forall>k \<in> set (dkeys hs). \<not> handles k keypath)
   \<and> (\<forall>h. handler_for keypath hs = Some h \<longrightarrow>
        (\<exists>k. dget hs k = Some h \<and> handles k keypath
          \<and> (\<forall>l \<in> set (dkeys hs). handles l keypath \<longrightarrow> prefix l k)))"
proof -
  define ks where "ks = filter (\<lambda>k. handles k keypath) (dkeys hs)"
  have mem: "k \<in> set ks \<longleftrightarrow> k \<in> set (dkeys hs) \<and> handles k keypath" for k by (auto simp: ks_def)
  have h: "handler_for keypath hs = Option.bind (longest ks) (dget hs)" by (simp add: handler_for_def ks_def)
  show ?thesis
  proof (cases "longest ks")
    case None
    then have "ks = []" by (simp add: longest_None)
    then have "\<forall>k \<in> set (dkeys hs). \<not> handles k keypath" using mem by auto
    with h None show ?thesis by simp
  next
    case (Some k)
    then have k: "k \<in> set ks" "\<forall>l \<in> set ks. length l \<le> length k" using longest_in by blast+
    then obtain v where v: "dget hs k = Some v" using mem [of k] dget_None_iff [of hs k] by (cases "dget hs k") auto
    have "prefix l k" if "l \<in> set (dkeys hs)" "handles l keypath" for l
      using that k mem handles_prefix prefix_length_prefix [of l keypath k] by blast
    moreover have "k \<in> set (dkeys hs)" "handles k keypath" using k(1) mem by auto
    ultimately show ?thesis using h Some v by auto
  qed
qed

text \<open>
  C32: on a cell without an owner, for a keypath that no get and no set handler serves, that is not
  \<open>description\<close> or \<open>keys\<close>, and that parses to keys and non-negative indexes whose containers already
  in the storage have the kind the path asks for (\<open>fits\<close>): writing a JSON value returns, announces the
  update on the flow, and a later read gives the value back.
\<close>

theorem cell_set_get:
  assumes "cl_owner c = None" "handler_for keypath (cl_set_handlers c) = None"
    "handler_for keypath (cl_get_handlers c) = None" "keypath \<noteq> ''description''" "keypath \<noteq> ''keys''"
    and "parse_keypath keypath = Inr ts" "ts \<noteq> []" "\<forall>t \<in> set ts. plain t" "is_json v"
    and "fits (VDict (cl_storage c)) ts"
  shows "\<exists>c' w' e. cell_set H ev keypath v requester (c, w) = (Inr VNull, (c', w'))
    \<and> cell_get H ev keypath requester (c', w') = (Inr v, (c', w'))
    \<and> cl_flow_queue c' = cl_flow_queue c @ [Some e]
    \<and> f_content e = VDict [(''keypath'', VStr keypath), (''data'', v)]"
proof -
  obtain t ts' where ts: "ts = t # ts'" using assms(7) by (cases ts) auto
  obtain tree where tree: "set_tokens (VDict (cl_storage c)) ts v = (tree, None)" "get_tokens tree ts = Inr v"
    using set_tokens_fits [OF assms(7,8,10,9)] by blast
  have "\<exists>k. t = TKey k" using assms(8,10) ts by (cases t) auto
  then obtain d where d: "tree = VDict d"
    using tree(1) unfolding ts
    by (cases ts') (auto split: prod.splits sum.splits)
  have sk: "set_keypath (VDict (cl_storage c)) keypath v = (VDict d, Inr (VDict d))"
    using assms(6) tree(1) d by (simp add: set_keypath_def ts)
  have gk: "get_keypath (VDict d) keypath = Inr v" using assms(6) tree(2) d by (simp add: get_keypath_def)
  have open_cell: "require_access H ev p keypath requester (x, y) = (Inr (), (x, y))" if "cl_owner x = None" for p x y
    using that
    by (simp add: require_access_def require_def validate_access_def owner_access_def abind_def act_simps aguard_def)
  show ?thesis
    using assms(1-5) sk gk
    by (simp add: cell_set_def cell_get_def open_cell abind_def act_simps set_storage_def dict_of_def fresh_uuid_def
        push_flow_element_def read_keypath_def)
qed

text \<open>
  C33: whatever tasks enter and leave, in whatever order, at most one task is ever inside the cell's
  lock, it may be inside several times, the lock is taken exactly while some task is inside, and a
  task waits exactly when another one is.
\<close>

theorem lock_mutual_exclusion:
  assumes "lock_reach l h"
  shows "(\<forall>t u. 0 < h t \<and> 0 < h u \<longrightarrow> t = u) \<and> lk_locked l = (\<exists>t. 0 < h t)
    \<and> (\<forall>t. (lock_enter l t = None) = (\<exists>u. u \<noteq> t \<and> 0 < h u))
    \<and> (\<forall>t. (lock_exit l t = Inl RuntimeError) = (h t = 0))"
  using lock_reach_inv [OF assms]
  by (auto simp: lock_enter_def lock_exit_def split: if_splits)


subsection \<open>Concrete runs\<close>

definition no_handlers :: handlers where
  "no_handlers = \<lparr>h_get = (\<lambda>n k r. athrow RuntimeError), h_set = (\<lambda>n k v r. athrow RuntimeError)\<rparr>"

definition example_world :: world where
  "example_world = \<lparr>w_outside = example_outside, w_store = added_store, w_random = (\<lambda>n. [9]),
     w_uuid = (\<lambda>n. ''id''), w_tick = 0\<rparr>"

definition owned_cell :: cell where
  "owned_cell = new_cell (get_object added_store 7) ''Notes'' ''cell-1'' ''template-1''"

lemma owned_cell_owner: "cl_owner owned_cell = get_object added_store 7" "cl_owner owned_cell \<noteq> None"
    "\<exists>i. get_object added_store 7 = Some i"
  by (simp_all add: owned_cell_def new_cell_def get_object_def added_store_def)

lemma owned_cell_refuses_anonymous_witness:
  "\<exists>w'. cell_set no_handlers False ''a'' VNull None (owned_cell, example_world)
     = (Inl PermissionError, (owned_cell, w'))"
  using owned_cell_refuses_anonymous [OF owned_cell_owner(2), of "''a''" no_handlers False example_world VNull]
  by blast

lemma access_sound_witness:
  "fst (proves_identity_control example_outside [9] (cl_owner owned_cell) (cl_owner owned_cell) added_store)"
proof -
  have "validate_access no_handlers False ''r---'' ''a'' (cl_owner owned_cell) (owned_cell, example_world)
      = (Inr True, (owned_cell, example_world\<lparr>w_tick := 1\<rparr>))"
    by (simp add: validate_access_def owner_access_def abind_def act_simps prove_def owned_cell_owner
        example_world_def example_control)
  moreover have "cl_contracts owned_cell = []" by (simp add: owned_cell_def new_cell_def)
  ultimately show ?thesis
    using access_sound [of no_handlers False "''r---''" "''a''" "cl_owner owned_cell" owned_cell example_world]
      owned_cell_owner(2)
    by (simp add: example_world_def)
qed

lemma removed_subject_has_no_access_witness:
  "contract_allows no_handlers False ''r---'' ''a'' (Some (new_identity ''Bob'' ''b''))
     (snd (remove_contracts ''b'' (owned_cell, example_world)))
    = (Inr False, snd (remove_contracts ''b'' (owned_cell, example_world)))"
proof -
  have "i_uuid (new_identity ''Bob'' ''b'') = ''b''" by (simp add: new_identity_def)
  from removed_subject_has_no_access [OF prod.collapse [symmetric] this] show ?thesis .
qed

text \<open>A cell that publishes \<open>notes\<close> for reading, and Bob's request for it.\<close>

definition owner_key :: string where
  "owner_key = ''AAAAAAAAAAAAAAAAAAAAAAAAAAAAAAAAAAAAAAAAAAA=''"

definition publishing_cell :: cell where
  "publishing_cell =
     (new_cell (Some ((new_identity ''Alice'' ''u'')\<lparr>i_publicSecureKey := Some owner_key\<rparr>)) ''Notes'' ''cell-1'' ''template-1'')
       \<lparr>cl_agreement_template := add_grant ''rw--'' ''notes'' ''g'' new_agreement_template,
        cl_agreement_admission_policy := OWNER_PUBLISHED_READ\<rparr>"

definition bob_request :: pyval where
  "bob_request = VDict
     [(''owner'', VDict [(''uuid'', VStr ''u''), (''publicSecureKey'', VStr owner_key)]),
      (''grants'', VList [VDict [(''keypath'', VStr ''notes''), (''permission'', VStr ''r---'')]]),
      (''duration'', VInt 60), (''state'', VStr ''template'')]"

lemma owner_key_valid: "validated_public_key_bytes owner_key = Inr (replicate 32 0)" "owner_key \<noteq> []"
proof -
  have "b64decode_strict ''AAA='' = Some [0, 0]"
    by (simp add: char_sextet_A) (simp add: char_sextet_def b64_alphabet_def)?
  then have "b64decode_strict owner_key = Some (replicate 32 0)"
    unfolding owner_key_def by (simp add: b64decode_A eval_nat_numeral del: b64decode_strict.simps(2))
  then show "validated_public_key_bytes owner_key = Inr (replicate 32 0)"
    by (simp add: validated_public_key_bytes_def)
  show "owner_key \<noteq> []" by (simp add: owner_key_def)
qed

lemma bob_signed:
  "add_agreement no_handlers (\<lambda>v. []) bob_request (Some (new_identity ''Bob'' ''b'')) None (publishing_cell, example_world)
    = (Inr ''signed'',
       (publishing_cell\<lparr>cl_contracts :=
          [\<lparr>k_uuid = ''id'', k_subject = new_identity ''Bob'' ''b'',
            k_grants = [\<lparr>g_keypath = ''notes'', g_permission = ''r---'', g_uuid = ''id'', g_name = ''Condition grant''\<rparr>],
            k_conditions = [], k_duration = 60, k_issued_at = 50\<rparr>]\<rparr>,
        example_world\<lparr>w_tick := 2\<rparr>))"
proof -
  define g where "g = \<lparr>g_keypath = ''notes'', g_permission = ''r---'', g_uuid = ''id'', g_name = ''Condition grant''\<rparr>"
  define r where "r = \<lparr>r_owner = [(''uuid'', VStr ''u''), (''publicSecureKey'', VStr owner_key)], r_grants = [g],
      r_conditions = [], r_duration = 60, r_state = ''template'', r_uuid = ''id'', r_name = ''Contract name here''\<rparr>"
  have b: "permission_bits (VStr ''rw--'') = Some (6, 0)" "permission_bits (VStr ''r---'') = Some (4, 0)"
    "quad_string 4 = ''r---''"
    by code_simp+
  have gb: "grant_bits g = (4, 0)" by (simp add: grant_bits_def g_def b)
  have rq: "request_from_json ''id'' bob_request = Inr (Some r)"
    by (simp add: request_from_json_def bob_request_def iter_items_def grant_from_json_def b all_some_def str_or_def
        r_def g_def)
  obtain ro where ro: "parse_request_owner (\<lambda>v. []) ''id'' r = Inr (Some ro)" "i_uuid ro = ''u''"
    "i_publicSecureKey ro = Some owner_key"
    by (simp add: parse_request_owner_def Identity_from_json_def r_def py_or_def owner_key_valid
        decode_public_secure_key_def)
  have cg: "check_grant (cl_agreement_template publishing_cell) g"
    by (simp add: check_grant_def publishing_cell_def add_grant_def new_agreement_template_def grants_access_def gb)
      (simp add: grant_bits_def b g_def)
  have in_: "inside_template publishing_cell ro r = Inr True"
    using cg ro(2,3)
    by (simp add: inside_template_def r_def Let_def MAXIMUM_DURATION_def conditions_match_def)
      (simp add: publishing_cell_def new_cell_def same_identity_reference_def new_identity_def add_grant_def
        new_agreement_template_def DEFAULT_DURATION_def)
  have pol: "policy_admits publishing_cell False r"
    by (simp add: policy_admits_def publishing_cell_def AUTOMATIC_WHEN_CONDITIONS_MET_def OWNER_PUBLISHED_READ_def
        r_def gb)
  have own: "cl_owner publishing_cell \<noteq> None" "t_conditions (cl_agreement_template publishing_cell) = []"
    "cl_contracts publishing_cell = []" "revoked_before publishing_cell ''b'' = None"
    by (simp_all add: publishing_cell_def new_cell_def add_grant_def new_agreement_template_def revoked_before_def)
  have w: "w_uuid example_world n = ''id''" "w_tick example_world = 0" "o_now (w_outside example_world) = 50" for n
    by (simp_all add: example_world_def example_outside_def)
  have rf: "r_grants r = [g]" "r_duration r = 60" by (simp_all add: r_def)
  have bob: "i_identityVault (new_identity ''Bob'' ''b'') = None" "i_uuid (new_identity ''Bob'' ''b'') = ''b''"
    by (simp_all add: new_identity_def)
  obtain own_id where o: "cl_owner publishing_cell = Some own_id" using own(1) by auto
  have dec: "decide_request no_handlers (new_identity ''Bob'' ''b'') r ro False (publishing_cell, example_world\<lparr>w_tick := 1\<rparr>)
      = (Inr ''signed'', (publishing_cell\<lparr>cl_contracts := [\<lparr>k_uuid = ''id'', k_subject = new_identity ''Bob'' ''b'',
            k_grants = [g], k_conditions = [], k_duration = 60, k_issued_at = 50\<rparr>]\<rparr>, example_world\<lparr>w_tick := 2\<rparr>))"
    using in_ pol
    by (simp add: decide_request_def sign_contract_def abind_def fresh_uuid_run act_run the_cell_run mod_cell_run
        now_run w own rf bob issue_time_def numeral_2_eq_2)
  show ?thesis unfolding g_def [symmetric] using rq ro(1) dec o
    by (simp add: add_agreement_def abind_def fresh_uuid_run act_run the_cell_run w bob)
qed

lemma add_agreement_sound_witness:
  "\<exists>r. request_from_json ''id'' bob_request = Inr (Some r) \<and> r_duration r \<le> t_duration (cl_agreement_template publishing_cell)
     \<and> list_all (\<lambda>g. grant_bits g = (4, 0)) (r_grants r)
     \<and> list_all (check_grant (cl_agreement_template publishing_cell)) (r_grants r)"
proof -
  have w: "w_uuid example_world (w_tick example_world) = ''id''" by (simp add: example_world_def)
  have p: "cl_agreement_admission_policy publishing_cell \<noteq> AUTOMATIC_WHEN_CONDITIONS_MET"
    by (simp add: publishing_cell_def OWNER_PUBLISHED_READ_def AUTOMATIC_WHEN_CONDITIONS_MET_def)
  from add_agreement_sound [OF bob_signed, unfolded w] obtain r b own w2 w3 where
    "request_from_json ''id'' bob_request = Inr (Some r)" "approval_proof None own (publishing_cell, w2) = (Inr b, (publishing_cell, w3))"
    "list_all (check_grant (cl_agreement_template publishing_cell)) (r_grants r)"
    "b \<or> cl_agreement_admission_policy publishing_cell = AUTOMATIC_WHEN_CONDITIONS_MET
        \<and> list_ex enforcing (t_conditions (cl_agreement_template publishing_cell))
      \<or> cl_agreement_admission_policy publishing_cell = OWNER_PUBLISHED_READ \<and> list_all (\<lambda>g. grant_bits g = (4, 0)) (r_grants r)"
    "r_duration r \<le> t_duration (cl_agreement_template publishing_cell)"
    by (elim exE conjE) (rule that; assumption)
  then show ?thesis using p by (auto simp: approval_proof_def act_run)
qed

lemma handler_for_longest_witness:
  "handler_for ''a.b.c'' [(''a'', 1::nat), (''a.b'', 2), (''a.bc'', 3)] \<noteq> None"
proof -
  have "(handler_for ''a.b.c'' [(''a'', 1::nat), (''a.b'', 2), (''a.bc'', 3)] = None)
      = (\<forall>k \<in> set (dkeys [(''a'', 1::nat), (''a.b'', 2), (''a.bc'', 3)]). \<not> handles k ''a.b.c'')"
    using handler_for_longest [of "''a.b.c''" "[(''a'', 1::nat), (''a.b'', 2), (''a.bc'', 3)]"] by (elim conjE)
  then show ?thesis by (simp add: handles_def startswith_iff_prefix)
qed

lemma cell_set_get_witness:
  "\<exists>c' w'. cell_get no_handlers False ''a'' None (c', w') = (Inr (VInt 3), (c', w'))"
proof -
  have "parse_keypath ''a'' = Inr [TKey ''a'']" by code_simp
  from cell_set_get [of "new_cell None ''N'' ''u'' ''t''", OF _ _ _ _ _ this, of "VInt 3" no_handlers False None example_world]
  show ?thesis by (fastforce simp: new_cell_def handler_for_def)
qed

lemma lock_mutual_exclusion_witness:
  "lock_enter \<lparr>lk_locked = True, lk_owner = Some 1, lk_depth = 2\<rparr> 5 = None"
proof -
  let ?l = "\<lparr>lk_locked = True, lk_owner = Some (1::nat), lk_depth = 1\<rparr>"
  let ?l2 = "\<lparr>lk_locked = True, lk_owner = Some (1::nat), lk_depth = 2\<rparr>"
  let ?h = "(\<lambda>_. 0)(1 := Suc 0) :: nat \<Rightarrow> nat"
  have "lock_reach ?l ?h"
    using lock_reach.enter [OF lock_reach.start, of 1 ?l] by (simp add: lock_enter_def new_lock_def)
  from lock_reach.enter [OF this, of 1 ?l2] have r: "lock_reach ?l2 (?h(1 := Suc (?h 1)))"
    by (simp add: lock_enter_def)
  have "0 < (?h(1 := Suc (?h 1))) 1" by simp
  moreover have "(1::nat) \<noteq> 5" by simp
  moreover have "\<forall>t. (lock_enter ?l2 t = None) = (\<exists>u. u \<noteq> t \<and> 0 < (?h(1 := Suc (?h 1))) u)"
    using lock_mutual_exclusion [OF r] by (elim conjE)
  ultimately show ?thesis by blast
qed

end
