(* ===== verification/Py_Objects.thy ===== *)
theory Py_Objects
  imports Canonical Double
begin

text \<open>
  What the cells use of Python's objects beyond the values themselves: iterating over an object,
  \<open>int()\<close> of an object, slices, substrings, stable sorting by a key, and the clock in milliseconds.
\<close>

subsection \<open>Iteration\<close>

fun iter_vals :: "pyval \<Rightarrow> pyval list res" where
  "iter_vals (VList vs) = Inr vs"
| "iter_vals (VTuple vs) = Inr vs"
| "iter_vals (VStr s) = Inr (map VStr (py_chars s))"
| "iter_vals (VBytes bs) = Inr (map (\<lambda>b. VInt (uint b)) bs)"
| "iter_vals (VDict d) = Inr (map VStr (dkeys d))"
| "iter_vals _ = Inl TypeError"

text \<open>\<open>[item for item in v if isinstance(item, str)]\<close>\<close>

definition only_strs :: "pyval list \<Rightarrow> string list" where
  "only_strs vs = List.map_filter str_val vs"

definition iter_strs :: "pyval \<Rightarrow> string list res" where
  "iter_strs v = rbind (iter_vals v) (\<lambda>vs. Inr (only_strs vs))"

lemma only_strs_map [simp]: "only_strs (map VStr ss) = ss"
  by (induction ss) (auto simp: only_strs_def List.map_filter_def)

lemma only_strs_simps [simp]:
  "only_strs [] = []" "only_strs (VStr s # vs) = s # only_strs vs"
  "\<not> is_str v \<Longrightarrow> only_strs (v # vs) = only_strs vs"
  by (cases v; simp add: only_strs_def List.map_filter_def)+

lemma set_only_strs: "x \<in> set (only_strs vs) \<longleftrightarrow> VStr x \<in> set vs"
proof (induction vs)
  case (Cons v vs)
  then show ?case by (cases v) auto
qed simp

subsection \<open>Reading\<close>

text \<open>\<open>d.get(k, default)\<close>, and a field that is a non-empty \<open>str\<close> (\<open>_string(v) or ...\<close>).\<close>

definition getd :: "pyval dict \<Rightarrow> string \<Rightarrow> pyval \<Rightarrow> pyval" where
  "getd d k v = (case dget d k of Some w \<Rightarrow> w | None \<Rightarrow> v)"

definition str_opt :: "pyval \<Rightarrow> string option" where
  "str_opt v = (case v of VStr s \<Rightarrow> if s = [] then None else Some s | _ \<Rightarrow> None)"

fun none_or :: "string option \<Rightarrow> pyval" where
  "none_or None = VNull"
| "none_or (Some s) = VStr s"

text \<open>\<open>int(v)\<close>\<close>

definition truncate :: "rat \<Rightarrow> int" where
  "truncate q = (if 0 \<le> q then \<lfloor>q\<rfloor> else \<lceil>q\<rceil>)"

fun int_of :: "pyval \<Rightarrow> int res" where
  "int_of (VBool b) = Inr (if b then 1 else 0)"
| "int_of (VInt i) = Inr i"
| "int_of (VFloat (Fin q)) = Inr (truncate q)"
| "int_of (VFloat NaN) = Inl ValueError"
| "int_of (VFloat _) = Inl OverflowError"
| "int_of (VStr s) = (case py_int s of Some i \<Rightarrow> Inr i | None \<Rightarrow> Inl ValueError)"
| "int_of _ = Inl TypeError"

text \<open>\<open>int(t * 1000)\<close> of a clock reading.\<close>

definition millis :: "rat \<Rightarrow> int" where
  "millis t = truncate (round_double (t * 1000))"

lemma dset_set: "set (dset d k x) \<subseteq> insert (k, x) (set d)"
  by (induction d) auto

text \<open>Writing a list and reading it back, when each element can be.\<close>

lemma rmap_inverse:
  "(\<And>x. x \<in> set xs \<Longrightarrow> \<exists>y. f x = Inr y \<and> g y = Inr x) \<Longrightarrow> \<exists>ys. rmap f xs = Inr ys \<and> rmap g ys = Inr xs"
proof (induction xs)
  case (Cons x xs)
  then obtain y ys where "f x = Inr y" "g y = Inr x" "rmap f xs = Inr ys" "rmap g ys = Inr xs"
    by (meson list.set_intros)
  then show ?case by auto
qed simp

subsection \<open>Slices and substrings\<close>

definition clamp :: "nat \<Rightarrow> int \<Rightarrow> nat" where
  "clamp n i = (if i < 0 then nat (i + int n) else min (nat i) n)"

definition py_slice :: "'a list \<Rightarrow> int \<Rightarrow> int \<Rightarrow> 'a list" where
  "py_slice xs a b = drop (clamp (length xs) a) (take (clamp (length xs) b) xs)"

lemma py_slice_all: "py_slice xs 0 (int (length xs)) = xs"
  by (simp add: py_slice_def clamp_def)

lemma sublist_py_slice: "sublist (py_slice xs a b) xs"
  unfolding py_slice_def
  by (meson sublist_drop sublist_order.order.trans sublist_take)

fun in_text :: "string \<Rightarrow> string \<Rightarrow> bool" where
  "in_text w [] = (w = [])"
| "in_text w (c # cs) = (startswith (c # cs) w \<or> in_text w cs)"

lemma in_text_iff: "in_text w s \<longleftrightarrow> sublist w s"
proof (induction s)
  case (Cons c s)
  then show ?case by (auto simp: sublist_Cons_right startswith_iff_prefix)
qed simp

subsection \<open>Sorting by a key\<close>

definition sort_key :: "('k \<Rightarrow> 'k \<Rightarrow> bool) \<Rightarrow> ('a \<Rightarrow> 'k) \<Rightarrow> 'a list \<Rightarrow> 'a list" where
  "sort_key lt f xs = sort_by (\<lambda>x y. lt (f x) (f y)) xs"

lemma map_insert_key: "map f (insert_by (\<lambda>x y. lt (f x) (f y)) x xs) = insert_by lt (f x) (map f xs)"
  by (induction xs) auto

lemma map_sort_key: "map f (sort_key lt f xs) = sort_by lt (map f xs)"
  unfolding sort_key_def sort_by_def by (induction xs) (auto simp: map_insert_key)

lemma mset_sort_key [simp]: "mset (sort_key lt f xs) = mset xs"
  by (simp add: sort_key_def)

lemma set_sort_key [simp]: "set (sort_key lt f xs) = set xs"
  by (simp add: sort_key_def)

text \<open>\<open>reverse=True\<close> sorts by the converse order, equal elements in the order they came.\<close>

definition directed :: "('k \<Rightarrow> 'k \<Rightarrow> bool) \<Rightarrow> bool \<Rightarrow> 'k \<Rightarrow> 'k \<Rightarrow> bool" where
  "directed lt reversed x y = (if reversed then lt y x else lt x y)"

interpretation code_point_directed: key_order "directed str_less reversed" for reversed
proof unfold_locales
  show "directed str_less reversed x y \<or> x = y \<or> directed str_less reversed y x" for x y
    using str_less_linear [of x y] by (auto simp: directed_def)
qed (auto simp: directed_def intro: str_less_trans split: if_splits)

interpretation int_directed: key_order "directed ((<) :: int \<Rightarrow> int \<Rightarrow> bool) reversed" for reversed
  by unfold_locales (auto simp: directed_def split: if_splits)

context key_order
begin

lemma sorted_sort_key: "sorted_wrt (\<lambda>x y. \<not> lt (f y) (f x)) (sort_key lt f xs)"
proof -
  have "sorted_wrt (\<lambda>x y. \<not> lt y x) (map f (sort_key lt f xs))"
    unfolding map_sort_key by (rule sorted_sort_by)
  then show ?thesis by (simp add: sorted_wrt_map)
qed

end

end
