(* ===== verification/Models.thy ===== *)
theory Models
  imports Py_Objects
begin

text \<open>
  \<open>interop/models.py\<close>: the wire models. A model class is its table \<open>SPECS\<close>: for every field the
  attribute, the wire key, the kind of value, and when it is left out. \<open>to_wire\<close> and \<open>from_wire\<close>
  walk the table, as the code does, so one proof covers every class. The table of defaults of a
  class (\<open>class_init\<close>) is what its constructor fills in for an argument that is not given.

  An object is its class and the values of its attributes; an attribute holds a plain value
  (\<open>FVal\<close>, \<open>None\<close> being \<open>FVal VNull\<close>), an object, or a list of objects.
\<close>

subsection \<open>Classes, fields and objects\<close>

datatype kind =
    KStr | KInt | KBool | KBytes | KStrs | KNumber | KRaw | KModel model_class | KModels model_class
and model_class = Class (class_name: string) (class_init: "(string \<times> pyval) list")
    (class_specs: "spec list") (class_excluded: "string list")
and spec = Spec (sp_name: string) (sp_key: string) (sp_kind: kind) (sp_optional: bool)
    (sp_default: "pyval option") (sp_omit: bool)

datatype fval = FVal pyval | FObj "instance" | FObjs "instance list"
and "instance" = Instance (inst_class: model_class) (inst_fields: "(string \<times> fval) list")

abbreviation FNone :: fval where
  "FNone \<equiv> FVal VNull"

text \<open>\<open>_s(attribute, key, kind)\<close>, and the same with \<open>optional=True\<close>.\<close>

definition need :: "string \<Rightarrow> string \<Rightarrow> kind \<Rightarrow> spec" where
  "need name key k = Spec name key k False None False"

definition opt :: "string \<Rightarrow> string \<Rightarrow> kind \<Rightarrow> spec" where
  "opt name key k = Spec name key k True None False"

text \<open>A default as the value of an attribute: an empty list of objects is \<open>FObjs []\<close>.\<close>

definition plain_value :: "kind \<Rightarrow> pyval \<Rightarrow> fval" where
  "plain_value k v = (case (k, v) of (KModels _, VList []) \<Rightarrow> FObjs [] | _ \<Rightarrow> FVal v)"

definition default_value :: "spec \<Rightarrow> fval" where
  "default_value sp = (case sp_default sp of Some v \<Rightarrow> plain_value (sp_kind sp) v | None \<Rightarrow> FNone)"

text \<open>Python's \<open>==\<close> of attribute values; two objects compare by class and attributes.\<close>

fun feq :: "fval \<Rightarrow> fval \<Rightarrow> bool"
and inst_eq :: "instance \<Rightarrow> instance \<Rightarrow> bool"
and insts_eq :: "instance list \<Rightarrow> instance list \<Rightarrow> bool"
and fields_eq :: "(string \<times> fval) list \<Rightarrow> (string \<times> fval) list \<Rightarrow> bool" where
  "feq (FVal v) w = (case w of FVal u \<Rightarrow> py_eq v u | FObj m \<Rightarrow> False | FObjs ms \<Rightarrow> v = VList [] \<and> ms = [])"
| "feq (FObj m) w = (case w of FObj n \<Rightarrow> inst_eq m n | _ \<Rightarrow> False)"
| "feq (FObjs ms) w = (case w of FVal u \<Rightarrow> u = VList [] \<and> ms = [] | FObj m \<Rightarrow> False | FObjs ns \<Rightarrow> insts_eq ms ns)"
| "inst_eq (Instance c fs) n = (class_name c = class_name (inst_class n) \<and> fields_eq fs (inst_fields n))"
| "insts_eq [] ns = (ns = [])"
| "insts_eq (m # ms) ns = (case ns of [] \<Rightarrow> False | n # ns' \<Rightarrow> inst_eq m n \<and> insts_eq ms ns')"
| "fields_eq [] gs = True"
| "fields_eq ((a, v) # fs) gs = ((case dget gs a of None \<Rightarrow> False | Some w \<Rightarrow> feq v w) \<and> fields_eq fs gs)"

text \<open>An attribute, and one of an object held in an attribute.\<close>

definition attr :: "instance \<Rightarrow> string \<Rightarrow> fval res" where
  "attr m a = (case dget (inst_fields m) a of Some v \<Rightarrow> Inr v | None \<Rightarrow> Inl AttributeError)"

text \<open>\<open>cls(**values)\<close>: an unknown or a missing argument is a \<open>TypeError\<close>.\<close>

definition new_object :: "model_class \<Rightarrow> (string \<times> fval) list \<Rightarrow> instance res" where
  "new_object c args =
     (if \<not> set (dkeys args) \<subseteq> set (map sp_name (class_specs c)) then Inl TypeError
      else rbind (rmap (\<lambda>sp.
             case dget args (sp_name sp) of
               Some v \<Rightarrow> Inr (sp_name sp, v)
             | None \<Rightarrow> (case dget (class_init c) (sp_name sp) of
                 Some v \<Rightarrow> Inr (sp_name sp, plain_value (sp_kind sp) v)
               | None \<Rightarrow> Inl TypeError)) (class_specs c))
        (\<lambda>fs. Inr (Instance c fs)))"

definition replace_attr :: "string \<Rightarrow> fval \<Rightarrow> instance \<Rightarrow> instance" where
  "replace_attr a v m = Instance (inst_class m) (dset (inst_fields m) a v)"

subsection \<open>Encoding\<close>

lemma field_size: "dget fs a = Some v \<Longrightarrow> size v \<le> size_list (size_prod (\<lambda>_. 0) size) (fs :: (string \<times> fval) list)"
  by (induction fs) (auto split: if_splits)

lemma object_size: "m \<in> set ms \<Longrightarrow> size m \<le> size_list size ms"
  by (induction ms) auto

function to_wire :: "instance \<Rightarrow> pyval dict res"
and wire_fields :: "(string \<times> fval) list \<Rightarrow> spec list \<Rightarrow> pyval dict \<Rightarrow> pyval dict res"
and encode_field :: "kind \<Rightarrow> fval \<Rightarrow> pyval res" where
  "to_wire (Instance c fs) = wire_fields fs (class_specs c) []"
| "wire_fields fs [] wire = Inr wire"
| "wire_fields fs (sp # sps) wire =
     (case dget fs (sp_name sp) of
        None \<Rightarrow> Inl AttributeError
      | Some v \<Rightarrow>
          (if v = FNone then (if sp_optional sp then wire_fields fs sps wire else Inl WireDecodeError)
           else if sp_omit sp \<and> feq v (default_value sp) then wire_fields fs sps wire
           else rbind (encode_field (sp_kind sp) v) (\<lambda>w. wire_fields fs sps (dset wire (sp_key sp) w))))"
| "encode_field k (FObj m) =
     (case k of
        KModel c \<Rightarrow> rbind (to_wire m) (\<lambda>w. Inr (VDict w))
      | KBytes \<Rightarrow> Inl TypeError
      | KModels c \<Rightarrow> Inl TypeError
      | KStrs \<Rightarrow> Inl TypeError
      | _ \<Rightarrow> Inr (VObject (class_name (inst_class m))))"
| "encode_field k (FObjs ms) =
     (case k of
        KModels c \<Rightarrow> rbind (rmap (\<lambda>m. rbind (to_wire m) (\<lambda>w. Inr (VDict w))) ms) (\<lambda>ws. Inr (VList ws))
      | KBytes \<Rightarrow> Inl TypeError
      | KModel c \<Rightarrow> Inl AttributeError
      | _ \<Rightarrow> Inr (VList (map (\<lambda>m. VObject (class_name (inst_class m))) ms)))"
| "encode_field k (FVal v) =
     (case k of
        KBytes \<Rightarrow> (case v of VBytes bs \<Rightarrow> Inr (VStr (b64encode bs)) | _ \<Rightarrow> Inl TypeError)
      | KModel c \<Rightarrow> Inl AttributeError
      | KModels c \<Rightarrow> rbind (iter_vals v) (\<lambda>vs. if vs = [] then Inr (VList []) else Inl AttributeError)
      | KStrs \<Rightarrow> rbind (iter_vals v) (\<lambda>vs. Inr (VList vs))
      | _ \<Rightarrow> Inr v)"
  by pat_completeness auto
termination
  by (relation "measures [\<lambda>x. case x of Inl m \<Rightarrow> size m
       | Inr (Inl (fs, sps, w)) \<Rightarrow> size_list (size_prod (\<lambda>_. 0) size) fs
       | Inr (Inr (k, v)) \<Rightarrow> size v,
     \<lambda>x. case x of Inr (Inl (fs, sps, w)) \<Rightarrow> Suc (length sps) | _ \<Rightarrow> 0]")
    (auto dest: field_size object_size simp: less_Suc_eq_le le_less)

subsection \<open>Decoding\<close>

definition unb64 :: "pyval \<Rightarrow> bytes res" where
  "unb64 v =
     (case v of
        VStr s \<Rightarrow> (case b64decode_strict s of Some bs \<Rightarrow> Inr bs | None \<Rightarrow> Inl WireDecodeError)
      | _ \<Rightarrow> Inl WireDecodeError)"

definition absent_field :: "spec \<Rightarrow> fval res" where
  "absent_field sp =
     (if sp_optional sp then Inr FNone
      else if sp_default sp \<noteq> None \<or> sp_omit sp then Inr (default_value sp)
      else Inl WireDecodeError)"

fun from_wire :: "model_class \<Rightarrow> pyval \<Rightarrow> instance res"
and read_specs :: "spec list \<Rightarrow> pyval dict \<Rightarrow> (string \<times> fval) list res"
and decode_field :: "kind \<Rightarrow> pyval \<Rightarrow> fval res" where
  "from_wire (Class n df sps ex) = (\<lambda>wire.
     case wire of
       VDict d \<Rightarrow> rbind (read_specs sps d) (\<lambda>fs. Inr (Instance (Class n df sps ex) fs))
     | _ \<Rightarrow> Inl WireDecodeError)"
| "read_specs [] = (\<lambda>d. Inr [])"
| "read_specs (Spec a key k optional dflt omit # sps) = (\<lambda>d.
     rbind (if getn d key = VNull then absent_field (Spec a key k optional dflt omit)
            else decode_field k (getn d key))
       (\<lambda>v. rbind (read_specs sps d) (\<lambda>fs. Inr ((a, v) # fs))))"
| "decode_field KStr = (\<lambda>v. if is_str v then Inr (FVal v) else Inl WireDecodeError)"
| "decode_field KInt = (\<lambda>v. case v of VInt i \<Rightarrow> Inr (FVal v) | _ \<Rightarrow> Inl WireDecodeError)"
| "decode_field KNumber = (\<lambda>v. if is_number v then Inr (FVal v) else Inl WireDecodeError)"
| "decode_field KBool = (\<lambda>v. case v of VBool b \<Rightarrow> Inr (FVal v) | _ \<Rightarrow> Inl WireDecodeError)"
| "decode_field KBytes = (\<lambda>v. rbind (unb64 v) (\<lambda>bs. Inr (FVal (VBytes bs))))"
| "decode_field KStrs = (\<lambda>v.
     case v of VList vs \<Rightarrow> if list_all is_str vs then Inr (FVal v) else Inl WireDecodeError
     | _ \<Rightarrow> Inl WireDecodeError)"
| "decode_field KRaw = (\<lambda>v. Inr (FVal v))"
| "decode_field (KModel c) = (\<lambda>v. rbind (from_wire c v) (\<lambda>m. Inr (FObj m)))"
| "decode_field (KModels c) = (\<lambda>v.
     case v of VList vs \<Rightarrow> rbind (rmap (from_wire c) vs) (\<lambda>ms. Inr (FObjs ms))
     | _ \<Rightarrow> Inl WireDecodeError)"

text \<open>\<open>to_json_bytes\<close> and \<open>canonical_payload\<close>.\<close>

definition to_json_bytes :: "(rat \<Rightarrow> string) \<Rightarrow> instance \<Rightarrow> bytes res" where
  "to_json_bytes frepr m = rbind (to_wire m) (\<lambda>w. canonical_json frepr (VDict w) ''encoder'' True)"

definition model_payload :: "(rat \<Rightarrow> string) \<Rightarrow> instance \<Rightarrow> bytes res" where
  "model_payload frepr m =
     rbind (to_wire m) (\<lambda>w. canonical_payload frepr w (class_excluded (inst_class m)))"


subsection \<open>The tables\<close>

definition IdentityPublicKeyDescriptor :: model_class where
  "IdentityPublicKeyDescriptor = Class ''IdentityPublicKeyDescriptor''
     [(''algorithm'', VStr ''EdDSA''), (''curve_type'', VStr ''Curve25519''),
      (''display_name'', VNull)]
     [need ''uuid'' ''uuid'' KStr,
      need ''public_key'' ''publicKey'' KBytes,
      need ''algorithm'' ''algorithm'' KStr,
      need ''curve_type'' ''curveType'' KStr,
      opt ''display_name'' ''displayName'' KStr]
     []"

definition SignatureProof :: model_class where
  "SignatureProof = Class ''SignatureProof''
     [(''algorithm'', VStr ''EdDSA''), (''curve_type'', VStr ''Curve25519''),
      (''type'', VStr ''signature''), (''signature'', VNull)]
     [need ''type'' ''type'' KStr,
      need ''by_identity_uuid'' ''byIdentityUUID'' KStr,
      need ''algorithm'' ''algorithm'' KStr,
      need ''curve_type'' ''curveType'' KStr,
      opt ''signature'' ''signature'' KBytes]
     []"

definition HavenSignatureProof :: model_class where
  "HavenSignatureProof = Class ''HavenSignatureProof''
     [(''algorithm'', VStr ''EdDSA''), (''curve_type'', VStr ''Curve25519''),
      (''type'', VStr ''signature''), (''signature'', VNull)]
     [need ''type'' ''ty'' KStr,
      need ''by_identity_uuid'' ''by'' KStr,
      need ''algorithm'' ''al'' KStr,
      need ''curve_type'' ''cv'' KStr,
      opt ''signature'' ''sg'' KBytes]
     []"

definition EntityBindingDescriptor :: model_class where
  "EntityBindingDescriptor = Class ''EntityBindingDescriptor''
     [(''entity_anchor_reference'', VNull), (''binding_id'', VNull), (''audience'', VNull)]
     [need ''mode'' ''mode'' KStr,
      opt ''entity_anchor_reference'' ''entityAnchorReference'' KStr,
      opt ''binding_id'' ''bindingID'' KStr,
      opt ''audience'' ''audience'' KStr]
     []"

definition IdentityEnrollmentRequest :: model_class where
  "IdentityEnrollmentRequest = Class ''IdentityEnrollmentRequest''
     [(''version'', VInt 1), (''purpose'', VStr ''link_identity''), (''entity_binding'', VNull),
      (''platform'', VNull), (''device_label'', VNull), (''proof'', VNull)]
     [need ''version'' ''version'' KInt,
      need ''request_id'' ''requestID'' KStr,
      need ''purpose'' ''purpose'' KStr,
      opt ''entity_binding'' ''entityBinding'' (KModel EntityBindingDescriptor),
      need ''new_identity'' ''newIdentity'' (KModel IdentityPublicKeyDescriptor),
      need ''requested_domains'' ''requestedDomains'' KStrs,
      need ''requested_identity_contexts'' ''requestedIdentityContexts'' KStrs,
      need ''requested_scopes'' ''requestedScopes'' KStrs,
      need ''audience'' ''audience'' KStr,
      need ''origin'' ''origin'' KStr,
      need ''created_at'' ''createdAt'' KStr,
      need ''expires_at'' ''expiresAt'' KStr,
      need ''nonce'' ''nonce'' KBytes,
      opt ''platform'' ''platform'' KStr,
      opt ''device_label'' ''deviceLabel'' KStr,
      opt ''proof'' ''proof'' (KModel SignatureProof)]
     [''proof'']"

definition IdentityEnrollmentApprovalProof :: model_class where
  "IdentityEnrollmentApprovalProof = Class ''IdentityEnrollmentApprovalProof''
     [(''algorithm'', VStr ''EdDSA''), (''curve_type'', VStr ''Curve25519''),
      (''type'', VStr ''signature''), (''signature'', VNull)]
     [need ''type'' ''type'' KStr,
      need ''issuer_identity_uuid'' ''issuerIdentityUUID'' KStr,
      need ''issuer_type'' ''issuerType'' KStr,
      need ''algorithm'' ''algorithm'' KStr,
      need ''curve_type'' ''curveType'' KStr,
      opt ''signature'' ''signature'' KBytes]
     []"

definition IdentityLinkFreshAuthEvidence :: model_class where
  "IdentityLinkFreshAuthEvidence = Class ''IdentityLinkFreshAuthEvidence''
     [(''credential_id'', VNull), (''authenticator_data'', VNull), (''client_data_json'', VNull),
      (''signature'', VNull)]
     [need ''method'' ''method'' KStr,
      need ''challenge'' ''challenge'' KBytes,
      need ''performed_at'' ''performedAt'' KStr,
      opt ''credential_id'' ''credentialID'' KBytes,
      opt ''authenticator_data'' ''authenticatorData'' KBytes,
      opt ''client_data_json'' ''clientDataJSON'' KBytes,
      opt ''signature'' ''signature'' KBytes]
     []"

definition IdentityEnrollmentApproval :: model_class where
  "IdentityEnrollmentApproval = Class ''IdentityEnrollmentApproval''
     [(''version'', VInt 1), (''purpose'', VStr ''approve_link_identity''),
      (''fresh_auth_method'', VNull), (''fresh_auth_performed_at'', VNull),
      (''fresh_auth_evidence'', VNull), (''proof'', VNull)]
     [need ''version'' ''version'' KInt,
      need ''approval_id'' ''approvalID'' KStr,
      need ''purpose'' ''purpose'' KStr,
      need ''request_hash'' ''requestHash'' KBytes,
      need ''entity_binding'' ''entityBinding'' (KModel EntityBindingDescriptor),
      need ''subject_identity'' ''subjectIdentity'' (KModel IdentityPublicKeyDescriptor),
      need ''approved_domains'' ''approvedDomains'' KStrs,
      need ''approved_identity_contexts'' ''approvedIdentityContexts'' KStrs,
      need ''approved_scopes'' ''approvedScopes'' KStrs,
      need ''issuer_identity_uuid'' ''issuerIdentityUUID'' KStr,
      need ''issuer_type'' ''issuerType'' KStr,
      need ''audience'' ''audience'' KStr,
      need ''origin'' ''origin'' KStr,
      need ''created_at'' ''createdAt'' KStr,
      need ''expires_at'' ''expiresAt'' KStr,
      need ''jti'' ''jti'' KStr,
      need ''fresh_auth_required'' ''freshAuthRequired'' KBool,
      opt ''fresh_auth_method'' ''freshAuthMethod'' KStr,
      opt ''fresh_auth_performed_at'' ''freshAuthPerformedAt'' KStr,
      opt ''fresh_auth_evidence'' ''freshAuthEvidence'' (KModel IdentityLinkFreshAuthEvidence),
      opt ''proof'' ''proof'' (KModel IdentityEnrollmentApprovalProof)]
     [''proof'']"

definition IdentityLinkRevocation :: model_class where
  "IdentityLinkRevocation = Class ''IdentityLinkRevocation''
     [(''version'', VInt 1), (''proof'', VNull)]
     [need ''version'' ''version'' KInt,
      need ''link_id'' ''linkID'' KStr,
      need ''reason'' ''reason'' KStr,
      need ''revoked_at'' ''revokedAt'' KStr,
      need ''revoked_by_identity_uuid'' ''revokedByIdentityUUID'' KStr,
      need ''issuer_type'' ''issuerType'' KStr,
      opt ''proof'' ''proof'' (KModel IdentityEnrollmentApprovalProof)]
     [''proof'']"

definition DEFAULT_TICKET_CAPABILITIES :: "pyval list" where
  "DEFAULT_TICKET_CAPABILITIES = [VStr ''create_own_entity'', VStr ''send_contact_request_to_issuer'']"

definition TICKET_MAXIMUM_TTL :: int where
  "TICKET_MAXIMUM_TTL = 90 * 86400"

definition HavenInviteBasisField :: model_class where
  "HavenInviteBasisField = Class ''HavenInviteBasisField''
     [(''origin'', VNull)]
     [need ''key'' ''k'' KStr,
      need ''value'' ''v'' KStr,
      opt ''origin'' ''o'' KStr]
     []"

definition HavenInviteTicket :: model_class where
  "HavenInviteTicket = Class ''HavenInviteTicket''
     [(''version'', VInt 1), (''audience_kind'', VStr ''email''),
      (''issuer_contact_endpoint'', VNull), (''issuer_entity_ref'', VNull),
      (''greeting_name'', VNull), (''note'', VNull), (''identity_domain'', VNull),
      (''basis'', VList []), (''nonce'', VBytes []),
      (''capabilities'', VList DEFAULT_TICKET_CAPABILITIES), (''proof'', VNull)]
     [Spec ''version'' ''v'' KInt False (Some (VInt 1)) False,
      need ''ticket_id'' ''t'' KStr,
      need ''issuer'' ''is'' (KModel IdentityPublicKeyDescriptor),
      need ''issuer_display_name'' ''n'' KStr,
      opt ''issuer_contact_endpoint'' ''ce'' KStr,
      opt ''issuer_entity_ref'' ''er'' KStr,
      need ''audience_token'' ''au'' KStr,
      Spec ''audience_kind'' ''ak'' KStr False (Some (VStr ''email'')) False,
      need ''human_code'' ''hc'' KStr,
      opt ''greeting_name'' ''gn'' KStr,
      opt ''note'' ''no'' KStr,
      opt ''identity_domain'' ''id'' KStr,
      Spec ''basis'' ''bs'' (KModels HavenInviteBasisField) False (Some (VList [])) True,
      need ''created_at'' ''ca'' KInt,
      need ''expires_at'' ''ea'' KInt,
      Spec ''nonce'' ''nc'' KBytes False (Some (VBytes [])) True,
      Spec ''capabilities'' ''cp'' KStrs False (Some (VList DEFAULT_TICKET_CAPABILITIES)) True,
      opt ''proof'' ''pf'' (KModel HavenSignatureProof)]
     [''pf'']"

definition HavenInvitePublication :: model_class where
  "HavenInvitePublication = Class ''HavenInvitePublication''
     [(''max_contact_requests'', VInt 3), (''schema'', VStr ''haven.invite.publication.v1''),
      (''proof'', VNull)]
     [need ''schema'' ''schema'' KStr,
      need ''ticket_id'' ''ticketID'' KStr,
      need ''human_code'' ''humanCode'' KStr,
      need ''ticket_token'' ''ticketToken'' KStr,
      need ''audience_token'' ''audienceToken'' KStr,
      need ''issuer_identity_uuid'' ''issuerIdentityUUID'' KStr,
      need ''expires_at'' ''expiresAt'' KInt,
      need ''published_at'' ''publishedAt'' KInt,
      need ''max_contact_requests'' ''maxContactRequests'' KInt,
      need ''status_key'' ''statusKey'' KStr,
      opt ''proof'' ''proof'' (KModel HavenSignatureProof)]
     [''proof'']"

definition HavenInviteRevocationNotice :: model_class where
  "HavenInviteRevocationNotice = Class ''HavenInviteRevocationNotice''
     [(''schema'', VStr ''haven.invite.revocation.v1''), (''proof'', VNull)]
     [need ''schema'' ''schema'' KStr,
      need ''ticket_id'' ''ticketID'' KStr,
      need ''reason'' ''reason'' KStr,
      need ''revoked_at'' ''revokedAt'' KInt,
      need ''issuer_identity_uuid'' ''issuerIdentityUUID'' KStr,
      opt ''proof'' ''proof'' (KModel HavenSignatureProof)]
     [''proof'']"

definition HavenInviteContactRequest :: model_class where
  "HavenInviteContactRequest = Class ''HavenInviteContactRequest''
     [(''schema'', VStr ''haven.invite.contactRequest.v1''), (''sender_entity_ref'', VNull),
      (''sender_endpoint'', VNull), (''message'', VNull), (''sender_key_agreement_key'', VNull),
      (''proof'', VNull)]
     [need ''schema'' ''schema'' KStr,
      need ''request_id'' ''requestID'' KStr,
      need ''ticket_id'' ''ticketID'' KStr,
      need ''issuer_endpoint_id'' ''issuerEndpointID'' KStr,
      need ''sender'' ''sender'' (KModel IdentityPublicKeyDescriptor),
      need ''sender_display_name'' ''senderDisplayName'' KStr,
      opt ''sender_entity_ref'' ''senderEntityRef'' KStr,
      opt ''sender_endpoint'' ''senderEndpoint'' KStr,
      opt ''message'' ''message'' KStr,
      opt ''sender_key_agreement_key'' ''senderKeyAgreementKey'' KBytes,
      need ''created_at'' ''createdAt'' KInt,
      need ''expires_at'' ''expiresAt'' KInt,
      need ''nonce'' ''nonce'' KBytes,
      opt ''proof'' ''proof'' (KModel HavenSignatureProof)]
     [''proof'']"

definition HavenInviteReply :: model_class where
  "HavenInviteReply = Class ''HavenInviteReply''
     [(''schema'', VStr ''haven.invite.reply.v1''), (''replier_key_agreement_key'', VNull),
      (''proof'', VNull)]
     [need ''schema'' ''schema'' KStr,
      need ''reply_id'' ''replyID'' KStr,
      need ''ticket_id'' ''ticketID'' KStr,
      need ''audience_token'' ''audienceToken'' KStr,
      need ''decision'' ''decision'' KStr,
      need ''replier'' ''replier'' (KModel IdentityPublicKeyDescriptor),
      opt ''replier_key_agreement_key'' ''replierKeyAgreementKey'' KBytes,
      need ''created_at'' ''createdAt'' KInt,
      need ''nonce'' ''nonce'' KBytes,
      opt ''proof'' ''proof'' (KModel HavenSignatureProof)]
     [''proof'']"

definition ChatInvitationArtifact :: model_class where
  "ChatInvitationArtifact = Class ''ChatInvitationArtifact''
     [(''version'', VInt 1), (''purpose'', VStr ''chat_invitation''), (''proof'', VNull)]
     [need ''version'' ''version'' KInt,
      need ''invitation_id'' ''invitationID'' KStr,
      need ''purpose'' ''purpose'' KStr,
      need ''chat_cell_uuid'' ''chatCellUUID'' KStr,
      need ''topic'' ''topic'' KStr,
      need ''audience_mode'' ''audienceMode'' KStr,
      need ''suite_id'' ''suiteID'' KStr,
      need ''persistence_mode'' ''persistenceMode'' KStr,
      need ''inviter_identity'' ''inviterIdentity'' (KModel IdentityPublicKeyDescriptor),
      need ''invited_identity'' ''invitedIdentity'' (KModel IdentityPublicKeyDescriptor),
      need ''created_at'' ''createdAt'' KStr,
      need ''expires_at'' ''expiresAt'' KStr,
      need ''nonce'' ''nonce'' KBytes,
      opt ''proof'' ''proof'' (KModel SignatureProof)]
     [''proof'']"

definition ChatInvitationAcceptance :: model_class where
  "ChatInvitationAcceptance = Class ''ChatInvitationAcceptance''
     [(''version'', VInt 1), (''purpose'', VStr ''accept_chat_invitation''),
      (''invitee_key_agreement_key'', VNull), (''proof'', VNull)]
     [need ''version'' ''version'' KInt,
      need ''acceptance_id'' ''acceptanceID'' KStr,
      need ''purpose'' ''purpose'' KStr,
      need ''invitation_id'' ''invitationID'' KStr,
      need ''invitation_hash'' ''invitationHash'' KBytes,
      need ''chat_cell_uuid'' ''chatCellUUID'' KStr,
      need ''inviter_identity_uuid'' ''inviterIdentityUUID'' KStr,
      need ''invitee_identity'' ''inviteeIdentity'' (KModel IdentityPublicKeyDescriptor),
      opt ''invitee_key_agreement_key'' ''inviteeKeyAgreementKey'' KBytes,
      need ''created_at'' ''createdAt'' KStr,
      need ''nonce'' ''nonce'' KBytes,
      opt ''proof'' ''proof'' (KModel SignatureProof)]
     [''proof'']"

definition IdentitySigningChallenge :: model_class where
  "IdentitySigningChallenge = Class ''IdentitySigningChallenge''
     [(''public_key_fingerprint'', VNull),
      (''type'', VStr ''org.haven.cellprotocol.identity-signing-challenge''),
      (''version'', VInt 1), (''purpose'', VStr ''identity-origin-proof'')]
     [need ''type'' ''type'' KStr,
      need ''version'' ''version'' KInt,
      need ''purpose'' ''purpose'' KStr,
      need ''identity_uuid'' ''identityUUID'' KStr,
      opt ''public_key_fingerprint'' ''publicKeyFingerprint'' KStr,
      need ''domain'' ''domain'' KStr,
      need ''resource'' ''resource'' KStr,
      need ''action'' ''action'' KStr,
      need ''audience'' ''audience'' KStr,
      need ''nonce'' ''nonce'' KBytes,
      need ''issued_at'' ''issuedAt'' KNumber,
      need ''expires_at'' ''expiresAt'' KNumber]
     []"

definition WIRE_TYPES :: "model_class list" where
  "WIRE_TYPES =
    [IdentityEnrollmentRequest, IdentityEnrollmentApproval, IdentityLinkRevocation, HavenInviteTicket,
     HavenInvitePublication, HavenInviteReply, HavenInviteRevocationNotice, HavenInviteContactRequest,
     ChatInvitationArtifact, ChatInvitationAcceptance, IdentitySigningChallenge]"


subsection \<open>The ticket's own operations\<close>

text \<open>\<open>HavenInviteTicket\<close>: \<open>now_epoch > self.expires_at\<close> and the like, on the attribute's number.\<close>

definition num_attr :: "instance \<Rightarrow> string \<Rightarrow> rat res" where
  "num_attr m a =
     rbind (attr m a) (\<lambda>v. case v of
         FVal (VInt i) \<Rightarrow> Inr (of_int i)
       | FVal (VBool b) \<Rightarrow> Inr (if b then 1 else 0)
       | FVal (VFloat (Fin q)) \<Rightarrow> Inr q
       | _ \<Rightarrow> Inl TypeError)"

definition is_expired :: "instance \<Rightarrow> rat \<Rightarrow> bool res" where
  "is_expired m now_epoch = rbind (num_attr m ''expires_at'') (\<lambda>e. Inr (now_epoch > e))"

definition claims_too_long_a_life :: "instance \<Rightarrow> bool res" where
  "claims_too_long_a_life m =
     rbind (num_attr m ''expires_at'') (\<lambda>e. rbind (num_attr m ''created_at'') (\<lambda>c.
       Inr (e - c > of_int TICKET_MAXIMUM_TTL)))"

text \<open>\<open>base64.urlsafe_b64encode\<close> and its inverse, which also takes the standard letters.\<close>

definition urlsafe_char :: "char \<Rightarrow> char" where
  "urlsafe_char c = (if c = CHR ''+'' then CHR ''-'' else if c = CHR ''/'' then CHR ''_'' else c)"

definition standard_char :: "char \<Rightarrow> char" where
  "standard_char c = (if c = CHR ''-'' then CHR ''+'' else if c = CHR ''_'' then CHR ''/'' else c)"

definition to_token :: "(rat \<Rightarrow> string) \<Rightarrow> instance \<Rightarrow> string res" where
  "to_token frepr m =
     rbind (to_json_bytes frepr m) (\<lambda>bs.
       Inr (rstrip_of (\<lambda>c. c = CHR ''='') (map urlsafe_char (b64encode bs))))"

definition from_token :: "string \<Rightarrow> instance res" where
  "from_token token =
     (let padded = token @ replicate ((4 - py_len token mod 4) mod 4) (CHR ''='')
      in if \<not> is_ascii padded then Inl WireDecodeError
         else case b64decode_lax (map standard_char padded) of
           None \<Rightarrow> Inl WireDecodeError
         | Some data \<Rightarrow>
             (case json_loads data of
                Inl e \<Rightarrow> Inl WireDecodeError
              | Inr wire \<Rightarrow>
                  rbind (from_wire HavenInviteTicket wire) (\<lambda>ticket.
                  rbind (attr ticket ''version'') (\<lambda>v.
                    if feq v (FVal (VInt 1)) then Inr ticket else Inl WireDecodeError))))"


subsection \<open>Well-typed objects\<close>

text \<open>
  An object of a class has the attributes of the table in their order, each of its kind, and
  \<open>None\<close> only where the field is optional.
\<close>

fun instance_ok :: "model_class \<Rightarrow> instance \<Rightarrow> bool"
and fields_ok :: "spec list \<Rightarrow> (string \<times> fval) list \<Rightarrow> bool"
and fval_ok :: "kind \<Rightarrow> fval \<Rightarrow> bool" where
  "instance_ok (Class n df sps ex) = (\<lambda>m. inst_class m = Class n df sps ex \<and> fields_ok sps (inst_fields m))"
| "fields_ok [] = (\<lambda>fs. fs = [])"
| "fields_ok (Spec a key k optional dflt omit # sps) = (\<lambda>fs.
     case fs of [] \<Rightarrow> False
     | (b, v) # fs' \<Rightarrow> b = a \<and> (if v = FNone then optional else fval_ok k v) \<and> fields_ok sps fs')"
| "fval_ok KStr = (\<lambda>v. case v of FVal u \<Rightarrow> is_str u | _ \<Rightarrow> False)"
| "fval_ok KInt = (\<lambda>v. case v of FVal (VInt i) \<Rightarrow> True | _ \<Rightarrow> False)"
| "fval_ok KNumber = (\<lambda>v. case v of FVal u \<Rightarrow> is_number u | _ \<Rightarrow> False)"
| "fval_ok KBool = (\<lambda>v. case v of FVal (VBool b) \<Rightarrow> True | _ \<Rightarrow> False)"
| "fval_ok KBytes = (\<lambda>v. case v of FVal (VBytes bs) \<Rightarrow> True | _ \<Rightarrow> False)"
| "fval_ok KStrs = (\<lambda>v. case v of FVal (VList vs) \<Rightarrow> list_all is_str vs | _ \<Rightarrow> False)"
| "fval_ok KRaw = (\<lambda>v. case v of FVal u \<Rightarrow> is_json u | _ \<Rightarrow> False)"
| "fval_ok (KModel c) = (\<lambda>v. case v of FObj m \<Rightarrow> instance_ok c m | _ \<Rightarrow> False)"
| "fval_ok (KModels c) = (\<lambda>v. case v of FObjs ms \<Rightarrow> list_all (instance_ok c) ms | _ \<Rightarrow> False)"

text \<open>
  What the tables have to satisfy: distinct attributes and keys, and a default that is of the
  field's kind; a field that is left out when it has its default is not optional and holds
  bytes, texts or objects.
\<close>

fun omit_ok :: "kind \<Rightarrow> pyval \<Rightarrow> bool" where
  "omit_ok KBytes v = (case v of VBytes bs \<Rightarrow> True | _ \<Rightarrow> False)"
| "omit_ok KStrs v = (case v of VList vs \<Rightarrow> list_all is_str vs | _ \<Rightarrow> False)"
| "omit_ok (KModels c) v = (v = VList [])"
| "omit_ok k v = False"

fun default_ok :: "kind \<Rightarrow> pyval \<Rightarrow> bool" where
  "default_ok KStr v = is_str v"
| "default_ok KInt v = (case v of VInt i \<Rightarrow> True | _ \<Rightarrow> False)"
| "default_ok k v = omit_ok k v"

fun class_ok :: "model_class \<Rightarrow> bool"
and specs_ok :: "spec list \<Rightarrow> bool"
and kind_ok :: "kind \<Rightarrow> bool" where
  "class_ok (Class n df sps ex) = (distinct (map sp_name sps) \<and> distinct (map sp_key sps) \<and> specs_ok sps)"
| "specs_ok [] = True"
| "specs_ok (Spec a key k optional dflt omit # sps) =
     (kind_ok k \<and> (case dflt of None \<Rightarrow> \<not> omit | Some v \<Rightarrow> default_ok k v)
      \<and> (omit \<longrightarrow> \<not> optional \<and> omit_ok k (the dflt)) \<and> specs_ok sps)"
| "kind_ok (KModel c) = class_ok c"
| "kind_ok (KModels c) = class_ok c"
| "kind_ok _ = True"

lemma default_ok_value:
  "default_ok k v \<Longrightarrow> fval_ok k (default_value (Spec a key k optional (Some v) omit))
     \<and> default_value (Spec a key k optional (Some v) omit) \<noteq> FNone"
  by (cases k) (auto simp: default_value_def plain_value_def split: pyval.splits)

text \<open>\<open>from_wire\<close> returns well-typed objects, and raises nothing but \<open>WireDecodeError\<close>.\<close>

lemma getn_json: "is_json_items d \<Longrightarrow> is_json (getn d k)"
  by (auto simp: getn_def dget_json split: option.splits)

lemmas table_induct = class_ok_specs_ok_kind_ok.induct

lemma from_wire_ok:
  "class_ok c \<Longrightarrow> is_json w \<Longrightarrow> from_wire c w = Inr m \<Longrightarrow> instance_ok c m"
  "specs_ok sps \<Longrightarrow> is_json_items d \<Longrightarrow> read_specs sps d = Inr fs \<Longrightarrow> fields_ok sps fs"
  "kind_ok k \<Longrightarrow> is_json w \<Longrightarrow> decode_field k w = Inr v \<Longrightarrow> w \<noteq> VNull \<Longrightarrow> fval_ok k v \<and> v \<noteq> FNone"
proof (induction c and sps and k arbitrary: w m and d fs and w v rule: table_induct)
  case (3 a key k optional dflt omit sps)
  obtain v fs' where v: "(if getn d key = VNull then absent_field (Spec a key k optional dflt omit)
      else decode_field k (getn d key)) = Inr v" and fs: "read_specs sps d = Inr fs'" "fs = (a, v) # fs'"
    using "3.prems"(3) by (auto simp: rbind_Inr_iff)
  have "if v = FNone then optional else fval_ok k v"
  proof (cases "getn d key = VNull")
    case True
    then show ?thesis using v "3.prems"(1) default_ok_value [of k _ a key optional omit]
      by (auto simp: absent_field_def split: if_splits option.splits)
  next
    case False
    then show ?thesis using v "3.IH"(1) [of "getn d key" v] "3.prems" getn_json by auto
  qed
  then show ?case using fs "3.IH"(2) [of d fs'] "3.prems" by auto
next
  case (5 c)
  have "list_all (instance_ok c) ms" if "rmap (from_wire c) vs = Inr ms" "is_json_list vs" for vs ms
    using that "5.IH" "5.prems"(1) by (force simp: list_all_iff is_json_list_iff dest: rmap_Inr_set [rotated])
  then show ?case using "5.prems" by (auto simp: rbind_Inr_iff split: pyval.splits)
qed (auto simp: rbind_Inr_iff split: pyval.splits if_splits)

lemma from_wire_raises:
  "from_wire c w = Inl e \<Longrightarrow> e = WireDecodeError"
  "read_specs sps d = Inl e \<Longrightarrow> e = WireDecodeError"
  "decode_field k w = Inl e \<Longrightarrow> e = WireDecodeError"
proof (induction c and sps and k arbitrary: w and d and w rule: table_induct)
  case (5 c)
  have "rmap (from_wire c) vs = Inl e \<Longrightarrow> e = WireDecodeError" for vs
    by (induction vs) (use "5.IH" in \<open>auto simp: rbind_Inl_iff\<close>)
  then show ?case using "5.prems" by (auto simp: rbind_Inl_iff split: pyval.splits)
qed (auto simp: rbind_Inl_iff absent_field_def unb64_def split: pyval.splits if_splits option.splits)

subsection \<open>Writing a well-typed object\<close>

text \<open>The members that a table writes, and that \<open>wire_fields\<close> appends them.\<close>

definition member_of :: "(string \<times> fval) list \<Rightarrow> spec \<Rightarrow> pyval dict res" where
  "member_of fs sp =
     (case dget fs (sp_name sp) of
        None \<Rightarrow> Inl AttributeError
      | Some v \<Rightarrow>
          (if v = FNone then (if sp_optional sp then Inr [] else Inl WireDecodeError)
           else if sp_omit sp \<and> feq v (default_value sp) then Inr []
           else rbind (encode_field (sp_kind sp) v) (\<lambda>w. Inr [(sp_key sp, w)])))"

fun members_of :: "(string \<times> fval) list \<Rightarrow> spec list \<Rightarrow> pyval dict res" where
  "members_of fs [] = Inr []"
| "members_of fs (sp # sps) = rbind (member_of fs sp) (\<lambda>d. rbind (members_of fs sps) (\<lambda>e. Inr (d @ e)))"

lemma wire_fields_members:
  "distinct (map sp_key sps) \<Longrightarrow> set (map sp_key sps) \<inter> set (dkeys wire) = {} \<Longrightarrow>
     wire_fields fs sps wire = rbind (members_of fs sps) (\<lambda>d. Inr (wire @ d))"
proof (induction sps arbitrary: wire)
  case (Cons sp sps)
  have k: "wire_fields fs sps wire = rbind (members_of fs sps) (\<lambda>d. Inr (wire @ d))"
    using Cons by auto
  have s: "wire_fields fs sps (dset wire (sp_key sp) w) = rbind (members_of fs sps) (\<lambda>d. Inr (wire @ (sp_key sp, w) # d))" for w
    using Cons.IH [of "dset wire (sp_key sp) w"] Cons.prems dset_new [of "sp_key sp" wire w] by auto
  have r: "rbind x (\<lambda>d. Inr (f d)) = rbind x (\<lambda>d. Inr (g d))" if "\<And>d. f d = g d" for x :: "pyval dict res" and f g :: "pyval dict \<Rightarrow> pyval dict"
    using that by simp
  show ?case
    by (cases "encode_field (sp_kind sp) (the (dget fs (sp_name sp)))")
      (auto simp: k s member_of_def rbind_def split: option.splits sum.splits)
qed simp

lemma member_form: "member_of fs sp = Inr d \<Longrightarrow> d = [] \<or> (\<exists>w. d = [(sp_key sp, w)])"
  by (auto simp: member_of_def rbind_Inr_iff split: option.splits if_splits)

lemma members_keys: "members_of fs sps = Inr d \<Longrightarrow> set (dkeys d) \<subseteq> set (map sp_key sps)"
proof (induction sps arbitrary: d)
  case (Cons sp sps)
  then obtain d1 d2 where d: "member_of fs sp = Inr d1" "members_of fs sps = Inr d2" "d = d1 @ d2"
    by (auto simp: rbind_Inr_iff)
  then show ?case using member_form [OF d(1)] Cons.IH [OF d(2)] by auto
qed simp

lemma members_distinct: "members_of fs sps = Inr d \<Longrightarrow> distinct (map sp_key sps) \<Longrightarrow> distinct (dkeys d)"
proof (induction sps arbitrary: d)
  case (Cons sp sps)
  then obtain d1 d2 where d: "member_of fs sp = Inr d1" "members_of fs sps = Inr d2" "d = d1 @ d2"
    by (auto simp: rbind_Inr_iff)
  then show ?case using member_form [OF d(1)] members_keys [OF d(2)] Cons.IH [OF d(2)] Cons.prems(2) by auto
qed simp

lemma py_eq_strs: "list_all is_str us \<Longrightarrow> py_eq_list vs us \<Longrightarrow> list_all is_str vs \<Longrightarrow> vs = us"
proof (induction vs arbitrary: us)
  case (Cons v vs)
  then show ?case by (cases us; cases v) auto
qed (auto split: list.splits)

lemma feq_default:
  "fval_ok k v \<Longrightarrow> omit_ok k u \<Longrightarrow> feq v (default_value (Spec a key k optional (Some u) omit)) \<Longrightarrow>
     v = default_value (Spec a key k optional (Some u) omit)"
  by (cases k; cases v)
    (auto simp: default_value_def plain_value_def py_eq_strs split: pyval.splits fval.splits elim: insts_eq.elims)

fun holds_objects :: "kind \<Rightarrow> bool" where
  "holds_objects (KModel c) = True"
| "holds_objects (KModels c) = True"
| "holds_objects k = False"

lemma strs_json: "list_all is_str vs \<Longrightarrow> is_json_list vs"
  by (induction vs) (auto elim: is_str.elims)

lemma plain_round_trip:
  assumes "\<not> holds_objects k" "fval_ok k v"
  shows "\<exists>w. encode_field k v = Inr w \<and> is_json w \<and> (v \<noteq> FNone \<longrightarrow> w \<noteq> VNull \<and> decode_field k w = Inr v)"
proof -
  obtain u where u: "v = FVal u" using assms by (cases k; cases v) auto
  show ?thesis using assms unfolding u
    by (cases k; cases u) (auto simp: unb64_def b64decode_encode strs_json)
qed

text \<open>
  Writing a well-typed object succeeds with JSON, and reading that back gives the object. For a
  table: any dictionary that binds its keys as the written members do is read back.
\<close>

lemma wire_round_trip_lemma:
  "class_ok c \<Longrightarrow> instance_ok c m \<Longrightarrow>
     \<exists>d. to_wire m = Inr d \<and> distinct (dkeys d) \<and> is_json_items d \<and> from_wire c (VDict d) = Inr m"
  "specs_ok sps \<Longrightarrow> fields_ok sps fs \<Longrightarrow> distinct (map sp_name sps) \<Longrightarrow> distinct (map sp_key sps) \<Longrightarrow>
     (\<And>sp. sp \<in> set sps \<Longrightarrow> dget gs (sp_name sp) = dget fs (sp_name sp)) \<Longrightarrow>
     \<exists>d. members_of gs sps = Inr d \<and> is_json_items d
       \<and> (\<forall>e. (\<forall>sp \<in> set sps. dget e (sp_key sp) = dget d (sp_key sp)) \<longrightarrow> read_specs sps e = Inr fs)"
  "kind_ok k \<Longrightarrow> fval_ok k v \<Longrightarrow>
     \<exists>w. encode_field k v = Inr w \<and> is_json w \<and> (v \<noteq> FNone \<longrightarrow> w \<noteq> VNull \<and> decode_field k w = Inr v)"
proof (induction c and sps and k arbitrary: m and fs gs and v rule: table_induct)
  case (1 n df sps ex)
  obtain fs where m: "m = Instance (Class n df sps ex) fs" "fields_ok sps fs"
    using "1.prems" by (cases m) auto
  from "1.IH" [of fs fs] m(2) "1.prems"(1) obtain d where d: "members_of fs sps = Inr d" "is_json_items d"
      "\<And>e. \<forall>sp \<in> set sps. dget e (sp_key sp) = dget d (sp_key sp) \<Longrightarrow> read_specs sps e = Inr fs"
    by auto
  then show ?case using m "1.prems"(1) wire_fields_members [of sps "[]" fs] members_distinct [OF d(1)]
    by simp
next
  case (3 a key k optional dflt omit sps)
  obtain v fs' where fs: "fs = (a, v) # fs'" "if v = FNone then optional else fval_ok k v" "fields_ok sps fs'"
    using "3.prems"(2) by (auto split: list.splits)
  have k: "kind_ok k" "specs_ok sps" using "3.prems"(1) by auto
  have tail: "dget gs (sp_name sp) = dget fs' (sp_name sp)" if "sp \<in> set sps" for sp
    using "3.prems"(3) "3.prems"(5) [of sp] that fs(1) by (auto split: if_splits)
  have here: "dget gs a = Some v" using "3.prems"(5) [of "Spec a key k optional dflt omit"] fs(1) by simp
  from "3.IH"(2) [OF k(2) fs(3) _ _ tail] "3.prems"(3,4) obtain d where d: "members_of gs sps = Inr d"
      "is_json_items d" "\<And>e. \<forall>sp \<in> set sps. dget e (sp_key sp) = dget d (sp_key sp) \<Longrightarrow> read_specs sps e = Inr fs'"
    by auto
  have nk: "dget d key = None"
    using members_keys [OF d(1)] "3.prems"(4) by (auto simp: dget_None_iff)
  let ?sp = "Spec a key k optional dflt omit"
  have "\<exists>d0. member_of gs ?sp = Inr d0 \<and> is_json_items d0
      \<and> (\<forall>e. dget e key = dget d0 key \<longrightarrow>
           (if getn e key = VNull then absent_field ?sp else decode_field k (getn e key)) = Inr v)"
  proof (cases "v = FNone \<or> omit \<and> feq v (default_value ?sp)")
    case True
    have "absent_field ?sp = Inr v"
    proof (cases "v = FNone")
      case False
      then have "omit" "fval_ok k v" "feq v (default_value ?sp)" using True fs(2) by auto
      with "3.prems"(1) feq_default [of k v "the dflt" a key optional omit] show ?thesis
        by (cases dflt) (auto simp: absent_field_def)
    qed (use fs(2) in \<open>simp add: absent_field_def\<close>)
    with True here fs(2) show ?thesis by (intro exI [of _ "[]"]) (auto simp: member_of_def getn_def)
  next
    case False
    with fs(2) "3.IH"(1) [OF k(1), of v] obtain w where w: "encode_field k v = Inr w" "is_json w" "w \<noteq> VNull"
        "decode_field k w = Inr v" by auto
    with False here show ?thesis by (intro exI [of _ "[(key, w)]"]) (auto simp: member_of_def getn_def)
  qed
  then obtain d0 where d0: "member_of gs ?sp = Inr d0" "is_json_items d0"
      "\<And>e. dget e key = dget d0 key \<Longrightarrow>
           (if getn e key = VNull then absent_field ?sp else decode_field k (getn e key)) = Inr v"
    by auto
  have read: "read_specs (?sp # sps) e = Inr fs"
    if e: "\<forall>sp \<in> set (?sp # sps). dget e (sp_key sp) = dget (d0 @ d) (sp_key sp)" for e
  proof -
    have "dget e key = dget d0 key" using e nk by (auto simp: map_add_def split: option.splits)
    moreover have "dget d0 (sp_key sp) = None" if "sp \<in> set sps" for sp
      using member_form [OF d0(1)] "3.prems"(4) that by auto
    then have "\<forall>sp \<in> set sps. dget e (sp_key sp) = dget d (sp_key sp)"
      using e by (simp add: map_add_def split: option.splits)
    ultimately show ?thesis using d0(3) [of e] d(3) [of e] fs(1) by simp
  qed
  have "members_of gs (?sp # sps) = Inr (d0 @ d)" using d0(1) d(1) by simp
  moreover have "is_json_items (d0 @ d)" using d0(2) d(2) by (auto simp: is_json_items_iff)
  ultimately show ?case using read by blast
next
  case (4 c)
  then obtain m where "v = FObj m" "instance_ok c m" by (auto split: fval.splits)
  with "4.IH" [of m] "4.prems"(1) show ?case by auto
next
  case (5 c)
  then obtain ms where ms: "v = FObjs ms" "list_all (instance_ok c) ms" by (auto split: fval.splits)
  have "\<exists>ws. rmap (\<lambda>m. rbind (to_wire m) (\<lambda>w. Inr (VDict w))) ms = Inr ws \<and> is_json_list ws
      \<and> rmap (from_wire c) ws = Inr ms"
    using ms(2)
  proof (induction ms)
    case (Cons m ms)
    with "5.IH" [of m] "5.prems"(1) show ?case by fastforce
  qed simp
  then show ?case using ms(1) by auto
qed (simp, (intro plain_round_trip; simp)+)

lemmas class_defs =
  IdentityPublicKeyDescriptor_def
  SignatureProof_def
  HavenSignatureProof_def
  EntityBindingDescriptor_def
  IdentityEnrollmentRequest_def
  IdentityEnrollmentApprovalProof_def
  IdentityLinkFreshAuthEvidence_def
  IdentityEnrollmentApproval_def
  IdentityLinkRevocation_def
  HavenInviteBasisField_def
  HavenInviteTicket_def
  HavenInvitePublication_def
  HavenInviteRevocationNotice_def
  HavenInviteContactRequest_def
  HavenInviteReply_def
  ChatInvitationArtifact_def
  ChatInvitationAcceptance_def
  IdentitySigningChallenge_def need_def opt_def
  DEFAULT_TICKET_CAPABILITIES_def

lemma tables_ok:
  "class_ok IdentityPublicKeyDescriptor"
  "class_ok SignatureProof"
  "class_ok HavenSignatureProof"
  "class_ok EntityBindingDescriptor"
  "class_ok IdentityEnrollmentRequest"
  "class_ok IdentityEnrollmentApprovalProof"
  "class_ok IdentityLinkFreshAuthEvidence"
  "class_ok IdentityEnrollmentApproval"
  "class_ok IdentityLinkRevocation"
  "class_ok HavenInviteBasisField"
  "class_ok HavenInviteTicket"
  "class_ok HavenInvitePublication"
  "class_ok HavenInviteRevocationNotice"
  "class_ok HavenInviteContactRequest"
  "class_ok HavenInviteReply"
  "class_ok ChatInvitationArtifact"
  "class_ok ChatInvitationAcceptance"
  "class_ok IdentitySigningChallenge"
  by (simp_all add: class_defs)

lemma wire_types_ok: "c \<in> set WIRE_TYPES \<Longrightarrow> class_ok c"
  by (auto simp: WIRE_TYPES_def tables_ok)

text \<open>
  Tables without plain numbers and raw JSON: what they decode does not depend on the order of the
  keys, so it survives the canonical form.
\<close>

fun class_exact :: "model_class \<Rightarrow> bool"
and specs_exact :: "spec list \<Rightarrow> bool"
and kind_exact :: "kind \<Rightarrow> bool" where
  "class_exact (Class n df sps ex) = specs_exact sps"
| "specs_exact [] = True"
| "specs_exact (Spec a key k optional dflt omit # sps) = (kind_exact k \<and> specs_exact sps)"
| "kind_exact (KModel c) = class_exact c"
| "kind_exact (KModels c) = class_exact c"
| "kind_exact KNumber = False"
| "kind_exact KRaw = False"
| "kind_exact k = True"

lemmas exact_induct = class_exact_specs_exact_kind_exact.induct

lemma dget_map_snd: "dget (map (\<lambda>(k, v). (k, f v)) d) k = map_option f (dget d k)"
  by (induction d) auto

lemma getn_canon:
  assumes "distinct (dkeys d)"
  shows "getn (sort_by (item_less ord) (canon_items ord d)) k = canon ord (getn d k)"
proof -
  have "distinct (dkeys (canon_items ord d))"
    using assms by (simp add: canon_items_map comp_def case_prod_unfold)
  then show ?thesis
    by (simp add: getn_def dget_sort_by canon_items_map dget_map_snd split: option.splits)
qed

lemma canon_null: "is_json w \<Longrightarrow> canon ord w = VNull \<longleftrightarrow> w = VNull"
  by (cases w) (auto split: pyfloat.splits)

lemma wf_getn: "wf_items d \<Longrightarrow> wf_val (getn d k)"
  by (induction d) (auto simp: getn_def)

lemma canon_strs: "list_all is_str vs \<Longrightarrow> canon_list ord vs = vs"
  by (induction vs) (auto elim: is_str.elims)

lemma read_canon:
  "class_exact c \<Longrightarrow> wf_val w \<Longrightarrow> is_json w \<Longrightarrow> from_wire c w = Inr m \<Longrightarrow> from_wire c (canon ord w) = Inr m"
  "specs_exact sps \<Longrightarrow> wf_items d \<Longrightarrow> is_json_items d \<Longrightarrow> (\<And>k. getn e k = canon ord (getn d k)) \<Longrightarrow>
     read_specs sps d = Inr fs \<Longrightarrow> read_specs sps e = Inr fs"
  "kind_exact k \<Longrightarrow> wf_val w \<Longrightarrow> is_json w \<Longrightarrow> decode_field k w = Inr v \<Longrightarrow> decode_field k (canon ord w) = Inr v"
proof (induction c and sps and k arbitrary: w m and d e fs and w v rule: exact_induct)
  case (1 n df sps ex)
  then obtain d fs where d: "w = VDict d" "read_specs sps d = Inr fs" "m = Instance (Class n df sps ex) fs"
    by (auto simp: rbind_Inr_iff split: pyval.splits)
  with "1.prems" "1.IH" [of d _ fs] getn_canon [of d ord] show ?case by simp
next
  case (3 a key k optional dflt omit sps)
  have e: "getn e key = canon ord (getn d key)" "is_json (getn d key)" "wf_val (getn d key)"
    using 3 getn_json wf_getn by auto
  then show ?case
    using "3.prems" "3.IH"(1) [of "getn d key"] "3.IH"(2) [of d e] canon_null [of "getn d key" ord]
    by (auto simp: rbind_Inr_iff split: if_splits)
next
  case (5 c)
  have "rmap (from_wire c) (canon_list ord vs) = Inr ms"
    if "rmap (from_wire c) vs = Inr ms" "wf_list vs" "is_json_list vs" for vs ms
    using that "5.IH" "5.prems"(1)
    by (induction vs arbitrary: ms) (auto simp: rbind_Inr_iff)
  then show ?case using "5.prems" by (auto simp: rbind_Inr_iff split: pyval.splits)
qed (auto simp: rbind_Inr_iff unb64_def canon_strs split: pyval.splits option.splits if_splits elim: is_str.elims)

lemma strs_exact: "list_all is_str vs \<Longrightarrow> wf_list vs \<and> floats_ok_list frepr vs"
  by (induction vs) (auto elim: is_str.elims)

lemma written_exact:
  "class_exact c \<Longrightarrow> class_ok c \<Longrightarrow> instance_ok c m \<Longrightarrow> to_wire m = Inr d \<Longrightarrow> wf_val (VDict d) \<and> floats_ok frepr (VDict d)"
  "specs_exact sps \<Longrightarrow> specs_ok sps \<Longrightarrow> fields_ok sps fs \<Longrightarrow> distinct (map sp_name sps) \<Longrightarrow>
     (\<And>sp. sp \<in> set sps \<Longrightarrow> dget gs (sp_name sp) = dget fs (sp_name sp)) \<Longrightarrow>
     members_of gs sps = Inr d \<Longrightarrow> wf_items d \<and> floats_ok_items frepr d"
  "kind_exact k \<Longrightarrow> kind_ok k \<Longrightarrow> fval_ok k v \<Longrightarrow> encode_field k v = Inr w \<Longrightarrow> wf_val w \<and> floats_ok frepr w"
proof (induction c and sps and k arbitrary: m d and fs gs d and v w rule: exact_induct)
  case (1 n df sps ex)
  obtain fs where m: "m = Instance (Class n df sps ex) fs" "fields_ok sps fs"
    using "1.prems" by (cases m) auto
  have "members_of fs sps = Inr d"
    using m(1) "1.prems"(2,4) wire_fields_members [of sps "[]" fs] by (auto simp: rbind_Inr_iff)
  with "1.IH" [of fs fs d] m(2) "1.prems"(1,2) members_distinct [of fs sps d] show ?case by simp
next
  case (3 a key k optional dflt omit sps)
  obtain v fs' where fs: "fs = (a, v) # fs'" "if v = FNone then optional else fval_ok k v" "fields_ok sps fs'"
    using "3.prems"(3) by (auto split: list.splits)
  have tail: "dget gs (sp_name sp) = dget fs' (sp_name sp)" if "sp \<in> set sps" for sp
    using "3.prems"(4) "3.prems"(5) [of sp] that fs(1) by (auto split: if_splits)
  obtain d1 d2 where d: "member_of gs (Spec a key k optional dflt omit) = Inr d1" "members_of gs sps = Inr d2"
      "d = d1 @ d2"
    using "3.prems"(6) by (auto simp: rbind_Inr_iff)
  have "dget gs a = Some v" using "3.prems"(5) [of "Spec a key k optional dflt omit"] fs(1) by simp
  then have "wf_items d1 \<and> floats_ok_items frepr d1"
    using d(1) "3.IH"(1) [of v] "3.prems"(1,2) fs(2)
    by (auto simp: member_of_def rbind_Inr_iff split: if_splits)
  moreover have "wf_items d2 \<and> floats_ok_items frepr d2"
    using "3.IH"(2) [OF _ _ fs(3) _ tail d(2)] "3.prems"(1,2,4) by auto
  ultimately show ?case using d(3) by (auto simp: wf_items_iff floats_ok_items_iff)
next
  case (4 c)
  then show ?case by (auto simp: rbind_Inr_iff split: fval.splits)
next
  case (5 c)
  then obtain ms ws where ms: "v = FObjs ms" "list_all (instance_ok c) ms" "w = VList ws"
      "rmap (\<lambda>m. rbind (to_wire m) (\<lambda>w. Inr (VDict w))) ms = Inr ws"
    by (auto simp: rbind_Inr_iff split: fval.splits)
  have "wf_list ws \<and> floats_ok_list frepr ws"
    using ms(2,4) "5.IH" "5.prems"(1,2) by (induction ms arbitrary: ws) (auto simp: rbind_Inr_iff)
  with ms(3) show ?case by simp
qed (auto simp: strs_exact split: fval.splits pyval.splits elim: is_str.elims)

text \<open>What is written as JSON text and parsed again is read as the same object.\<close>

lemma json_bytes_round_trip:
  assumes "class_ok c" "class_exact c" "instance_ok c m" "to_json_bytes frepr m = Inr bs"
  shows "\<exists>w. json_loads bs = Inr w \<and> from_wire c w = Inr m"
proof -
  obtain d where d: "to_wire m = Inr d" "is_json_items d" "from_wire c (VDict d) = Inr m"
    using wire_round_trip_lemma(1) [OF assms(1,3)] by blast
  with assms(4) have "canonical_json frepr (VDict d) ''encoder'' True = Inr bs" by (simp add: to_json_bytes_def)
  moreover have w: "wf_val (VDict d)" "floats_ok frepr (VDict d)"
    using written_exact(1) [OF assms(2,1,3) d(1)] by simp_all
  ultimately have "json_loads bs = Inr (canon Encoder (VDict d))"
    using canonical_reads_back by (fastforce simp: order_of_def)
  then show ?thesis using read_canon(1) [OF assms(2) w(1) _ d(3), of Encoder] d(2) by simp
qed

subsection \<open>The ticket token\<close>

lemma sextet_in: "n < 64 \<Longrightarrow> sextet_char n \<in> set b64_alphabet"
  using char_sextet_sextet [of n] by (metis char_sextet_def option.distinct(1))

lemma pad_not_in_alphabet: "CHR ''='' \<notin> set b64_alphabet"
  by code_simp

lemma b64_padding:
  "\<exists>body p. b64encode bs = body @ replicate p (CHR ''='') \<and> p \<le> 2
     \<and> (length body + p) mod 4 = 0 \<and> set body \<subseteq> set b64_alphabet"
proof (induction bs rule: b64encode.induct)
  case (2 a)
  have "unat a * 16 div 64 < 64" using group1 [of "unat a"] by simp
  then show ?case unfolding b64encode.simps Let_def
    by (intro exI [of _ "[sextet_char (unat a * 16 div 64), sextet_char (unat a * 16 mod 64)]"] exI [of _ 2])
      (simp add: sextet_in numeral_2_eq_2)
next
  case (3 a b)
  define n where "n = (unat a * 256 + unat b) * 4"
  have "n div 4096 < 64" using group2 [OF _ _ n_def] by simp
  then show ?case unfolding b64encode.simps Let_def n_def [symmetric]
    by (intro exI [of _ "[sextet_char (n div 4096), sextet_char (n div 64 mod 64), sextet_char (n mod 64)]"] exI [of _ 1])
      (simp add: sextet_in)
next
  case (4 a b c rest)
  define n where "n = (unat a * 256 + unat b) * 256 + unat c"
  have l: "n div 262144 < 64" using group3 [OF _ _ _ n_def] by simp
  let ?g = "[sextet_char (n div 262144), sextet_char (n div 4096 mod 64), sextet_char (n div 64 mod 64), sextet_char (n mod 64)]"
  obtain body p where b: "b64encode rest = body @ replicate p (CHR ''='')" "p \<le> 2"
      "(length body + p) mod 4 = 0" "set body \<subseteq> set b64_alphabet"
    using 4 by metis
  have "set ?g \<subseteq> set b64_alphabet" using l by (simp add: sextet_in)
  moreover have "(length (?g @ body) + p) mod 4 = 0"
  proof -
    have "length (?g @ body) + p = 4 + (length body + p)" by simp
    then show ?thesis using b(3) by (simp only: mod_add_self1)
  qed
  moreover have "?g @ b64encode rest = (?g @ body) @ replicate p (CHR ''='')" using b(1) by simp
  ultimately show ?case using b(2,4) unfolding b64encode.simps Let_def n_def [symmetric] by (metis Un_least set_append)
qed (intro exI [of _ "[]"] exI [of _ 0], simp)

lemma alphabet_urlsafe:
  "\<forall>c \<in> set b64_alphabet. standard_char (urlsafe_char c) = c \<and> urlsafe_char c \<noteq> CHR ''='' \<and> of_char (urlsafe_char c) < (128 :: nat)"
  by code_simp

lemma py_len_ascii: "is_ascii s \<Longrightarrow> py_len s = length s"
proof -
  assume "is_ascii s"
  then have "\<not> cont_byte b" if "b \<in> set (encode_utf8 s)" for b
    using that by (auto simp: encode_utf8_def is_ascii_def cont_byte_def word_le_nat_alt unat_of_char)
  then show "py_len s = length s" by (simp add: py_len_def filter_id_conv [THEN iffD2])
qed

lemma pad_count: "p \<le> (2::nat) \<Longrightarrow> (n + p) mod 4 = 0 \<Longrightarrow> (4 - n mod 4) mod 4 = p"
proof -
  assume "p \<le> 2" and n: "(n + p) mod 4 = 0"
  define r where "r = n mod 4"
  have "(r + p) mod 4 = 0" "r < 4" using n by (simp_all add: r_def mod_add_left_eq)
  have "r = 0 \<and> p = 0 \<or> r = 2 \<and> p = 2 \<or> r = 3 \<and> p = 1"
  proof -
    have "r = 0 \<or> r = 1 \<or> r = 2 \<or> r = 3" "p = 0 \<or> p = 1 \<or> p = 2"
      using \<open>r < 4\<close> \<open>p \<le> 2\<close> by linarith+
    with \<open>(r + p) mod 4 = 0\<close> show ?thesis by (elim disjE) simp_all
  qed
  then show "(4 - n mod 4) mod 4 = p" unfolding r_def [symmetric] by (elim disjE) simp_all
qed

text \<open>A token is decoded to the bytes it was made of.\<close>

lemma token_decodes:
  fixes bs :: bytes
  defines "token \<equiv> rstrip_of (\<lambda>c. c = CHR ''='') (map urlsafe_char (b64encode bs))"
  defines "padded \<equiv> token @ replicate ((4 - py_len token mod 4) mod 4) (CHR ''='')"
  shows "is_ascii padded \<and> b64decode_lax (map standard_char padded) = Some bs"
proof -
  obtain body p where b: "b64encode bs = body @ replicate p (CHR ''='')" "p \<le> 2"
      "(length body + p) mod 4 = 0" "set body \<subseteq> set b64_alphabet"
    using b64_padding [of bs] by metis
  have body: "\<forall>c \<in> set body. standard_char (urlsafe_char c) = c \<and> urlsafe_char c \<noteq> CHR ''='' \<and> of_char (urlsafe_char c) < (128 :: nat)"
    using b(4) alphabet_urlsafe by blast
  have "dropWhile (\<lambda>c. c = CHR ''='') (replicate p (CHR ''='') @ xs) = dropWhile (\<lambda>c. c = CHR ''='') xs" for xs
    by (induction p) auto
  moreover have "dropWhile (\<lambda>c. c = CHR ''='') (rev (map urlsafe_char body)) = rev (map urlsafe_char body)"
    using body by (auto simp: dropWhile_eq_self_iff hd_rev last_map)
  moreover have "urlsafe_char (CHR ''='') = CHR ''=''" "standard_char (CHR ''='') = CHR ''=''"
    by (simp_all add: urlsafe_char_def standard_char_def)
  ultimately have t: "token = map urlsafe_char body" and e: "standard_char (CHR ''='') = CHR ''=''"
    by (simp_all add: token_def b(1) rstrip_of_def rev_map)
  have a: "is_ascii token" using body by (auto simp: t is_ascii_def)
  then have "padded = map urlsafe_char body @ replicate p (CHR ''='')"
    using pad_count [OF b(2,3)] by (simp add: padded_def py_len_ascii t)
  moreover have "map standard_char (map urlsafe_char body) = body"
    using body by (simp add: map_idI)
  ultimately show ?thesis using a b64decode_lax_encode [of bs]
    by (auto simp: b(1) e t is_ascii_def)
qed

lemma version_one: "feq v (FVal (VInt 1)) \<longleftrightarrow> (\<exists>u. v = FVal u \<and> num_val u = Some (Fin 1))"
  by (cases v; cases "case v of FVal u \<Rightarrow> u") auto

lemma ticket_ok: "class_ok HavenInviteTicket" "class_exact HavenInviteTicket"
  by (simp_all add: tables_ok) (simp add: class_defs)

subsection \<open>What the wire types promise\<close>

text \<open>
  C19: reading any JSON as a wire type either raises \<open>WireDecodeError\<close>, and nothing else, or
  returns an object with exactly the type's attributes, each of its declared kind and absent only
  where the table allows it.
\<close>

theorem wire_types_typed:
  assumes "c \<in> set WIRE_TYPES" "is_json w"
  shows "from_wire c w = Inl WireDecodeError \<or> (\<exists>m. from_wire c w = Inr m \<and> instance_ok c m)"
  using from_wire_raises(1) [of c w] from_wire_ok(1) [OF wire_types_ok [OF assms(1)] assms(2)]
  by (cases "from_wire c w") auto

text \<open>
  C20: every well-typed object of a wire type is written, as JSON, and read back as itself:
  optional fields that are absent stay absent and omitted defaults come back.
\<close>

theorem wire_types_round_trip:
  assumes "c \<in> set WIRE_TYPES" "instance_ok c m"
  shows "\<exists>d. to_wire m = Inr d \<and> is_json (VDict d) \<and> from_wire c (VDict d) = Inr m"
  using wire_round_trip_lemma(1) [OF wire_types_ok [OF assms(1)] assms(2)] by auto

lemma token_reads_back:
  assumes "instance_ok HavenInviteTicket m" "attr m ''version'' = Inr (FVal (VInt 1))"
    and "to_token frepr m = Inr token"
  shows "from_token token = Inr m"
proof -
  obtain bs where bs: "to_json_bytes frepr m = Inr bs"
      and tok: "token = rstrip_of (\<lambda>c. c = CHR ''='') (map urlsafe_char (b64encode bs))"
    using assms(3) by (auto simp: to_token_def rbind_Inr_iff)
  obtain w where w: "json_loads bs = Inr w" "from_wire HavenInviteTicket w = Inr m"
    using json_bytes_round_trip [OF ticket_ok assms(1) bs] by blast
  show ?thesis using token_decodes [of bs] w assms(2)
    by (simp add: from_token_def Let_def tok)
qed

text \<open>
  The token of a version 1 ticket, which is put in a link, is read back as the same ticket.
\<close>

lemma ticket_token_round_trip:
  assumes "instance_ok HavenInviteTicket m" "attr m ''version'' = Inr (FVal (VInt 1))"
    and "to_token frepr m = Inr token"
  shows "from_token token = Inr m"
  by (rule token_reads_back [OF assms])


subsection \<open>Concrete runs\<close>

definition example_descriptor :: "instance" where
  "example_descriptor = Instance IdentityPublicKeyDescriptor
     [(''uuid'', FVal (VStr ''u'')), (''public_key'', FVal (VBytes [])), (''algorithm'', FVal (VStr ''EdDSA'')),
      (''curve_type'', FVal (VStr ''Curve25519'')), (''display_name'', FNone)]"

definition example_ticket :: "instance" where
  "example_ticket = Instance HavenInviteTicket
     [(''version'', FVal (VInt 1)), (''ticket_id'', FVal (VStr ''t-1'')), (''issuer'', FObj example_descriptor),
      (''issuer_display_name'', FVal (VStr ''Ida'')), (''issuer_contact_endpoint'', FVal (VStr ''e'')),
      (''issuer_entity_ref'', FNone), (''audience_token'', FVal (VStr ''a'')), (''audience_kind'', FVal (VStr ''email'')),
      (''human_code'', FVal (VStr ''h'')), (''greeting_name'', FNone), (''note'', FNone), (''identity_domain'', FNone),
      (''basis'', FObjs []), (''created_at'', FVal (VInt 100)), (''expires_at'', FVal (VInt 200)),
      (''nonce'', FVal (VBytes [])), (''capabilities'', FVal (VList [VStr ''c''])), (''proof'', FNone)]"

definition example_wire :: "pyval dict" where
  "example_wire =
     [(''v'', VInt 1), (''t'', VStr ''t-1''),
      (''is'', VDict [(''uuid'', VStr ''u''), (''publicKey'', VStr []), (''algorithm'', VStr ''EdDSA''),
        (''curveType'', VStr ''Curve25519'')]),
      (''n'', VStr ''Ida''), (''ce'', VStr ''e''), (''au'', VStr ''a''), (''ak'', VStr ''email''), (''hc'', VStr ''h''),
      (''ca'', VInt 100), (''ea'', VInt 200), (''cp'', VList [VStr ''c''])]"

lemma example_ticket_ok: "instance_ok HavenInviteTicket example_ticket"
  by (simp add: class_defs example_ticket_def example_descriptor_def)

lemma example_ticket_wire: "to_wire example_ticket = Inr example_wire"
  by (simp add: class_defs example_ticket_def example_descriptor_def default_value_def plain_value_def
      example_wire_def)

lemma wire_types_typed_witness:
  "from_wire HavenInviteTicket (VDict [(''v'', VStr ''1'')]) = Inl WireDecodeError"
proof -
  have "\<not> (\<exists>m. from_wire HavenInviteTicket (VDict [(''v'', VStr ''1'')]) = Inr m)"
    by (simp add: class_defs getn_def)
  with wire_types_typed [of HavenInviteTicket "VDict [(''v'', VStr ''1'')]"] show ?thesis
    by (auto simp: WIRE_TYPES_def)
qed

lemma wire_types_round_trip_witness: "from_wire HavenInviteTicket (VDict example_wire) = Inr example_ticket"
  using wire_types_round_trip [of HavenInviteTicket, OF _ example_ticket_ok] example_ticket_wire
  by (simp add: WIRE_TYPES_def)

lemma example_ticket_token: "\<exists>token. to_token (\<lambda>q. []) example_ticket = Inr token"
proof -
  have "\<exists>t. write_json (\<lambda>q. []) Encoder True (VDict example_wire) = Inr t \<and> is_ascii t"
    by (rule exI, rule conjI, code_simp, code_simp)
  then show ?thesis
    by (auto simp: to_token_def to_json_bytes_def example_ticket_wire canonical_json_def valid_utf8_ascii)
qed

lemma ticket_token_round_trip_witness:
  "\<exists>token. to_token (\<lambda>q. []) example_ticket = Inr token \<and> from_token token = Inr example_ticket"
proof -
  obtain token where "to_token (\<lambda>q. []) example_ticket = Inr token" using example_ticket_token by blast
  moreover have "attr example_ticket ''version'' = Inr (FVal (VInt 1))" by (simp add: attr_def example_ticket_def)
  ultimately show ?thesis using ticket_token_round_trip [OF example_ticket_ok] by blast
qed

end
