(* ===== verification/Sha256.thy ===== *)
theory Sha256
  imports Prelude
begin

text \<open>
  \<open>hashlib.sha256(data).digest()\<close> and \<open>.hexdigest()\<close>: the compression function of FIPS 180-4 on
  32-bit words, over the padded message. Nothing in the development assumes that it has no
  collisions; where a property speaks of equal digests it says so.
\<close>

unbundle bit_operations_syntax

definition round_constants :: "32 word list" where
  "round_constants =
    [0x428a2f98, 0x71374491, 0xb5c0fbcf, 0xe9b5dba5, 0x3956c25b, 0x59f111f1, 0x923f82a4, 0xab1c5ed5,
     0xd807aa98, 0x12835b01, 0x243185be, 0x550c7dc3, 0x72be5d74, 0x80deb1fe, 0x9bdc06a7, 0xc19bf174,
     0xe49b69c1, 0xefbe4786, 0x0fc19dc6, 0x240ca1cc, 0x2de92c6f, 0x4a7484aa, 0x5cb0a9dc, 0x76f988da,
     0x983e5152, 0xa831c66d, 0xb00327c8, 0xbf597fc7, 0xc6e00bf3, 0xd5a79147, 0x06ca6351, 0x14292967,
     0x27b70a85, 0x2e1b2138, 0x4d2c6dfc, 0x53380d13, 0x650a7354, 0x766a0abb, 0x81c2c92e, 0x92722c85,
     0xa2bfe8a1, 0xa81a664b, 0xc24b8b70, 0xc76c51a3, 0xd192e819, 0xd6990624, 0xf40e3585, 0x106aa070,
     0x19a4c116, 0x1e376c08, 0x2748774c, 0x34b0bcb5, 0x391c0cb3, 0x4ed8aa4a, 0x5b9cca4f, 0x682e6ff3,
     0x748f82ee, 0x78a5636f, 0x84c87814, 0x8cc70208, 0x90befffa, 0xa4506ceb, 0xbef9a3f7, 0xc67178f2]"

definition initial_hash :: "32 word list" where
  "initial_hash =
    [0x6a09e667, 0xbb67ae85, 0x3c6ef372, 0xa54ff53a, 0x510e527f, 0x9b05688c, 0x1f83d9ab, 0x5be0cd19]"

definition rotr :: "nat \<Rightarrow> 32 word \<Rightarrow> 32 word" where
  "rotr n x = word_rotr n x"

text \<open>Big-endian bytes of a word, and back.\<close>

definition word_bytes :: "nat \<Rightarrow> nat \<Rightarrow> bytes" where
  "word_bytes k n = map (\<lambda>i. word_of_nat (n div 256 ^ i)) (rev [0..<k])"

fun words_of :: "bytes \<Rightarrow> 32 word list" where
  "words_of (a # b # c # d # bs) =
     (push_bit 24 (ucast a) OR push_bit 16 (ucast b) OR push_bit 8 (ucast c) OR ucast d) # words_of bs"
| "words_of _ = []"

text \<open>The padding: one bit, zeros up to 56 modulo 64, the length in bits as 8 bytes.\<close>

definition padded :: "bytes \<Rightarrow> bytes" where
  "padded m = m @ [0x80] @ replicate ((119 - length m mod 64) mod 64) 0 @ word_bytes 8 (8 * length m)"

text \<open>The message schedule, newest word first.\<close>

fun schedule :: "nat \<Rightarrow> 32 word list \<Rightarrow> 32 word list" where
  "schedule 0 ws = rev ws"
| "schedule (Suc n) ws =
     (let w15 = ws ! 14; w2 = ws ! 1;
          s0 = rotr 7 w15 XOR rotr 18 w15 XOR drop_bit 3 w15;
          s1 = rotr 17 w2 XOR rotr 19 w2 XOR drop_bit 10 w2
      in schedule n ((ws ! 15 + s0 + ws ! 6 + s1) # ws))"

fun rounds :: "(32 word \<times> 32 word) list \<Rightarrow> 32 word list \<Rightarrow> 32 word list" where
  "rounds ((k, w) # kws) [a, b, c, d, e, f, g, h] =
     (let s1 = rotr 6 e XOR rotr 11 e XOR rotr 25 e;
          ch = (e AND f) XOR (NOT e AND g);
          t1 = h + s1 + ch + k + w;
          s0 = rotr 2 a XOR rotr 13 a XOR rotr 22 a;
          maj = (a AND b) XOR (a AND c) XOR (b AND c)
      in rounds kws [t1 + (s0 + maj), a, b, c, d + t1, e, f, g])"
| "rounds _ hs = hs"

definition compress :: "32 word list \<Rightarrow> 32 word list \<Rightarrow> 32 word list" where
  "compress hs block =
     map2 (+) hs (rounds (zip round_constants (schedule 48 (rev block))) hs)"

function blocks :: "32 word list \<Rightarrow> 32 word list \<Rightarrow> 32 word list" where
  "blocks hs ws = (if length ws < 16 then hs else blocks (compress hs (take 16 ws)) (drop 16 ws))"
  by pat_completeness auto
termination by (relation "measure (\<lambda>(hs, ws). length ws)") auto

declare blocks.simps [simp del]

definition sha256 :: "bytes \<Rightarrow> bytes" where
  "sha256 m = concat (map (\<lambda>w. word_bytes 4 (unat w)) (blocks initial_hash (words_of (padded m))))"

definition hex_of_byte :: "8 word \<Rightarrow> string" where
  "hex_of_byte b = [''0123456789abcdef'' ! (unat b div 16), ''0123456789abcdef'' ! (unat b mod 16)]"

definition hexdigest :: "bytes \<Rightarrow> string" where
  "hexdigest m = concat (map hex_of_byte (sha256 m))"

lemma length_blocks: "length hs = 8 \<Longrightarrow> length (blocks hs ws) = 8"
proof (induction hs ws rule: blocks.induct)
  case (1 hs ws)
  have r: "length (rounds kws hs') = length hs'" for kws hs'
    by (induction kws hs' rule: rounds.induct) (simp_all add: Let_def)
  then have "length (compress hs b) = 8" for b using 1(2) by (simp add: compress_def)
  then show ?case using 1(1) 1(2) by (subst blocks.simps) auto
qed

lemma length_sha256: "length (sha256 m) = 32"
proof -
  have "length (blocks initial_hash ws) = 8" for ws
    by (rule length_blocks) (simp add: initial_hash_def)
  moreover have "length (concat (map (\<lambda>w. word_bytes 4 (unat w)) ws)) = 4 * length ws" for ws :: "32 word list"
    by (induction ws) (simp_all add: word_bytes_def)
  ultimately show ?thesis unfolding sha256_def by (simp only:)
qed

text \<open>The digest in hexadecimal is 64 ASCII characters.\<close>

lemma hexdigest_length: "length (hexdigest m) = 64"
proof -
  have "length (concat (map hex_of_byte bs)) = 2 * length bs" for bs
    by (induction bs) (simp_all add: hex_of_byte_def)
  then show ?thesis by (simp add: hexdigest_def length_sha256)
qed

lemma hex_table: "\<forall>n \<in> set [0..<16]. of_char (''0123456789abcdef'' ! n) < (128 :: nat)"
  by code_simp

lemma hexdigest_ascii: "is_ascii (hexdigest m)"
proof -
  have "of_char (''0123456789abcdef'' ! (unat b div 16)) < (128 :: nat)"
    "of_char (''0123456789abcdef'' ! (unat b mod 16)) < (128 :: nat)" for b :: "8 word"
    using hex_table unsigned_less [of b, where 'a = nat] by auto
  then show ?thesis by (auto simp: hexdigest_def is_ascii_def hex_of_byte_def)
qed

end
