(* ===== verification/Iso_Date.thy ===== *)
theory Iso_Date
  imports Py_Numbers
begin

text \<open>
  \<open>datetime.fromisoformat\<close> (Python 3.11 and later) as far as the code uses it: an aware date and
  time as seconds since the epoch. Modelled are the forms its documentation names: calendar dates
  \<open>YYYY-MM-DD\<close> and \<open>YYYYMMDD\<close>, week dates with and without separators and day, any one character
  between date and time, times of hours, minutes and seconds in the extended or the basic form with
  a fraction after the seconds (digits past the sixth are ignored), an offset in the same forms or
  \<open>Z\<close>. Year 1 to 9999, as \<open>datetime\<close> has it.
\<close>

subsection \<open>Numbers and days\<close>

definition digits_of :: "nat \<Rightarrow> string \<Rightarrow> nat option" where
  "digits_of n s =
     (if n \<le> length s \<and> list_all is_digit (take n s) then Some (read_digits (take n s)) else None)"

definition is_leap :: "int \<Rightarrow> bool" where
  "is_leap y \<longleftrightarrow> y mod 4 = 0 \<and> (y mod 100 \<noteq> 0 \<or> y mod 400 = 0)"

definition month_days :: "int \<Rightarrow> int \<Rightarrow> int" where
  "month_days y m = (if m = 2 then (if is_leap y then 29 else 28) else if m \<in> {4, 6, 9, 11} then 30 else 31)"

definition days_before_month :: "int \<Rightarrow> int \<Rightarrow> int" where
  "days_before_month y m = (\<Sum>k \<leftarrow> [1..m - 1]. month_days y k)"

text \<open>The proleptic Gregorian ordinal: day 1 is the first of January of year 1.\<close>

definition ordinal :: "int \<Rightarrow> int \<Rightarrow> int \<Rightarrow> int" where
  "ordinal y m d =
     (y - 1) * 365 + (y - 1) div 4 - (y - 1) div 100 + (y - 1) div 400 + days_before_month y m + d"

definition MAX_ORDINAL :: int where
  "MAX_ORDINAL = 3652059"

definition calendar_date :: "int \<Rightarrow> int \<Rightarrow> int \<Rightarrow> int option" where
  "calendar_date y m d =
     (if 1 \<le> y \<and> y \<le> 9999 \<and> 1 \<le> m \<and> m \<le> 12 \<and> 1 \<le> d \<and> d \<le> month_days y m then Some (ordinal y m d) else None)"

text \<open>The Monday of the first ISO week, and a week date.\<close>

definition week_one :: "int \<Rightarrow> int" where
  "week_one y =
     (let first = ordinal y 1 1; weekday = (first + 6) mod 7
      in first - weekday + (if weekday > 3 then 7 else 0))"

definition week_date :: "int \<Rightarrow> int \<Rightarrow> int \<Rightarrow> int option" where
  "week_date y w d =
     (let first = ordinal y 1 1 mod 7; n = week_one y + (w - 1) * 7 + (d - 1)
      in if 1 \<le> y \<and> y \<le> 9999 \<and> (1 \<le> w \<and> w \<le> 52 \<or> w = 53 \<and> (first = 4 \<or> first = 3 \<and> is_leap y))
            \<and> 1 \<le> d \<and> d \<le> 7 \<and> 1 \<le> n \<and> n \<le> MAX_ORDINAL
         then Some n else None)"

subsection \<open>The date part\<close>

text \<open>Where the date ends.\<close>

definition date_end :: "string \<Rightarrow> nat option" where
  "date_end s =
     (if length s < 7 then None
      else if length s = 7 then Some 7
      else if s ! 4 = CHR ''-'' then
        (if s ! 5 = CHR ''W'' then
           (if length s > 8 \<and> s ! 8 = CHR ''-''
            then (if length s = 9 then None
                  else if length s > 10 \<and> is_digit (s ! 10) then Some 8 else Some 10)
            else Some 8)
         else Some 10)
      else if s ! 4 = CHR ''W'' then
        (let i = 7 + length (takeWhile is_digit (drop 7 s))
         in Some (if i < 9 then i else if even i then 7 else 8))
      else Some 8)"

definition parse_date :: "string \<Rightarrow> int option" where
  "parse_date s =
     (let sep = (4 < length s \<and> s ! 4 = CHR ''-'');
          rest = drop (if sep then 5 else 4) s;
          skip = (\<lambda>t. case t of c # t' \<Rightarrow> if sep then (if c = CHR ''-'' then Some t' else None)
                                          else (if c = CHR ''-'' then None else Some t)
                      | [] \<Rightarrow> if sep then None else Some [])
      in case digits_of 4 s of
           None \<Rightarrow> None
         | Some y \<Rightarrow>
             (case rest of
                c # week \<Rightarrow>
                  if c = CHR ''W'' then
                    (case digits_of 2 week of
                       None \<Rightarrow> None
                     | Some w \<Rightarrow>
                         (if length week \<le> 2 then week_date (int y) (int w) 1
                          else case skip (drop 2 week) of
                            None \<Rightarrow> None
                          | Some t \<Rightarrow> (if length t = 1 then (case digits_of 1 t of
                                None \<Rightarrow> None | Some d \<Rightarrow> week_date (int y) (int w) (int d)) else None)))
                  else
                    (case digits_of 2 rest of
                       None \<Rightarrow> None
                     | Some m \<Rightarrow>
                         (case skip (drop 2 rest) of
                            None \<Rightarrow> None
                          | Some t \<Rightarrow> (if length t = 2 then (case digits_of 2 t of
                                None \<Rightarrow> None | Some d \<Rightarrow> calendar_date (int y) (int m) (int d)) else None)))
              | [] \<Rightarrow> None))"

subsection \<open>The time part\<close>

text \<open>Microseconds of a fraction, and a clock time in microseconds (hour, minute and second bounds as given).\<close>

definition fraction :: "string \<Rightarrow> int option" where
  "fraction s =
     (case s of
        [] \<Rightarrow> Some 0
      | c # ds \<Rightarrow>
          (if (c = CHR ''.'' \<or> c = CHR '','') \<and> ds \<noteq> [] \<and> list_all is_digit ds
           then Some (int (read_digits (take 6 ds) * 10 ^ (6 - length (take 6 ds)))) else None))"

definition clock :: "nat \<Rightarrow> nat \<Rightarrow> nat \<Rightarrow> int \<Rightarrow> int option" where
  "clock h m s f =
     (if h < 24 \<and> m < 60 \<and> s < 60 then Some (((int h * 60 + int m) * 60 + int s) * 1000000 + f) else None)"

definition parse_clock :: "string \<Rightarrow> int option" where
  "parse_clock t =
     (case digits_of 2 t of
        None \<Rightarrow> None
      | Some h \<Rightarrow>
          (let r = drop 2 t; sep = (r \<noteq> [] \<and> hd r = CHR '':'');
               skip = (\<lambda>r. if sep then (if r \<noteq> [] \<and> hd r = CHR '':'' then Some (tl r) else None) else Some r)
           in if r = [] then clock h 0 0 0
              else case skip r of
                None \<Rightarrow> None
              | Some r \<Rightarrow>
                  (case digits_of 2 r of
                     None \<Rightarrow> None
                   | Some m \<Rightarrow>
                       (if drop 2 r = [] then clock h m 0 0
                        else case skip (drop 2 r) of
                          None \<Rightarrow> None
                        | Some r \<Rightarrow>
                            (case (digits_of 2 r, fraction (drop 2 r)) of
                               (Some s, Some f) \<Rightarrow> clock h m s f
                             | _ \<Rightarrow> None)))))"

text \<open>The time and its offset; no offset makes the value naive.\<close>

definition is_sign :: "char \<Rightarrow> bool" where
  "is_sign c \<longleftrightarrow> c = CHR ''+'' \<or> c = CHR ''-'' \<or> c = CHR ''Z''"

definition parse_time :: "string \<Rightarrow> (int \<times> int option) option" where
  "parse_time s =
     (let t = takeWhile (\<lambda>c. \<not> is_sign c) s; z = dropWhile (\<lambda>c. \<not> is_sign c) s
      in case parse_clock t of
           None \<Rightarrow> None
         | Some us \<Rightarrow>
             (case z of
                [] \<Rightarrow> Some (us, None)
              | c # off \<Rightarrow>
                  (if c = CHR ''Z'' then (if off = [] then Some (us, Some 0) else None)
                   else case parse_clock off of
                     None \<Rightarrow> None
                   | Some o_us \<Rightarrow> Some (us, Some (if c = CHR ''-'' then - o_us else o_us)))))"

subsection \<open>The whole\<close>

definition cont_char :: "char \<Rightarrow> bool" where
  "cont_char c \<longleftrightarrow> cont_byte (of_char c)"

text \<open>
  \<open>datetime.fromisoformat(text)\<close> of an aware value in microseconds since the epoch, in UTC:
  \<open>None\<close> for a \<open>ValueError\<close> or a naive value.
\<close>

definition EPOCH_ORDINAL :: int where
  "EPOCH_ORDINAL = 719163"

definition DAY_US :: int where
  "DAY_US = 86400 * 1000000"

definition aware_datetime :: "string \<Rightarrow> int option" where
  "aware_datetime s =
     (case date_end s of
        None \<Rightarrow> None
      | Some n \<Rightarrow>
          (case parse_date (take n s) of
             None \<Rightarrow> None
           | Some day \<Rightarrow>
               (case drop n s of
                  [] \<Rightarrow> None
                | c # rest \<Rightarrow>
                    (case parse_time (dropWhile cont_char rest) of
                       Some (us, Some off) \<Rightarrow> Some ((day - EPOCH_ORDINAL) * DAY_US + us - off)
                     | _ \<Rightarrow> None))))"

text \<open>\<open>astimezone(timezone.utc)\<close> raises \<open>OverflowError\<close> outside the years 1 to 9999.\<close>

definition in_utc :: "int \<Rightarrow> int res" where
  "in_utc us =
     (if (1 - EPOCH_ORDINAL) * DAY_US \<le> us \<and> us < (MAX_ORDINAL + 1 - EPOCH_ORDINAL) * DAY_US
      then Inr us else Inl OverflowError)"

end
