(* ===== verification/Verify.thy ===== *)
theory Verify
  imports Models Identity Sha256 Iso_Date
begin

text \<open>
  \<open>interop/verify.py\<close>: signing and verifying the wire models, with the refusal codes of the Swift
  implementation. A verifier is a list of checks; the first that fails decides the code. Reading an
  attribute an object does not have is an \<open>AttributeError\<close>, as in the code; on the well-typed
  objects that \<open>from_wire\<close> returns it does not happen. Ed25519 is the parameter \<open>crypto\<close>, the clock
  an argument, SHA-256 and ISO dates are modelled.
\<close>

subsection \<open>Reading attributes and checking\<close>

text \<open>\<open>m.a.b\<close>: the attribute at the end of a path of attributes.\<close>

fun path :: "instance \<Rightarrow> string list \<Rightarrow> fval res" where
  "path m [] = Inr (FObj m)"
| "path m [a] = attr m a"
| "path m (a # b # as) =
     rbind (attr m a) (\<lambda>v. case v of FObj n \<Rightarrow> path n (b # as) | _ \<Rightarrow> Inl AttributeError)"

definition obj_at :: "instance \<Rightarrow> string list \<Rightarrow> instance res" where
  "obj_at m p = rbind (path m p) (\<lambda>v. case v of FObj n \<Rightarrow> Inr n | _ \<Rightarrow> Inl AttributeError)"

definition str_at :: "instance \<Rightarrow> string list \<Rightarrow> string res" where
  "str_at m p = rbind (path m p) (\<lambda>v. case v of FVal (VStr s) \<Rightarrow> Inr s | _ \<Rightarrow> Inl TypeError)"

definition bytes_at :: "instance \<Rightarrow> string list \<Rightarrow> bytes res" where
  "bytes_at m p = rbind (path m p) (\<lambda>v. case v of FVal (VBytes bs) \<Rightarrow> Inr bs | _ \<Rightarrow> Inl TypeError)"

definition same :: "fval res \<Rightarrow> fval res \<Rightarrow> bool res" where
  "same a b = rbind a (\<lambda>v. rbind b (\<lambda>w. Inr (feq v w)))"

text \<open>\<open>x is not None\<close>, and \<open>proof is not None and proof.signature is not None\<close>.\<close>

definition has :: "fval res \<Rightarrow> bool res" where
  "has a = rbind a (\<lambda>v. Inr (v \<noteq> FNone))"

definition is_signed :: "instance \<Rightarrow> bool res" where
  "is_signed m = rbind (attr m ''proof'') (\<lambda>p. if p = FNone then Inr False else has (path m [''proof'', ''signature'']))"

text \<open>\<open>if not c: raise VerificationFailure(code)\<close>, and a sequence of such steps.\<close>

definition check :: "bool res \<Rightarrow> string \<Rightarrow> unit res" where
  "check c code = rbind c (\<lambda>b. if b then Inr () else Inl (VerificationFailure code))"

fun checks :: "unit res list \<Rightarrow> unit res" where
  "checks [] = Inr ()"
| "checks (c # cs) = rbind c (\<lambda>_. checks cs)"

definition both :: "bool res \<Rightarrow> bool res \<Rightarrow> bool res" where
  "both a b = rbind a (\<lambda>x. if x then b else Inr False)"

lemma check_Inr [err_simps]: "check c code = Inr u \<longleftrightarrow> c = Inr True"
  by (cases c) (auto simp: check_def)

lemma checks_Inr [err_simps]: "checks cs = Inr u \<longleftrightarrow> (\<forall>c \<in> set cs. c = Inr ())"
  by (induction cs) (auto simp: rbind_Inr_iff)

lemma both_True [err_simps]: "both a b = Inr True \<longleftrightarrow> a = Inr True \<and> b = Inr True"
  by (cases a) (auto simp: both_def)

subsection \<open>Signatures\<close>

text \<open>\<open>verify_signature\<close>: Ed25519 keys of 32 and signatures of 64 bytes.\<close>

definition verify_signature :: "crypto \<Rightarrow> fval \<Rightarrow> bytes \<Rightarrow> instance \<Rightarrow> bool res" where
  "verify_signature cr signature message descriptor =
     (if signature = FNone then Inr False
      else rbind (path descriptor [''algorithm'']) (\<lambda>al. rbind (path descriptor [''curve_type'']) (\<lambda>cv.
        if \<not> (feq al (FVal (VStr ''EdDSA'')) \<and> feq cv (FVal (VStr ''Curve25519''))) then Inr False
        else rbind (bytes_at descriptor [''public_key'']) (\<lambda>pk.
          (case signature of
             FVal (VBytes sig) \<Rightarrow> Inr (length pk = 32 \<and> length sig = 64 \<and> ed_verify cr pk sig message)
           | _ \<Rightarrow> (if length pk \<noteq> 32 then Inr False else Inl TypeError))))))"

text \<open>\<open>descriptor.fingerprint\<close> and \<open>same_key\<close> of \<open>IdentityPublicKeyDescriptor\<close>.\<close>

definition fingerprint :: "instance \<Rightarrow> string res" where
  "fingerprint m =
     rbind (str_at m [''algorithm'']) (\<lambda>al. rbind (str_at m [''curve_type'']) (\<lambda>cv.
     rbind (bytes_at m [''public_key'']) (\<lambda>pk. Inr (al @ '':'' @ cv @ '':'' @ b64encode pk))))"

definition same_key :: "instance \<Rightarrow> instance \<Rightarrow> bool res" where
  "same_key m n =
     both (same (path m [''uuid'']) (path n [''uuid'']))
       (both (same (path m [''public_key'']) (path n [''public_key'']))
         (both (same (path m [''algorithm'']) (path n [''algorithm'']))
           (same (path m [''curve_type'']) (path n [''curve_type'']))))"

text \<open>\<open>sign_model\<close>: the signer is a function from payload to signature.\<close>

definition sign_model :: "(rat \<Rightarrow> string) \<Rightarrow> instance \<Rightarrow> (bytes \<Rightarrow> bytes) \<Rightarrow> string \<Rightarrow> instance res" where
  "sign_model frepr m signer signer_uuid =
     rbind (model_payload frepr m) (\<lambda>payload.
       (let signature = FVal (VBytes (signer payload)); name = class_name (inst_class m);
            proof = (case dget (inst_fields m) ''proof'' of Some p \<Rightarrow> p | None \<Rightarrow> FNone);
            args = [(''by_identity_uuid'', FVal (VStr signer_uuid)), (''signature'', signature)]
        in if name \<in> {''IdentityEnrollmentApproval'', ''IdentityLinkRevocation''} then
             (case proof of
                FObj p \<Rightarrow> Inr (replace_attr ''proof'' (FObj (replace_attr ''signature'' signature p)) m)
              | _ \<Rightarrow> if proof = FNone then Inl ValueError else Inl AttributeError)
           else if name \<in> {''HavenInviteTicket'', ''HavenInvitePublication'', ''HavenInviteReply'',
                            ''HavenInviteRevocationNotice'', ''HavenInviteContactRequest''} then
             rbind (new_object HavenSignatureProof args) (\<lambda>p. Inr (replace_attr ''proof'' (FObj p) m))
           else if name \<in> {''IdentityEnrollmentRequest'', ''ChatInvitationArtifact'', ''ChatInvitationAcceptance''} then
             rbind (new_object SignatureProof args) (\<lambda>p. Inr (replace_attr ''proof'' (FObj p) m))
           else Inl TypeError))"

text \<open>\<open>_iso_date\<close>, in microseconds since the epoch; \<open>None\<close> when it is not an aware ISO date.\<close>

definition iso_date :: "fval \<Rightarrow> int option res" where
  "iso_date v =
     (case v of
        FVal (VStr value) \<Rightarrow>
          (let text = py_strip value;
               text = (if endswith text ''Z'' then take (length text - 1) text @ ''+00:00'' else text)
           in case aware_datetime text of
                None \<Rightarrow> Inr None
              | Some us \<Rightarrow> rbind (in_utc us) (\<lambda>us. Inr (Some us)))
      | _ \<Rightarrow> Inl AttributeError)"

definition seconds :: "int \<Rightarrow> rat" where
  "seconds us = of_int us / 1000000"

subsection \<open>Entity extension\<close>

definition request_hash :: "(rat \<Rightarrow> string) \<Rightarrow> instance \<Rightarrow> bytes res" where
  "request_hash frepr request = rbind (model_payload frepr request) (\<lambda>p. Inr (sha256 p))"

text \<open>\<open>verify_signature(proof.signature, m.canonical_payload(), descriptor)\<close>.\<close>

definition proof_verifies :: "crypto \<Rightarrow> (rat \<Rightarrow> string) \<Rightarrow> instance \<Rightarrow> instance res \<Rightarrow> bool res" where
  "proof_verifies cr frepr m descriptor =
     rbind (path m [''proof'', ''signature'']) (\<lambda>sig. rbind (model_payload frepr m) (\<lambda>payload.
       rbind descriptor (\<lambda>d. verify_signature cr sig payload d)))"

definition verify_enrollment_request :: "crypto \<Rightarrow> (rat \<Rightarrow> string) \<Rightarrow> instance \<Rightarrow> unit res" where
  "verify_enrollment_request cr frepr request =
     checks [
       check (is_signed request) ''unsigned'',
       check (same (path request [''proof'', ''by_identity_uuid'']) (path request [''new_identity'', ''uuid''])) ''issuer_mismatch'',
       check (proof_verifies cr frepr request (obj_at request [''new_identity''])) ''bad_signature'']"

definition verify_enrollment_approval ::
    "crypto \<Rightarrow> (rat \<Rightarrow> string) \<Rightarrow> instance \<Rightarrow> instance \<Rightarrow> instance option \<Rightarrow> unit res" where
  "verify_enrollment_approval cr frepr approval issuer request =
     checks ([
       check (is_signed approval) ''unsigned'',
       check (both (same (path approval [''proof'', ''issuer_identity_uuid'']) (path issuer [''uuid'']))
                   (same (path approval [''issuer_identity_uuid'']) (path issuer [''uuid'']))) ''issuer_mismatch'',
       check (proof_verifies cr frepr approval (Inr issuer)) ''bad_signature'']
     @ (case request of None \<Rightarrow> [] | Some r \<Rightarrow> [
       check (rbind (path approval [''request_hash'']) (\<lambda>h. rbind (request_hash frepr r) (\<lambda>g.
                Inr (feq h (FVal (VBytes g)))))) ''request_hash_mismatch'',
       check (rbind (obj_at approval [''subject_identity'']) (\<lambda>s. rbind (obj_at r [''new_identity'']) (same_key s)))
         ''subject_mismatch'']))"

definition verify_link_revocation :: "crypto \<Rightarrow> (rat \<Rightarrow> string) \<Rightarrow> instance \<Rightarrow> instance \<Rightarrow> unit res" where
  "verify_link_revocation cr frepr revocation issuer =
     checks [
       check (is_signed revocation) ''unsigned'',
       check (both (same (path revocation [''proof'', ''issuer_identity_uuid'']) (path issuer [''uuid'']))
                   (same (path revocation [''revoked_by_identity_uuid'']) (path issuer [''uuid'']))) ''issuer_mismatch'',
       check (proof_verifies cr frepr revocation (Inr issuer)) ''bad_signature'']"

subsection \<open>Invitation\<close>

definition negate :: "bool res \<Rightarrow> bool res" where
  "negate c = rbind c (\<lambda>b. Inr (\<not> b))"

text \<open>A verdict: the code of the first refusal that applies.\<close>

fun first_code :: "(bool res \<times> string) list \<Rightarrow> string res" where
  "first_code [] = Inr ''valid''"
| "first_code ((c, code) # cs) = rbind c (\<lambda>b. if b then Inr code else first_code cs)"

abbreviation text_val :: "string \<Rightarrow> fval res" where
  "text_val s \<equiv> Inr (FVal (VStr s))"

definition verify_ticket ::
    "crypto \<Rightarrow> (rat \<Rightarrow> string) \<Rightarrow> string list \<Rightarrow> string option \<Rightarrow> rat \<Rightarrow> instance \<Rightarrow> string res" where
  "verify_ticket cr frepr revoked_ticket_ids expected_audience_token moment ticket =
     first_code [
       (negate (is_signed ticket), ''unsigned''),
       (negate (same (path ticket [''proof'', ''by_identity_uuid'']) (path ticket [''issuer'', ''uuid''])), ''issuer_mismatch''),
       (negate (proof_verifies cr frepr ticket (obj_at ticket [''issuer''])), ''bad_signature''),
       (claims_too_long_a_life ticket, ''ttl_too_long''),
       (rbind (str_at ticket [''ticket_id'']) (\<lambda>i. Inr (i \<in> set revoked_ticket_ids)), ''revoked''),
       (is_expired ticket moment, ''expired''),
       (case expected_audience_token of
          None \<Rightarrow> Inr False
        | Some token \<Rightarrow> negate (same (text_val token) (path ticket [''audience_token''])), ''wrong_audience'')]"

definition verify_envelope :: "crypto \<Rightarrow> (rat \<Rightarrow> string) \<Rightarrow> instance \<Rightarrow> instance res \<Rightarrow> unit res list" where
  "verify_envelope cr frepr envelope descriptor =
     [check (is_signed envelope) ''unsigned'',
      check (rbind descriptor (\<lambda>d. same (path envelope [''proof'', ''by_identity_uuid'']) (path d [''uuid''])))
        ''issuer_mismatch'',
      check (proof_verifies cr frepr envelope descriptor) ''bad_signature'']"

definition verify_publication :: "crypto \<Rightarrow> (rat \<Rightarrow> string) \<Rightarrow> rat \<Rightarrow> instance \<Rightarrow> instance res" where
  "verify_publication cr frepr moment publication =
     rbind (str_at publication [''ticket_token'']) (\<lambda>token.
       case from_token token of
         Inl e \<Rightarrow> (if e = WireDecodeError then Inl (VerificationFailure ''ticket_invalid:malformed_payload'') else Inl e)
       | Inr ticket \<Rightarrow>
           rbind (checks ([
             check (rbind (verify_ticket cr frepr [] None moment ticket)
                     (\<lambda>v. Inr (v \<notin> {''unsigned'', ''issuer_mismatch'', ''bad_signature''}))) ''bad_signature'',
             check (negate (is_expired ticket moment)) ''ticket_expired'',
             check (negate (claims_too_long_a_life ticket)) ''ticket_invalid:ttl_too_long'',
             check (same (path publication [''expires_at'']) (path ticket [''expires_at''])) ''ticket_mismatch'',
             check (same (path ticket [''ticket_id'']) (path publication [''ticket_id''])) ''ticket_mismatch'',
             check (same (path ticket [''human_code'']) (path publication [''human_code''])) ''ticket_mismatch'',
             check (same (path ticket [''audience_token'']) (path publication [''audience_token''])) ''ticket_mismatch'',
             check (same (path ticket [''issuer'', ''uuid'']) (path publication [''issuer_identity_uuid''])) ''issuer_mismatch'']
             @ verify_envelope cr frepr publication (obj_at ticket [''issuer''])))
           (\<lambda>_. Inr ticket))"

definition verify_revocation_notice :: "crypto \<Rightarrow> (rat \<Rightarrow> string) \<Rightarrow> instance \<Rightarrow> instance \<Rightarrow> unit res" where
  "verify_revocation_notice cr frepr notice ticket =
     checks ([
       check (same (path notice [''ticket_id'']) (path ticket [''ticket_id''])) ''ticket_mismatch'',
       check (same (path notice [''issuer_identity_uuid'']) (path ticket [''issuer'', ''uuid''])) ''issuer_mismatch'']
       @ verify_envelope cr frepr notice (obj_at ticket [''issuer'']))"

definition verify_contact_request :: "crypto \<Rightarrow> (rat \<Rightarrow> string) \<Rightarrow> instance \<Rightarrow> instance \<Rightarrow> rat \<Rightarrow> unit res" where
  "verify_contact_request cr frepr request ticket moment =
     checks ([
       check (same (path request [''ticket_id'']) (path ticket [''ticket_id''])) ''ticket_mismatch'',
       check (both (has (path ticket [''issuer_contact_endpoint'']))
                   (same (path request [''issuer_endpoint_id'']) (path ticket [''issuer_contact_endpoint'']))) ''ticket_mismatch'',
       check (negate (is_expired request moment)) ''expired'',
       check (negate (is_expired ticket moment)) ''ticket_expired'',
       check (negate (same (path request [''sender'', ''uuid'']) (path ticket [''issuer'', ''uuid'']))) ''issuer_mismatch'']
       @ verify_envelope cr frepr request (obj_at request [''sender'']))"

definition verify_reply :: "crypto \<Rightarrow> (rat \<Rightarrow> string) \<Rightarrow> instance \<Rightarrow> instance \<Rightarrow> rat \<Rightarrow> unit res" where
  "verify_reply cr frepr reply ticket moment =
     checks ([
       check (same (path reply [''ticket_id'']) (path ticket [''ticket_id''])) ''ticket_mismatch'',
       check (same (path reply [''audience_token'']) (path ticket [''audience_token''])) ''ticket_mismatch'',
       check (negate (is_expired ticket moment)) ''ticket_expired'',
       check (negate (same (path reply [''replier'', ''uuid'']) (path ticket [''issuer'', ''uuid'']))) ''issuer_mismatch'']
       @ verify_envelope cr frepr reply (obj_at reply [''replier'']))"

subsection \<open>Chat\<close>

text \<open>The limits of \<open>IdentitySigningChallenge\<close>.\<close>

definition DEFAULT_VALIDITY :: rat where "DEFAULT_VALIDITY = 60"
definition ALLOWED_CLOCK_SKEW :: rat where "ALLOWED_CLOCK_SKEW = 300"
definition MAXIMUM_ENCODED_BYTES :: nat where "MAXIMUM_ENCODED_BYTES = 8192"
definition MINIMUM_NONCE_BYTES :: nat where "MINIMUM_NONCE_BYTES = 32"
definition MAXIMUM_NONCE_BYTES :: nat where "MAXIMUM_NONCE_BYTES = 128"
definition MAXIMUM_SCOPE_CHARACTERS :: nat where "MAXIMUM_SCOPE_CHARACTERS = 512"

lemmas limits = DEFAULT_VALIDITY_def ALLOWED_CLOCK_SKEW_def MAXIMUM_ENCODED_BYTES_def MINIMUM_NONCE_BYTES_def
  MAXIMUM_NONCE_BYTES_def MAXIMUM_SCOPE_CHARACTERS_def

definition invitation_hash :: "(rat \<Rightarrow> string) \<Rightarrow> instance \<Rightarrow> bytes res" where
  "invitation_hash frepr artifact = rbind (model_payload frepr artifact) (\<lambda>p. Inr (sha256 p))"

definition valid_nonce :: "instance \<Rightarrow> bool res" where
  "valid_nonce m = rbind (bytes_at m [''nonce'']) (\<lambda>n.
     Inr (MINIMUM_NONCE_BYTES \<le> length n \<and> length n \<le> MAXIMUM_NONCE_BYTES))"

definition date_at :: "instance \<Rightarrow> string \<Rightarrow> int option res" where
  "date_at m a = rbind (attr m a) iso_date"

definition validate_invitation :: "instance \<Rightarrow> rat \<Rightarrow> unit res list" where
  "validate_invitation artifact moment =
     [check (same (path artifact [''version'']) (Inr (FVal (VInt 1)))) ''unsupportedVersion'',
      check (same (path artifact [''purpose'']) (text_val ''chat_invitation'')) ''invalidPurpose'',
      check (valid_nonce artifact) ''invalidNonce'',
      check (rbind (date_at artifact ''created_at'') (\<lambda>created. rbind (date_at artifact ''expires_at'') (\<lambda>expires.
        Inr (case (created, expires) of
               (Some c, Some e) \<Rightarrow> c < e \<and> seconds c \<le> moment + ALLOWED_CLOCK_SKEW
             | _ \<Rightarrow> False)))) ''invalidTimestamp'',
      check (rbind (date_at artifact ''expires_at'') (\<lambda>expires.
        Inr (case expires of Some e \<Rightarrow> moment \<le> seconds e | None \<Rightarrow> False))) ''expiredArtifact'']"

text \<open>The proof of a chat envelope must name the signer's identity, algorithm and curve.\<close>

definition chat_proof :: "crypto \<Rightarrow> (rat \<Rightarrow> string) \<Rightarrow> instance \<Rightarrow> string \<Rightarrow> string \<Rightarrow> string \<Rightarrow> unit res list" where
  "chat_proof cr frepr m signer mismatch invalid =
     [check (is_signed m) ''missingSignature'',
      check (same (path m [''proof'', ''type'']) (text_val ''signature'')) ''invalidProofType'',
      check (both (same (path m [''proof'', ''by_identity_uuid'']) (path m [signer, ''uuid'']))
              (both (same (path m [''proof'', ''algorithm'']) (path m [signer, ''algorithm'']))
                    (same (path m [''proof'', ''curve_type'']) (path m [signer, ''curve_type''])))) mismatch,
      check (proof_verifies cr frepr m (obj_at m [signer])) invalid]"

text \<open>An expected value that is \<open>None\<close> is not compared.\<close>

definition expect :: "fval \<Rightarrow> fval res \<Rightarrow> string \<Rightarrow> unit res list" where
  "expect expected actual code = (if expected = FNone then [] else [check (same actual (Inr expected)) code])"

definition verify_chat_invitation ::
    "crypto \<Rightarrow> (rat \<Rightarrow> string) \<Rightarrow> fval \<Rightarrow> fval \<Rightarrow> rat \<Rightarrow> instance \<Rightarrow> unit res" where
  "verify_chat_invitation cr frepr expected_chat_cell_uuid expected_inviter_uuid moment artifact =
     checks (validate_invitation artifact moment
       @ expect expected_chat_cell_uuid (path artifact [''chat_cell_uuid'']) ''chatCellMismatch''
       @ expect expected_inviter_uuid (path artifact [''inviter_identity'', ''uuid'']) ''inviterMismatch''
       @ [check (rbind (date_at artifact ''expires_at'') (\<lambda>expires.
            Inr (case expires of Some e \<Rightarrow> \<not> seconds e < moment | None \<Rightarrow> False))) ''expiredArtifact'']
       @ chat_proof cr frepr artifact ''inviter_identity'' ''inviterMismatch'' ''invalidArtifactProof'')"

definition verify_chat_acceptance ::
    "crypto \<Rightarrow> (rat \<Rightarrow> string) \<Rightarrow> fval \<Rightarrow> rat \<Rightarrow> instance \<Rightarrow> instance \<Rightarrow> unit res" where
  "verify_chat_acceptance cr frepr expected_chat_cell_uuid moment acceptance artifact =
     checks ([
       rbind (attr acceptance ''inviter_identity_uuid'') (\<lambda>inviter.
         verify_chat_invitation cr frepr expected_chat_cell_uuid inviter moment artifact),
       check (same (path acceptance [''version'']) (Inr (FVal (VInt 1)))) ''unsupportedVersion'',
       check (same (path acceptance [''purpose'']) (text_val ''accept_chat_invitation'')) ''invalidPurpose'',
       check (valid_nonce acceptance) ''invalidNonce'',
       check (rbind (date_at artifact ''created_at'') (\<lambda>invited_at. rbind (date_at artifact ''expires_at'') (\<lambda>expires_at.
         rbind (date_at acceptance ''created_at'') (\<lambda>accepted_at.
           Inr (case (invited_at, expires_at, accepted_at) of
                  (Some i, Some e, Some a) \<Rightarrow> seconds i - ALLOWED_CLOCK_SKEW \<le> seconds a \<and> a \<le> e
                    \<and> seconds a \<le> moment + ALLOWED_CLOCK_SKEW
                | _ \<Rightarrow> False))))) ''invalidTimestamp'',
       check (same (path acceptance [''invitation_id'']) (path artifact [''invitation_id''])) ''invitationHashMismatch'',
       check (same (path acceptance [''chat_cell_uuid'']) (path artifact [''chat_cell_uuid''])) ''chatCellMismatch'',
       check (rbind (obj_at acceptance [''invitee_identity'']) (\<lambda>s. rbind (obj_at artifact [''invited_identity'']) (same_key s)))
         ''inviteeMismatch'',
       check (rbind (path acceptance [''invitation_hash'']) (\<lambda>h. rbind (invitation_hash frepr artifact) (\<lambda>g.
         Inr (feq h (FVal (VBytes g)))))) ''invitationHashMismatch'']
       @ chat_proof cr frepr acceptance ''invitee_identity'' ''inviteeMismatch'' ''invalidAcceptanceProof'')"

subsection \<open>Bridge identity proof\<close>

text \<open>Comparing and subtracting numbers of JSON; infinities and NaN included.\<close>

fun num_le :: "pyfloat \<Rightarrow> pyfloat \<Rightarrow> bool" where
  "num_le NaN y = False"
| "num_le x NaN = False"
| "num_le NegInf y = True"
| "num_le x PosInf = True"
| "num_le (Fin a) (Fin b) = (a \<le> b)"
| "num_le x y = False"

fun num_minus :: "pyfloat \<Rightarrow> pyfloat \<Rightarrow> pyfloat" where
  "num_minus (Fin a) (Fin b) = Fin (a - b)"
| "num_minus (Fin a) PosInf = NegInf"
| "num_minus (Fin a) NegInf = PosInf"
| "num_minus PosInf (Fin b) = PosInf"
| "num_minus NegInf (Fin b) = NegInf"
| "num_minus PosInf NegInf = PosInf"
| "num_minus NegInf PosInf = NegInf"
| "num_minus x y = NaN"

fun py_minus :: "pyval \<Rightarrow> pyval \<Rightarrow> pyfloat res" where
  "py_minus (VInt i) (VInt j) = Inr (Fin (of_int (i - j)))"
| "py_minus v w = rbind (float_of v) (\<lambda>a. rbind (float_of w) (\<lambda>b. Inr (num_minus a b)))"

definition number_at :: "instance \<Rightarrow> string \<Rightarrow> (pyval \<times> pyfloat) res" where
  "number_at m a =
     rbind (attr m a) (\<lambda>v. case v of
         FVal u \<Rightarrow> (case num_val u of Some f \<Rightarrow> Inr (u, f) | None \<Rightarrow> Inl TypeError)
       | _ \<Rightarrow> Inl TypeError)"

definition CHALLENGE_TYPE :: string where
  "CHALLENGE_TYPE = ''org.haven.cellprotocol.identity-signing-challenge''"

definition CHALLENGE_PURPOSE :: string where
  "CHALLENGE_PURPOSE = ''identity-origin-proof''"

definition scope_of :: "instance \<Rightarrow> string list res" where
  "scope_of challenge = rmap (\<lambda>a. str_at challenge [a]) [''domain'', ''resource'', ''action'', ''audience'']"

definition validate_signing_challenge :: "bytes \<Rightarrow> instance \<Rightarrow> rat \<Rightarrow> instance res" where
  "validate_signing_challenge data identity moment =
     (if length data > MAXIMUM_ENCODED_BYTES then Inl (VerificationFailure ''payloadTooLarge'')
      else case rbind (json_loads data) (from_wire IdentitySigningChallenge) of
        Inl e \<Rightarrow> (if is_value_error e then Inl (VerificationFailure ''invalidPayload'') else Inl e)
      | Inr challenge \<Rightarrow>
          rbind (checks [
            check (same (path challenge [''type'']) (text_val CHALLENGE_TYPE)) ''wrongType'',
            check (same (path challenge [''version'']) (Inr (FVal (VInt 1)))) ''unsupportedVersion'',
            check (same (path challenge [''purpose'']) (text_val CHALLENGE_PURPOSE)) ''wrongPurpose'',
            check (same (path challenge [''identity_uuid'']) (path identity [''uuid''])) ''identityMismatch'',
            rbind (attr challenge ''public_key_fingerprint'') (\<lambda>v.
              if v = FNone then Inl (VerificationFailure ''missingPublicKeyFingerprint'')
              else rbind (str_at challenge [''public_key_fingerprint'']) (\<lambda>f.
                if py_strip f = [] then Inl (VerificationFailure ''missingPublicKeyFingerprint'')
                else check (rbind (fingerprint identity) (\<lambda>g. Inr (py_strip f = g))) ''publicKeyMismatch'')),
            check (rbind (bytes_at challenge [''nonce'']) (\<lambda>n. Inr (MINIMUM_NONCE_BYTES \<le> length n))) ''missingNonce'',
            check (rbind (bytes_at challenge [''nonce'']) (\<lambda>n. Inr (length n \<le> MAXIMUM_NONCE_BYTES))) ''payloadTooLarge'',
            check (rbind (scope_of challenge) (\<lambda>scope. Inr (\<forall>s \<in> set scope. py_strip s \<noteq> []))) ''missingChallengeScope'',
            check (rbind (scope_of challenge) (\<lambda>scope. Inr (\<forall>s \<in> set scope. py_len s \<le> MAXIMUM_SCOPE_CHARACTERS)))
              ''payloadTooLarge'',
            check (rbind (number_at challenge ''expires_at'') (\<lambda>(ev, e). rbind (number_at challenge ''issued_at'') (\<lambda>(iv, i).
              if num_le i e then rbind (py_minus ev iv) (\<lambda>d. Inr (num_le d (Fin DEFAULT_VALIDITY))) else Inr False)))
              ''invalidValidity'',
            check (rbind (number_at challenge ''issued_at'') (\<lambda>(iv, i). Inr (num_le i (Fin (moment + ALLOWED_CLOCK_SKEW)))))
              ''issuedInFuture'',
            check (rbind (number_at challenge ''expires_at'') (\<lambda>(ev, e). Inr (num_le (Fin moment) e))) ''expired''])
          (\<lambda>_. Inr challenge))"

text \<open>\<open>verdict(check)\<close> of a verifier that raises, or returns an object or a code.\<close>

definition verdict :: "string option res \<Rightarrow> string res" where
  "verdict r =
     (case r of
        Inl (VerificationFailure code) \<Rightarrow> Inr code
      | Inl e \<Rightarrow> Inl e
      | Inr (Some code) \<Rightarrow> Inr code
      | Inr None \<Rightarrow> Inr ''valid'')"


subsection \<open>What a payload covers\<close>

text \<open>The types that are signed: every wire type but the challenge, which is signed whole.\<close>

definition SIGNED_TYPES :: "model_class list" where
  "SIGNED_TYPES =
    [IdentityEnrollmentRequest, IdentityEnrollmentApproval, IdentityLinkRevocation, HavenInviteTicket,
     HavenInvitePublication, HavenInviteReply, HavenInviteRevocationNotice, HavenInviteContactRequest,
     ChatInvitationArtifact, ChatInvitationAcceptance]"

text \<open>A table is signed when exactly the attribute \<open>proof\<close> is left out of the payload.\<close>

definition signed_class :: "model_class \<Rightarrow> bool" where
  "signed_class c \<longleftrightarrow> class_ok c \<and> class_exact c
     \<and> list_all (\<lambda>sp. (sp_key sp \<in> set (class_excluded c)) = (sp_name sp = ''proof'')) (class_specs c)"

lemma exact_tables:
  "class_exact IdentityPublicKeyDescriptor" "class_exact SignatureProof" "class_exact HavenSignatureProof"
  "class_exact EntityBindingDescriptor" "class_exact IdentityEnrollmentApprovalProof"
  "class_exact IdentityLinkFreshAuthEvidence" "class_exact HavenInviteBasisField"
  by (simp_all add: class_defs)

lemma signed_types: "c \<in> set SIGNED_TYPES \<Longrightarrow> signed_class c"
proof -
  have "list_all signed_class SIGNED_TYPES"
    unfolding SIGNED_TYPES_def list.pred_inject
    by (intro conjI TrueI) (simp_all add: signed_class_def tables_ok, simp_all add: class_defs)
  then show "c \<in> set SIGNED_TYPES \<Longrightarrow> signed_class c" by (simp add: list_all_iff)
qed

lemma wire_members:
  "class_ok c \<Longrightarrow> instance_ok c m \<Longrightarrow> to_wire m = members_of (inst_fields m) (class_specs c)"
proof (cases c; cases m)
  fix n df sps ex c' fs
  assume "class_ok c" "instance_ok c m" "c = Class n df sps ex" "m = Instance c' fs"
  then show ?thesis using wire_fields_members [of sps "[]" fs]
    by (cases "members_of fs sps") auto
qed

lemma members_of_filter:
  "members_of gs sps = Inr d \<Longrightarrow> members_of hs sps = Inr e \<Longrightarrow>
   (\<And>sp. sp \<in> set sps \<Longrightarrow> sp_key sp \<notin> E \<Longrightarrow> dget gs (sp_name sp) = dget hs (sp_name sp)) \<Longrightarrow>
     filter (\<lambda>(k, v). k \<notin> E) d = filter (\<lambda>(k, v). k \<notin> E) e"
proof (induction sps arbitrary: d e)
  case (Cons sp sps)
  obtain d1 d2 where d: "member_of gs sp = Inr d1" "members_of gs sps = Inr d2" "d = d1 @ d2"
    using Cons.prems(1) by (auto simp: rbind_Inr_iff)
  obtain e1 e2 where e: "member_of hs sp = Inr e1" "members_of hs sps = Inr e2" "e = e1 @ e2"
    using Cons.prems(2) by (auto simp: rbind_Inr_iff)
  have "filter (\<lambda>(k, v). k \<notin> E) d1 = filter (\<lambda>(k, v). k \<notin> E) e1"
  proof (cases "sp_key sp \<in> E")
    case True
    then show ?thesis using member_form [OF d(1)] member_form [OF e(1)] by auto
  next
    case False
    then have "dget gs (sp_name sp) = dget hs (sp_name sp)" using Cons.prems(3) by simp
    then have "member_of gs sp = member_of hs sp" by (simp add: member_of_def)
    with d(1) e(1) show ?thesis by simp
  qed
  moreover have "filter (\<lambda>(k, v). k \<notin> E) d2 = filter (\<lambda>(k, v). k \<notin> E) e2"
    using Cons.IH [OF d(2) e(2)] Cons.prems(3) by auto
  ultimately show ?case using d(3) e(3) by simp
qed simp

lemma spec_attr:
  assumes "class_ok c" "sp \<in> set (class_specs c)" "sp' \<in> set (class_specs c)" "sp_name sp = sp_name sp'"
  shows "sp = sp'"
  using assms by (cases c) (auto simp: distinct_map inj_on_def)

lemma payload_same:
  assumes "signed_class c" "instance_ok c m" "instance_ok c n"
    and "\<And>a. a \<noteq> ''proof'' \<Longrightarrow> attr m a = attr n a"
  shows "model_payload frepr m = model_payload frepr n"
proof -
  have c: "class_ok c" "inst_class m = c" "inst_class n = c"
    using assms(1,2,3) by (cases c; auto simp: signed_class_def)+
  obtain d e where d: "to_wire m = Inr d" and e: "to_wire n = Inr e"
    using wire_round_trip_lemma(1) [OF c(1)] assms(2,3) by blast
  have "filter (\<lambda>(k, v). k \<notin> set (class_excluded c)) d = filter (\<lambda>(k, v). k \<notin> set (class_excluded c)) e"
  proof (rule members_of_filter)
    show "members_of (inst_fields m) (class_specs c) = Inr d" "members_of (inst_fields n) (class_specs c) = Inr e"
      using d e wire_members [OF c(1)] assms(2,3) by simp_all
    fix sp assume "sp \<in> set (class_specs c)" "sp_key sp \<notin> set (class_excluded c)"
    then have "sp_name sp \<noteq> ''proof''" using assms(1) by (auto simp: signed_class_def list_all_iff)
    then show "dget (inst_fields m) (sp_name sp) = dget (inst_fields n) (sp_name sp)"
      using assms(4) [of "sp_name sp"] by (auto simp: attr_def split: option.splits)
  qed
  then show ?thesis by (simp add: model_payload_def d e c canonical_payload_def)
qed

lemma read_specs_at:
  "read_specs sps d = Inr fs \<Longrightarrow> distinct (map sp_name sps) \<Longrightarrow> sp \<in> set sps \<Longrightarrow>
     \<exists>v. dget fs (sp_name sp) = Some v
       \<and> (if getn d (sp_key sp) = VNull then absent_field sp else decode_field (sp_kind sp) (getn d (sp_key sp))) = Inr v"
proof (induction sps arbitrary: fs)
  case (Cons s sps)
  obtain a key k optional dflt omit where s: "s = Spec a key k optional dflt omit" by (cases s)
  obtain v fs' where v: "(if getn d key = VNull then absent_field s else decode_field k (getn d key)) = Inr v"
      "read_specs sps d = Inr fs'" "fs = (a, v) # fs'"
    using Cons.prems(1) unfolding s by (auto simp: rbind_Inr_iff)
  show ?case
  proof (cases "sp = s")
    case True
    then show ?thesis using v s by auto
  next
    case False
    with Cons.prems(3) have "sp \<in> set sps" by simp
    moreover have "sp_name sp \<noteq> a" using Cons.prems(2) s \<open>sp \<in> set sps\<close> by auto
    ultimately show ?thesis using Cons.IH [OF v(2)] Cons.prems(2) v(3) by auto
  qed
qed simp

lemma kind_exact_at: "specs_exact sps \<Longrightarrow> sp \<in> set sps \<Longrightarrow> kind_exact (sp_kind sp)"
proof (induction sps)
  case (Cons s sps)
  then show ?case by (cases s) auto
qed simp

lemma fields_names: "fields_ok sps fs \<Longrightarrow> dkeys fs = map sp_name sps"
proof (induction sps arbitrary: fs)
  case (Cons s sps)
  then show ?case by (cases s) (auto split: list.splits)
qed simp

lemma payload_determines:
  assumes "signed_class c" "instance_ok c m" "instance_ok c n"
    and "model_payload frepr m = Inr p" "model_payload frepr n = Inr p"
    and "a \<noteq> ''proof''"
  shows "attr m a = attr n a"
proof -
  obtain nm df sps ex where c: "c = Class nm df sps ex" by (cases c)
  have ok: "class_ok c" "class_exact c" "inst_class m = c" "inst_class n = c"
    using assms(1,2,3) by (cases c; auto simp: signed_class_def)+
  let ?f = "filter (\<lambda>(k, v). k \<notin> set ex)"
  have facts: "\<exists>d. distinct (dkeys d) \<and> is_json_items d \<and> wf_items d
      \<and> read_specs sps d = Inr (inst_fields x) \<and> json_loads p = Inr (canon Foundation (VDict (?f d)))"
    if x: "instance_ok c x" "model_payload frepr x = Inr p" for x
  proof -
    have xc: "inst_class x = c" using x(1) c by simp
    obtain d where d: "to_wire x = Inr d" "distinct (dkeys d)" "is_json_items d" "from_wire c (VDict d) = Inr x"
      using wire_round_trip_lemma(1) [OF ok(1) x(1)] by blast
    have wf: "wf_items d" "floats_ok_items frepr d"
      using written_exact(1) [OF ok(2,1) x(1) d(1)] by simp_all
    have "canonical_json frepr (VDict (?f d)) ''foundation'' True = Inr p"
      using x(2) d(1) xc c by (simp add: model_payload_def canonical_payload_def)
    moreover have "wf_val (VDict (?f d))" "floats_ok frepr (VDict (?f d))"
      using d(2) wf by (auto simp: wf_items_iff floats_ok_items_iff distinct_map inj_on_def)
    ultimately have "json_loads p = Inr (canon Foundation (VDict (?f d)))"
      using canonical_reads_back by (fastforce simp: order_of_def)
    moreover have "read_specs sps d = Inr (inst_fields x)"
      using d(4) c by (auto simp: rbind_Inr_iff)
    ultimately show ?thesis using d(2,3) wf by blast
  qed
  obtain d where d: "distinct (dkeys d)" "is_json_items d" "wf_items d"
      "read_specs sps d = Inr (inst_fields m)" "json_loads p = Inr (canon Foundation (VDict (?f d)))"
    using facts [OF assms(2,4)] by blast
  obtain e where e: "distinct (dkeys e)" "is_json_items e" "wf_items e"
      "read_specs sps e = Inr (inst_fields n)" "json_loads p = Inr (canon Foundation (VDict (?f e)))"
    using facts [OF assms(3,5)] by blast
  have eq: "canon Foundation (VDict (?f d)) = canon Foundation (VDict (?f e))" using d(5) e(5) by simp
  have kept: "canon Foundation (getn d k) = canon Foundation (getn e k)" if "k \<notin> set ex" for k
  proof -
    have dis: "distinct (dkeys (?f x))" if "distinct (dkeys x)" for x :: "pyval dict"
      using that by (auto simp: distinct_map inj_on_def)
    have "getn (?f x) k = getn x k" for x :: "pyval dict"
      using \<open>k \<notin> set ex\<close> by (induction x) (auto simp: getn_def)
    then show ?thesis
      using getn_canon [OF dis [OF d(1)], of Foundation k] getn_canon [OF dis [OF e(1)], of Foundation k] eq
      by simp
  qed
  show ?thesis
  proof (cases "\<exists>sp \<in> set sps. sp_name sp = a")
    case False
    then have "dget (inst_fields m) a = None" "dget (inst_fields n) a = None"
      using assms(2,3) fields_names [of sps] c by (force simp: dget_None_iff)+
    then show ?thesis by (simp add: attr_def)
  next
    case True
    then obtain sp where sp: "sp \<in> set sps" "sp_name sp = a" by blast
    have names: "distinct (map sp_name sps)" using ok(1) c by simp
    have key: "sp_key sp \<notin> set ex"
      using assms(1,6) sp c by (auto simp: signed_class_def list_all_iff)
    obtain v where v: "dget (inst_fields m) a = Some v"
        "(if getn d (sp_key sp) = VNull then absent_field sp else decode_field (sp_kind sp) (getn d (sp_key sp))) = Inr v"
      using read_specs_at [OF d(4) names sp(1)] sp(2) by auto
    obtain u where u: "dget (inst_fields n) a = Some u"
        "(if getn e (sp_key sp) = VNull then absent_field sp else decode_field (sp_kind sp) (getn e (sp_key sp))) = Inr u"
      using read_specs_at [OF e(4) names sp(1)] sp(2) by auto
    have x: "kind_exact (sp_kind sp)" using kind_exact_at ok(2) c sp(1) by simp
    have null: "getn d (sp_key sp) = VNull \<longleftrightarrow> getn e (sp_key sp) = VNull"
      using kept [OF key] canon_null getn_json d(2) e(2) by metis
    have "v = u"
    proof (cases "getn d (sp_key sp) = VNull")
      case True
      then show ?thesis using v(2) u(2) null by simp
    next
      case False
      then show ?thesis
        using read_canon(3) [OF x wf_getn [OF d(3)] getn_json [OF d(2)], of "sp_key sp" v Foundation]
          read_canon(3) [OF x wf_getn [OF e(3)] getn_json [OF e(2)], of "sp_key sp" u Foundation]
          v(2) u(2) null kept [OF key] by simp
    qed
    then show ?thesis using v(1) u(1) by (simp add: attr_def)
  qed
qed


subsection \<open>Valid proofs\<close>

text \<open>
  The contract of every signed envelope: its proof holds a 64 byte signature that verifies, over the
  canonical payload of the whole envelope, under the 32 byte Ed25519 key of the descriptor.
\<close>

definition valid_proof :: "crypto \<Rightarrow> (rat \<Rightarrow> string) \<Rightarrow> instance \<Rightarrow> instance \<Rightarrow> bool" where
  "valid_proof cr frepr m d \<longleftrightarrow>
     (\<exists>p sig pk payload. attr m ''proof'' = Inr (FObj p) \<and> attr p ''signature'' = Inr (FVal (VBytes sig))
        \<and> attr d ''algorithm'' = Inr (FVal (VStr ''EdDSA'')) \<and> attr d ''curve_type'' = Inr (FVal (VStr ''Curve25519''))
        \<and> attr d ''public_key'' = Inr (FVal (VBytes pk)) \<and> length pk = 32 \<and> length sig = 64
        \<and> model_payload frepr m = Inr payload \<and> ed_verify cr pk sig payload)"

lemma feq_str [simp]: "feq v (FVal (VStr s)) \<longleftrightarrow> v = FVal (VStr s)"
proof (cases v)
  case (FVal u)
  then show ?thesis by (cases u) auto
qed auto

lemma feq_bytes [simp]: "feq v (FVal (VBytes s)) \<longleftrightarrow> v = FVal (VBytes s)"
proof (cases v)
  case (FVal u)
  then show ?thesis by (cases u) auto
qed auto

lemma feq_str_left [simp]: "feq (FVal (VStr s)) v \<longleftrightarrow> v = FVal (VStr s)"
  by (cases v) auto

lemma feq_null [simp]: "feq FNone v \<longleftrightarrow> v = FNone"
  by (cases v) auto

lemma feq_int: "feq (FVal (VInt i)) v \<longleftrightarrow> (\<exists>u. v = FVal u \<and> num_val u = Some (Fin (of_int i)))"
  by (cases v) auto

declare feq.simps [simp del]

lemma path2 [err_simps]: "path m [a, b] = Inr v \<longleftrightarrow> (\<exists>n. attr m a = Inr (FObj n) \<and> attr n b = Inr v)"
proof (cases "attr m a")
  case (Inr x)
  then show ?thesis by (cases x) auto
qed simp

lemma obj_at1 [err_simps]: "obj_at m [a] = Inr n \<longleftrightarrow> attr m a = Inr (FObj n)"
proof (cases "attr m a")
  case (Inr x)
  then show ?thesis by (cases x) (auto simp: obj_at_def)
qed (simp add: obj_at_def)

lemma same_str [err_simps]:
  "same a (Inr (FVal (VStr s))) = Inr True \<longleftrightarrow> a = Inr (FVal (VStr s))"
  "same (Inr (FVal (VStr s))) a = Inr True \<longleftrightarrow> a = Inr (FVal (VStr s))"
  by (simp_all add: same_def rbind_def split: sum.splits)

declare path.simps [simp del] checks.simps [simp del]

lemma path1 [simp]: "path m [a] = attr m a"
  by (simp add: path.simps)

lemma is_signed_True [err_simps]:
  "is_signed m = Inr True \<longleftrightarrow>
     (\<exists>p v. attr m ''proof'' = Inr (FObj p) \<and> attr p ''signature'' = Inr v \<and> v \<noteq> FNone)"
  unfolding is_signed_def has_def rbind_Inr_iff
  by (auto simp: rbind_Inr_iff path2 split: if_splits)

lemma bytes_at1: "bytes_at m [a] = Inr b \<longleftrightarrow> attr m a = Inr (FVal (VBytes b))"
proof (cases "attr m a")
  case (Inr x)
  then show ?thesis by (cases x; cases "case x of FVal u \<Rightarrow> u") (auto simp: bytes_at_def)
qed (simp add: bytes_at_def)

lemma str_at1: "str_at m [a] = Inr s \<longleftrightarrow> attr m a = Inr (FVal (VStr s))"
proof (cases "attr m a")
  case (Inr x)
  then show ?thesis by (cases x; cases "case x of FVal u \<Rightarrow> u") (auto simp: str_at_def)
qed (simp add: str_at_def)

lemma verify_signature_bytes:
  "verify_signature cr (FVal (VBytes sig)) message d = Inr True \<longleftrightarrow>
     (\<exists>pk. attr d ''algorithm'' = Inr (FVal (VStr ''EdDSA''))
        \<and> attr d ''curve_type'' = Inr (FVal (VStr ''Curve25519'')) \<and> attr d ''public_key'' = Inr (FVal (VBytes pk))
        \<and> length pk = 32 \<and> length sig = 64 \<and> ed_verify cr pk sig message)"
  unfolding verify_signature_def
  by (simp add: rbind_Inr_iff if_bool_eq_disj bytes_at1)

lemma verify_signature_bytes_only:
  "verify_signature cr s message d = Inr True \<Longrightarrow> \<exists>sig. s = FVal (VBytes sig)"
  unfolding verify_signature_def
  by (cases s; cases "case s of FVal u \<Rightarrow> u") (auto simp: rbind_Inr_iff split: if_splits)

lemma verify_signature_True:
  "verify_signature cr s message d = Inr True \<longleftrightarrow>
     (\<exists>sig pk. s = FVal (VBytes sig) \<and> attr d ''algorithm'' = Inr (FVal (VStr ''EdDSA''))
        \<and> attr d ''curve_type'' = Inr (FVal (VStr ''Curve25519'')) \<and> attr d ''public_key'' = Inr (FVal (VBytes pk))
        \<and> length pk = 32 \<and> length sig = 64 \<and> ed_verify cr pk sig message)"
  using verify_signature_bytes verify_signature_bytes_only by metis

lemma proof_verifies_True [err_simps]:
  "proof_verifies cr frepr m (Inr d) = Inr True \<longleftrightarrow> valid_proof cr frepr m d"
  unfolding proof_verifies_def rbind_Inr_iff path2 verify_signature_True valid_proof_def by auto

lemma proof_verifies_obj [err_simps]:
  "proof_verifies cr frepr m r = Inr True \<longleftrightarrow> (\<exists>d. r = Inr d \<and> valid_proof cr frepr m d)"
proof (cases r)
  case (Inl e)
  then show ?thesis by (auto simp: proof_verifies_def rbind_Inr_iff)
qed (simp add: proof_verifies_True)

lemma valid_proof_signed: "valid_proof cr frepr m d \<Longrightarrow> is_signed m = Inr True"
  by (auto simp: valid_proof_def is_signed_True)

text \<open>
  Every verifier is an instance of one interface: what it accepts is signed by the descriptor it
  names as the signer. What the interface promises: the accepted payload is fixed by the attributes
  other than the proof, and an unsigned envelope is never accepted.
\<close>

locale signed_envelope =
  fixes accepts :: "instance \<Rightarrow> bool"
    and signer :: "instance \<Rightarrow> instance res"
    and cr :: crypto
    and frepr :: "rat \<Rightarrow> string"
  assumes accepted: "accepts m \<Longrightarrow> proof_verifies cr frepr m (signer m) = Inr True"
begin

lemma has_valid_proof: "accepts m \<Longrightarrow> \<exists>d. signer m = Inr d \<and> valid_proof cr frepr m d"
  using accepted by (auto simp: proof_verifies_obj)

lemma unsigned_refused: "attr m ''proof'' = Inr FNone \<Longrightarrow> \<not> accepts m"
  using has_valid_proof [of m] by (auto simp: valid_proof_def)

text \<open>Two accepted envelopes of a signed type with one payload are the same but for the proof.\<close>

lemma same_payload_same_content:
  "signed_class c \<Longrightarrow> instance_ok c m \<Longrightarrow> instance_ok c n \<Longrightarrow> accepts m \<Longrightarrow> accepts n \<Longrightarrow>
     model_payload frepr m = model_payload frepr n \<Longrightarrow> a \<noteq> ''proof'' \<Longrightarrow> attr m a = attr n a"
proof -
  assume c: "signed_class c" "instance_ok c m" "instance_ok c n" "accepts m"
    and eq: "model_payload frepr m = model_payload frepr n" "a \<noteq> ''proof''"
  obtain p where p: "model_payload frepr m = Inr p"
    using has_valid_proof [OF c(4)] by (auto simp: valid_proof_def)
  show "attr m a = attr n a"
    by (rule payload_determines [OF c(1-3) p _ eq(2)]) (simp add: p eq(1) [symmetric])
qed

end

lemmas verify_simps = check_Inr checks_Inr both_True proof_verifies_obj obj_at1 rbind_Inr_iff

interpretation enrollment_request:
  signed_envelope "\<lambda>m. verify_enrollment_request cr frepr m = Inr ()" "\<lambda>m. obj_at m [''new_identity'']" cr frepr
  for cr frepr
  by unfold_locales (simp add: verify_enrollment_request_def check_Inr checks_Inr)

interpretation enrollment_approval:
  signed_envelope "\<lambda>m. verify_enrollment_approval cr frepr m issuer request = Inr ()" "\<lambda>m. Inr issuer" cr frepr
  for cr frepr issuer request
  by unfold_locales (simp add: verify_enrollment_approval_def check_Inr checks_Inr)

interpretation link_revocation:
  signed_envelope "\<lambda>m. verify_link_revocation cr frepr m issuer = Inr ()" "\<lambda>m. Inr issuer" cr frepr
  for cr frepr issuer
  by unfold_locales (simp add: verify_link_revocation_def check_Inr checks_Inr)

interpretation revocation_notice:
  signed_envelope "\<lambda>m. verify_revocation_notice cr frepr m ticket = Inr ()" "\<lambda>m. obj_at ticket [''issuer'']" cr frepr
  for cr frepr ticket
  by unfold_locales (simp add: verify_revocation_notice_def verify_envelope_def check_Inr checks_Inr)

interpretation contact_request:
  signed_envelope "\<lambda>m. verify_contact_request cr frepr m ticket moment = Inr ()" "\<lambda>m. obj_at m [''sender'']" cr frepr
  for cr frepr ticket moment
  by unfold_locales (simp add: verify_contact_request_def verify_envelope_def check_Inr checks_Inr)

interpretation reply:
  signed_envelope "\<lambda>m. verify_reply cr frepr m ticket moment = Inr ()" "\<lambda>m. obj_at m [''replier'']" cr frepr
  for cr frepr ticket moment
  by unfold_locales (simp add: verify_reply_def verify_envelope_def check_Inr checks_Inr)

interpretation chat_invitation:
  signed_envelope "\<lambda>m. verify_chat_invitation cr frepr cell inviter moment m = Inr ()"
    "\<lambda>m. obj_at m [''inviter_identity'']" cr frepr
  for cr frepr cell inviter moment
  by unfold_locales (simp add: verify_chat_invitation_def chat_proof_def check_Inr checks_Inr)

interpretation chat_acceptance:
  signed_envelope "\<lambda>m. verify_chat_acceptance cr frepr cell moment m artifact = Inr ()"
    "\<lambda>m. obj_at m [''invitee_identity'']" cr frepr
  for cr frepr cell moment artifact
  by unfold_locales (simp add: verify_chat_acceptance_def chat_proof_def check_Inr checks_Inr)

lemma first_code_valid:
  "first_code cs = Inr ''valid'' \<Longrightarrow> \<forall>(c, code) \<in> set cs. code \<noteq> ''valid'' \<Longrightarrow> \<forall>(c, code) \<in> set cs. c = Inr False"
  by (induction cs) (fastforce simp: rbind_Inr_iff split: if_splits)+

lemma negate_False [err_simps]: "negate c = Inr False \<longleftrightarrow> c = Inr True"
  by (cases c) (auto simp: negate_def)

lemma negate_True [err_simps]: "negate c = Inr True \<longleftrightarrow> c = Inr False"
  by (cases c) (auto simp: negate_def)

interpretation ticket:
  signed_envelope "\<lambda>m. verify_ticket cr frepr revoked expected moment m = Inr ''valid''"
    "\<lambda>m. obj_at m [''issuer'']" cr frepr
  for cr frepr revoked expected moment
proof unfold_locales
  fix m assume "verify_ticket cr frepr revoked expected moment m = Inr ''valid''"
  from first_code_valid [OF this [unfolded verify_ticket_def]]
  show "proof_verifies cr frepr m (obj_at m [''issuer'']) = Inr True" by (simp add: negate_False)
qed


subsection \<open>Attributes of well-typed objects\<close>

lemma fields_at:
  "fields_ok sps fs \<Longrightarrow> distinct (map sp_name sps) \<Longrightarrow> sp \<in> set sps \<Longrightarrow>
     \<exists>v. dget fs (sp_name sp) = Some v \<and> (if v = FNone then sp_optional sp else fval_ok (sp_kind sp) v)"
proof (induction sps arbitrary: fs)
  case (Cons s sps)
  then show ?case by (cases s) (fastforce split: list.splits)
qed simp

lemma typed_attr:
  assumes "instance_ok c m" "class_ok c" "sp \<in> set (class_specs c)"
  shows "\<exists>v. attr m (sp_name sp) = Inr v \<and> (if v = FNone then sp_optional sp else fval_ok (sp_kind sp) v)"
proof -
  have "fields_ok (class_specs c) (inst_fields m)" "distinct (map sp_name (class_specs c))"
    using assms(1,2) by (cases c; simp)+
  from fields_at [OF this assms(3)] obtain v where "dget (inst_fields m) (sp_name sp) = Some v"
      "if v = FNone then sp_optional sp else fval_ok (sp_kind sp) v" by (elim exE conjE)
  then show ?thesis unfolding attr_def by (intro exI [of _ v] conjI) (simp only: option.case)
qed

lemma need_str: "instance_ok c m \<Longrightarrow> class_ok c \<Longrightarrow> need a k KStr \<in> set (class_specs c) \<Longrightarrow>
    \<exists>s. attr m a = Inr (FVal (VStr s))"
  using typed_attr [of c m "need a k KStr"] by (auto simp: need_def split: if_splits fval.splits elim: is_str.elims)

lemma need_int: "instance_ok c m \<Longrightarrow> class_ok c \<Longrightarrow> need a k KInt \<in> set (class_specs c) \<Longrightarrow>
    \<exists>i. attr m a = Inr (FVal (VInt i))"
  using typed_attr [of c m "need a k KInt"] by (auto simp: need_def split: if_splits fval.splits pyval.splits)

lemma need_bytes: "instance_ok c m \<Longrightarrow> class_ok c \<Longrightarrow> need a k KBytes \<in> set (class_specs c) \<Longrightarrow>
    \<exists>b. attr m a = Inr (FVal (VBytes b))"
  using typed_attr [of c m "need a k KBytes"] by (auto simp: need_def split: if_splits fval.splits pyval.splits)

lemma need_obj: "instance_ok c m \<Longrightarrow> class_ok c \<Longrightarrow> need a k (KModel d) \<in> set (class_specs c) \<Longrightarrow>
    \<exists>n. attr m a = Inr (FObj n) \<and> instance_ok d n"
  using typed_attr [of c m "need a k (KModel d)"] by (auto simp: need_def split: if_splits fval.splits)

lemma opt_obj: "instance_ok c m \<Longrightarrow> class_ok c \<Longrightarrow> opt a k (KModel d) \<in> set (class_specs c) \<Longrightarrow>
    attr m a = Inr FNone \<or> (\<exists>n. attr m a = Inr (FObj n) \<and> instance_ok d n)"
  using typed_attr [of c m "opt a k (KModel d)"] by (auto simp: opt_def split: if_splits fval.splits)

text \<open>Setting an attribute of a well-typed object to a value of its kind keeps it well typed.\<close>

lemma fields_replace:
  "fields_ok sps fs \<Longrightarrow> distinct (map sp_name sps) \<Longrightarrow> sp \<in> set sps \<Longrightarrow> fval_ok (sp_kind sp) v \<Longrightarrow> v \<noteq> FNone \<Longrightarrow>
     fields_ok sps (dset fs (sp_name sp) v)"
proof (induction sps arbitrary: fs)
  case (Cons s sps)
  obtain a key k optional dflt omit where s: "s = Spec a key k optional dflt omit" by (cases s)
  obtain u fs' where fs: "fs = (a, u) # fs'" "if u = FNone then optional else fval_ok k u" "fields_ok sps fs'"
    using Cons.prems(1) s by (auto split: list.splits)
  show ?case
  proof (cases "sp = s")
    case True
    then show ?thesis using Cons.prems fs s by auto
  next
    case False
    then have sp: "sp \<in> set sps" using Cons.prems(3) by simp
    moreover have "sp_name sp \<noteq> a" using Cons.prems(2) s sp by auto
    ultimately show ?thesis using Cons.IH [OF fs(3) _ sp] Cons.prems fs s by auto
  qed
qed simp

lemma instance_replace:
  assumes "instance_ok c m" "class_ok c" "sp \<in> set (class_specs c)" "fval_ok (sp_kind sp) v" "v \<noteq> FNone"
  shows "instance_ok c (replace_attr (sp_name sp) v m)"
  using assms fields_replace [of "class_specs c" "inst_fields m" sp v] by (cases c) (simp add: replace_attr_def)

lemma attr_replace [simp]: "attr (replace_attr a v m) b = (if b = a then Inr v else attr m b)"
  by (simp add: attr_def replace_attr_def)

subsection \<open>Signing\<close>

definition proof_of :: "model_class \<Rightarrow> model_class option" where
  "proof_of c =
     (if class_name c \<in> {''HavenInviteTicket'', ''HavenInvitePublication'', ''HavenInviteReply'',
                         ''HavenInviteRevocationNotice'', ''HavenInviteContactRequest''} then Some HavenSignatureProof
      else if class_name c \<in> {''IdentityEnrollmentRequest'', ''ChatInvitationArtifact'', ''ChatInvitationAcceptance''}
      then Some SignatureProof else None)"

definition new_proof :: "model_class \<Rightarrow> string \<Rightarrow> bytes \<Rightarrow> instance" where
  "new_proof P uuid sig = Instance P
     [(''type'', FVal (VStr ''signature'')), (''by_identity_uuid'', FVal (VStr uuid)),
      (''algorithm'', FVal (VStr ''EdDSA'')), (''curve_type'', FVal (VStr ''Curve25519'')),
      (''signature'', FVal (VBytes sig))]"

lemma new_proof_object:
  "new_object HavenSignatureProof [(''by_identity_uuid'', FVal (VStr u)), (''signature'', FVal (VBytes s))]
     = Inr (new_proof HavenSignatureProof u s)"
  "new_object SignatureProof [(''by_identity_uuid'', FVal (VStr u)), (''signature'', FVal (VBytes s))]
     = Inr (new_proof SignatureProof u s)"
  by (simp_all add: new_object_def class_defs new_proof_def plain_value_def)

lemma new_proof_ok: "instance_ok HavenSignatureProof (new_proof HavenSignatureProof u s)"
  "instance_ok SignatureProof (new_proof SignatureProof u s)"
  by (simp_all add: class_defs new_proof_def)

lemma new_proof_attrs:
  "attr (new_proof P u s) ''signature'' = Inr (FVal (VBytes s))" "attr (new_proof P u s) ''by_identity_uuid'' = text_val u"
  "attr (new_proof P u s) ''type'' = text_val ''signature''" "attr (new_proof P u s) ''algorithm'' = text_val ''EdDSA''"
  "attr (new_proof P u s) ''curve_type'' = text_val ''Curve25519''"
  by (simp_all add: new_proof_def attr_def)

lemma sign_model_eq:
  assumes "proof_of (inst_class m) = Some P" "model_payload frepr m = Inr payload"
  shows "sign_model frepr m sign uuid = Inr (replace_attr ''proof'' (FObj (new_proof P uuid (sign payload))) m)"
  using assms by (auto simp: sign_model_def proof_of_def new_proof_object Let_def split: if_splits)

lemma spec_fields [simp]:
  "sp_key (opt a k K) = k" "sp_name (opt a k K) = a" "sp_kind (opt a k K) = K" "sp_optional (opt a k K)"
  "sp_key (need a k K) = k" "sp_name (need a k K) = a" "sp_kind (need a k K) = K" "\<not> sp_optional (need a k K)"
  by (simp_all add: opt_def need_def)

lemma proof_specs_table:
  "list_all (\<lambda>c. case proof_of c of
       None \<Rightarrow> True
     | Some P \<Rightarrow> list_ex (\<lambda>sp. sp = opt ''proof'' (sp_key sp) (KModel P)) (class_specs c)) SIGNED_TYPES"
  unfolding SIGNED_TYPES_def list.pred_inject
  by (intro conjI TrueI)
    (simp_all add: proof_of_def IdentityEnrollmentRequest_def IdentityEnrollmentApproval_def IdentityLinkRevocation_def
        HavenInviteTicket_def HavenInvitePublication_def HavenInviteReply_def HavenInviteRevocationNotice_def
        HavenInviteContactRequest_def ChatInvitationArtifact_def ChatInvitationAcceptance_def)

lemma proof_spec:
  assumes "c \<in> set SIGNED_TYPES" "proof_of c = Some P"
  shows "(\<exists>k. opt ''proof'' k (KModel P) \<in> set (class_specs c)) \<and> (\<forall>u s. instance_ok P (new_proof P u s))"
proof -
  have "P = HavenSignatureProof \<or> P = SignatureProof" using assms(2) by (auto simp: proof_of_def split: if_splits)
  moreover have "list_ex (\<lambda>sp. sp = opt ''proof'' (sp_key sp) (KModel P)) (class_specs c)"
    using proof_specs_table assms by (auto simp: list_all_iff)
  then have "\<exists>k. opt ''proof'' k (KModel P) \<in> set (class_specs c)" by (auto simp: list_ex_iff) metis
  ultimately show ?thesis using new_proof_ok by auto
qed


subsection \<open>What signing and verification promise\<close>

text \<open>
  C34: two well-typed envelopes of a signed type have the same signing payload exactly when they
  agree on every attribute but the proof: a signature covers everything else, and nothing of the
  proof.
\<close>

theorem payload_covers_everything_but_the_proof:
  assumes "c \<in> set SIGNED_TYPES" "instance_ok c m" "instance_ok c n"
    and "model_payload frepr m = Inr p" "model_payload frepr n = Inr q"
  shows "p = q \<longleftrightarrow> (\<forall>a. a \<noteq> ''proof'' \<longrightarrow> attr m a = attr n a)"
proof
  assume "p = q"
  then show "\<forall>a. a \<noteq> ''proof'' \<longrightarrow> attr m a = attr n a"
    using payload_determines [OF signed_types [OF assms(1)] assms(2,3,4)] assms(5) by blast
next
  assume "\<forall>a. a \<noteq> ''proof'' \<longrightarrow> attr m a = attr n a"
  then have "model_payload frepr m = model_payload frepr n"
    using payload_same [OF signed_types [OF assms(1)] assms(2,3)] by blast
  with assms(4,5) show "p = q" by simp
qed

text \<open>
  C10: a verifier accepts an envelope only with a valid Ed25519 signature over its whole payload by
  the party it comes from: the new identity of an enrollment request, the given issuer of an
  approval or a revocation, the ticket's issuer of a revocation notice, the sender of a contact
  request, the replier of a reply, the inviter of a chat invitation.
\<close>

theorem accepted_envelopes_are_signed:
  "(verify_enrollment_request cr frepr m = Inr () \<longrightarrow>
      (\<exists>d. attr m ''new_identity'' = Inr (FObj d) \<and> valid_proof cr frepr m d))
   \<and> (verify_enrollment_approval cr frepr m issuer request = Inr () \<longrightarrow> valid_proof cr frepr m issuer)
   \<and> (verify_link_revocation cr frepr m issuer = Inr () \<longrightarrow> valid_proof cr frepr m issuer)
   \<and> (verify_revocation_notice cr frepr m ticket = Inr () \<longrightarrow>
      (\<exists>d. attr ticket ''issuer'' = Inr (FObj d) \<and> valid_proof cr frepr m d))
   \<and> (verify_contact_request cr frepr m ticket moment = Inr () \<longrightarrow>
      (\<exists>d. attr m ''sender'' = Inr (FObj d) \<and> valid_proof cr frepr m d))
   \<and> (verify_reply cr frepr m ticket moment = Inr () \<longrightarrow>
      (\<exists>d. attr m ''replier'' = Inr (FObj d) \<and> valid_proof cr frepr m d))
   \<and> (verify_chat_invitation cr frepr cell inviter moment m = Inr () \<longrightarrow>
      (\<exists>d. attr m ''inviter_identity'' = Inr (FObj d) \<and> valid_proof cr frepr m d))"
  using enrollment_request.has_valid_proof enrollment_approval.has_valid_proof link_revocation.has_valid_proof
    revocation_notice.has_valid_proof contact_request.has_valid_proof reply.has_valid_proof
    chat_invitation.has_valid_proof
  unfolding obj_at1 by fastforce

text \<open>
  C11: a ticket is \<open>valid\<close> exactly when its issuer's key signed it, its proof names the issuer, it
  lives at most ninety days and has not ended, it is not revoked, and it is for the expected
  audience, if one is expected.
\<close>

theorem ticket_valid_iff:
  assumes "instance_ok HavenInviteTicket t"
  shows "verify_ticket cr frepr revoked expected moment t = Inr ''valid'' \<longleftrightarrow>
    (\<exists>d p i au c e. attr t ''issuer'' = Inr (FObj d) \<and> valid_proof cr frepr t d
       \<and> attr t ''proof'' = Inr (FObj p) \<and> attr p ''by_identity_uuid'' = attr d ''uuid''
       \<and> attr t ''created_at'' = Inr (FVal (VInt c)) \<and> attr t ''expires_at'' = Inr (FVal (VInt e))
       \<and> e - c \<le> TICKET_MAXIMUM_TTL \<and> moment \<le> of_int e
       \<and> attr t ''ticket_id'' = Inr (FVal (VStr i)) \<and> i \<notin> set revoked
       \<and> attr t ''audience_token'' = Inr (FVal (VStr au)) \<and> (expected = None \<or> expected = Some au))"
proof -
  note T = HavenInviteTicket_def
  obtain d where d: "attr t ''issuer'' = Inr (FObj d)" "instance_ok IdentityPublicKeyDescriptor d"
    using need_obj [OF assms tables_ok(11), of "''issuer''"] by (auto simp: T)
  obtain u where u: "attr d ''uuid'' = Inr (FVal (VStr u))"
    using need_str [OF d(2) tables_ok(1), of "''uuid''"] by (auto simp: IdentityPublicKeyDescriptor_def)
  obtain i where i: "attr t ''ticket_id'' = Inr (FVal (VStr i))"
    using need_str [OF assms tables_ok(11), of "''ticket_id''"] by (auto simp: T)
  obtain au where au: "attr t ''audience_token'' = Inr (FVal (VStr au))"
    using need_str [OF assms tables_ok(11), of "''audience_token''"] by (auto simp: T)
  obtain c where c: "attr t ''created_at'' = Inr (FVal (VInt c))"
    using need_int [OF assms tables_ok(11), of "''created_at''"] by (auto simp: T)
  obtain e where e: "attr t ''expires_at'' = Inr (FVal (VInt e))"
    using need_int [OF assms tables_ok(11), of "''expires_at''"] by (auto simp: T)
  have ttl: "claims_too_long_a_life t = Inr False \<longleftrightarrow> e - c \<le> TICKET_MAXIMUM_TTL"
    by (simp add: claims_too_long_a_life_def num_attr_def c e not_less flip: of_int_diff)
  have times: "is_expired t moment = Inr False \<longleftrightarrow> moment \<le> of_int e"
    by (simp add: is_expired_def num_attr_def e not_less)
  have named: "same (path t [''proof'', ''by_identity_uuid'']) (path t [''issuer'', ''uuid'']) = Inr True
      \<longleftrightarrow> (\<exists>p. attr t ''proof'' = Inr (FObj p) \<and> attr p ''by_identity_uuid'' = attr d ''uuid'')"
  proof -
    have iu: "path t [''issuer'', ''uuid''] = text_val u" using path2 d(1) u by blast
    show ?thesis unfolding iu same_str(1) path2 u ..
  qed
  have "verify_ticket cr frepr revoked expected moment t = Inr ''valid'' \<longleftrightarrow>
     is_signed t = Inr True
     \<and> same (path t [''proof'', ''by_identity_uuid'']) (path t [''issuer'', ''uuid'']) = Inr True
     \<and> proof_verifies cr frepr t (obj_at t [''issuer'']) = Inr True
     \<and> claims_too_long_a_life t = Inr False \<and> i \<notin> set revoked \<and> is_expired t moment = Inr False
     \<and> (expected = None \<or> expected = Some au)" (is "?v \<longleftrightarrow> ?r")
  proof
    assume ?v
    from first_code_valid [OF this [unfolded verify_ticket_def]] show ?r
      by (auto simp: negate_False str_at1 i au same_str rbind_Inr_iff split: option.splits)
  next
    assume ?r
    then show ?v
      by (auto simp: verify_ticket_def negate_def str_at_def i au same_def split: option.splits)
  qed
  then show ?thesis
    unfolding proof_verifies_obj obj_at1 named ttl times
    using valid_proof_signed i au c e d(1) by auto
qed

lemma from_token_typed:
  assumes "from_token token = Inr ticket"
  shows "instance_ok HavenInviteTicket ticket"
proof -
  obtain data wire where w: "json_loads data = Inr wire" "from_wire HavenInviteTicket wire = Inr ticket"
    using assms by (auto simp: from_token_def Let_def rbind_Inr_iff split: if_splits option.splits sum.splits)
  show ?thesis by (rule from_wire_ok(1) [OF tables_ok(11) json_loads_is_json [OF w(1)] w(2)])
qed

lemma same_eq_str:
  assumes "b = text_val s"
  shows "same a b = Inr True \<longleftrightarrow> a = b"
  using assms by (simp add: same_str)

lemma same_eq_int:
  assumes "a = Inr (FVal (VInt i))" "b = Inr (FVal (VInt j))" "same a b = Inr True"
  shows "i = j"
  using assms by (auto simp: same_def feq_int)

text \<open>
  C24: a publication is accepted only when its token holds a ticket that has not ended and is signed
  by its issuer, the publication repeats that ticket's identifier, human code, audience, issuer and
  end, and the same key signed the publication.
\<close>

theorem publication_bound_to_ticket:
  assumes "instance_ok HavenInvitePublication m" "verify_publication cr frepr moment m = Inr ticket"
  shows "\<exists>token d e. attr m ''ticket_token'' = Inr (FVal (VStr token)) \<and> from_token token = Inr ticket
    \<and> attr ticket ''issuer'' = Inr (FObj d) \<and> valid_proof cr frepr ticket d \<and> valid_proof cr frepr m d
    \<and> (\<forall>a \<in> {''ticket_id'', ''human_code'', ''audience_token'', ''expires_at''}. attr m a = attr ticket a)
    \<and> attr m ''issuer_identity_uuid'' = attr d ''uuid''
    \<and> attr ticket ''expires_at'' = Inr (FVal (VInt e)) \<and> moment \<le> of_int e"
proof -
  note T = HavenInviteTicket_def and P = HavenInvitePublication_def
  obtain token where token: "attr m ''ticket_token'' = Inr (FVal (VStr token))"
    using need_str [OF assms(1) tables_ok(12), of "''ticket_token''"] by (auto simp: P)
  have v: "from_token token = Inr ticket"
    using assms(2) by (auto simp: verify_publication_def str_at_def token rbind_Inr_iff split: sum.splits if_splits)
  note ok = from_token_typed [OF v]
  obtain v0 where v0: "verify_ticket cr frepr [] None moment ticket = Inr v0"
      "v0 \<notin> {''unsigned'', ''issuer_mismatch'', ''bad_signature''}"
    and ex: "is_expired ticket moment = Inr False"
    and s: "same (path m [''expires_at'']) (path ticket [''expires_at'']) = Inr True"
      "same (path ticket [''ticket_id'']) (path m [''ticket_id'']) = Inr True"
      "same (path ticket [''human_code'']) (path m [''human_code'']) = Inr True"
      "same (path ticket [''audience_token'']) (path m [''audience_token'']) = Inr True"
      "same (path ticket [''issuer'', ''uuid'']) (path m [''issuer_identity_uuid'']) = Inr True"
    and env: "proof_verifies cr frepr m (obj_at ticket [''issuer'']) = Inr True"
    using assms(2)
    by (auto simp: verify_publication_def str_at_def token v rbind_Inr_iff checks_Inr check_Inr negate_True
        verify_envelope_def split: if_splits)
  obtain d where d: "attr ticket ''issuer'' = Inr (FObj d)" "valid_proof cr frepr m d"
    using env by (auto simp: proof_verifies_obj obj_at1)
  have tp: "proof_verifies cr frepr ticket (obj_at ticket [''issuer'']) = Inr True"
    using v0 by (auto simp: verify_ticket_def rbind_Inr_iff negate_def split: if_splits)
  have td: "valid_proof cr frepr ticket d" using tp d(1) by (auto simp: proof_verifies_obj obj_at1)
  obtain e where e: "attr ticket ''expires_at'' = Inr (FVal (VInt e))"
    using need_int [OF ok tables_ok(11), of "''expires_at''"] by (auto simp: T)
  obtain e' where e': "attr m ''expires_at'' = Inr (FVal (VInt e'))"
    using need_int [OF assms(1) tables_ok(12), of "''expires_at''"] by (auto simp: P)
  note str_of = need_str [OF assms(1) tables_ok(12)]
  have str: "\<exists>x. attr m ''ticket_id'' = text_val x" "\<exists>x. attr m ''human_code'' = text_val x"
    "\<exists>x. attr m ''audience_token'' = text_val x" "\<exists>x. attr m ''issuer_identity_uuid'' = text_val x"
    by (rule str_of [where k = "''ticketID''"] str_of [where k = "''humanCode''"] str_of [where k = "''audienceToken''"]
        str_of [where k = "''issuerIdentityUUID''"], simp add: P)+
  have eqs: "attr ticket ''ticket_id'' = attr m ''ticket_id''" "attr ticket ''human_code'' = attr m ''human_code''"
    "attr ticket ''audience_token'' = attr m ''audience_token''"
    "path ticket [''issuer'', ''uuid''] = attr m ''issuer_identity_uuid''"
    using s(2-5) str same_eq_str by auto
  obtain x where x: "attr m ''issuer_identity_uuid'' = text_val x" using str(4) by blast
  have "attr d ''uuid'' = attr m ''issuer_identity_uuid''"
    using eqs(4) [unfolded x path2] d(1) x by auto
  moreover have "e' = e" by (rule same_eq_int [OF e' e]) (use s(1) in simp)
  moreover have "moment \<le> of_int e" using ex by (simp add: is_expired_def num_attr_def e not_less)
  ultimately show ?thesis using token v d td eqs(1-3) e e' by auto
qed

lemma signed_envelope_lemma:
  assumes "crypto_ok cr" "length (ed_public cr sk) = 32" "\<forall>x. length (ed_sign cr sk x) = 64"
    and "c \<in> set SIGNED_TYPES" "proof_of c = Some P" "instance_ok c m" "model_payload frepr m = Inr payload"
    and "attr d ''algorithm'' = text_val ''EdDSA''" "attr d ''curve_type'' = text_val ''Curve25519''"
    and "attr d ''public_key'' = Inr (FVal (VBytes (ed_public cr sk)))" "attr d ''uuid'' = text_val uuid"
  shows "\<exists>n. sign_model frepr m (ed_sign cr sk) uuid = Inr n \<and> instance_ok c n
    \<and> (\<forall>a. a \<noteq> ''proof'' \<longrightarrow> attr n a = attr m a) \<and> valid_proof cr frepr n d
    \<and> (attr m ''new_identity'' = Inr (FObj d) \<longrightarrow> verify_enrollment_request cr frepr n = Inr ())"
proof -
  let ?n = "replace_attr ''proof'' (FObj (new_proof P uuid (ed_sign cr sk payload))) m"
  have c: "inst_class m = c" using assms(6) by (cases c) simp
  have sign: "sign_model frepr m (ed_sign cr sk) uuid = Inr ?n"
    by (rule sign_model_eq [OF _ assms(7)]) (simp add: c assms(5))
  obtain k where k: "opt ''proof'' k (KModel P) \<in> set (class_specs c)"
    and P: "instance_ok P (new_proof P uuid s)" for s
    using proof_spec [OF assms(4,5)] by blast
  have sc: "signed_class c" by (rule signed_types [OF assms(4)])
  have ok: "instance_ok c ?n"
    using instance_replace [OF assms(6) _ k, of "FObj (new_proof P uuid (ed_sign cr sk payload))"] P sc
    by (simp add: signed_class_def)
  have pay: "model_payload frepr ?n = Inr payload"
    using payload_same [OF sc ok assms(6)] assms(7) by simp
  have vp: "valid_proof cr frepr ?n d"
    unfolding valid_proof_def pay using assms(1-3,8-10)
    by (simp add: crypto_ok_def new_proof_attrs)
  have "verify_enrollment_request cr frepr ?n = Inr ()" if ni: "attr m ''new_identity'' = Inr (FObj d)"
  proof -
    have "path ?n [''proof'', ''by_identity_uuid''] = text_val uuid"
      unfolding path2 by (simp add: new_proof_attrs)
    moreover have "path ?n [''new_identity'', ''uuid''] = text_val uuid"
      unfolding path2 using ni assms(11) by simp
    ultimately show ?thesis
      using vp valid_proof_signed [OF vp] ni
      by (simp add: verify_enrollment_request_def checks_Inr check_Inr same_str proof_verifies_obj obj_at1)
  qed
  then show ?thesis using sign ok vp by auto
qed

text \<open>
  Signing any envelope but an approval or a revocation changes nothing but its proof, and the
  result carries a valid proof for every descriptor of the signing key; a signed enrollment request
  whose new identity has that key is accepted.
\<close>

lemma signed_envelope_is_accepted:
  assumes "crypto_ok cr" "length (ed_public cr sk) = 32" "\<forall>x. length (ed_sign cr sk x) = 64"
    and "c \<in> set SIGNED_TYPES" "proof_of c = Some P" "instance_ok c m" "model_payload frepr m = Inr payload"
    and "attr d ''algorithm'' = text_val ''EdDSA''" "attr d ''curve_type'' = text_val ''Curve25519''"
    and "attr d ''public_key'' = Inr (FVal (VBytes (ed_public cr sk)))" "attr d ''uuid'' = text_val uuid"
  shows "\<exists>n. sign_model frepr m (ed_sign cr sk) uuid = Inr n \<and> instance_ok c n
    \<and> (\<forall>a. a \<noteq> ''proof'' \<longrightarrow> attr n a = attr m a) \<and> valid_proof cr frepr n d
    \<and> (attr m ''new_identity'' = Inr (FObj d) \<longrightarrow> verify_enrollment_request cr frepr n = Inr ())"
  by (rule signed_envelope_lemma [OF assms])

lemma need_typed:
  "instance_ok ChatInvitationAcceptance m \<Longrightarrow>
     (\<exists>n. attr m ''invitee_identity'' = Inr (FObj n) \<and> instance_ok IdentityPublicKeyDescriptor n)
     \<and> (\<exists>s. attr m ''invitation_id'' = text_val s) \<and> (\<exists>s. attr m ''chat_cell_uuid'' = text_val s)
     \<and> (\<exists>s. attr m ''inviter_identity_uuid'' = text_val s)"
  "instance_ok ChatInvitationArtifact m \<Longrightarrow>
     (\<exists>n. attr m ''invited_identity'' = Inr (FObj n) \<and> instance_ok IdentityPublicKeyDescriptor n)
     \<and> (\<exists>s. attr m ''invitation_id'' = text_val s) \<and> (\<exists>s. attr m ''chat_cell_uuid'' = text_val s)"
  "instance_ok IdentityPublicKeyDescriptor m \<Longrightarrow>
     (\<exists>s. attr m ''uuid'' = text_val s) \<and> (\<exists>s. attr m ''algorithm'' = text_val s)
     \<and> (\<exists>s. attr m ''curve_type'' = text_val s) \<and> (\<exists>b. attr m ''public_key'' = Inr (FVal (VBytes b)))"
proof -
  assume ok: "instance_ok ChatInvitationAcceptance m"
  note s = need_str [OF ok tables_ok(17)] and n = need_obj [OF ok tables_ok(17)]
  show "(\<exists>n. attr m ''invitee_identity'' = Inr (FObj n) \<and> instance_ok IdentityPublicKeyDescriptor n)
     \<and> (\<exists>s. attr m ''invitation_id'' = text_val s) \<and> (\<exists>s. attr m ''chat_cell_uuid'' = text_val s)
     \<and> (\<exists>s. attr m ''inviter_identity_uuid'' = text_val s)"
    by (intro conjI s [where k = "''invitationID''"] s [where k = "''chatCellUUID''"] s [where k = "''inviterIdentityUUID''"]
        n [where k = "''inviteeIdentity''"]) (simp_all add: ChatInvitationAcceptance_def)
next
  assume ok: "instance_ok ChatInvitationArtifact m"
  note s = need_str [OF ok tables_ok(16)] and n = need_obj [OF ok tables_ok(16)]
  show "(\<exists>n. attr m ''invited_identity'' = Inr (FObj n) \<and> instance_ok IdentityPublicKeyDescriptor n)
     \<and> (\<exists>s. attr m ''invitation_id'' = text_val s) \<and> (\<exists>s. attr m ''chat_cell_uuid'' = text_val s)"
    by (intro conjI s [where k = "''invitationID''"] s [where k = "''chatCellUUID''"] n [where k = "''invitedIdentity''"])
      (simp_all add: ChatInvitationArtifact_def)
next
  assume ok: "instance_ok IdentityPublicKeyDescriptor m"
  note s = need_str [OF ok tables_ok(1)] and b = need_bytes [OF ok tables_ok(1)]
  show "(\<exists>s. attr m ''uuid'' = text_val s) \<and> (\<exists>s. attr m ''algorithm'' = text_val s)
     \<and> (\<exists>s. attr m ''curve_type'' = text_val s) \<and> (\<exists>b. attr m ''public_key'' = Inr (FVal (VBytes b)))"
    by (intro conjI s [where k = "''uuid''"] s [where k = "''algorithm''"] s [where k = "''curveType''"]
        b [where k = "''publicKey''"]) (simp_all add: IdentityPublicKeyDescriptor_def)
qed

text \<open>\<open>same_key\<close> of two descriptors: they agree on everything but the display name.\<close>

lemma same_bytes: "same a (Inr (FVal (VBytes s))) = Inr True \<longleftrightarrow> a = Inr (FVal (VBytes s))"
  by (simp add: same_def rbind_def split: sum.splits)

lemma same_key_True:
  assumes "instance_ok IdentityPublicKeyDescriptor m" "instance_ok IdentityPublicKeyDescriptor n"
  shows "same_key m n = Inr True \<longleftrightarrow>
     (\<forall>a \<in> {''uuid'', ''public_key'', ''algorithm'', ''curve_type''}. attr m a = attr n a)"
  using need_typed(3) [OF assms(2)]
  by (auto simp: same_key_def both_True same_str same_bytes)

text \<open>
  C23: a chat acceptance is accepted only for an invitation that the inviter signed and that has not
  ended, whose hash it repeats; the invitation was made out to the key that signed the acceptance,
  it is for the same cell, and it was accepted within the invitation's life, give or take the clock
  skew at its start.
\<close>

theorem acceptance_bound_to_invitation:
  assumes "verify_chat_acceptance cr frepr cell moment m art = Inr ()"
    and "instance_ok ChatInvitationAcceptance m" "instance_ok ChatInvitationArtifact art"
  shows "\<exists>inviter invitee invited h i e a. attr art ''inviter_identity'' = Inr (FObj inviter)
    \<and> valid_proof cr frepr art inviter \<and> attr m ''invitee_identity'' = Inr (FObj invitee)
    \<and> valid_proof cr frepr m invitee \<and> attr art ''invited_identity'' = Inr (FObj invited)
    \<and> (\<forall>b \<in> {''uuid'', ''public_key'', ''algorithm'', ''curve_type''}. attr invitee b = attr invited b)
    \<and> attr m ''invitation_hash'' = Inr (FVal (VBytes h)) \<and> invitation_hash frepr art = Inr h
    \<and> attr m ''invitation_id'' = attr art ''invitation_id'' \<and> attr m ''chat_cell_uuid'' = attr art ''chat_cell_uuid''
    \<and> date_at art ''created_at'' = Inr (Some i) \<and> date_at art ''expires_at'' = Inr (Some e)
    \<and> date_at m ''created_at'' = Inr (Some a)
    \<and> seconds i - 300 \<le> seconds a \<and> a \<le> e \<and> moment \<le> seconds e"
proof -
  obtain inviter_uuid where inv: "attr m ''inviter_identity_uuid'' = text_val inviter_uuid"
    using need_typed(1) [OF assms(2)] by blast
  have c: "verify_chat_invitation cr frepr cell (FVal (VStr inviter_uuid)) moment art = Inr ()"
    and id: "same (attr m ''invitation_id'') (attr art ''invitation_id'') = Inr True"
      "same (attr m ''chat_cell_uuid'') (attr art ''chat_cell_uuid'') = Inr True"
    and key: "rbind (obj_at m [''invitee_identity'']) (\<lambda>s. rbind (obj_at art [''invited_identity'']) (same_key s)) = Inr True"
    and hash: "rbind (attr m ''invitation_hash'') (\<lambda>h. rbind (invitation_hash frepr art) (\<lambda>g.
         Inr (feq h (FVal (VBytes g))))) = Inr True"
    and times: "rbind (date_at art ''created_at'') (\<lambda>invited_at. rbind (date_at art ''expires_at'') (\<lambda>expires_at.
         rbind (date_at m ''created_at'') (\<lambda>accepted_at.
           Inr (case (invited_at, expires_at, accepted_at) of
                  (Some i, Some e, Some a) \<Rightarrow> seconds i - ALLOWED_CLOCK_SKEW \<le> seconds a \<and> a \<le> e
                    \<and> seconds a \<le> moment + ALLOWED_CLOCK_SKEW
                | _ \<Rightarrow> False)))) = Inr True"
    using assms(1) unfolding verify_chat_acceptance_def checks_Inr
    by (simp_all add: check_Inr inv)
  obtain inviter where p: "attr art ''inviter_identity'' = Inr (FObj inviter)" "valid_proof cr frepr art inviter"
    using chat_invitation.has_valid_proof [OF c] unfolding obj_at1 by blast
  obtain invitee where q: "attr m ''invitee_identity'' = Inr (FObj invitee)" "valid_proof cr frepr m invitee"
    using chat_acceptance.has_valid_proof [OF assms(1)] unfolding obj_at1 by blast
  have qok: "instance_ok IdentityPublicKeyDescriptor invitee" using need_typed(1) [OF assms(2)] q(1) by auto
  obtain invited where r: "attr art ''invited_identity'' = Inr (FObj invited)"
      "instance_ok IdentityPublicKeyDescriptor invited"
    using need_typed(2) [OF assms(3)] by blast
  have k: "\<forall>b \<in> {''uuid'', ''public_key'', ''algorithm'', ''curve_type''}. attr invitee b = attr invited b"
    using key q(1) r same_key_True [OF qok r(2)] by (auto simp: obj_at1 rbind_Inr_iff)
  obtain h where h: "attr m ''invitation_hash'' = Inr (FVal (VBytes h))" "invitation_hash frepr art = Inr h"
    using hash by (auto simp: rbind_Inr_iff)
  have ids: "attr m ''invitation_id'' = attr art ''invitation_id''" "attr m ''chat_cell_uuid'' = attr art ''chat_cell_uuid''"
    using id need_typed(2) [OF assms(3)] same_eq_str by auto
  obtain i e a where t: "date_at art ''created_at'' = Inr (Some i)" "date_at art ''expires_at'' = Inr (Some e)"
      "date_at m ''created_at'' = Inr (Some a)" "seconds i - 300 \<le> seconds a" "a \<le> e"
  proof -
    obtain x y z where d: "date_at art ''created_at'' = Inr x" "date_at art ''expires_at'' = Inr y"
        "date_at m ''created_at'' = Inr z"
      and b: "case (x, y, z) of (Some i, Some e, Some a) \<Rightarrow> seconds i - ALLOWED_CLOCK_SKEW \<le> seconds a \<and> a \<le> e
                    \<and> seconds a \<le> moment + ALLOWED_CLOCK_SKEW | _ \<Rightarrow> False"
      using times by (auto simp: rbind_Inr_iff)
    from b show ?thesis by (cases x; cases y; cases z) (use d that in \<open>auto simp: limits\<close>)
  qed
  have "rbind (date_at art ''expires_at'') (\<lambda>expires.
        Inr (case expires of Some e \<Rightarrow> moment \<le> seconds e | None \<Rightarrow> False)) = Inr True"
    using c unfolding verify_chat_invitation_def checks_Inr validate_invitation_def by (simp add: check_Inr)
  then have "moment \<le> seconds e" using t(2) by simp
  with p q r(1) k h ids t show ?thesis by blast
qed

lemma num_le_fin [simp]: "num_le (Fin a) (Fin b) \<longleftrightarrow> a \<le> b"
  by simp

lemma number_at_val: "number_at m a = Inr (u, f) \<Longrightarrow> num_val u = Some f"
proof -
  assume n: "number_at m a = Inr (u, f)"
  then obtain v where v: "attr m a = Inr v" by (auto simp: number_at_def rbind_Inr_iff)
  with n show "num_val u = Some f" by (cases v) (auto simp: number_at_def split: option.splits)
qed

lemma challenge_window:
  assumes "num_le i e" "py_minus ev iv = Inr d" "num_le d (Fin v)" "num_val ev = Some e" "num_val iv = Some i"
  shows "\<exists>p q. i = Fin p \<and> e = Fin q \<and> p \<le> q \<and> q \<le> p + v"
proof -
  have "d = num_minus e i \<or> (\<exists>p q. i = Fin p \<and> e = Fin q \<and> d = Fin (q - p))"
    using assms(2,4,5) by (cases "(ev, iv)" rule: py_minus.cases)
      (auto simp: rbind_Inr_iff split: if_splits elim!: float_of.elims num_val.elims)
  then show ?thesis using assms(1,3) by (cases i; cases e) auto
qed


end
