(* ===== verification/Verify_Runs.thy ===== *)
theory Verify_Runs
  imports Verify
begin

text \<open>
  Concrete signed envelopes for the properties of \<open>Verify\<close>: a ticket, its publication, an
  enrollment request, a chat invitation and its acceptance, signed with a toy signature scheme.
  The text of an object all of whose texts are ASCII can always be written, so every envelope
  here has a payload.
\<close>

subsection \<open>Writing ASCII\<close>

fun ascii_val :: "pyval \<Rightarrow> bool"
and ascii_list :: "pyval list \<Rightarrow> bool"
and ascii_items :: "(string \<times> pyval) list \<Rightarrow> bool" where
  "ascii_val VNull = True"
| "ascii_val (VBool b) = True"
| "ascii_val (VInt i) = True"
| "ascii_val (VStr s) = is_ascii s"
| "ascii_val (VList vs) = ascii_list vs"
| "ascii_val (VDict d) = ascii_items d"
| "ascii_val _ = False"
| "ascii_list [] = True"
| "ascii_list (v # vs) = (ascii_val v \<and> ascii_list vs)"
| "ascii_items [] = True"
| "ascii_items ((k, v) # d) = (is_ascii k \<and> ascii_val v \<and> ascii_items d)"

lemma ascii_list_iff: "ascii_list vs \<longleftrightarrow> (\<forall>v \<in> set vs. ascii_val v)"
  by (induction vs) auto

lemma ascii_items_iff: "ascii_items d \<longleftrightarrow> (\<forall>(k, v) \<in> set d. is_ascii k \<and> ascii_val v)"
  by (induction d) auto

lemma ascii_join: "is_ascii sep \<Longrightarrow> (\<And>t. t \<in> set ts \<Longrightarrow> is_ascii t) \<Longrightarrow> is_ascii (join_with sep ts)"
  by (induction sep ts rule: join_with.induct) (auto simp: ascii_append is_ascii_def)

lemma ascii_show_nat: "is_ascii (show_nat n)"
proof -
  have "c \<in> set (show_nat n) \<Longrightarrow> of_char c < (128 :: nat)" for c
    using show_nat_digits [of n] by (fastforce simp: list_all_iff is_digit_def Let_def)
  then show ?thesis by (simp add: is_ascii_def)
qed

lemma ascii_show_int: "is_ascii (show_int i)"
  using ascii_show_nat by (auto simp: show_int_def is_ascii_def)

lemma escapes_ascii: "\<forall>(c, e) \<in> set ESCAPES. is_ascii e"
  by (simp add: ESCAPES_def is_ascii_def)

lemma hex_digit_ascii: "n < 16 \<Longrightarrow> of_char (hex_digit n) < (128 :: nat)"
  by (simp add: hex_digit_def)

lemma escape_ascii: "of_char c < (128 :: nat) \<Longrightarrow> is_ascii (escape_char esc c)"
proof -
  assume c: "of_char c < (128 :: nat)"
  have u: "is_ascii ''u00''" "of_char (CHR 0x5C) < (128 :: nat)" by (simp_all add: is_ascii_def)
  show "is_ascii (escape_char esc c)"
  proof (cases "dget ESCAPES c")
    case (Some e)
    then have "is_ascii e" using escapes_ascii by (auto dest!: map_of_SomeD)
    with Some c show ?thesis by (simp add: escape_char_def) (simp add: is_ascii_def)
  next
    case None
    define n where "n = (of_char c :: nat)"
    have "is_ascii (CHR 0x5C # ''u00'' @ [hex_digit (n div 16), hex_digit (n mod 16)])" if "n < 32"
      using that hex_digit_ascii [of "n div 16"] hex_digit_ascii [of "n mod 16"] by (simp add: is_ascii_def)
    moreover have "is_ascii [c]" using c by (simp add: is_ascii_def)
    ultimately show ?thesis using None unfolding escape_char_def n_def [symmetric] Let_def
      by (simp only: option.case split: if_split) blast
  qed
qed

lemma quote_ascii: "is_ascii s \<Longrightarrow> is_ascii (json_quote esc s)"
  using escape_ascii by (auto simp: json_quote_def is_ascii_def)

lemma rmap_ascii:
  "(\<And>x. x \<in> set xs \<Longrightarrow> \<exists>t. f x = Inr t \<and> is_ascii t) \<Longrightarrow> \<exists>ts. rmap f xs = Inr ts \<and> (\<forall>t \<in> set ts. is_ascii t)"
proof (induction xs)
  case (Cons x xs)
  then obtain t ts where "f x = Inr t" "is_ascii t" "rmap f xs = Inr ts" "\<forall>t \<in> set ts. is_ascii t" by fastforce
  then show ?case by simp
qed simp

lemma write_ascii: "ascii_val v \<Longrightarrow> \<exists>t. write_json frepr ord esc v = Inr t \<and> is_ascii t"
proof (induction frepr ord esc v rule: write_json.induct)
  case (1 frepr ord esc v)
  have comma: "is_ascii '',''" "is_ascii ''[''" "is_ascii '']''" "is_ascii ''{''" "is_ascii ''}''" "is_ascii '':''"
    by (simp_all add: is_ascii_def)
  show ?case
  proof (cases v)
    case (VList vs)
    have "\<exists>ts. rmap (write_json frepr ord esc) vs = Inr ts \<and> (\<forall>t \<in> set ts. is_ascii t)"
      by (rule rmap_ascii) (use 1 VList in \<open>auto simp: ascii_list_iff\<close>)
    then obtain ts where ts: "rmap (write_json frepr ord esc) vs = Inr ts" "\<forall>t \<in> set ts. is_ascii t" by blast
    have "is_ascii (''['' @ join_with '','' ts @ '']'')"
      using ascii_join [of "'',''" ts] comma ts(2) unfolding ascii_append by blast
    then show ?thesis using VList ts(1) by (simp add: write_json.simps [of _ _ _ "VList _"])
  next
    case (VDict d)
    have "\<exists>ts. rmap (\<lambda>(k, w). rbind (write_json frepr ord esc w) (\<lambda>t. Inr (json_quote esc k @ '':'' @ t)))
        (sort_by (item_less ord) d) = Inr ts \<and> (\<forall>t \<in> set ts. is_ascii t)"
    proof (rule rmap_ascii)
      fix x assume x: "x \<in> set (sort_by (item_less ord) d)"
      obtain k w where kw: "x = (k, w)" by (cases x)
      with x have "is_ascii k" "ascii_val w" using "1.prems" VDict by (auto simp: ascii_items_iff)
      moreover from this obtain t where "write_json frepr ord esc w = Inr t" "is_ascii t"
        using "1.IH"(3) [OF VDict x kw [symmetric]] by auto
      ultimately show "\<exists>t. (case x of (k, w) \<Rightarrow> rbind (write_json frepr ord esc w) (\<lambda>t. Inr (json_quote esc k @ '':'' @ t))) = Inr t \<and> is_ascii t"
        using kw quote_ascii [of k esc] comma by (auto simp only: prod.case rbind_simps ascii_append)
    qed
    then obtain ts where ts: "rmap (\<lambda>(k, w). rbind (write_json frepr ord esc w) (\<lambda>t. Inr (json_quote esc k @ '':'' @ t)))
        (sort_by (item_less ord) d) = Inr ts" "\<forall>t \<in> set ts. is_ascii t" by blast
    have "is_ascii (''{'' @ join_with '','' ts @ ''}'')"
      using ascii_join [of "'',''" ts] comma ts(2) unfolding ascii_append by blast
    then show ?thesis using VDict ts(1) by (simp add: write_json.simps [of _ _ _ "VDict _"])
  qed (use "1.prems" quote_ascii ascii_show_int in \<open>auto simp: write_json.simps is_ascii_def split: if_splits\<close>)
qed

lemma canonical_ascii: "ascii_items d \<Longrightarrow> order \<in> {''foundation'', ''encoder''} \<Longrightarrow>
    \<exists>p. canonical_json frepr (VDict d) order esc = Inr p"
  using write_ascii [of "VDict d" frepr "order_of order" esc] valid_utf8_ascii
  by (auto simp: canonical_json_def order_of_def)

lemma payload_ascii: "to_wire m = Inr d \<Longrightarrow> ascii_items d \<Longrightarrow> \<exists>p. model_payload frepr m = Inr p"
  using canonical_ascii [of "filter (\<lambda>(k, v). k \<notin> set (class_excluded (inst_class m))) d" "''foundation''" frepr True]
  by (auto simp: model_payload_def canonical_payload_def ascii_items_iff)

lemma token_ascii: "to_wire m = Inr d \<Longrightarrow> ascii_items d \<Longrightarrow> \<exists>token. to_token frepr m = Inr token \<and> is_ascii token"
proof -
  assume d: "to_wire m = Inr d" "ascii_items d"
  obtain bs where "to_json_bytes frepr m = Inr bs"
    using canonical_ascii [OF d(2), of "''encoder''" frepr True] d(1) by (auto simp: to_json_bytes_def)
  then show ?thesis using token_decodes [of bs] by (auto simp: to_token_def ascii_append)
qed

subsection \<open>A toy signature scheme and its keys\<close>

text \<open>A signature is the key, which is public, followed by the digest of the message.\<close>

definition run_crypto :: crypto where
  "run_crypto = \<lparr>ed_public = (\<lambda>sk. sk), ed_sign = (\<lambda>sk m. take 32 sk @ sha256 m),
     ed_verify = (\<lambda>pk sig m. sig = take 32 pk @ sha256 m)\<rparr>"

definition run_repr :: "rat \<Rightarrow> string" where
  "run_repr q = []"

definition alice :: bytes where "alice = replicate 32 1"
definition bob :: bytes where "bob = replicate 32 2"

lemma run_keys: "length alice = 32" "length bob = 32"
  by (simp_all add: alice_def bob_def)

lemma run_crypto_ok: "crypto_ok run_crypto" "ed_public run_crypto k = k"
  "length k = 32 \<Longrightarrow> \<forall>x. length (ed_sign run_crypto k x) = 64"
  by (simp_all add: crypto_ok_def run_crypto_def length_sha256)

definition descriptor :: "string \<Rightarrow> bytes \<Rightarrow> instance" where
  "descriptor u k = Instance IdentityPublicKeyDescriptor
     [(''uuid'', FVal (VStr u)), (''public_key'', FVal (VBytes k)), (''algorithm'', FVal (VStr ''EdDSA'')),
      (''curve_type'', FVal (VStr ''Curve25519'')), (''display_name'', FNone)]"

lemma descriptor_attrs:
  "attr (descriptor u k) ''algorithm'' = text_val ''EdDSA''" "attr (descriptor u k) ''curve_type'' = text_val ''Curve25519''"
  "attr (descriptor u k) ''public_key'' = Inr (FVal (VBytes k))" "attr (descriptor u k) ''uuid'' = text_val u"
  by (simp_all add: attr_def descriptor_def)

definition descriptor_wire :: "string \<Rightarrow> bytes \<Rightarrow> pyval dict" where
  "descriptor_wire u k = [(''uuid'', VStr u), (''publicKey'', VStr (b64encode k)), (''algorithm'', VStr ''EdDSA''),
     (''curveType'', VStr ''Curve25519'')]"

lemma descriptor_wire: "to_wire (descriptor u k) = Inr (descriptor_wire u k)"
  by (simp add: descriptor_def descriptor_wire_def IdentityPublicKeyDescriptor_def need_def opt_def)

lemma descriptor_ok: "instance_ok IdentityPublicKeyDescriptor (descriptor u k)"
  by (simp add: descriptor_def IdentityPublicKeyDescriptor_def need_def opt_def)

lemma descriptor_ascii: "is_ascii u \<Longrightarrow> ascii_items (descriptor_wire u k)"
  by (simp add: descriptor_wire_def b64encode_ascii) (simp add: is_ascii_def)

text \<open>Signing with a key, for the descriptor of that key.\<close>

lemma run_signed:
  assumes "length k = 32" "c \<in> set SIGNED_TYPES" "proof_of c = Some P" "instance_ok c m"
    and "to_wire m = Inr d" "ascii_items d"
  shows "\<exists>n. sign_model run_repr m (ed_sign run_crypto k) u = Inr n \<and> instance_ok c n
    \<and> (\<forall>a. a \<noteq> ''proof'' \<longrightarrow> attr n a = attr m a) \<and> valid_proof run_crypto run_repr n (descriptor u k)
    \<and> (attr m ''new_identity'' = Inr (FObj (descriptor u k)) \<longrightarrow> verify_enrollment_request run_crypto run_repr n = Inr ())"
proof -
  obtain p where p: "model_payload run_repr m = Inr p" using payload_ascii [OF assms(5,6)] by blast
  show ?thesis
    by (rule signed_envelope_lemma [OF run_crypto_ok(1) _ run_crypto_ok(3) [OF assms(1)] assms(2-4) p])
      (simp_all add: run_crypto_ok descriptor_attrs assms(1))
qed

subsection \<open>A ticket and its publication\<close>

definition run_ticket :: "instance" where
  "run_ticket = Instance HavenInviteTicket
     [(''version'', FVal (VInt 1)), (''ticket_id'', FVal (VStr ''t-1'')), (''issuer'', FObj (descriptor ''ida'' alice)),
      (''issuer_display_name'', FVal (VStr ''Ida'')), (''issuer_contact_endpoint'', FVal (VStr ''e'')),
      (''issuer_entity_ref'', FNone), (''audience_token'', FVal (VStr ''a'')), (''audience_kind'', FVal (VStr ''email'')),
      (''human_code'', FVal (VStr ''h'')), (''greeting_name'', FNone), (''note'', FNone), (''identity_domain'', FNone),
      (''basis'', FObjs []), (''created_at'', FVal (VInt 100)), (''expires_at'', FVal (VInt 200)),
      (''nonce'', FVal (VBytes [])), (''capabilities'', FVal (VList [VStr ''c''])), (''proof'', FNone)]"

lemma run_ticket_ok: "instance_ok HavenInviteTicket run_ticket"
  by (simp add: class_defs run_ticket_def descriptor_def)

lemma run_ticket_attrs:
  "attr run_ticket ''issuer'' = Inr (FObj (descriptor ''ida'' alice))" "attr run_ticket ''ticket_id'' = text_val ''t-1''"
  "attr run_ticket ''audience_token'' = text_val ''a''" "attr run_ticket ''human_code'' = text_val ''h''"
  "attr run_ticket ''created_at'' = Inr (FVal (VInt 100))" "attr run_ticket ''expires_at'' = Inr (FVal (VInt 200))"
  "attr run_ticket ''version'' = Inr (FVal (VInt 1))" "attr run_ticket ''note'' = Inr FNone"
  by (simp_all add: attr_def run_ticket_def)

lemma ascii_texts:
  "is_ascii ''t-1''" "is_ascii ''ida''" "is_ascii ''bob''" "is_ascii ''Ida''" "is_ascii []"
  by (simp_all add: is_ascii_def)

lemma run_ticket_wire: "\<exists>d. to_wire run_ticket = Inr d \<and> ascii_items d"
proof -
  have "ascii_items (descriptor_wire ''ida'' alice)" by (rule descriptor_ascii [OF ascii_texts(2)])
  then show ?thesis
    by (simp add: HavenInviteTicket_def need_def opt_def DEFAULT_TICKET_CAPABILITIES_def run_ticket_def descriptor_wire
        default_value_def plain_value_def feq.simps) (simp add: is_ascii_def)
qed

lemma proof_of_types [simp]:
  "proof_of HavenInviteTicket = Some HavenSignatureProof" "proof_of HavenInvitePublication = Some HavenSignatureProof"
  "proof_of IdentityEnrollmentRequest = Some SignatureProof" "proof_of ChatInvitationArtifact = Some SignatureProof"
  "proof_of ChatInvitationAcceptance = Some SignatureProof"
  by (simp_all add: proof_of_def HavenInviteTicket_def HavenInvitePublication_def IdentityEnrollmentRequest_def
      ChatInvitationArtifact_def ChatInvitationAcceptance_def)

text \<open>The signed ticket, written out, so that its proof can be inspected.\<close>

definition run_payload :: "instance \<Rightarrow> bytes" where
  "run_payload m = (case model_payload run_repr m of Inr p \<Rightarrow> p | Inl e \<Rightarrow> [])"

definition run_sign :: "model_class \<Rightarrow> bytes \<Rightarrow> string \<Rightarrow> instance \<Rightarrow> instance" where
  "run_sign P k u m = replace_attr ''proof'' (FObj (new_proof P u (ed_sign run_crypto k (run_payload m)))) m"

lemma run_sign:
  assumes "length k = 32" "c \<in> set SIGNED_TYPES" "proof_of c = Some P" "instance_ok c m"
    and "\<exists>d. to_wire m = Inr d \<and> ascii_items d"
  shows "instance_ok c (run_sign P k u m)" "valid_proof run_crypto run_repr (run_sign P k u m) (descriptor u k)"
    and "\<And>a. a \<noteq> ''proof'' \<Longrightarrow> attr (run_sign P k u m) a = attr m a"
    and "attr (run_sign P k u m) ''proof'' = Inr (FObj (new_proof P u (ed_sign run_crypto k (run_payload m))))"
    and "sign_model run_repr m (ed_sign run_crypto k) u = Inr (run_sign P k u m)"
proof -
  obtain d where d: "to_wire m = Inr d" "ascii_items d" using assms(5) by blast
  obtain p where p: "model_payload run_repr m = Inr p" using payload_ascii [OF d] by blast
  have "inst_class m = c" using assms(4) by (cases c) simp
  then have s: "sign_model run_repr m (ed_sign run_crypto k) u = Inr (run_sign P k u m)"
    using sign_model_eq [of m P run_repr p "ed_sign run_crypto k" u] assms(3) p
    by (simp add: run_sign_def run_payload_def)
  then show "sign_model run_repr m (ed_sign run_crypto k) u = Inr (run_sign P k u m)" .
  show "instance_ok c (run_sign P k u m)" "valid_proof run_crypto run_repr (run_sign P k u m) (descriptor u k)"
    using run_signed [OF assms(1-4) d, of u] s by auto
  show "\<And>a. a \<noteq> ''proof'' \<Longrightarrow> attr (run_sign P k u m) a = attr m a"
    "attr (run_sign P k u m) ''proof'' = Inr (FObj (new_proof P u (ed_sign run_crypto k (run_payload m))))"
    by (simp_all add: run_sign_def)
qed

lemma new_proof_wire:
  "to_wire (new_proof HavenSignatureProof u s) = Inr [(''ty'', VStr ''signature''), (''by'', VStr u),
     (''al'', VStr ''EdDSA''), (''cv'', VStr ''Curve25519''), (''sg'', VStr (b64encode s))]"
  by (simp add: new_proof_def HavenSignatureProof_def need_def opt_def)

abbreviation signed_ticket :: "instance" where
  "signed_ticket \<equiv> run_sign HavenSignatureProof alice ''ida'' run_ticket"

lemmas signed_ticket = run_sign [OF run_keys(1) _ proof_of_types(1) run_ticket_ok run_ticket_wire, where u = "''ida''"]

lemma ticket_signed_type: "HavenInviteTicket \<in> set SIGNED_TYPES" "HavenInvitePublication \<in> set SIGNED_TYPES"
  "IdentityEnrollmentRequest \<in> set SIGNED_TYPES" "ChatInvitationArtifact \<in> set SIGNED_TYPES"
  "ChatInvitationAcceptance \<in> set SIGNED_TYPES"
  by (simp_all add: SIGNED_TYPES_def)

lemmas signed_ticket_facts = signed_ticket [OF ticket_signed_type(1)]

lemma ticket_valid_iff_witness:
  "verify_ticket run_crypto run_repr [''t-0''] (Some ''a'') 150 signed_ticket = Inr ''valid''
    \<and> verify_ticket run_crypto run_repr [''t-1''] (Some ''a'') 150 signed_ticket \<noteq> Inr ''valid''"
proof
  note iff = ticket_valid_iff [OF signed_ticket_facts(1)]
  note a = signed_ticket_facts(3) run_ticket_attrs
  show "verify_ticket run_crypto run_repr [''t-0''] (Some ''a'') 150 signed_ticket = Inr ''valid''"
    unfolding iff
    using signed_ticket_facts(2,4) by (simp add: a new_proof_attrs descriptor_attrs TICKET_MAXIMUM_TTL_def)
  show "verify_ticket run_crypto run_repr [''t-1''] (Some ''a'') 150 signed_ticket \<noteq> Inr ''valid''"
    unfolding iff by (simp add: a)
qed

lemma payload_covers_everything_but_the_proof_witness:
  "model_payload run_repr run_ticket = model_payload run_repr signed_ticket
    \<and> model_payload run_repr run_ticket \<noteq> model_payload run_repr (replace_attr ''note'' (FVal (VStr ''x'')) run_ticket)"
proof
  let ?n = "replace_attr ''note'' (FVal (VStr ''x'')) run_ticket"
  obtain p where p: "model_payload run_repr run_ticket = Inr p" using run_ticket_wire payload_ascii by blast
  obtain q where q: "model_payload run_repr signed_ticket = Inr q"
    using signed_ticket_facts(2) by (auto simp: valid_proof_def)
  note iff = payload_covers_everything_but_the_proof [OF ticket_signed_type(1) run_ticket_ok]
  show "model_payload run_repr run_ticket = model_payload run_repr signed_ticket"
    using iff [OF signed_ticket_facts(1) p q] signed_ticket_facts(3) p q by auto
  have ok: "instance_ok HavenInviteTicket ?n"
    using instance_replace [OF run_ticket_ok tables_ok(11), of "opt ''note'' ''no'' KStr"]
    by (simp add: HavenInviteTicket_def)
  show "model_payload run_repr run_ticket \<noteq> model_payload run_repr ?n"
  proof
    assume eq: "model_payload run_repr run_ticket = model_payload run_repr ?n"
    then have "model_payload run_repr ?n = Inr p" using p by simp
    from iff [OF ok p this] have "\<forall>a. a \<noteq> ''proof'' \<longrightarrow> attr run_ticket a = attr ?n a" by simp
    from this [rule_format, of "''note''"] show False by (simp add: run_ticket_attrs)
  qed
qed

text \<open>The publication of the signed ticket.\<close>

definition run_publication :: "string \<Rightarrow> instance" where
  "run_publication token = Instance HavenInvitePublication
     [(''schema'', FVal (VStr ''haven.invite.publication.v1'')), (''ticket_id'', FVal (VStr ''t-1'')),
      (''human_code'', FVal (VStr ''h'')), (''ticket_token'', FVal (VStr token)), (''audience_token'', FVal (VStr ''a'')),
      (''issuer_identity_uuid'', FVal (VStr ''ida'')), (''expires_at'', FVal (VInt 200)), (''published_at'', FVal (VInt 110)),
      (''max_contact_requests'', FVal (VInt 3)), (''status_key'', FVal (VStr ''s'')), (''proof'', FNone)]"

lemma run_publication_ok: "instance_ok HavenInvitePublication (run_publication token)"
  by (simp add: class_defs run_publication_def)

lemma run_publication_attrs:
  "attr (run_publication k) ''ticket_token'' = text_val k" "attr (run_publication k) ''ticket_id'' = text_val ''t-1''"
  "attr (run_publication k) ''human_code'' = text_val ''h''" "attr (run_publication k) ''audience_token'' = text_val ''a''"
  "attr (run_publication k) ''issuer_identity_uuid'' = text_val ''ida''"
  "attr (run_publication k) ''expires_at'' = Inr (FVal (VInt 200))"
  by (simp_all add: attr_def run_publication_def)

lemma run_publication_wire: "is_ascii token \<Longrightarrow> \<exists>d. to_wire (run_publication token) = Inr d \<and> ascii_items d"
  by (simp add: HavenInvitePublication_def need_def opt_def run_publication_def default_value_def plain_value_def feq.simps)
    (simp add: is_ascii_def)

lemma signed_ticket_token: "\<exists>token. from_token token = Inr signed_ticket \<and> is_ascii token"
proof -
  have "ascii_items (descriptor_wire ''ida'' alice)" by (rule descriptor_ascii [OF ascii_texts(2)])
  then have "\<exists>d. to_wire signed_ticket = Inr d \<and> ascii_items d"
    by (simp add: HavenInviteTicket_def need_def opt_def DEFAULT_TICKET_CAPABILITIES_def run_ticket_def descriptor_wire
        default_value_def plain_value_def feq.simps run_sign_def replace_attr_def new_proof_wire b64encode_ascii)
      (simp add: is_ascii_def)
  then obtain token where t: "to_token run_repr signed_ticket = Inr token" "is_ascii token"
    using token_ascii by blast
  have "attr signed_ticket ''version'' = Inr (FVal (VInt 1))" by (simp add: signed_ticket_facts(3) run_ticket_attrs)
  from token_reads_back [OF signed_ticket_facts(1) this t(1)] t(2) show ?thesis by blast
qed

lemma same_refl: "feq v v \<Longrightarrow> same (Inr v) (Inr v) = Inr True"
  by (simp add: same_def)

lemma publication_bound_to_ticket_witness:
  "\<exists>m token. attr m ''ticket_token'' = text_val token \<and> from_token token = Inr signed_ticket
     \<and> valid_proof run_crypto run_repr m (descriptor ''ida'' alice)"
proof -
  obtain token where t: "from_token token = Inr signed_ticket" "is_ascii token" using signed_ticket_token by blast
  let ?m = "run_sign HavenSignatureProof alice ''ida'' (run_publication token)"
  note m = run_sign [OF run_keys(1) ticket_signed_type(2) proof_of_types(2) run_publication_ok
      run_publication_wire [OF t(2)], where u = "''ida''"]
  note a = signed_ticket_facts(3) run_ticket_attrs m(3) run_publication_attrs
  have iss: "path signed_ticket [''issuer'', ''uuid''] = text_val ''ida''"
    unfolding path2 by (simp add: a descriptor_attrs)
  have by1: "path signed_ticket [''proof'', ''by_identity_uuid''] = text_val ''ida''"
    and by2: "path ?m [''proof'', ''by_identity_uuid''] = text_val ''ida''"
    unfolding path2 using signed_ticket_facts(4) m(4) by (simp_all add: new_proof_attrs)
  have pv: "proof_verifies run_crypto run_repr signed_ticket (Inr (descriptor ''ida'' alice)) = Inr True"
    "proof_verifies run_crypto run_repr ?m (Inr (descriptor ''ida'' alice)) = Inr True"
    using signed_ticket_facts(2) m(2) by (simp_all add: proof_verifies_True)
  have obj: "obj_at signed_ticket [''issuer''] = Inr (descriptor ''ida'' alice)"
    unfolding obj_at1 by (simp add: a)
  have sg: "is_signed signed_ticket = Inr True" "is_signed ?m = Inr True"
    using valid_proof_signed signed_ticket_facts(2) m(2) by auto
  have tick: "verify_ticket run_crypto run_repr [] None 150 signed_ticket = Inr ''valid''"
    by (simp add: verify_ticket_def sg negate_def iss by1 same_def pv obj claims_too_long_a_life_def is_expired_def
        num_attr_def a TICKET_MAXIMUM_TTL_def str_at_def)
  have v: "verify_publication run_crypto run_repr 150 ?m = Inr signed_ticket"
    by (simp add: verify_publication_def verify_envelope_def str_at_def a t(1) tick checks.simps check_def sg pv obj iss by2
        is_expired_def num_attr_def claims_too_long_a_life_def negate_def TICKET_MAXIMUM_TTL_def same_def descriptor_attrs feq_int)
  from publication_bound_to_ticket [OF m(1) v] obtain d where
    "attr signed_ticket ''issuer'' = Inr (FObj d)" "valid_proof run_crypto run_repr ?m d" by blast
  then have "valid_proof run_crypto run_repr ?m (descriptor ''ida'' alice)" by (simp add: a)
  moreover have "attr ?m ''ticket_token'' = text_val token" by (simp add: a)
  ultimately show ?thesis using t(1) by blast
qed

subsection \<open>An enrollment request\<close>

definition run_request :: "instance" where
  "run_request = Instance IdentityEnrollmentRequest
     [(''version'', FVal (VInt 1)), (''request_id'', FVal (VStr ''r'')), (''purpose'', FVal (VStr ''link_identity'')),
      (''entity_binding'', FNone), (''new_identity'', FObj (descriptor ''bob'' bob)), (''requested_domains'', FVal (VList [])),
      (''requested_identity_contexts'', FVal (VList [])), (''requested_scopes'', FVal (VList [])),
      (''audience'', FVal (VStr ''a'')), (''origin'', FVal (VStr ''o'')), (''created_at'', FVal (VStr ''c'')),
      (''expires_at'', FVal (VStr ''e'')), (''nonce'', FVal (VBytes [])), (''platform'', FNone), (''device_label'', FNone),
      (''proof'', FNone)]"

lemma run_request_ok: "instance_ok IdentityEnrollmentRequest run_request"
  by (simp add: class_defs run_request_def descriptor_def)

lemma run_request_wire: "\<exists>d. to_wire run_request = Inr d \<and> ascii_items d"
proof -
  have "ascii_items (descriptor_wire ''bob'' bob)" by (rule descriptor_ascii [OF ascii_texts(3)])
  then show ?thesis
    by (simp add: IdentityEnrollmentRequest_def need_def opt_def run_request_def descriptor_wire
        default_value_def plain_value_def feq.simps) (simp add: is_ascii_def)
qed

lemma run_request_new: "attr run_request ''new_identity'' = Inr (FObj (descriptor ''bob'' bob))"
  by (simp add: attr_def run_request_def)

lemma signed_envelope_is_accepted_witness:
  "\<exists>n. sign_model run_repr run_request (ed_sign run_crypto bob) ''bob'' = Inr n
     \<and> verify_enrollment_request run_crypto run_repr n = Inr ()"
proof -
  obtain p where p: "model_payload run_repr run_request = Inr p" using run_request_wire payload_ascii by blast
  have "length (ed_public run_crypto bob) = 32" by (simp add: run_crypto_ok(2) run_keys)
  from signed_envelope_is_accepted [OF run_crypto_ok(1) this run_crypto_ok(3) [OF run_keys(2)] ticket_signed_type(3)
      proof_of_types(3) run_request_ok p, of "descriptor ''bob'' bob" "''bob''"]
  show ?thesis by (auto simp: descriptor_attrs run_crypto_ok(2) run_request_new)
qed

lemma accepted_envelopes_are_signed_witness:
  "\<exists>n d. attr n ''new_identity'' = Inr (FObj d) \<and> valid_proof run_crypto run_repr n d"
proof -
  obtain d where d: "to_wire run_request = Inr d" "ascii_items d" using run_request_wire by blast
  obtain n where "verify_enrollment_request run_crypto run_repr n = Inr ()"
    using run_signed [OF run_keys(2) ticket_signed_type(3) proof_of_types(3) run_request_ok d, of "''bob''"] run_request_new
    by blast
  moreover have "verify_enrollment_request run_crypto run_repr n = Inr () \<longrightarrow>
      (\<exists>d. attr n ''new_identity'' = Inr (FObj d) \<and> valid_proof run_crypto run_repr n d)"
    by (rule accepted_envelopes_are_signed [THEN conjunct1])
  ultimately show ?thesis by blast
qed

subsection \<open>A chat invitation and its acceptance\<close>

definition run_nonce :: bytes where "run_nonce = replicate 32 7"

lemma run_nonce: "length run_nonce = 32"
  by (simp add: run_nonce_def)

definition run_invitation :: "instance" where
  "run_invitation = Instance ChatInvitationArtifact
     [(''version'', FVal (VInt 1)), (''invitation_id'', FVal (VStr ''i'')), (''purpose'', FVal (VStr ''chat_invitation'')),
      (''chat_cell_uuid'', FVal (VStr ''c'')), (''topic'', FVal (VStr ''t'')), (''audience_mode'', FVal (VStr ''m'')),
      (''suite_id'', FVal (VStr ''s'')), (''persistence_mode'', FVal (VStr ''p'')),
      (''inviter_identity'', FObj (descriptor ''ida'' alice)), (''invited_identity'', FObj (descriptor ''bob'' bob)),
      (''created_at'', FVal (VStr ''0001-01-02T00:00:00Z'')), (''expires_at'', FVal (VStr ''0001-01-02T01:00:00Z'')),
      (''nonce'', FVal (VBytes run_nonce)), (''proof'', FNone)]"

definition run_acceptance :: "bytes \<Rightarrow> instance" where
  "run_acceptance h = Instance ChatInvitationAcceptance
     [(''version'', FVal (VInt 1)), (''acceptance_id'', FVal (VStr ''a'')), (''purpose'', FVal (VStr ''accept_chat_invitation'')),
      (''invitation_id'', FVal (VStr ''i'')), (''invitation_hash'', FVal (VBytes h)), (''chat_cell_uuid'', FVal (VStr ''c'')),
      (''inviter_identity_uuid'', FVal (VStr ''ida'')), (''invitee_identity'', FObj (descriptor ''bob'' bob)),
      (''invitee_key_agreement_key'', FNone), (''created_at'', FVal (VStr ''0001-01-02T00:30:00Z'')),
      (''nonce'', FVal (VBytes run_nonce)), (''proof'', FNone)]"

lemma run_chat_ok: "instance_ok ChatInvitationArtifact run_invitation" "instance_ok ChatInvitationAcceptance (run_acceptance h)"
  by (simp_all add: class_defs run_invitation_def run_acceptance_def descriptor_def)

lemma run_chat_attrs:
  "attr run_invitation ''version'' = Inr (FVal (VInt 1))" "attr run_invitation ''purpose'' = text_val ''chat_invitation''"
  "attr run_invitation ''nonce'' = Inr (FVal (VBytes run_nonce))" "attr run_invitation ''invitation_id'' = text_val ''i''"
  "attr run_invitation ''chat_cell_uuid'' = text_val ''c''"
  "attr run_invitation ''inviter_identity'' = Inr (FObj (descriptor ''ida'' alice))"
  "attr run_invitation ''invited_identity'' = Inr (FObj (descriptor ''bob'' bob))"
  "attr run_invitation ''created_at'' = text_val ''0001-01-02T00:00:00Z''"
  "attr run_invitation ''expires_at'' = text_val ''0001-01-02T01:00:00Z''"
  "attr (run_acceptance h) ''version'' = Inr (FVal (VInt 1))" "attr (run_acceptance h) ''purpose'' = text_val ''accept_chat_invitation''"
  "attr (run_acceptance h) ''nonce'' = Inr (FVal (VBytes run_nonce))" "attr (run_acceptance h) ''invitation_id'' = text_val ''i''"
  "attr (run_acceptance h) ''chat_cell_uuid'' = text_val ''c''" "attr (run_acceptance h) ''invitation_hash'' = Inr (FVal (VBytes h))"
  "attr (run_acceptance h) ''inviter_identity_uuid'' = text_val ''ida''"
  "attr (run_acceptance h) ''invitee_identity'' = Inr (FObj (descriptor ''bob'' bob))"
  "attr (run_acceptance h) ''created_at'' = text_val ''0001-01-02T00:30:00Z''"
  by (simp_all add: attr_def run_invitation_def run_acceptance_def)

lemma run_chat_wire: "\<exists>d. to_wire run_invitation = Inr d \<and> ascii_items d" "\<exists>d. to_wire (run_acceptance h) = Inr d \<and> ascii_items d"
proof -
  have d: "ascii_items (descriptor_wire ''bob'' bob)" "ascii_items (descriptor_wire ''ida'' alice)"
    by (rule descriptor_ascii, rule ascii_texts)+
  show "\<exists>d. to_wire run_invitation = Inr d \<and> ascii_items d"
    by (simp add: ChatInvitationArtifact_def need_def opt_def run_invitation_def descriptor_wire d b64encode_ascii)
      (simp add: is_ascii_def)
  show "\<exists>d. to_wire (run_acceptance h) = Inr d \<and> ascii_items d"
    by (simp add: ChatInvitationAcceptance_def need_def opt_def run_acceptance_def descriptor_wire d b64encode_ascii)
      (simp add: is_ascii_def)
qed

lemma run_dates:
  "iso_date (FVal (VStr ''0001-01-02T00:00:00Z'')) = Inr (Some ((2 - 719163) * 86400000000))"
  "iso_date (FVal (VStr ''0001-01-02T00:30:00Z'')) = Inr (Some ((2 - 719163) * 86400000000 + 1800000000))"
  "iso_date (FVal (VStr ''0001-01-02T01:00:00Z'')) = Inr (Some ((2 - 719163) * 86400000000 + 3600000000))"
  by code_simp+

abbreviation signed_invitation :: "instance" where
  "signed_invitation \<equiv> run_sign SignatureProof alice ''ida'' run_invitation"

lemmas signed_invitation = run_sign [OF run_keys(1) ticket_signed_type(4) proof_of_types(4) run_chat_ok(1) run_chat_wire(1),
  where u = "''ida''"]

lemma chat_signed:
  assumes "attr m ''proof'' = Inr (FObj (new_proof SignatureProof u s))" "attr m a = Inr (FObj (descriptor u k))"
    and "valid_proof run_crypto run_repr m (descriptor u k)"
  shows "checks (chat_proof run_crypto run_repr m a mismatch invalid) = Inr ()"
proof -
  have p: "path m [''proof'', ''type''] = text_val ''signature''" "path m [''proof'', ''by_identity_uuid''] = text_val u"
    "path m [''proof'', ''algorithm''] = text_val ''EdDSA''" "path m [''proof'', ''curve_type''] = text_val ''Curve25519''"
    unfolding path2 using assms(1) by (simp_all add: new_proof_attrs)
  have q: "path m [a, ''uuid''] = text_val u" "path m [a, ''algorithm''] = text_val ''EdDSA''"
    "path m [a, ''curve_type''] = text_val ''Curve25519''"
    unfolding path2 using assms(2) by (simp_all add: descriptor_attrs)
  have "obj_at m [a] = Inr (descriptor u k)" unfolding obj_at1 by (rule assms(2))
  then show ?thesis
    using valid_proof_signed [OF assms(3)] assms(3)
    by (simp add: chat_proof_def checks_Inr check_Inr both_True same_str p q proof_verifies_True)
qed

definition run_moment :: rat where
  "run_moment = (2 - 719163) * 86400 + 1800"

lemma checks_append: "checks (xs @ ys) = rbind (checks xs) (\<lambda>_. checks ys)"
  by (induction xs) (auto simp: checks.simps rbind_def split: sum.splits)

lemma run_invitation_valid:
  "verify_chat_invitation run_crypto run_repr FNone (FVal (VStr ''ida'')) run_moment signed_invitation = Inr ()"
proof -
  note a = signed_invitation(3) run_chat_attrs
  have "path signed_invitation [''inviter_identity'', ''uuid''] = text_val ''ida''"
    unfolding path2 by (simp add: a descriptor_attrs)
  moreover have "checks (chat_proof run_crypto run_repr signed_invitation ''inviter_identity'' ''inviterMismatch''
      ''invalidArtifactProof'') = Inr ()"
    by (rule chat_signed [OF signed_invitation(4) _ signed_invitation(2)]) (simp add: a)
  ultimately show ?thesis
    by (simp add: verify_chat_invitation_def checks_append validate_invitation_def expect_def checks.simps check_def
        date_at_def a run_dates same_def feq_int valid_nonce_def bytes_at_def run_nonce limits seconds_def run_moment_def)
qed

lemma acceptance_bound_to_invitation_witness:
  "\<exists>m invitee. verify_chat_acceptance run_crypto run_repr FNone run_moment m signed_invitation = Inr ()
     \<and> attr m ''invitee_identity'' = Inr (FObj invitee) \<and> valid_proof run_crypto run_repr m invitee"
proof -
  obtain p where "model_payload run_repr signed_invitation = Inr p"
    using signed_invitation(2) by (auto simp: valid_proof_def)
  then have h: "invitation_hash run_repr signed_invitation = Inr (sha256 p)" by (simp add: invitation_hash_def)
  let ?m = "run_sign SignatureProof bob ''bob'' (run_acceptance (sha256 p))"
  note m = run_sign [OF run_keys(2) ticket_signed_type(5) proof_of_types(5) run_chat_ok(2) [of "sha256 p"]
      run_chat_wire(2) [of "sha256 p"], where u = "''bob''"]
  note a = signed_invitation(3) run_chat_attrs m(3)
  have obj: "obj_at ?m [''invitee_identity''] = Inr (descriptor ''bob'' bob)"
    "obj_at signed_invitation [''invited_identity''] = Inr (descriptor ''bob'' bob)"
    unfolding obj_at1 by (simp_all add: a)
  have "same_key (descriptor ''bob'' bob) (descriptor ''bob'' bob) = Inr True"
    by (simp add: same_key_True [OF descriptor_ok descriptor_ok])
  moreover have "checks (chat_proof run_crypto run_repr ?m ''invitee_identity'' ''inviteeMismatch''
      ''invalidAcceptanceProof'') = Inr ()"
    by (rule chat_signed [OF m(4) _ m(2)]) (simp add: a)
  ultimately have v: "verify_chat_acceptance run_crypto run_repr FNone run_moment ?m signed_invitation = Inr ()"
    using run_invitation_valid h
    by (simp add: verify_chat_acceptance_def checks.simps check_def a obj date_at_def run_dates same_def feq_int
        valid_nonce_def bytes_at_def run_nonce limits seconds_def run_moment_def)
  from acceptance_bound_to_invitation [OF v m(1) signed_invitation(1)] obtain invitee where
    "attr ?m ''invitee_identity'' = Inr (FObj invitee)" "valid_proof run_crypto run_repr ?m invitee" by blast
  with v show ?thesis by blast
qed

subsection \<open>A signing challenge\<close>

definition run_delegate :: "instance" where
  "run_delegate = descriptor ''u'' [0, 0, 0]"

lemma run_fingerprint: "fingerprint run_delegate = Inr ''EdDSA:Curve25519:AAAA''"
  using b64encode_zero [of "[]"]
  by (simp add: fingerprint_def str_at_def bytes_at_def descriptor_attrs run_delegate_def del: b64encode.simps(4))

lemma example_challenge_read:
  "\<exists>c. from_wire IdentitySigningChallenge (VDict example_fields) = Inr c
     \<and> attr c ''type'' = text_val CHALLENGE_TYPE \<and> attr c ''version'' = Inr (FVal (VInt 1))
     \<and> attr c ''purpose'' = text_val CHALLENGE_PURPOSE \<and> attr c ''identity_uuid'' = text_val ''u''
     \<and> attr c ''public_key_fingerprint'' = text_val ''EdDSA:Curve25519:AAAA''
     \<and> attr c ''nonce'' = Inr (FVal (VBytes (replicate 33 0))) \<and> attr c ''domain'' = text_val ''d''
     \<and> attr c ''resource'' = text_val ''r'' \<and> attr c ''action'' = text_val ''a'' \<and> attr c ''audience'' = text_val ''b''
     \<and> attr c ''issued_at'' = Inr (FVal (VInt 10)) \<and> attr c ''expires_at'' = Inr (FVal (VInt 60))"
proof -
  have n: "unb64 (VStr ''AAAAAAAAAAAAAAAAAAAAAAAAAAAAAAAAAAAAAAAAAAAA'') = Inr (replicate 33 0)"
    using example_nonce by (auto simp: challenge_nonce_def example_fields_def getn_def unb64_def split: option.splits)
  show ?thesis
    by (simp add: IdentitySigningChallenge_def need_def opt_def example_fields_def getn_def n attr_def
        CHALLENGE_TYPE_def CHALLENGE_PURPOSE_def)
qed


end
