(* ===== verification/Channel_Wire.thy ===== *)
theory Channel_Wire
  imports Verify Double
begin

text \<open>
  The messages of \<open>interop/channel.py\<close>: strict encoding and decoding, the public identity, the
  endpoint and the transcript, the challenge the client signs, and the four message bodies.

  A transcript read from JSON holds what the JSON held where the code does not check
  (\<open>profile\<close>, \<open>direction\<close>, \<open>session_id\<close>, \<open>generation\<close> and the endpoint are \<open>pyval\<close>s). Arithmetic on
  clock readings is that of doubles (\<open>round_double\<close>). Of \<open>urlsplit\<close> two checks are parameters: the
  address in brackets (\<open>ipaddress\<close>) and Unicode normalization of the host.
\<close>

definition PROFILE :: string where "PROFILE = ''org.haven.bridge-channel.v1''"
definition ACTION :: string where "ACTION = ''openBridgeChannel''"
definition MAXIMUM_ENVELOPE_BYTES :: nat where "MAXIMUM_ENVELOPE_BYTES = 16 * 1024"
definition CHALLENGE_LIFETIME :: rat where "CHALLENGE_LIFETIME = 30"
definition CHANNEL_LIFETIME :: rat where "CHANNEL_LIFETIME = 300"
definition PRE_AUTH_DEADLINE :: rat where "PRE_AUTH_DEADLINE = 10"
definition DIRECTION :: string where "DIRECTION = ''client-to-server''"
definition REFERENCE_DATE_OFFSET :: rat where "REFERENCE_DATE_OFFSET = 978307200"

definition AUTH_COMMANDS :: "string list" where
  "AUTH_COMMANDS = [''channelAuthHello'', ''channelAuthChallenge'', ''channelAuthProof'', ''channelAuthAccepted'']"

abbreviation malformed :: "'a res" where
  "malformed \<equiv> Inl (ChannelFailure ''malformed'')"

subsection \<open>Strict encoding and decoding\<close>

definition encode :: "(rat \<Rightarrow> string) \<Rightarrow> pyval \<Rightarrow> bytes res" where
  "encode frepr v = canonical_json frepr v ''encoder'' False"

text \<open>
  \<open>json.loads\<close> is inside the \<open>try\<close>, the comparison with the encoding is not: a refusal to encode is
  raised as it is.
\<close>

definition decode :: "(rat \<Rightarrow> string) \<Rightarrow> bytes \<Rightarrow> pyval dict res" where
  "decode frepr data =
     (if MAXIMUM_ENVELOPE_BYTES < length data then malformed
      else case json_loads data of
        Inl e \<Rightarrow> (if is_value_error e then malformed else Inl e)
      | Inr (VDict d) \<Rightarrow> rbind (encode frepr (VDict d)) (\<lambda>again. if again = data then Inr d else malformed)
      | Inr _ \<Rightarrow> malformed)"

definition unb64_text :: "pyval \<Rightarrow> bytes res" where
  "unb64_text v =
     (case v of
        VStr s \<Rightarrow> (case b64decode_strict s of Some bs \<Rightarrow> Inr bs | None \<Rightarrow> malformed)
      | _ \<Rightarrow> malformed)"

definition exact_keys :: "pyval dict \<Rightarrow> string list \<Rightarrow> unit res" where
  "exact_keys d keys = (if set (dkeys d) = set keys then Inr () else malformed)"

subsection \<open>Identities\<close>

record public_identity =
  uuid :: string
  public_key :: bytes
  algorithm :: string
  curve :: string

definition identity_json :: "public_identity \<Rightarrow> pyval" where
  "identity_json p = VDict [(''uuid'', VStr (uuid p)), (''algorithm'', VStr (algorithm p)),
     (''curve'', VStr (curve p)), (''publicKey'', VStr (b64encode (public_key p)))]"

definition identity_validate :: "public_identity \<Rightarrow> unit res" where
  "identity_validate p =
     (if uuid p = [] \<or> 512 < length (encode_utf8 (uuid p)) then malformed
      else if (algorithm p, curve p) \<noteq> (''EdDSA'', ''Curve25519'') \<or> length (public_key p) \<noteq> 32 then malformed
      else Inr ())"

text \<open>An identity whose uuid, algorithm or curve is not text does not pass \<open>validate\<close>.\<close>

definition identity_from_json :: "pyval \<Rightarrow> public_identity res" where
  "identity_from_json v =
     (case v of
        VDict d \<Rightarrow>
          rbind (exact_keys d [''uuid'', ''algorithm'', ''curve'', ''publicKey'']) (\<lambda>_.
          rbind (unb64_text (getn d ''publicKey'')) (\<lambda>key.
            case (str_val (getn d ''uuid''), str_val (getn d ''algorithm''), str_val (getn d ''curve'')) of
              (Some u, Some al, Some cv) \<Rightarrow>
                (let p = \<lparr>uuid = u, public_key = key, algorithm = al, curve = cv\<rparr>
                 in rbind (identity_validate p) (\<lambda>_. Inr p))
            | _ \<Rightarrow> malformed))
      | _ \<Rightarrow> malformed)"

definition identity_descriptor :: "public_identity \<Rightarrow> instance" where
  "identity_descriptor p = Instance IdentityPublicKeyDescriptor
     [(''uuid'', FVal (VStr (uuid p))), (''public_key'', FVal (VBytes (public_key p))),
      (''algorithm'', FVal (VStr (algorithm p))), (''curve_type'', FVal (VStr (curve p))), (''display_name'', FNone)]"

definition identity_fingerprint :: "public_identity \<Rightarrow> string res" where
  "identity_fingerprint p = fingerprint (identity_descriptor p)"

subsection \<open>Endpoints\<close>

record endpoint =
  origin :: pyval
  route :: pyval
  domain :: pyval

definition endpoint_json :: "endpoint \<Rightarrow> pyval" where
  "endpoint_json e = VDict [(''origin'', origin e), (''route'', route e), (''domain'', domain e)]"

definition endpoint_from_json :: "pyval \<Rightarrow> endpoint res" where
  "endpoint_from_json v =
     (case v of
        VDict d \<Rightarrow>
          rbind (exact_keys d [''origin'', ''route'', ''domain'']) (\<lambda>_.
            Inr \<lparr>origin = getn d ''origin'', route = getn d ''route'', domain = getn d ''domain''\<rparr>)
      | _ \<Rightarrow> malformed)"

text \<open>
  \<open>origin + route\<close>, of text. The client compares an endpoint from JSON with its own before it builds
  the challenge, so nothing else is ever added.
\<close>

definition audience :: "endpoint \<Rightarrow> string res" where
  "audience e = (case (str_val (origin e), str_val (route e)) of (Some a, Some b) \<Rightarrow> Inr (a @ b) | _ \<Rightarrow> Inl TypeError)"

definition endpoint_eq :: "endpoint \<Rightarrow> endpoint \<Rightarrow> bool" where
  "endpoint_eq a b \<longleftrightarrow> py_eq (origin a) (origin b) \<and> py_eq (route a) (route b) \<and> py_eq (domain a) (domain b)"

subsection \<open>Transcripts\<close>

record transcript =
  endpoint_of :: endpoint
  identity_of :: public_identity
  client_nonce :: bytes
  server_nonce :: bytes
  session_id :: pyval
  generation :: pyval
  issued_at_ms :: int
  channel_expires_at_ms :: int
  profile :: pyval
  direction :: pyval

definition transcript_json :: "transcript \<Rightarrow> pyval" where
  "transcript_json t = VDict [
     (''profile'', profile t),
     (''endpoint'', endpoint_json (endpoint_of t)),
     (''identity'', identity_json (identity_of t)),
     (''clientNonce'', VStr (b64encode (client_nonce t))),
     (''serverNonce'', VStr (b64encode (server_nonce t))),
     (''sessionID'', session_id t),
     (''generation'', generation t),
     (''direction'', direction t),
     (''issuedAtMilliseconds'', VInt (issued_at_ms t)),
     (''channelExpiresAtMilliseconds'', VInt (channel_expires_at_ms t))]"

definition TRANSCRIPT_KEYS :: "string list" where
  "TRANSCRIPT_KEYS =
     [''profile'', ''endpoint'', ''identity'', ''clientNonce'', ''serverNonce'', ''sessionID'',
      ''generation'', ''direction'', ''issuedAtMilliseconds'', ''channelExpiresAtMilliseconds'']"

definition int_text :: "pyval \<Rightarrow> int res" where
  "int_text v = (case v of VInt i \<Rightarrow> Inr i | _ \<Rightarrow> malformed)"

definition transcript_from_json :: "pyval \<Rightarrow> transcript res" where
  "transcript_from_json v =
     (case v of
        VDict d \<Rightarrow>
          rbind (exact_keys d TRANSCRIPT_KEYS) (\<lambda>_.
          rbind (int_text (getn d ''issuedAtMilliseconds'')) (\<lambda>issued.
          rbind (int_text (getn d ''channelExpiresAtMilliseconds'')) (\<lambda>expires.
          rbind (endpoint_from_json (getn d ''endpoint'')) (\<lambda>e.
          rbind (identity_from_json (getn d ''identity'')) (\<lambda>p.
          rbind (unb64_text (getn d ''clientNonce'')) (\<lambda>cn.
          rbind (unb64_text (getn d ''serverNonce'')) (\<lambda>sn.
            Inr \<lparr>endpoint_of = e, identity_of = p, client_nonce = cn, server_nonce = sn,
                 session_id = getn d ''sessionID'', generation = getn d ''generation'',
                 issued_at_ms = issued, channel_expires_at_ms = expires,
                 profile = getn d ''profile'', direction = getn d ''direction''\<rparr>)))))))
      | _ \<Rightarrow> malformed)"

definition transcript_digest :: "(rat \<Rightarrow> string) \<Rightarrow> transcript \<Rightarrow> string res" where
  "transcript_digest frepr t = rbind (encode frepr (transcript_json t)) (\<lambda>data. Inr (hexdigest data))"

subsection \<open>The challenge to sign\<close>

definition ms_seconds :: "int \<Rightarrow> rat" where
  "ms_seconds ms = round_double (of_int ms / 1000)"

definition signing_challenge :: "(rat \<Rightarrow> string) \<Rightarrow> transcript \<Rightarrow> instance res" where
  "signing_challenge frepr t =
     (let reference = round_double (ms_seconds (issued_at_ms t) - REFERENCE_DATE_OFFSET)
      in rbind (identity_fingerprint (identity_of t)) (\<lambda>key.
         rbind (transcript_digest frepr t) (\<lambda>bound.
         rbind (audience (endpoint_of t)) (\<lambda>au.
           new_object IdentitySigningChallenge
             [(''identity_uuid'', FVal (VStr (uuid (identity_of t)))),
              (''public_key_fingerprint'', FVal (VStr key)),
              (''domain'', FVal (domain (endpoint_of t))),
              (''resource'', FVal (VStr (PROFILE @ '':'' @ bound))),
              (''action'', FVal (VStr ACTION)),
              (''audience'', FVal (VStr au)),
              (''nonce'', FVal (VBytes (server_nonce t))),
              (''issued_at'', FVal (VFloat (Fin (round_double (reference + REFERENCE_DATE_OFFSET))))),
              (''expires_at'', FVal (VFloat (Fin
                 (round_double (round_double (reference + CHALLENGE_LIFETIME) + REFERENCE_DATE_OFFSET)))))]))))"

definition signing_data :: "(rat \<Rightarrow> string) \<Rightarrow> transcript \<Rightarrow> bytes res" where
  "signing_data frepr t = rbind (signing_challenge frepr t) (to_json_bytes frepr)"

subsection \<open>Envelopes and bodies\<close>

definition envelope :: "(rat \<Rightarrow> string) \<Rightarrow> string \<Rightarrow> pyval \<Rightarrow> bytes res" where
  "envelope frepr name body =
     rbind (encode frepr body) (\<lambda>data. rbind (decode_utf8 data) (\<lambda>text.
       encode frepr (VDict [(''&string'', VStr text), (''cid'', VInt 0), (''cmd'', VStr name)])))"

fun is_bool :: "pyval \<Rightarrow> bool" where
  "is_bool (VBool b) = True"
| "is_bool _ = False"

definition open_envelope :: "(rat \<Rightarrow> string) \<Rightarrow> bytes \<Rightarrow> (string \<times> pyval dict) res" where
  "open_envelope frepr data =
     rbind (decode frepr data) (\<lambda>command.
     rbind (exact_keys command [''&string'', ''cid'', ''cmd'']) (\<lambda>_.
       case getn command ''cmd'' of
         VStr name \<Rightarrow>
           (if \<not> py_eq (getn command ''cid'') (VInt 0) \<or> is_bool (getn command ''cid'')
               \<or> name \<notin> set AUTH_COMMANDS then malformed
            else case getn command ''&string'' of
                VStr text \<Rightarrow> rbind (decode frepr (encode_utf8 text)) (\<lambda>body. Inr (name, body))
              | _ \<Rightarrow> malformed)
       | _ \<Rightarrow> malformed))"

definition hello_body :: "public_identity \<Rightarrow> bytes \<Rightarrow> pyval" where
  "hello_body p nonce = VDict [(''profile'', VStr PROFILE), (''identity'', identity_json p),
     (''clientNonce'', VStr (b64encode nonce))]"

definition challenge_body :: "transcript \<Rightarrow> bytes \<Rightarrow> pyval" where
  "challenge_body t data = VDict [(''transcript'', transcript_json t), (''signingData'', VStr (b64encode data))]"

definition proof_body :: "pyval \<Rightarrow> pyval \<Rightarrow> bytes \<Rightarrow> pyval" where
  "proof_body session gen signature = VDict [(''sessionID'', session), (''generation'', gen),
     (''signature'', VStr (b64encode signature))]"

definition accepted_body :: "transcript \<Rightarrow> string \<Rightarrow> pyval" where
  "accepted_body t bound = VDict [(''sessionID'', session_id t), (''generation'', generation t),
     (''transcriptDigest'', VStr bound)]"

text \<open>\<open>int(now * 1000 // 1)\<close>.\<close>

definition ms :: "rat \<Rightarrow> int" where
  "ms now = \<lfloor>round_double (now * 1000)\<rfloor>"

subsection \<open>\<open>uuid.UUID(text)\<close>\<close>

fun plain_hex :: "string \<Rightarrow> string option" where
  "plain_hex [] = None"
| "plain_hex [c] = (if hex_val c = None then None else Some [c])"
| "plain_hex (c # d # s) =
     (if hex_val c = None then None
      else if d = CHR ''_'' then map_option (Cons c) (plain_hex s)
      else map_option (Cons c) (plain_hex (d # s)))"

definition read_hex :: "string \<Rightarrow> nat" where
  "read_hex s = foldl (\<lambda>acc c. 16 * acc + the (hex_val c)) 0 s"

text \<open>\<open>int(text, 16)\<close>: white space, a sign, \<open>0x\<close>, single underscores.\<close>

definition int16 :: "string \<Rightarrow> int option" where
  "int16 text =
     (let s = py_strip text;
          sign = (if startswith s ''-'' then -1 else 1);
          s = (if startswith s ''-'' \<or> startswith s ''+'' then drop 1 s else s);
          s = (if startswith s ''0x'' \<or> startswith s ''0X''
               then (if startswith (drop 2 s) ''_'' then drop 3 s else drop 2 s) else s)
      in map_option (\<lambda>ds. sign * int (read_hex ds)) (plain_hex s))"

definition is_uuid :: "pyval \<Rightarrow> bool" where
  "is_uuid v =
     (case v of
        VStr text \<Rightarrow>
          (let hex = py_replace ''uuid:'' [] (py_replace ''urn:'' [] text);
               hex = py_replace ''-'' [] (strip_of (\<lambda>c. c \<in> set ''{}'') hex)
           in py_len hex = 32 \<and> (case int16 hex of Some i \<Rightarrow> 0 \<le> i \<and> i < 2 ^ 128 | None \<Rightarrow> False))
      | _ \<Rightarrow> False)"

subsection \<open>What fails, and how\<close>

lemma rmap_Inl: "rmap f xs = Inl e \<Longrightarrow> \<exists>x \<in> set xs. f x = Inl e"
  by (induction xs) (auto simp: rbind_Inl_iff)

lemma write_json_error: "write_json frepr ord esc v = Inl e \<Longrightarrow> e = CanonicalEncodingError"
proof (induction frepr ord esc v rule: write_json.induct)
  case (1 frepr ord esc v)
  show ?case
  proof (cases v)
    case (VDict d)
    then show ?thesis using "1.prems" 1(3) [OF VDict]
      by (fastforce simp: write_json.simps [of _ _ _ "VDict _"] rbind_Inl_iff dest!: rmap_Inl)
  next
    case (VFloat f)
    then show ?thesis using "1.prems" by (cases f) (simp_all add: write_json.simps)
  qed (use 1 in \<open>auto simp: write_json.simps rbind_Inl_iff dest!: rmap_Inl\<close>)
qed

lemma encode_error: "encode frepr v = Inl e \<Longrightarrow> e \<in> {CanonicalEncodingError, ValueError}"
  by (auto simp: encode_def canonical_json_def rbind_Inl_iff dest: write_json_error split: if_splits)

lemma fingerprint_identity:
  "identity_fingerprint p = Inr (algorithm p @ '':'' @ curve p @ '':'' @ b64encode (public_key p))"
  by (simp add: identity_fingerprint_def fingerprint_def identity_descriptor_def attr_def str_at_def bytes_at_def)

text \<open>The challenge of a transcript, and its wire form.\<close>

definition signed_times :: "transcript \<Rightarrow> rat \<times> rat" where
  "signed_times t =
     (let reference = round_double (ms_seconds (issued_at_ms t) - REFERENCE_DATE_OFFSET)
      in (round_double (reference + REFERENCE_DATE_OFFSET),
          round_double (round_double (reference + CHALLENGE_LIFETIME) + REFERENCE_DATE_OFFSET)))"

definition challenge_wire :: "transcript \<Rightarrow> string \<Rightarrow> string \<Rightarrow> pyval dict" where
  "challenge_wire t bound au =
     [(''type'', VStr CHALLENGE_TYPE), (''version'', VInt 1), (''purpose'', VStr CHALLENGE_PURPOSE),
      (''identityUUID'', VStr (uuid (identity_of t))),
      (''publicKeyFingerprint'', VStr (algorithm (identity_of t) @ '':'' @ curve (identity_of t) @ '':''
         @ b64encode (public_key (identity_of t)))),
      (''domain'', domain (endpoint_of t)), (''resource'', VStr (PROFILE @ '':'' @ bound)), (''action'', VStr ACTION),
      (''audience'', VStr au), (''nonce'', VStr (b64encode (server_nonce t))),
      (''issuedAt'', VFloat (Fin (fst (signed_times t)))), (''expiresAt'', VFloat (Fin (snd (signed_times t))))]"

lemma signing_challenge_wire:
  assumes "transcript_digest frepr t = Inr bound" "audience (endpoint_of t) = Inr au"
  shows "rbind (signing_challenge frepr t) to_wire =
    (if domain (endpoint_of t) = VNull then Inl WireDecodeError else Inr (challenge_wire t bound au))"
  using assms
  by (simp add: signing_challenge_def Let_def fingerprint_identity new_object_def IdentitySigningChallenge_def
      need_def opt_def plain_value_def challenge_wire_def signed_times_def CHALLENGE_TYPE_def CHALLENGE_PURPOSE_def)

lemma signing_data_eq:
  "signing_data frepr t =
     rbind (transcript_digest frepr t) (\<lambda>bound. rbind (audience (endpoint_of t)) (\<lambda>au.
       if domain (endpoint_of t) = VNull then Inl WireDecodeError
       else canonical_json frepr (VDict (challenge_wire t bound au)) ''encoder'' True))"
proof (cases "transcript_digest frepr t")
  case d: (Inr bound)
  show ?thesis
  proof (cases "audience (endpoint_of t)")
    case a: (Inr au)
    have "signing_data frepr t = rbind (rbind (signing_challenge frepr t) to_wire)
        (\<lambda>w. canonical_json frepr (VDict w) ''encoder'' True)"
      by (cases "signing_challenge frepr t") (simp_all add: signing_data_def to_json_bytes_def)
    then show ?thesis using d a by (simp add: signing_challenge_wire [OF d a])
  qed (use d in \<open>simp add: signing_data_def signing_challenge_def Let_def fingerprint_identity\<close>)
qed (simp add: signing_data_def signing_challenge_def Let_def fingerprint_identity)

text \<open>Building the bytes to sign never raises a refusal of the protocol.\<close>

lemma signing_data_error:
  "signing_data frepr t = Inl e \<Longrightarrow> e \<in> {CanonicalEncodingError, ValueError, TypeError, WireDecodeError}"
  by (auto simp: signing_data_eq transcript_digest_def rbind_Inl_iff canonical_json_def audience_def
      dest: encode_error write_json_error split: if_splits option.splits)

end
