(* ===== verification/Channel.thy ===== *)
theory Channel
  imports Channel_Wire
begin

text \<open>
  The two ends of the bridge admission of \<open>interop/channel.py\<close>: \<open>ChannelServer\<close>, \<open>ChannelClient\<close> and
  the \<open>AdmittedChannel\<close> both end with. An operation takes the state and what it reads of the outside
  (clocks, random bytes, a new identifier), and returns the new state with the reply or the exception.
  The state is returned as the code leaves it on every path, failures included.
\<close>

subsection \<open>An admitted channel\<close>

record admitted_channel =
  ac_identity :: public_identity
  ac_endpoint :: endpoint
  ac_session_id :: pyval
  ac_generation :: pyval
  ac_transcript_digest :: string
  ac_expires_at :: rat

definition ac_check :: "admitted_channel \<Rightarrow> rat \<Rightarrow> unit res" where
  "ac_check a now = (if ac_expires_at a \<le> now then Inl (ChannelFailure ''expired'') else Inr ())"

definition ac_check_identity :: "admitted_channel \<Rightarrow> public_identity option \<Rightarrow> bool \<Rightarrow> rat \<Rightarrow> unit res" where
  "ac_check_identity a who required now =
     rbind (ac_check a now) (\<lambda>_.
       case who of
         None \<Rightarrow> (if required then Inl (ChannelFailure ''identityMismatch'') else Inr ())
       | Some p \<Rightarrow> (if p = ac_identity a then Inr () else Inl (ChannelFailure ''identityMismatch'')))"

subsection \<open>The server\<close>

datatype server_state = Unauthenticated | Challenge_Issued | Verifying | Authenticated | Closed

record server =
  srv_endpoint :: endpoint
  srv_recheck :: "(public_identity \<Rightarrow> bool) option"   \<comment> \<open>false: the policy raised\<close>
  srv_generation :: string
  srv_deadline :: rat
  srv_state :: server_state
  srv_pending :: "(transcript \<times> bytes) option"
  srv_admitted :: "admitted_channel option"

text \<open>What one call reads: the clocks in the order they are read, randomness, an identifier.\<close>

record outside =
  mono_first :: rat
  wall_first :: rat
  mono_last :: rat
  wall_last :: rat
  random_32 :: bytes
  new_uuid :: string

definition new_server :: "endpoint \<Rightarrow> (public_identity \<Rightarrow> bool) option \<Rightarrow> string \<Rightarrow> rat \<Rightarrow> server" where
  "new_server e recheck_policy gen now =
     \<lparr>srv_endpoint = e, srv_recheck = recheck_policy, srv_generation = gen,
      srv_deadline = round_double (now + PRE_AUTH_DEADLINE), srv_state = Unauthenticated,
      srv_pending = None, srv_admitted = None\<rparr>"

definition srv_fail :: "server \<Rightarrow> string \<Rightarrow> server \<times> bytes res" where
  "srv_fail s code = (s\<lparr>srv_state := Closed, srv_pending := None\<rparr>, Inl (ChannelFailure code))"

fun failure_code :: "exc \<Rightarrow> string option" where
  "failure_code (ChannelFailure code) = Some code"
| "failure_code _ = None"

definition read_hello :: "pyval dict \<Rightarrow> (public_identity \<times> bytes) res" where
  "read_hello body =
     rbind (exact_keys body [''profile'', ''identity'', ''clientNonce'']) (\<lambda>_.
       if \<not> py_eq (getn body ''profile'') (VStr PROFILE) then malformed
       else rbind (identity_from_json (getn body ''identity'')) (\<lambda>p.
            rbind (unb64_text (getn body ''clientNonce'')) (\<lambda>nonce.
              if length nonce \<noteq> 32 then malformed else Inr (p, nonce))))"

definition on_hello :: "(rat \<Rightarrow> string) \<Rightarrow> outside \<Rightarrow> server \<Rightarrow> pyval dict \<Rightarrow> server \<times> bytes res" where
  "on_hello frepr out s body =
     (case read_hello body of
        Inl e \<Rightarrow> (case failure_code e of Some code \<Rightarrow> srv_fail s code | None \<Rightarrow> (s, Inl e))
      | Inr (p, nonce) \<Rightarrow>
          (let issued = ms (wall_first out);
               t = \<lparr>endpoint_of = srv_endpoint s, identity_of = p, client_nonce = nonce,
                    server_nonce = random_32 out, session_id = VStr (new_uuid out),
                    generation = VStr (srv_generation s), issued_at_ms = issued,
                    channel_expires_at_ms = issued + \<lfloor>CHANNEL_LIFETIME * 1000\<rfloor>,
                    profile = VStr PROFILE, direction = VStr DIRECTION\<rparr>
           in case signing_data frepr t of
                Inl e \<Rightarrow> (s, Inl e)
              | Inr data \<Rightarrow>
                  (s\<lparr>srv_pending := Some (t, data), srv_state := Challenge_Issued\<rparr>,
                   envelope frepr ''channelAuthChallenge'' (challenge_body t data))))"

definition read_proof :: "pyval dict \<Rightarrow> bytes res" where
  "read_proof body =
     rbind (exact_keys body [''sessionID'', ''generation'', ''signature'']) (\<lambda>_. unb64_text (getn body ''signature''))"

text \<open>The admission itself, after the last check.\<close>

definition srv_admit :: "(rat \<Rightarrow> string) \<Rightarrow> server \<Rightarrow> transcript \<Rightarrow> server \<times> bytes res" where
  "srv_admit frepr s t =
     (case transcript_digest frepr t of
        Inl e \<Rightarrow> (s, Inl e)
      | Inr bound \<Rightarrow>
          (s\<lparr>srv_admitted := Some \<lparr>ac_identity = identity_of t, ac_endpoint = srv_endpoint s,
               ac_session_id = session_id t, ac_generation = VStr (srv_generation s),
               ac_transcript_digest = bound, ac_expires_at = ms_seconds (channel_expires_at_ms t)\<rparr>,
             srv_state := Authenticated\<rparr>,
           envelope frepr ''channelAuthAccepted'' (accepted_body t bound)))"

definition on_proof :: "crypto \<Rightarrow> (rat \<Rightarrow> string) \<Rightarrow> outside \<Rightarrow> server \<Rightarrow> pyval dict \<Rightarrow> server \<times> bytes res" where
  "on_proof cr frepr out s body =
     (let pending = srv_pending s; s = s\<lparr>srv_pending := None, srv_state := Verifying\<rparr>
      in case pending of
           None \<Rightarrow> srv_fail s ''unexpectedMessage''
         | Some (t, data) \<Rightarrow>
             (case read_proof body of
                Inl e \<Rightarrow> (case failure_code e of Some code \<Rightarrow> srv_fail s code | None \<Rightarrow> (s, Inl e))
              | Inr signature \<Rightarrow>
                  (if round_double (ms_seconds (issued_at_ms t) + CHALLENGE_LIFETIME) \<le> wall_first out
                   then srv_fail s ''expired''
                   else if \<not> py_eq (getn body ''sessionID'') (session_id t)
                     \<or> \<not> py_eq (getn body ''generation'') (VStr (srv_generation s)) then srv_fail s ''staleGeneration''
                   else if 256 < length signature then srv_fail s ''invalidProof''
                   else case verify_signature cr (FVal (VBytes signature)) data (identity_descriptor (identity_of t)) of
                     Inl e \<Rightarrow> (s, Inl e)
                   | Inr verified \<Rightarrow>
                       (if \<not> verified then srv_fail s ''invalidProof''
                        else if (case srv_recheck s of None \<Rightarrow> False | Some passes \<Rightarrow> \<not> passes (identity_of t))
                          then srv_fail s ''revoked''
                        else if srv_deadline s \<le> mono_last out \<or> ms_seconds (channel_expires_at_ms t) \<le> wall_last out
                          then srv_fail s ''expired''
                        else srv_admit frepr s t))))"

definition srv_receive :: "crypto \<Rightarrow> (rat \<Rightarrow> string) \<Rightarrow> outside \<Rightarrow> server \<Rightarrow> bytes \<Rightarrow> server \<times> bytes res" where
  "srv_receive cr frepr out s data =
     (if srv_state s \<in> {Closed, Authenticated} then srv_fail s ''unexpectedMessage''
      else case open_envelope frepr data of
        Inl e \<Rightarrow> (if failure_code e = None then s else s\<lparr>srv_state := Closed\<rparr>, Inl e)
      | Inr (name, body) \<Rightarrow>
          (if srv_deadline s \<le> mono_first out then srv_fail s ''expired''
           else if name = ''channelAuthHello'' \<and> srv_state s = Unauthenticated then on_hello frepr out s body
           else if name = ''channelAuthProof'' \<and> srv_state s = Challenge_Issued then on_proof cr frepr out s body
           else srv_fail s ''unexpectedMessage''))"

subsection \<open>The client\<close>

datatype client_state = New | Hello_Sent | Signing | Proof_Sent | Client_Authenticated | Client_Closed

record client =
  cl_identity :: public_identity
  cl_endpoint :: endpoint
  cl_deadline :: rat
  cl_nonce :: bytes
  cl_state :: client_state
  cl_transcript :: "transcript option"
  cl_offered :: "bytes option"
  cl_admitted :: "admitted_channel option"

definition new_client :: "public_identity \<Rightarrow> endpoint \<Rightarrow> rat \<Rightarrow> bytes \<Rightarrow> client res" where
  "new_client p e now nonce =
     rbind (identity_validate p) (\<lambda>_.
       Inr \<lparr>cl_identity = p, cl_endpoint = e, cl_deadline = round_double (now + PRE_AUTH_DEADLINE),
            cl_nonce = nonce, cl_state = New, cl_transcript = None, cl_offered = None, cl_admitted = None\<rparr>)"

definition cl_fail :: "client \<Rightarrow> string \<Rightarrow> client \<times> 'a res" where
  "cl_fail c code = (c\<lparr>cl_state := Client_Closed\<rparr>, Inl (ChannelFailure code))"

definition hello :: "(rat \<Rightarrow> string) \<Rightarrow> client \<Rightarrow> client \<times> bytes res" where
  "hello frepr c =
     (if cl_state c \<noteq> New then cl_fail c ''unexpectedMessage''
      else (c\<lparr>cl_state := Hello_Sent\<rparr>, envelope frepr ''channelAuthHello'' (hello_body (cl_identity c) (cl_nonce c))))"

text \<open>\<open>open_envelope\<close> with the client's reaction to a refusal; \<open>_peek\<close> is this and the name.\<close>

definition cl_open :: "(rat \<Rightarrow> string) \<Rightarrow> client \<Rightarrow> bytes \<Rightarrow> client \<times> (string \<times> pyval dict) res" where
  "cl_open frepr c data =
     (case open_envelope frepr data of
        Inl e \<Rightarrow> (if failure_code e = None then c else c\<lparr>cl_state := Client_Closed\<rparr>, Inl e)
      | Inr m \<Rightarrow> (c, Inr m))"

definition read_challenge :: "pyval dict \<Rightarrow> (transcript \<times> bytes) res" where
  "read_challenge body =
     rbind (exact_keys body [''transcript'', ''signingData'']) (\<lambda>_.
     rbind (transcript_from_json (getn body ''transcript'')) (\<lambda>t.
     rbind (unb64_text (getn body ''signingData'')) (\<lambda>offered. Inr (t, offered))))"

text \<open>Everything the client compares; the bytes to sign are rebuilt only when the rest agrees.\<close>

definition challenge_matches :: "(rat \<Rightarrow> string) \<Rightarrow> client \<Rightarrow> int \<Rightarrow> transcript \<Rightarrow> bytes \<Rightarrow> bool res" where
  "challenge_matches frepr c now_ms t offered =
     (if py_eq (profile t) (VStr PROFILE)
         \<and> py_eq (direction t) (VStr DIRECTION)
         \<and> endpoint_eq (endpoint_of t) (cl_endpoint c)
         \<and> identity_of t = cl_identity c
         \<and> client_nonce t = cl_nonce c
         \<and> length (server_nonce t) = 32
         \<and> is_uuid (session_id t)
         \<and> is_uuid (generation t)
         \<and> 0 < issued_at_ms t \<and> issued_at_ms t < 9000000000000000
         \<and> 0 < channel_expires_at_ms t \<and> channel_expires_at_ms t < 9000000000000000
         \<and> issued_at_ms t \<le> now_ms + 5000
         \<and> now_ms - 30000 < issued_at_ms t
         \<and> now_ms < channel_expires_at_ms t
         \<and> channel_expires_at_ms t - issued_at_ms t = \<lfloor>CHANNEL_LIFETIME * 1000\<rfloor>
      then rbind (signing_data frepr t) (\<lambda>data. Inr (offered = data))
      else Inr False)"

fun is_verification_failure :: "exc \<Rightarrow> bool" where
  "is_verification_failure (VerificationFailure code) = True"
| "is_verification_failure (ChannelFailure code) = True"
| "is_verification_failure _ = False"

definition begin_challenge :: "(rat \<Rightarrow> string) \<Rightarrow> outside \<Rightarrow> client \<Rightarrow> bytes \<Rightarrow> client \<times> bytes res" where
  "begin_challenge frepr out c data =
     (case cl_open frepr c data of
        (c, Inl e) \<Rightarrow> (c, Inl e)
      | (c, Inr (name, body)) \<Rightarrow>
          (if cl_deadline c \<le> mono_first out then cl_fail c ''expired''
           else if name \<noteq> ''channelAuthChallenge'' \<or> cl_state c \<noteq> Hello_Sent then cl_fail c ''unexpectedMessage''
           else (let c = c\<lparr>cl_state := Signing\<rparr>
                 in case read_challenge body of
                      Inl e \<Rightarrow> (case failure_code e of Some code \<Rightarrow> cl_fail c code | None \<Rightarrow> (c, Inl e))
                    | Inr (t, offered) \<Rightarrow>
                        (let now_ms = ms (wall_first out)
                         in case challenge_matches frepr c now_ms t offered of
                              Inl e \<Rightarrow> (c, Inl e)
                            | Inr matches \<Rightarrow>
                                (if \<not> matches then cl_fail c ''invalidProof''
                                 else case validate_signing_challenge offered (identity_descriptor (cl_identity c)) (ms_seconds now_ms) of
                                   Inl e \<Rightarrow> (if is_verification_failure e then cl_fail c ''invalidProof'' else (c, Inl e))
                                 | Inr _ \<Rightarrow> (c\<lparr>cl_transcript := Some t, cl_offered := Some offered\<rparr>, Inr offered))))))"

definition finish_challenge :: "crypto \<Rightarrow> (rat \<Rightarrow> string) \<Rightarrow> outside \<Rightarrow> client \<Rightarrow> bytes \<Rightarrow> client \<times> bytes res" where
  "finish_challenge cr frepr out c signature =
     (case (cl_state c, cl_transcript c, cl_offered c) of
        (Signing, Some t, Some offered) \<Rightarrow>
          (let c = c\<lparr>cl_offered := None\<rparr>; d = identity_descriptor (cl_identity c)
           in if cl_deadline c \<le> mono_first out then cl_fail c ''staleGeneration''
              else case verify_signature cr (FVal (VBytes signature)) offered d of
                Inl e \<Rightarrow> (c, Inl e)
              | Inr verified \<Rightarrow>
                  (if \<not> verified then cl_fail c ''staleGeneration''
                   else case validate_signing_challenge offered d (wall_first out) of
                     Inl e \<Rightarrow> (if is_verification_failure e then cl_fail c ''expired'' else (c, Inl e))
                   | Inr _ \<Rightarrow>
                       (c\<lparr>cl_state := Proof_Sent\<rparr>,
                        envelope frepr ''channelAuthProof'' (proof_body (session_id t) (generation t) signature))))
      | _ \<Rightarrow> cl_fail c ''unexpectedMessage'')"

definition on_accepted :: "(rat \<Rightarrow> string) \<Rightarrow> outside \<Rightarrow> client \<Rightarrow> pyval dict \<Rightarrow> client \<times> unit res" where
  "on_accepted frepr out c body =
     (case exact_keys body [''sessionID'', ''generation'', ''transcriptDigest''] of
        Inl e \<Rightarrow> (case failure_code e of Some code \<Rightarrow> cl_fail c code | None \<Rightarrow> (c, Inl e))
      | Inr _ \<Rightarrow>
          (case cl_transcript c of
             None \<Rightarrow> cl_fail c ''invalidProof''
           | Some t \<Rightarrow>
               (if \<not> py_eq (getn body ''sessionID'') (session_id t)
                  \<or> \<not> py_eq (getn body ''generation'') (generation t) then cl_fail c ''invalidProof''
                else case transcript_digest frepr t of
                  Inl e \<Rightarrow> (c, Inl e)
                | Inr bound \<Rightarrow>
                    (if \<not> py_eq (getn body ''transcriptDigest'') (VStr bound) then cl_fail c ''invalidProof''
                     else if ms_seconds (channel_expires_at_ms t) \<le> wall_first out then cl_fail c ''expired''
                     else (c\<lparr>cl_admitted := Some \<lparr>ac_identity = identity_of t, ac_endpoint = endpoint_of t,
                               ac_session_id = session_id t, ac_generation = generation t,
                               ac_transcript_digest = bound, ac_expires_at = ms_seconds (channel_expires_at_ms t)\<rparr>,
                             cl_state := Client_Authenticated\<rparr>, Inr ())))))"

definition accept :: "(rat \<Rightarrow> string) \<Rightarrow> outside \<Rightarrow> client \<Rightarrow> bytes \<Rightarrow> client \<times> unit res" where
  "accept frepr out c data =
     (case cl_open frepr c data of
        (c, Inl e) \<Rightarrow> (c, Inl e)
      | (c, Inr (name, body)) \<Rightarrow>
          (if cl_deadline c \<le> mono_first out then cl_fail c ''expired''
           else if name \<noteq> ''channelAuthAccepted'' \<or> cl_state c \<noteq> Proof_Sent then cl_fail c ''unexpectedMessage''
           else on_accepted frepr out c body))"

text \<open>\<open>receive\<close>: a challenge is answered with the proof, anything else must be the acceptance.\<close>

definition cl_receive :: "crypto \<Rightarrow> (rat \<Rightarrow> string) \<Rightarrow> (bytes \<Rightarrow> bytes res) \<Rightarrow> outside \<Rightarrow> outside \<Rightarrow> client \<Rightarrow> bytes
    \<Rightarrow> client \<times> bytes option res" where
  "cl_receive cr frepr signer out out' c data =
     (case cl_open frepr c data of
        (c, Inl e) \<Rightarrow> (c, Inl e)
      | (c, Inr (name, _)) \<Rightarrow>
          (if name = ''channelAuthChallenge'' then
             (case begin_challenge frepr out c data of
                (c, Inl e) \<Rightarrow> (c, Inl e)
              | (c, Inr offered) \<Rightarrow>
                  (case signer offered of
                     Inl e \<Rightarrow> (c, Inl e)
                   | Inr signature \<Rightarrow>
                       (case finish_challenge cr frepr out' c signature of (c, r) \<Rightarrow> (c, rbind r (\<lambda>x. Inr (Some x))))))
           else (case accept frepr out c data of (c, r) \<Rightarrow> (c, rbind r (\<lambda>_. Inr None)))))"

subsection \<open>Runs\<close>

text \<open>The state of a server after a sequence of frames, each with what its call read.\<close>

definition srv_run :: "crypto \<Rightarrow> (rat \<Rightarrow> string) \<Rightarrow> server \<Rightarrow> (outside \<times> bytes) list \<Rightarrow> server" where
  "srv_run cr frepr s ins = foldl (\<lambda>s (out, data). fst (srv_receive cr frepr out s data)) s ins"

lemma srv_run_simps [simp]:
  "srv_run cr frepr s [] = s"
  "srv_run cr frepr s (ins @ [(out, data)]) = fst (srv_receive cr frepr out (srv_run cr frepr s ins) data)"
  by (simp_all add: srv_run_def)

text \<open>One call of a client, with the bytes it returns, if any.\<close>

datatype client_call =
    Call_Hello
  | Call_Begin outside bytes
  | Call_Finish outside bytes
  | Call_Accept outside bytes

fun cl_call :: "crypto \<Rightarrow> (rat \<Rightarrow> string) \<Rightarrow> client_call \<Rightarrow> client \<Rightarrow> client \<times> bytes option res" where
  "cl_call cr frepr Call_Hello c = map_prod id (\<lambda>r. rbind r (\<lambda>x. Inr (Some x))) (hello frepr c)"
| "cl_call cr frepr (Call_Begin out data) c = map_prod id (\<lambda>r. rbind r (\<lambda>x. Inr (Some x))) (begin_challenge frepr out c data)"
| "cl_call cr frepr (Call_Finish out signature) c =
     map_prod id (\<lambda>r. rbind r (\<lambda>x. Inr (Some x))) (finish_challenge cr frepr out c signature)"
| "cl_call cr frepr (Call_Accept out data) c = map_prod id (\<lambda>r. rbind r (\<lambda>_. Inr None)) (accept frepr out c data)"

definition cl_run :: "crypto \<Rightarrow> (rat \<Rightarrow> string) \<Rightarrow> client \<Rightarrow> client_call list \<Rightarrow> client" where
  "cl_run cr frepr c calls = foldl (\<lambda>c call. fst (cl_call cr frepr call c)) c calls"

text \<open>
  A set of states that no operation leaves and in which every operation of some kind is refused; the
  server's and the client's end states are such sets, and so are the states after a client's only
  challenge.
\<close>

locale dead_end =
  fixes step :: "'i \<Rightarrow> 's \<Rightarrow> 's \<times> 'b res" and dead :: "'s \<Rightarrow> bool" and refused :: "'i \<Rightarrow> bool"
  assumes stays: "dead s \<Longrightarrow> dead (fst (step i s))"
    and refuses: "dead s \<Longrightarrow> refused i \<Longrightarrow> isl (snd (step i s))"
begin

lemma run_stays: "dead s \<Longrightarrow> dead (foldl (\<lambda>s i. fst (step i s)) s is)"
  by (induction "is" arbitrary: s) (auto intro: stays)

lemma run_refuses: "dead s \<Longrightarrow> refused i \<Longrightarrow> isl (snd (step i (foldl (\<lambda>s i. fst (step i s)) s is)))"
  using run_stays refuses by blast

end

lemma srv_fail_simps [simp]:
  "fst (srv_fail s code) = s\<lparr>srv_state := Closed, srv_pending := None\<rparr>"
  "snd (srv_fail s code) = Inl (ChannelFailure code)"
  by (simp_all add: srv_fail_def)

lemma cl_fail_simps [simp]:
  "fst (cl_fail c code) = c\<lparr>cl_state := Client_Closed\<rparr>"
  "snd (cl_fail c code) = Inl (ChannelFailure code)"
  by (simp_all add: cl_fail_def)

interpretation server_end: dead_end "\<lambda>(out, data) s. srv_receive cr frepr out s data"
    "\<lambda>s :: server. srv_state s = Closed" "\<lambda>_. True" for cr frepr
  by unfold_locales (auto simp: srv_receive_def)

lemma cl_open_Inr [simp]: "cl_open frepr c data = (c', Inr m) \<longleftrightarrow> open_envelope frepr data = Inr m \<and> c' = c"
  by (auto simp: cl_open_def split: sum.splits)

lemma cl_open_Inl: "cl_open frepr c data = (c', Inl e) \<Longrightarrow> c' = c \<or> c' = c\<lparr>cl_state := Client_Closed\<rparr>"
  by (auto simp: cl_open_def split: sum.splits if_splits)

interpretation client_end: dead_end "cl_call cr frepr" "\<lambda>c :: client. cl_state c = Client_Closed" "\<lambda>_. True" for cr frepr
proof unfold_locales
  fix c :: client and i
  assume c: "cl_state c = Client_Closed"
  show "cl_state (fst (cl_call cr frepr i c)) = Client_Closed"
    by (cases i) (use c in \<open>auto simp: hello_def begin_challenge_def finish_challenge_def accept_def
        split: prod.splits sum.splits dest!: cl_open_Inl\<close>)
  show "isl (snd (cl_call cr frepr i c))" 
    by (cases i) (use c in \<open>auto simp: hello_def begin_challenge_def finish_challenge_def accept_def
        split: prod.splits sum.splits dest!: cl_open_Inl\<close>)
qed

subsection \<open>The abstract protocol of the server\<close>

text \<open>
  What admission is about, without messages and failure paths: a connection is fresh, challenged with
  a transcript, admitted, or finished. Every frame makes one step, labelled with what the call read,
  the frame and the reply.
\<close>

datatype phase = Fresh | Challenged transcript | Admitted admitted_channel | Finished

definition issued :: "server \<Rightarrow> outside \<Rightarrow> transcript \<Rightarrow> bool" where
  "issued cfg out t \<longleftrightarrow>
     endpoint_of t = srv_endpoint cfg \<and> generation t = VStr (srv_generation cfg)
     \<and> server_nonce t = random_32 out \<and> session_id t = VStr (new_uuid out)
     \<and> issued_at_ms t = ms (wall_first out) \<and> channel_expires_at_ms t = ms (wall_first out) + 300000
     \<and> profile t = VStr PROFILE \<and> direction t = VStr DIRECTION
     \<and> length (client_nonce t) = 32 \<and> identity_validate (identity_of t) = Inr ()"

text \<open>A signature over the transcript's challenge by the key of its identity, in time and allowed.\<close>

definition proven :: "crypto \<Rightarrow> (rat \<Rightarrow> string) \<Rightarrow> server \<Rightarrow> outside \<Rightarrow> transcript \<Rightarrow> bytes \<Rightarrow> bool" where
  "proven cr frepr cfg out t signature \<longleftrightarrow>
     (\<exists>data. signing_data frepr t = Inr data \<and> length signature = 64
        \<and> ed_verify cr (public_key (identity_of t)) signature data)
     \<and> (\<forall>passes. srv_recheck cfg = Some passes \<longrightarrow> passes (identity_of t))
     \<and> wall_first out < round_double (ms_seconds (issued_at_ms t) + CHALLENGE_LIFETIME)
     \<and> wall_last out < ms_seconds (channel_expires_at_ms t)
     \<and> mono_last out < srv_deadline cfg"

definition channel_of :: "server \<Rightarrow> transcript \<Rightarrow> string \<Rightarrow> admitted_channel" where
  "channel_of cfg t bound = \<lparr>ac_identity = identity_of t, ac_endpoint = srv_endpoint cfg,
     ac_session_id = session_id t, ac_generation = VStr (srv_generation cfg),
     ac_transcript_digest = bound, ac_expires_at = ms_seconds (channel_expires_at_ms t)\<rparr>"

inductive admission :: "crypto \<Rightarrow> (rat \<Rightarrow> string) \<Rightarrow> server \<Rightarrow> phase \<Rightarrow> outside \<times> bytes \<times> bytes res \<Rightarrow> phase \<Rightarrow> bool"
  for cr frepr cfg where
  challenge: "issued cfg out t \<Longrightarrow> mono_first out < srv_deadline cfg \<Longrightarrow>
    open_envelope frepr frame = Inr (''channelAuthHello'', body) \<Longrightarrow>
    read_hello body = Inr (identity_of t, client_nonce t) \<Longrightarrow> signing_data frepr t = Inr data \<Longrightarrow>
    reply = envelope frepr ''channelAuthChallenge'' (challenge_body t data) \<Longrightarrow>
    admission cr frepr cfg Fresh (out, frame, reply) (Challenged t)"
| admit: "proven cr frepr cfg out t signature \<Longrightarrow> mono_first out < srv_deadline cfg \<Longrightarrow>
    open_envelope frepr frame = Inr (''channelAuthProof'', body) \<Longrightarrow> read_proof body = Inr signature \<Longrightarrow>
    getn body ''sessionID'' = session_id t \<Longrightarrow> getn body ''generation'' = generation t \<Longrightarrow>
    transcript_digest frepr t = Inr bound \<Longrightarrow>
    reply = envelope frepr ''channelAuthAccepted'' (accepted_body t bound) \<Longrightarrow>
    admission cr frepr cfg (Challenged t) (out, frame, reply) (Admitted (channel_of cfg t bound))"
| refuse: "admission cr frepr cfg ph (out, frame, Inl (ChannelFailure code)) Finished"
| ignore: "failure_code e = None \<Longrightarrow> ph \<in> {Fresh, Challenged t} \<Longrightarrow> admission cr frepr cfg ph (out, frame, Inl e) ph"

definition phase_of :: "server \<Rightarrow> phase" where
  "phase_of s =
     (case (srv_state s, srv_pending s, srv_admitted s) of
        (Unauthenticated, _, _) \<Rightarrow> Fresh
      | (Challenge_Issued, Some (t, _), _) \<Rightarrow> Challenged t
      | (Authenticated, _, Some a) \<Rightarrow> Admitted a
      | _ \<Rightarrow> Finished)"

definition same_config :: "server \<Rightarrow> server \<Rightarrow> bool" where
  "same_config s s' \<longleftrightarrow> srv_endpoint s' = srv_endpoint s \<and> srv_recheck s' = srv_recheck s
     \<and> srv_generation s' = srv_generation s \<and> srv_deadline s' = srv_deadline s"

text \<open>The states a server is in between two calls.\<close>

definition srv_inv :: "(rat \<Rightarrow> string) \<Rightarrow> server \<Rightarrow> bool" where
  "srv_inv frepr s \<longleftrightarrow>
     (case srv_state s of
        Unauthenticated \<Rightarrow> srv_pending s = None \<and> srv_admitted s = None
      | Challenge_Issued \<Rightarrow>
          (\<exists>t data out. srv_pending s = Some (t, data) \<and> signing_data frepr t = Inr data \<and> issued s out t)
          \<and> srv_admitted s = None
      | Authenticated \<Rightarrow> srv_pending s = None \<and> srv_admitted s \<noteq> None
      | Verifying \<Rightarrow> False
      | Closed \<Rightarrow> True)"

lemma descriptor_signature:
  "verify_signature cr (FVal (VBytes signature)) data (identity_descriptor p) =
     Inr (algorithm p = ''EdDSA'' \<and> curve p = ''Curve25519'' \<and> length (public_key p) = 32
       \<and> length signature = 64 \<and> ed_verify cr (public_key p) signature data)"
  by (auto simp: verify_signature_def identity_descriptor_def attr_def bytes_at_def)

lemma read_hello_Inr:
  assumes "read_hello body = Inr (p, nonce)"
  shows "length nonce = 32 \<and> identity_validate p = Inr ()"
  using assms
  by (auto simp: read_hello_def identity_from_json_def rbind_Inr_iff Let_def
      split: if_splits pyval.splits option.splits)

lemma unb64_text_error: "unb64_text v = Inl e \<Longrightarrow> e = ChannelFailure ''malformed''"
  by (cases v) (auto simp: unb64_text_def split: option.splits)

lemma failure_code_some: "failure_code e = Some code \<Longrightarrow> e = ChannelFailure code"
  by (cases e) auto

lemma signing_data_digest: "signing_data frepr t = Inr data \<Longrightarrow> \<exists>bound. transcript_digest frepr t = Inr bound"
  by (auto simp: signing_data_def signing_challenge_def Let_def rbind_Inr_iff)

lemma py_eq_str [simp]: "py_eq v (VStr s) \<longleftrightarrow> v = VStr s"
  by (cases v) auto

lemma on_hello_refines:
  assumes inv: "srv_inv frepr s" "srv_state s = Unauthenticated"
    and opened: "open_envelope frepr frame = Inr (''channelAuthHello'', body)" "mono_first out < srv_deadline s"
    and r: "on_hello frepr out s body = (s', r)"
  shows "admission cr frepr s (phase_of s) (out, frame, r) (phase_of s') \<and> srv_inv frepr s' \<and> same_config s s'"
proof (cases "read_hello body")
  case (Inl e)
  show ?thesis
    by (cases "failure_code e")
      (use r Inl inv in \<open>auto simp: on_hello_def srv_fail_def phase_of_def srv_inv_def same_config_def
        intro: admission.intros(3,4) [where ph = Fresh]\<close>)
next
  case hello: (Inr x)
  obtain p nonce where x: "x = (p, nonce)" by (cases x)
  let ?t = "\<lparr>endpoint_of = srv_endpoint s, identity_of = p, client_nonce = nonce,
     server_nonce = random_32 out, session_id = VStr (new_uuid out), generation = VStr (srv_generation s),
     issued_at_ms = ms (wall_first out), channel_expires_at_ms = ms (wall_first out) + 300000,
     profile = VStr PROFILE, direction = VStr DIRECTION\<rparr>"
  have t: "issued s out ?t" using read_hello_Inr [OF hello [unfolded x]] by (simp add: issued_def)
  show ?thesis
  proof (cases "signing_data frepr ?t")
    case (Inl e)
    have e: "failure_code e = None" using signing_data_error [OF Inl] by auto
    have "s' = s" "r = Inl e"
      using r Inl hello x by (simp_all add: on_hello_def CHANNEL_LIFETIME_def)
    then show ?thesis using inv e admission.ignore [OF e, where ph = Fresh] by (simp add: phase_of_def same_config_def)
  next
    case (Inr data)
    have "(s', r) = (s\<lparr>srv_pending := Some (?t, data), srv_state := Challenge_Issued\<rparr>,
        envelope frepr ''channelAuthChallenge'' (challenge_body ?t data))"
      unfolding r [symmetric] using Inr hello x by (simp add: on_hello_def CHANNEL_LIFETIME_def Let_def)
    then have s': "s' = s\<lparr>srv_pending := Some (?t, data), srv_state := Challenge_Issued\<rparr>"
      "r = envelope frepr ''channelAuthChallenge'' (challenge_body ?t data)" by simp_all
    have "admission cr frepr s Fresh (out, frame, r) (Challenged ?t)"
      by (rule admission.challenge [OF t opened(2,1) _ Inr s'(2)]) (simp add: hello x)
    moreover have "issued s' out ?t" using t s' by (simp add: issued_def)
    ultimately show ?thesis using s' inv Inr by (auto simp: phase_of_def srv_inv_def same_config_def)
  qed
qed

text \<open>A proof that can be read is accepted exactly when these conditions hold.\<close>

definition acceptable :: "crypto \<Rightarrow> outside \<Rightarrow> server \<Rightarrow> pyval dict \<Rightarrow> transcript \<Rightarrow> bytes \<Rightarrow> bytes \<Rightarrow> bool" where
  "acceptable cr out s body t data signature \<longleftrightarrow>
     wall_first out < round_double (ms_seconds (issued_at_ms t) + CHALLENGE_LIFETIME)
     \<and> getn body ''sessionID'' = session_id t \<and> getn body ''generation'' = VStr (srv_generation s)
     \<and> verify_signature cr (FVal (VBytes signature)) data (identity_descriptor (identity_of t)) = Inr True
     \<and> (\<forall>passes. srv_recheck s = Some passes \<longrightarrow> passes (identity_of t))
     \<and> mono_last out < srv_deadline s \<and> wall_last out < ms_seconds (channel_expires_at_ms t)"

lemma on_proof_eq:
  assumes "srv_pending s = Some (t, data)" "read_proof body = Inr signature" "session_id t = VStr sid"
  shows "\<exists>code. on_proof cr frepr out s body =
    (if acceptable cr out s body t data signature
     then srv_admit frepr (s\<lparr>srv_pending := None, srv_state := Verifying\<rparr>) t
     else srv_fail (s\<lparr>srv_pending := None, srv_state := Verifying\<rparr>) code)"
proof -
  define v where "v = (algorithm (identity_of t) = ''EdDSA'' \<and> curve (identity_of t) = ''Curve25519''
    \<and> length (public_key (identity_of t)) = 32 \<and> length signature = 64
    \<and> ed_verify cr (public_key (identity_of t)) signature data)"
  have v: "verify_signature cr (FVal (VBytes signature)) data (identity_descriptor (identity_of t)) = Inr v"
    by (simp add: v_def descriptor_signature)
  have long: "256 < length signature \<Longrightarrow> \<not> v" by (auto simp: v_def)
  show ?thesis
  proof (cases "acceptable cr out s body t data signature")
    case True
    then show ?thesis using assms long by (auto simp: on_proof_def Let_def v acceptable_def split: option.splits)
  next
    case False
    let ?s = "s\<lparr>srv_pending := None, srv_state := Verifying\<rparr>"
    let ?ids = "getn body ''sessionID'' = session_id t \<and> getn body ''generation'' = VStr (srv_generation s)"
    let ?late = "round_double (ms_seconds (issued_at_ms t) + CHALLENGE_LIFETIME) \<le> wall_first out"
    have step: "on_proof cr frepr out s body =
        (if ?late then srv_fail ?s ''expired'' else if \<not> ?ids then srv_fail ?s ''staleGeneration''
         else if 256 < length signature \<or> \<not> v then srv_fail ?s ''invalidProof''
         else if \<exists>passes. srv_recheck s = Some passes \<and> \<not> passes (identity_of t) then srv_fail ?s ''revoked''
         else if srv_deadline s \<le> mono_last out \<or> ms_seconds (channel_expires_at_ms t) \<le> wall_last out
           then srv_fail ?s ''expired'' else srv_admit frepr ?s t)"
      using assms by (simp add: on_proof_def Let_def v split: option.splits)
    have "?late \<or> \<not> ?ids \<or> \<not> v \<or> (\<exists>passes. srv_recheck s = Some passes \<and> \<not> passes (identity_of t))
        \<or> srv_deadline s \<le> mono_last out \<or> ms_seconds (channel_expires_at_ms t) \<le> wall_last out"
      using False v by (auto simp: acceptable_def not_le)
    then have "on_proof cr frepr out s body \<in> range (srv_fail ?s)" unfolding step by (smt (verit) rangeI)
    then show ?thesis using False by auto
  qed
qed

lemma on_proof_refines:
  assumes inv: "srv_inv frepr s" "srv_state s = Challenge_Issued"
    and opened: "open_envelope frepr frame = Inr (''channelAuthProof'', body)" "mono_first out < srv_deadline s"
    and r: "on_proof cr frepr out s body = (s', r)"
  shows "admission cr frepr s (phase_of s) (out, frame, r) (phase_of s') \<and> srv_inv frepr s' \<and> same_config s s'"
proof -
  obtain t data o0 where p: "srv_pending s = Some (t, data)" "signing_data frepr t = Inr data" "issued s o0 t"
    and adm: "srv_admitted s = None"
    using inv by (auto simp: srv_inv_def)
  have ph: "phase_of s = Challenged t" using inv p by (simp add: phase_of_def)
  have t: "session_id t = VStr (new_uuid o0)" "generation t = VStr (srv_generation s)"
    using p(3) by (simp_all add: issued_def)
  let ?s = "s\<lparr>srv_pending := None, srv_state := Verifying\<rparr>"
  have failed: ?thesis if "(s', r) = srv_fail ?s code" for code
    using that by (auto simp: srv_fail_def phase_of_def srv_inv_def same_config_def intro: admission.refuse)
  show ?thesis
  proof (cases "read_proof body")
    case (Inl e)
    then have "e = ChannelFailure ''malformed''"
      by (auto simp: read_proof_def rbind_Inl_iff exact_keys_def dest: unb64_text_error split: if_splits)
    then show ?thesis using r Inl p by (intro failed [of "''malformed''"]) (simp add: on_proof_def)
  next
    case read: (Inr signature)
    show ?thesis
    proof (cases "acceptable cr out s body t data signature")
      case False
      then show ?thesis using on_proof_eq [OF p(1) read t(1)] r failed by metis
    next
      case True
      obtain bound where bound: "transcript_digest frepr t = Inr bound" using signing_data_digest [OF p(2)] by blast
      have "(s', r) = srv_admit frepr ?s t" using on_proof_eq [OF p(1) read t(1)] r True by metis
      then have s': "s' = s\<lparr>srv_pending := None, srv_admitted := Some (channel_of s t bound), srv_state := Authenticated\<rparr>"
        "r = envelope frepr ''channelAuthAccepted'' (accepted_body t bound)"
        by (simp_all add: srv_admit_def bound channel_of_def)
      have "proven cr frepr s out t signature"
        using True p(2) by (auto simp: acceptable_def proven_def descriptor_signature)
      then have "admission cr frepr s (Challenged t) (out, frame, r) (Admitted (channel_of s t bound))"
        by (rule admission.admit [OF _ opened(2,1) read _ _ bound s'(2)]) (use True t in \<open>simp_all add: acceptable_def\<close>)
      then show ?thesis using ph s' by (simp add: phase_of_def srv_inv_def same_config_def)
    qed
  qed
qed

lemma receive_refines:
  assumes "srv_inv frepr s"
  shows "admission cr frepr s (phase_of s) (out, frame, snd (srv_receive cr frepr out s frame))
      (phase_of (fst (srv_receive cr frepr out s frame)))
    \<and> srv_inv frepr (fst (srv_receive cr frepr out s frame)) \<and> same_config s (fst (srv_receive cr frepr out s frame))"
proof -
  let ?r = "srv_receive cr frepr out s frame"
  have failed: ?thesis if "?r = srv_fail s code" for code
    using that by (auto simp: phase_of_def srv_inv_def same_config_def srv_fail_def intro: admission.refuse)
  show ?thesis
  proof (cases "srv_state s \<in> {Closed, Authenticated}")
    case True
    then show ?thesis by (intro failed [of "''unexpectedMessage''"]) (simp add: srv_receive_def)
  next
    case active: False
    show ?thesis
    proof (cases "open_envelope frepr frame")
      case (Inl e)
      show ?thesis
      proof (cases "failure_code e")
        case None
        have "phase_of s \<in> {Fresh} \<union> range Challenged"
          using active assms by (cases "srv_state s") (auto simp: phase_of_def srv_inv_def)
        then show ?thesis
          using active Inl None assms by (auto simp: srv_receive_def same_config_def intro: admission.ignore)
      next
        case (Some code)
        then show ?thesis
          using active Inl failure_code_some [OF Some]
          by (auto simp: srv_receive_def same_config_def phase_of_def srv_inv_def intro: admission.refuse)
      qed
    next
      case (Inr m)
      obtain name body where m: "m = (name, body)" by (cases m)
      consider (late) "srv_deadline s \<le> mono_first out"
        | (hello) "mono_first out < srv_deadline s" "name = ''channelAuthHello''" "srv_state s = Unauthenticated"
        | (signed) "mono_first out < srv_deadline s" "name = ''channelAuthProof''" "srv_state s = Challenge_Issued"
        | (other) "mono_first out < srv_deadline s" "\<not> (name = ''channelAuthHello'' \<and> srv_state s = Unauthenticated)"
            "\<not> (name = ''channelAuthProof'' \<and> srv_state s = Challenge_Issued)"
        by fastforce
      then show ?thesis
      proof cases
        case late
        then show ?thesis using active Inr m by (intro failed [of "''expired''"]) (simp add: srv_receive_def)
      next
        case hello
        then have "?r = on_hello frepr out s body" using active Inr m by (simp add: srv_receive_def)
        then show ?thesis using on_hello_refines [OF assms hello(3) _ hello(1)] Inr m hello(2) by (metis surjective_pairing)
      next
        case signed
        then have "?r = on_proof cr frepr out s body" using active Inr m by (simp add: srv_receive_def)
        then show ?thesis using on_proof_refines [OF assms signed(3) _ signed(1)] Inr m signed(2) by (metis surjective_pairing)
      next
        case other
        then have "?r = srv_fail s ''unexpectedMessage''" using active Inr m by (auto simp: srv_receive_def)
        then show ?thesis by (rule failed)
      qed
    qed
  qed
qed

lemma run_inv: "srv_inv frepr (srv_run cr frepr (new_server e policy gen now) ins)
    \<and> same_config (new_server e policy gen now) (srv_run cr frepr (new_server e policy gen now) ins)"
proof (induction ins rule: rev_induct)
  case Nil
  show ?case by (simp add: srv_inv_def new_server_def same_config_def)
next
  case (snoc i ins)
  then show ?case
    using receive_refines [of frepr "srv_run cr frepr (new_server e policy gen now) ins" cr "fst i" "snd i"]
    by (cases i) (auto simp: same_config_def)
qed

lemma admission_config: "same_config cfg cfg' \<Longrightarrow> admission cr frepr cfg ph l ph' = admission cr frepr cfg' ph l ph'"
proof -
  assume "same_config cfg cfg'"
  then have "srv_endpoint cfg' = srv_endpoint cfg" "srv_recheck cfg' = srv_recheck cfg"
    "srv_generation cfg' = srv_generation cfg" "srv_deadline cfg' = srv_deadline cfg"
    by (simp_all add: same_config_def)
  then show ?thesis
    unfolding admission.simps [of cr frepr cfg] admission.simps [of cr frepr cfg'] issued_def proven_def channel_of_def
    by simp
qed

lemma run_step:
  "admission cr frepr (new_server e policy gen now)
     (phase_of (srv_run cr frepr (new_server e policy gen now) ins))
     (out, frame, snd (srv_receive cr frepr out (srv_run cr frepr (new_server e policy gen now) ins) frame))
     (phase_of (srv_run cr frepr (new_server e policy gen now) (ins @ [(out, frame)])))"
  using receive_refines [of frepr "srv_run cr frepr (new_server e policy gen now) ins" cr out frame] run_inv
    admission_config [of "new_server e policy gen now" "srv_run cr frepr (new_server e policy gen now) ins"]
  by auto

text \<open>
  C13: whatever frames a server receives, and whatever its clocks read, every frame makes a step of the
  abstract protocol: a fresh connection is challenged with a transcript of the server's own nonce,
  session, generation, endpoint and times; a challenged one is admitted only with a signature of its
  challenge by the key the transcript names, in time and past the policy; a refusal finishes the
  connection; and nothing else changes its phase.
\<close>

theorem server_refines_admission:
  "admission cr frepr (new_server e policy gen now)
     (phase_of (srv_run cr frepr (new_server e policy gen now) ins))
     (out, frame, snd (srv_receive cr frepr out (srv_run cr frepr (new_server e policy gen now) ins) frame))
     (phase_of (srv_run cr frepr (new_server e policy gen now) (ins @ [(out, frame)])))"
  by (rule run_step)

lemma srv_admitted_keeps:
  assumes "srv_admitted (fst (srv_receive cr frepr out s frame)) = Some a"
  shows "srv_admitted s = Some a \<or> phase_of (fst (srv_receive cr frepr out s frame)) = Admitted a"
proof -
  have h: "srv_admitted (fst (on_hello frepr out s body)) = srv_admitted s" for body
    by (auto simp: on_hello_def Let_def split: sum.splits option.splits)
  have ad: "srv_admitted (fst (srv_admit frepr s' t)) = Some a \<Longrightarrow>
      srv_admitted s' = Some a \<or> phase_of (fst (srv_admit frepr s' t)) = Admitted a" for s' t
    by (auto simp: srv_admit_def phase_of_def split: sum.splits)
  have pr: "srv_admitted (fst (on_proof cr frepr out s body)) = Some a \<Longrightarrow>
      srv_admitted s = Some a \<or> phase_of (fst (on_proof cr frepr out s body)) = Admitted a" for body out
    using ad [of "s\<lparr>srv_pending := None, srv_state := Verifying\<rparr>"]
    by (auto simp: on_proof_def Let_def split: sum.splits option.splits prod.splits if_splits)
  show ?thesis
    using assms h
    by (cases "open_envelope frepr frame") (auto simp: srv_receive_def dest: pr split: if_splits)
qed

text \<open>The hello that asked for a transcript, and the proof that was admitted.\<close>

definition asked :: "(rat \<Rightarrow> string) \<Rightarrow> server \<Rightarrow> outside \<times> bytes \<Rightarrow> transcript \<Rightarrow> bool" where
  "asked frepr cfg i t \<longleftrightarrow>
     issued cfg (fst i) t
     \<and> (\<exists>body. open_envelope frepr (snd i) = Inr (''channelAuthHello'', body)
          \<and> read_hello body = Inr (identity_of t, client_nonce t))"

definition answered :: "crypto \<Rightarrow> (rat \<Rightarrow> string) \<Rightarrow> server \<Rightarrow> outside \<times> bytes \<Rightarrow> transcript \<Rightarrow> bool" where
  "answered cr frepr cfg i t \<longleftrightarrow>
     (\<exists>body signature. open_envelope frepr (snd i) = Inr (''channelAuthProof'', body)
        \<and> read_proof body = Inr signature \<and> proven cr frepr cfg (fst i) t signature)"

inductive_cases challenge_step: "admission cr frepr cfg ph l (Challenged t)"
inductive_cases admit_step: "admission cr frepr cfg ph l (Admitted a)"

lemma challenged_was_asked:
  "phase_of (srv_run cr frepr (new_server e policy gen now) ins) = Challenged t \<Longrightarrow>
     \<exists>i < length ins. asked frepr (new_server e policy gen now) (ins ! i) t"
proof (induction ins rule: rev_induct)
  case Nil
  then show ?case by (simp add: phase_of_def new_server_def)
next
  case (snoc x ins)
  obtain out frame where x: "x = (out, frame)" by (cases x)
  let ?cfg = "new_server e policy gen now"
  have "asked frepr ?cfg x t \<or> phase_of (srv_run cr frepr ?cfg ins) = Challenged t"
    using run_step [of cr frepr e policy gen now ins out frame] unfolding x [symmetric] snoc.prems
    by (elim challenge_step) (auto simp: asked_def x)
  then show ?case
  proof
    assume "asked frepr ?cfg x t"
    then show ?case by (intro exI [of _ "length ins"]) simp
  next
    assume "phase_of (srv_run cr frepr ?cfg ins) = Challenged t"
    from snoc.IH [OF this] show ?case by (metis length_append_singleton less_Suc_eq nth_append)
  qed
qed

lemma admitted_was_proven:
  "srv_admitted (srv_run cr frepr (new_server e policy gen now) ins) = Some a \<Longrightarrow>
     \<exists>i j t. i < j \<and> j < length ins \<and> asked frepr (new_server e policy gen now) (ins ! i) t
       \<and> answered cr frepr (new_server e policy gen now) (ins ! j) t
       \<and> (\<exists>bound. transcript_digest frepr t = Inr bound \<and> a = channel_of (new_server e policy gen now) t bound)"
proof (induction ins rule: rev_induct)
  case Nil
  then show ?case by (simp add: new_server_def)
next
  case (snoc x ins)
  obtain out frame where x: "x = (out, frame)" by (cases x)
  let ?cfg = "new_server e policy gen now"
  let ?s = "srv_run cr frepr ?cfg ins"
  let ?s' = "srv_run cr frepr ?cfg (ins @ [x])"
  have "srv_admitted ?s = Some a \<or> phase_of ?s' = Admitted a"
    using srv_admitted_keeps snoc.prems x by simp
  then show ?case
  proof
    assume "srv_admitted ?s = Some a"
    from snoc.IH [OF this] obtain i j t where "i < j" "j < length ins" "asked frepr ?cfg (ins ! i) t"
      "answered cr frepr ?cfg (ins ! j) t" "\<exists>bound. transcript_digest frepr t = Inr bound \<and> a = channel_of ?cfg t bound"
      by blast
    then show ?case by (intro exI [of _ i] exI [of _ j] exI [of _ t]) (simp add: nth_append)
  next
    assume ph: "phase_of ?s' = Admitted a"
    have step: "admission cr frepr ?cfg (phase_of ?s) (out, frame, snd (srv_receive cr frepr out ?s frame)) (Admitted a)"
      using run_step [of cr frepr e policy gen now ins out frame] unfolding x [symmetric] ph .
    then obtain t bound where t: "phase_of ?s = Challenged t" "answered cr frepr ?cfg x t"
      "transcript_digest frepr t = Inr bound" "a = channel_of ?cfg t bound"
      by (auto simp: answered_def x elim!: admit_step)
    obtain i where "i < length ins" "asked frepr ?cfg (ins ! i) t" using challenged_was_asked [OF t(1)] by blast
    then show ?case using t
      by (intro exI [of _ i] exI [of _ "length ins"] exI [of _ t]) (simp add: nth_append)
  qed
qed

text \<open>
  C1: a server holds an admitted channel only if it received, in this order, a hello for whose identity
  it issued a transcript with its own nonce, session, generation and times, and a proof with a
  signature of that transcript's challenge by that identity's key, in time; the channel is for that
  identity, endpoint, session and transcript and ends with it. It holds whatever else was received
  before, between and after.
\<close>

theorem admitted_channel_is_proven:
  assumes "srv_admitted (srv_run cr frepr (new_server e policy gen now) ins) = Some a"
  shows "\<exists>i j t. i < j \<and> j < length ins \<and> asked frepr (new_server e policy gen now) (ins ! i) t
       \<and> answered cr frepr (new_server e policy gen now) (ins ! j) t
       \<and> (\<exists>bound. transcript_digest frepr t = Inr bound \<and> a = channel_of (new_server e policy gen now) t bound)"
  by (rule admitted_was_proven [OF assms])

subsection \<open>What a client signs\<close>

text \<open>The states after the only challenge a client accepts.\<close>

interpretation client_once: dead_end "cl_call cr frepr" "\<lambda>c :: client. cl_state c \<notin> {New, Hello_Sent}"
    "\<lambda>call. \<exists>out data. call = Call_Begin out data" for cr frepr
proof unfold_locales
  fix c :: client and i
  assume c: "cl_state c \<notin> {New, Hello_Sent}"
  show "cl_state (fst (cl_call cr frepr i c)) \<notin> {New, Hello_Sent}"
    by (cases i) (use c in \<open>auto simp: hello_def begin_challenge_def finish_challenge_def accept_def on_accepted_def Let_def
        split: prod.splits sum.splits client_state.splits option.splits if_splits dest!: cl_open_Inl\<close>)
  show "isl (snd (cl_call cr frepr i c))" if "\<exists>out data. i = Call_Begin out data"
    using c that by (auto simp: begin_challenge_def split: prod.splits sum.splits dest!: cl_open_Inl)
qed

text \<open>The transcript is the client's own connection attempt, as far as the client can know.\<close>

definition own_transcript :: "(rat \<Rightarrow> string) \<Rightarrow> client \<Rightarrow> int \<Rightarrow> transcript \<Rightarrow> bool" where
  "own_transcript frepr c now_ms t \<longleftrightarrow>
     profile t = VStr PROFILE \<and> direction t = VStr DIRECTION \<and> endpoint_eq (endpoint_of t) (cl_endpoint c)
     \<and> identity_of t = cl_identity c \<and> client_nonce t = cl_nonce c \<and> length (server_nonce t) = 32
     \<and> now_ms - 30000 < issued_at_ms t \<and> issued_at_ms t \<le> now_ms + 5000
     \<and> channel_expires_at_ms t = issued_at_ms t + 300000 \<and> now_ms < channel_expires_at_ms t"

lemma begin_challenge_Inr:
  assumes "begin_challenge frepr out c data = (c', Inr offered)"
  shows "cl_state c = Hello_Sent \<and> mono_first out < cl_deadline c
    \<and> (\<exists>t. signing_data frepr t = Inr offered \<and> own_transcript frepr c (ms (wall_first out)) t
         \<and> c' = c\<lparr>cl_state := Signing, cl_transcript := Some t, cl_offered := Some offered\<rparr>)
    \<and> (\<exists>ch. validate_signing_challenge offered (identity_descriptor (cl_identity c)) (ms_seconds (ms (wall_first out))) = Inr ch)"
proof -
  obtain body where o: "open_envelope frepr data = Inr (''channelAuthChallenge'', body)"
    and s: "cl_state c = Hello_Sent" "mono_first out < cl_deadline c"
    using assms by (auto simp: begin_challenge_def cl_fail_def split: prod.splits sum.splits if_splits)
  let ?c = "c\<lparr>cl_state := Signing\<rparr>"
  obtain t where r: "read_challenge body = Inr (t, offered)"
    and m: "challenge_matches frepr ?c (ms (wall_first out)) t offered = Inr True"
    and v: "\<exists>ch. validate_signing_challenge offered (identity_descriptor (cl_identity c)) (ms_seconds (ms (wall_first out))) = Inr ch"
    and c': "c' = c\<lparr>cl_state := Signing, cl_transcript := Some t, cl_offered := Some offered\<rparr>"
    using assms o s
    by (auto simp: begin_challenge_def cl_open_def cl_fail_def Let_def split: sum.splits if_splits option.splits prod.splits)
  have "signing_data frepr t = Inr offered \<and> own_transcript frepr c (ms (wall_first out)) t"
    using m by (auto simp: challenge_matches_def own_transcript_def rbind_Inr_iff CHANNEL_LIFETIME_def split: if_splits)
  then show ?thesis using s v c' by blast
qed

text \<open>
  C8: the bytes a client hands to its signer are the challenge of a transcript with its own endpoint,
  identity and nonce, issued within the last 30 seconds and valid as an identity signing challenge; the
  server chooses nothing else. Whatever the client is called with afterwards, it never hands out another.
\<close>

theorem client_signs_one_own_challenge:
  assumes "begin_challenge frepr out c data = (c', Inr offered)"
  shows "(\<exists>t. signing_data frepr t = Inr offered \<and> own_transcript frepr c (ms (wall_first out)) t)
    \<and> (\<exists>ch. validate_signing_challenge offered (identity_descriptor (cl_identity c)) (ms_seconds (ms (wall_first out))) = Inr ch)
    \<and> isl (snd (begin_challenge frepr out' (cl_run cr frepr c' calls) data'))"
proof -
  have "cl_state c' \<notin> {New, Hello_Sent}" using begin_challenge_Inr [OF assms] by auto
  from client_once.run_refuses [where cr = cr and frepr = frepr, OF this, of "Call_Begin out' data'" calls]
  have "isl (snd (begin_challenge frepr out' (cl_run cr frepr c' calls) data'))"
    by (cases "snd (begin_challenge frepr out' (cl_run cr frepr c' calls) data')") (simp_all add: cl_run_def)
  then show ?thesis using begin_challenge_Inr [OF assms] by blast
qed

end
