(* ===== verification/Channel_Honest.thy ===== *)
theory Channel_Honest
  imports Channel
begin

text \<open>
  An honest client and an honest server: the frames one encodes are read by the other as what was
  written, the challenge passes every check of the client, the proof every check of the server, and
  both end with the same channel.
\<close>

subsection \<open>Frames are read back\<close>

definition canonical_dict :: "pyval dict \<Rightarrow> pyval dict" where
  "canonical_dict d = map (\<lambda>(k, v). (k, canon Encoder v)) (sort_by (item_less Encoder) d)"

lemma canon_VDict: "canon Encoder (VDict d) = VDict (canonical_dict d)"
  by (simp only: canon_dict canonical_dict_def)

lemma dkeys_canonical: "set (dkeys (canonical_dict d)) = set (dkeys d)"
  by (simp add: canonical_dict_def image_image case_prod_beta)

lemma getn_canonical:
  assumes "distinct (dkeys d)"
  shows "getn (canonical_dict d) k = canon Encoder (getn d k)"
proof -
  have "dget (canonical_dict d) k = map_option (canon Encoder) (dget d k)"
    unfolding canonical_dict_def by (simp add: map_of_map dget_sort_by [OF assms])
  then show ?thesis by (simp add: getn_def split: option.splits)
qed

lemma exact_keys_canonical: "exact_keys (canonical_dict d) ks = exact_keys d ks"
  using dkeys_canonical [of d] by (simp add: exact_keys_def)

lemma decode_encode:
  assumes "encode frepr (VDict d) = Inr data" "wf_val (VDict d)" "floats_ok frepr (VDict d)"
    and "length data \<le> MAXIMUM_ENVELOPE_BYTES"
  shows "decode frepr data = Inr (canonical_dict d)"
proof -
  have "json_loads data = Inr (VDict (canonical_dict d))"
    using canonical_reads_back [OF assms(1) [unfolded encode_def] assms(2,3)] canon_VDict
    by (simp add: order_of_def)
  moreover have "encode frepr (VDict (canonical_dict d)) = Inr data"
    using assms(1) write_json_canon [of frepr Encoder False "VDict d"]
    unfolding encode_def canonical_json_def canon_VDict by simp
  ultimately show ?thesis using assms(4) by (simp add: decode_def)
qed

text \<open>Bodies hold text, integers and dictionaries of them.\<close>

fun plain :: "pyval \<Rightarrow> bool" and plain_items :: "(string \<times> pyval) list \<Rightarrow> bool" where
  "plain (VStr s) = True"
| "plain (VInt i) = True"
| "plain (VDict d) = (distinct (map fst d) \<and> plain_items d)"
| "plain _ = False"
| "plain_items [] = True"
| "plain_items ((k, v) # d) = (plain v \<and> plain_items d)"

lemma plain_ok: "plain v \<Longrightarrow> wf_val v \<and> floats_ok frepr v" "plain_items d \<Longrightarrow> wf_items d \<and> floats_ok_items frepr d"
  by (induction v and d rule: plain_plain_items.induct) auto

lemma length_quote: "length s \<le> length (json_quote esc s)"
proof -
  have "1 \<le> length (escape_char esc c)" for c
  proof (cases "dget ESCAPES c")
    case (Some e)
    then have "e \<noteq> []" using map_of_SomeD [OF Some] by (auto simp: ESCAPES_def)
    then show ?thesis using Some by (simp add: escape_char_def Suc_le_eq)
  qed (simp add: escape_char_def Let_def)
  then have step: "length s \<le> n \<Longrightarrow> Suc (length s) \<le> length (escape_char esc c) + n" for c n and s :: string
    by (metis add_mono plus_1_eq_Suc)
  have "length s \<le> length (concat (map (escape_char esc) s))" for s
    by (induction s) (use step in auto)
  then show ?thesis by (simp add: json_quote_def le_SucI)
qed

lemma open_envelope_envelope:
  assumes "envelope frepr name (VDict d) = Inr frame" "plain (VDict d)" "name \<in> set AUTH_COMMANDS"
    and "length frame \<le> MAXIMUM_ENVELOPE_BYTES"
  shows "open_envelope frepr frame = Inr (name, canonical_dict d)"
proof -
  obtain data body where e: "encode frepr (VDict d) = Inr data" "decode_utf8 data = Inr body"
    and f: "encode frepr (VDict [(''&string'', VStr body), (''cid'', VInt 0), (''cmd'', VStr name)]) = Inr frame"
    using assms(1) by (auto simp: envelope_def rbind_Inr_iff)
  let ?c = "[(''&string'', VStr body), (''cid'', VInt 0), (''cmd'', VStr name)]"
  have sorted: "sort_by (item_less Encoder) ?c = ?c"
    by (simp add: sort_by_def item_less_def)
  obtain w where w: "write_json frepr Encoder False (VDict ?c) = Inr w" "length frame = length w"
    using f by (auto simp: encode_def canonical_json_def rbind_Inr_iff split: if_splits)
  have "length (json_quote False body) \<le> length w"
    using w(1) by (auto simp: write_json.simps sorted)
  then have "length body \<le> length frame"
    using w(2) length_quote [of body False] by simp
  then have inner: "decode frepr (encode_utf8 body) = Inr (canonical_dict d)"
    using decode_encode [OF e(1)] plain_ok(1) [OF assms(2)] encode_decode_utf8 [OF e(2)] assms(4) by auto
  have "decode frepr frame = Inr (canonical_dict ?c)"
    by (rule decode_encode [OF f _ _ assms(4)]) simp_all
  then have outer: "decode frepr frame = Inr ?c" by (simp add: canonical_dict_def sorted)
  show ?thesis using assms(3)
    by (simp add: open_envelope_def outer inner exact_keys_def getn_def)
qed

subsection \<open>Transcripts are read back\<close>

definition text_endpoint :: "endpoint \<Rightarrow> bool" where
  "text_endpoint e \<longleftrightarrow> is_str (origin e) \<and> is_str (route e) \<and> is_str (domain e)"

definition transcript_ok :: "transcript \<Rightarrow> bool" where
  "transcript_ok t \<longleftrightarrow> identity_validate (identity_of t) = Inr () \<and> text_endpoint (endpoint_of t)
     \<and> list_all is_str [session_id t, generation t, profile t, direction t]"

lemma is_str_iff: "is_str v \<longleftrightarrow> (\<exists>s. v = VStr s)"
  by (cases v) auto

lemma canon_str [simp]: "is_str v \<Longrightarrow> canon Encoder v = v"
  by (cases v) auto

lemma identity_read:
  assumes "identity_validate p = Inr ()"
  shows "identity_from_json (canon Encoder (identity_json p)) = Inr p"
proof -
  have "distinct (dkeys [(''uuid'', VStr (uuid p)), (''algorithm'', VStr (algorithm p)),
     (''curve'', VStr (curve p)), (''publicKey'', VStr (b64encode (public_key p)))])" by simp
  note get = getn_canonical [OF this]
  show ?thesis
    unfolding identity_json_def canon_VDict identity_from_json_def
    using assms
    by (simp only: pyval.case exact_keys_canonical get, cases p)
      (simp add: exact_keys_def getn_def unb64_text_def b64decode_encode Let_def)
qed

lemma endpoint_read:
  assumes "text_endpoint e"
  shows "endpoint_from_json (canon Encoder (endpoint_json e)) = Inr e"
proof -
  have "distinct (dkeys [(''origin'', origin e), (''route'', route e), (''domain'', domain e)])" by simp
  note get = getn_canonical [OF this]
  show ?thesis
    unfolding endpoint_json_def canon_VDict endpoint_from_json_def
    using assms unfolding text_endpoint_def
    by (simp only: pyval.case exact_keys_canonical get) (simp add: exact_keys_def getn_def)
qed

lemma transcript_read:
  assumes "transcript_ok t"
  shows "transcript_from_json (canon Encoder (transcript_json t)) = Inr t"
proof -
  have "distinct (dkeys [(''profile'', profile t), (''endpoint'', endpoint_json (endpoint_of t)),
     (''identity'', identity_json (identity_of t)), (''clientNonce'', VStr (b64encode (client_nonce t))),
     (''serverNonce'', VStr (b64encode (server_nonce t))), (''sessionID'', session_id t), (''generation'', generation t),
     (''direction'', direction t), (''issuedAtMilliseconds'', VInt (issued_at_ms t)),
     (''channelExpiresAtMilliseconds'', VInt (channel_expires_at_ms t))])" by simp
  note get = getn_canonical [OF this]
  show ?thesis
    unfolding transcript_json_def canon_VDict transcript_from_json_def
    using assms unfolding transcript_ok_def
    by (simp only: pyval.case exact_keys_canonical get)
      (simp add: exact_keys_def TRANSCRIPT_KEYS_def getn_def unb64_text_def b64decode_encode int_text_def
        identity_read endpoint_read)
qed

lemma plain_transcript: "transcript_ok t \<Longrightarrow> plain (transcript_json t)"
  by (auto simp: transcript_ok_def transcript_json_def endpoint_json_def identity_json_def text_endpoint_def is_str_iff)

text \<open>
  The encoding of a transcript determines it: the bytes whose digest the challenge binds are read
  back as exactly the transcript, so two transcripts with the same encoding are the same.
\<close>

lemma transcript_bytes_determine:
  assumes "transcript_ok t" "encode frepr (transcript_json t) = Inr data" "length data \<le> MAXIMUM_ENVELOPE_BYTES"
    and "transcript_ok t'" "encode frepr (transcript_json t') = Inr data"
  shows "rbind (decode frepr data) (\<lambda>d. transcript_from_json (VDict d)) = Inr t \<and> t' = t"
proof -
  have r: "rbind (decode frepr data) (\<lambda>d. transcript_from_json (VDict d)) = Inr u"
    if "transcript_ok u" "encode frepr (transcript_json u) = Inr data" for u
  proof -
    obtain d where d: "transcript_json u = VDict d" by (simp add: transcript_json_def)
    have "decode frepr data = Inr (canonical_dict d)"
      using decode_encode [OF that(2) [unfolded d] _ _ assms(3)] plain_ok(1) [OF plain_transcript [OF that(1)], of frepr] d
      by simp
    then show ?thesis using transcript_read [OF that(1)] unfolding d canon_VDict by simp
  qed
  from r [OF assms(1,2)] r [OF assms(4,5)] show ?thesis by simp
qed

subsection \<open>The challenge is valid\<close>

lemma round_close:
  assumes "\<bar>q\<bar> \<le> 9100000000000"
  shows "\<bar>round_double q - q\<bar> \<le> 1 / 900"
proof -
  have "\<bar>round_double q - q\<bar> \<le> (\<bar>q\<bar> + 1) / 2 ^ 53" by (rule round_double_close)
  also have "\<dots> \<le> 9100000000001 / 2 ^ 53" using assms by (simp add: divide_right_mono)
  also have "\<dots> \<le> 1 / 900" by simp
  finally show ?thesis .
qed

lemma ms_seconds_close: "0 \<le> m \<Longrightarrow> m < 9000000000000000 \<Longrightarrow> \<bar>ms_seconds m - of_int m / 1000\<bar> \<le> 1 / 900"
proof -
  assume m: "0 \<le> m" "m < 9000000000000000"
  have "(of_int m :: rat) < of_int 9000000000000000" using m(2) by (simp only: of_int_less_iff)
  then have "\<bar>of_int m / 1000 :: rat\<bar> \<le> 9100000000000" using m(1) by simp
  from round_close [OF this] show ?thesis by (simp add: ms_seconds_def)
qed

lemma signed_times_close:
  assumes "0 < issued_at_ms t" "issued_at_ms t < 9000000000000000"
  shows "\<bar>fst (signed_times t) - of_int (issued_at_ms t) / 1000\<bar> \<le> 1 / 200
    \<and> \<bar>snd (signed_times t) - (of_int (issued_at_ms t) / 1000 + 30)\<bar> \<le> 1 / 200"
proof -
  define q :: rat where "q = of_int (issued_at_ms t) / 1000"
  define a where "a = ms_seconds (issued_at_ms t)"
  define b where "b = round_double (a - REFERENCE_DATE_OFFSET)"
  have "(of_int (issued_at_ms t) :: rat) < of_int 9000000000000000" using assms(2) by (simp only: of_int_less_iff)
  then have q: "0 < q" "q < 9000000000000" using assms(1) by (simp_all add: q_def)
  have a: "\<bar>a - q\<bar> \<le> 1 / 900" using ms_seconds_close [of "issued_at_ms t"] assms by (simp add: a_def q_def)
  have b: "\<bar>b - (a - 978307200)\<bar> \<le> 1 / 900"
    unfolding b_def REFERENCE_DATE_OFFSET_def by (rule round_close) (use a q in linarith)
  have c: "\<bar>round_double (b + 978307200) - (b + 978307200)\<bar> \<le> 1 / 900" by (rule round_close) (use a b q in linarith)
  have d: "\<bar>round_double (b + 30) - (b + 30)\<bar> \<le> 1 / 900" by (rule round_close) (use a b q in linarith)
  have e: "\<bar>round_double (round_double (b + 30) + 978307200) - (round_double (b + 30) + 978307200)\<bar> \<le> 1 / 900"
    by (rule round_close) (use a b d q in linarith)
  have s: "fst (signed_times t) = round_double (b + 978307200)"
    "snd (signed_times t) = round_double (round_double (b + 30) + 978307200)"
    by (simp_all add: signed_times_def Let_def b_def a_def REFERENCE_DATE_OFFSET_def CHALLENGE_LIFETIME_def)
  show ?thesis unfolding s q_def [symmetric] using a b c d e by linarith
qed

text \<open>A number as the reader of the canonical text sees it.\<close>

definition reads_number :: "pyval \<Rightarrow> rat \<Rightarrow> bool" where
  "reads_number v q \<longleftrightarrow> v = VFloat (Fin q) \<or> (\<exists>i. v = VInt i \<and> of_int i = q \<and> \<bar>q\<bar> < 2 ^ 53)"

lemma canon_reads_number: "reads_number (canon Encoder (VFloat (Fin q))) q"
  by (auto simp: reads_number_def small_whole_def)

lemma reads_number_facts:
  assumes "reads_number v q"
  shows "is_number v" "v \<noteq> VNull" "num_val v = Some (Fin q)" "is_number v = True"
  using assms by (auto simp: reads_number_def)

lemma small_float_int: "\<bar>of_int i :: rat\<bar> < 2 ^ 53 \<Longrightarrow> \<bar>i\<bar> < MAX_FLOAT_INT"
proof -
  assume "\<bar>of_int i :: rat\<bar> < 2 ^ 53"
  then have "of_int \<bar>i\<bar> < (of_int (2 ^ 53) :: rat)" by simp
  then have "\<bar>i\<bar> < 2 ^ 53" by (simp only: of_int_less_iff)
  also have "\<dots> \<le> MAX_FLOAT_INT" by (simp add: MAX_FLOAT_INT_def)
  finally show ?thesis .
qed

lemma reads_number_minus: "reads_number v q \<Longrightarrow> reads_number w r \<Longrightarrow> py_minus v w = Inr (Fin (q - r))"
  by (auto simp: reads_number_def small_float_int)

definition challenge_object :: "transcript \<Rightarrow> string \<Rightarrow> string \<Rightarrow> string \<Rightarrow> instance" where
  "challenge_object t key bound au = Instance IdentitySigningChallenge
     [(''type'', FVal (VStr CHALLENGE_TYPE)), (''version'', FVal (VInt 1)), (''purpose'', FVal (VStr CHALLENGE_PURPOSE)),
      (''identity_uuid'', FVal (VStr (uuid (identity_of t)))), (''public_key_fingerprint'', FVal (VStr key)),
      (''domain'', FVal (domain (endpoint_of t))), (''resource'', FVal (VStr (PROFILE @ '':'' @ bound))),
      (''action'', FVal (VStr ACTION)), (''audience'', FVal (VStr au)), (''nonce'', FVal (VBytes (server_nonce t))),
      (''issued_at'', FVal (canon Encoder (VFloat (Fin (fst (signed_times t)))))),
      (''expires_at'', FVal (canon Encoder (VFloat (Fin (snd (signed_times t))))))]"

lemma challenge_read:
  assumes "is_str (domain (endpoint_of t))"
  shows "from_wire IdentitySigningChallenge (VDict (canonical_dict (challenge_wire t bound au))) =
    Inr (challenge_object t (algorithm (identity_of t) @ '':'' @ curve (identity_of t) @ '':''
       @ b64encode (public_key (identity_of t))) bound au)"
proof -
  have "distinct (dkeys (challenge_wire t bound au))" by (simp add: challenge_wire_def)
  note get = getn_canonical [OF this]
  define iv where "iv = canon Encoder (VFloat (Fin (fst (signed_times t))))"
  define ev where "ev = canon Encoder (VFloat (Fin (snd (signed_times t))))"
  obtain dmn where dmn: "domain (endpoint_of t) = VStr dmn" using assms by (auto simp: is_str_iff)
  have v: "iv \<noteq> VNull" "ev \<noteq> VNull" "is_number iv" "is_number ev"
    using reads_number_facts [OF canon_reads_number] unfolding iv_def ev_def by blast+
  let ?d = "canonical_dict (challenge_wire t bound au)"
  have G: "getn ?d ''type'' = VStr CHALLENGE_TYPE" "getn ?d ''version'' = VInt 1" "getn ?d ''purpose'' = VStr CHALLENGE_PURPOSE"
    "getn ?d ''identityUUID'' = VStr (uuid (identity_of t))"
    "getn ?d ''publicKeyFingerprint'' = VStr (algorithm (identity_of t) @ '':'' @ curve (identity_of t) @ '':''
       @ b64encode (public_key (identity_of t)))"
    "getn ?d ''domain'' = VStr dmn" "getn ?d ''resource'' = VStr (PROFILE @ '':'' @ bound)"
    "getn ?d ''action'' = VStr ACTION" "getn ?d ''audience'' = VStr au" "getn ?d ''nonce'' = VStr (b64encode (server_nonce t))"
    "getn ?d ''issuedAt'' = iv" "getn ?d ''expiresAt'' = ev"
    unfolding get iv_def ev_def by (simp_all add: challenge_wire_def getn_def dmn del: canon.simps(1))
  show ?thesis
    unfolding IdentitySigningChallenge_def need_def opt_def challenge_object_def iv_def [symmetric] ev_def [symmetric] dmn
    by (simp add: G v unb64_def b64decode_encode)
qed

text \<open>The texts of an endpoint and an identity that Swift's scope limits accept.\<close>

definition scope_ok :: "transcript \<Rightarrow> string \<Rightarrow> string \<Rightarrow> bool" where
  "scope_ok t au dmn \<longleftrightarrow> audience (endpoint_of t) = Inr au \<and> domain (endpoint_of t) = VStr dmn
     \<and> (\<forall>s \<in> set [au, dmn]. py_strip s \<noteq> [] \<and> py_len s \<le> MAXIMUM_SCOPE_CHARACTERS)"

lemma b64_chars: "c \<in> set (b64encode bs) \<Longrightarrow> c \<in> set (CHR ''='' # b64_alphabet)"
proof -
  have n: "n < 64 \<Longrightarrow> sextet_char n \<in> set b64_alphabet" for n
    using char_sextet_sextet [of n] by (auto simp: char_sextet_def split: if_splits)
  have "\<forall>c \<in> set (b64encode bs). c \<in> set (CHR ''='' # b64_alphabet)"
  proof (induction bs rule: b64encode.induct)
    case (2 a)
    show ?case using group1 [of "unat a"] n by (simp add: Let_def)
  next
    case (3 a b)
    define k where "k = (unat a * 256 + unat b) * 4"
    have "k div 4096 < 64" using group2 [OF _ _ k_def] by simp
    then show ?case using n unfolding b64encode.simps Let_def k_def [symmetric] by simp
  next
    case (4 a b c rest)
    define k where "k = (unat a * 256 + unat b) * 256 + unat c"
    have "k div 262144 < 64" using group3 [OF _ _ _ k_def] by simp
    then show ?case using 4 n unfolding b64encode.simps Let_def k_def [symmetric] by simp
  qed simp
  then show "c \<in> set (b64encode bs) \<Longrightarrow> c \<in> set (CHR ''='' # b64_alphabet)" by blast
qed

lemma b64_solid: "c \<in> set (b64encode bs) \<Longrightarrow> solid c"
proof -
  have "list_all (\<lambda>c. solid c) (CHR ''='' # b64_alphabet)" by code_simp
  then show "c \<in> set (b64encode bs) \<Longrightarrow> solid c" using b64_chars by (auto simp: list_all_iff)
qed

lemma fingerprint_stripped: "py_strip (''EdDSA:Curve25519:'' @ b64encode key) = ''EdDSA:Curve25519:'' @ b64encode key"
proof (rule py_strip_id)
  have "solid (CHR '':'')" "solid (CHR ''E'')" by code_simp+
  then show "solid (last (''EdDSA:Curve25519:'' @ b64encode key))" "solid (hd (''EdDSA:Curve25519:'' @ b64encode key))"
    using b64_solid [of "last (b64encode key)" key] by (cases "b64encode key = []"; simp)+
qed simp

lemma identity_validate_Inr:
  "identity_validate p = Inr () \<longleftrightarrow> uuid p \<noteq> [] \<and> length (uuid p) \<le> 512 \<and> algorithm p = ''EdDSA''
     \<and> curve p = ''Curve25519'' \<and> length (public_key p) = 32"
  by (auto simp: identity_validate_def)

lemma resource_scope: "py_strip (PROFILE @ '':'' @ hexdigest m) \<noteq> [] \<and> py_len (PROFILE @ '':'' @ hexdigest m) \<le> 512"
  "py_strip ACTION \<noteq> [] \<and> py_len ACTION \<le> 512"
proof -
  have "length (PROFILE @ '':'' @ hexdigest m) \<le> 512" by (simp add: PROFILE_def hexdigest_length)
  then have "py_len (PROFILE @ '':'' @ hexdigest m) \<le> 512" using py_len_le order_trans by blast
  moreover have "py_strip (PROFILE @ '':'' @ hexdigest m) \<noteq> []"
    by (rule py_strip_nonempty) (simp_all add: PROFILE_def solid_def is_space_def)
  ultimately show "py_strip (PROFILE @ '':'' @ hexdigest m) \<noteq> [] \<and> py_len (PROFILE @ '':'' @ hexdigest m) \<le> 512" by blast
  show "py_strip ACTION \<noteq> [] \<and> py_len ACTION \<le> 512" by code_simp
qed

lemma challenge_attrs:
  "attr (challenge_object t key bound au) ''type'' = text_val CHALLENGE_TYPE"
  "attr (challenge_object t key bound au) ''version'' = Inr (FVal (VInt 1))"
  "attr (challenge_object t key bound au) ''purpose'' = text_val CHALLENGE_PURPOSE"
  "attr (challenge_object t key bound au) ''identity_uuid'' = text_val (uuid (identity_of t))"
  "attr (challenge_object t key bound au) ''public_key_fingerprint'' = text_val key"
  "attr (challenge_object t key bound au) ''domain'' = Inr (FVal (domain (endpoint_of t)))"
  "attr (challenge_object t key bound au) ''resource'' = text_val (PROFILE @ '':'' @ bound)"
  "attr (challenge_object t key bound au) ''action'' = text_val ACTION"
  "attr (challenge_object t key bound au) ''audience'' = text_val au"
  "attr (challenge_object t key bound au) ''nonce'' = Inr (FVal (VBytes (server_nonce t)))"
  "attr (challenge_object t key bound au) ''issued_at'' = Inr (FVal (canon Encoder (VFloat (Fin (fst (signed_times t))))))"
  "attr (challenge_object t key bound au) ''expires_at'' = Inr (FVal (canon Encoder (VFloat (Fin (snd (signed_times t))))))"
  by (simp_all add: challenge_object_def attr_def del: canon.simps(1))

lemma challenge_is_valid:
  assumes t: "identity_validate (identity_of t) = Inr ()" "scope_ok t au dmn" "length (server_nonce t) = 32"
    and ms: "0 < issued_at_ms t" "issued_at_ms t < 9000000000000000"
    and data: "signing_data frepr t = Inr data" "length data \<le> 8192"
    and floats: "floats_ok frepr (VFloat (Fin (fst (signed_times t))))" "floats_ok frepr (VFloat (Fin (snd (signed_times t))))"
    and now: "of_int (issued_at_ms t) / 1000 \<le> moment + 299" "moment \<le> of_int (issued_at_ms t) / 1000 + 29"
  shows "\<exists>ch. validate_signing_challenge data (identity_descriptor (identity_of t)) moment = Inr ch"
proof -
  let ?p = "identity_of t"
  define key where "key = ''EdDSA:Curve25519:'' @ b64encode (public_key ?p)"
  obtain bound where bound: "transcript_digest frepr t = Inr bound" using signing_data_digest [OF data(1)] by blast
  then obtain m where m: "bound = hexdigest m" by (auto simp: transcript_digest_def rbind_Inr_iff)
  have s: "audience (endpoint_of t) = Inr au" "domain (endpoint_of t) = VStr dmn"
    "py_strip au \<noteq> []" "py_len au \<le> 512" "py_strip dmn \<noteq> []" "py_len dmn \<le> 512"
    using t(2) by (simp_all add: scope_ok_def MAXIMUM_SCOPE_CHARACTERS_def)
  have j: "canonical_json frepr (VDict (challenge_wire t bound au)) ''encoder'' True = Inr data"
    using data(1) bound s(1,2) by (simp add: signing_data_eq)
  have ok: "wf_val (VDict (challenge_wire t bound au))" "floats_ok frepr (VDict (challenge_wire t bound au))"
    using floats s(2) by (simp_all add: challenge_wire_def del: floats_ok.simps(1))
  have p: "algorithm ?p = ''EdDSA''" "curve ?p = ''Curve25519''" using t(1) by (simp_all add: identity_validate_Inr)
  define ch where "ch = challenge_object t key bound au"
  have read: "rbind (json_loads data) (from_wire IdentitySigningChallenge) = Inr ch"
  proof -
    have "json_loads data = Inr (VDict (canonical_dict (challenge_wire t bound au)))"
      using canonical_reads_back [OF j ok] unfolding canon_VDict [symmetric] by (simp add: order_of_def)
    then show ?thesis using challenge_read [of t bound au] s(2) p by (simp add: ch_def key_def)
  qed
  have fp: "fingerprint (identity_descriptor ?p) = Inr key"
    using fingerprint_identity [of ?p] p by (simp add: identity_fingerprint_def key_def)
  have strip: "py_strip key = key" "key \<noteq> []" unfolding key_def by (rule fingerprint_stripped) simp
  have uuid: "attr (identity_descriptor ?p) ''uuid'' = text_val (uuid ?p)" by (simp add: identity_descriptor_def attr_def)
  note a = challenge_attrs [where t = t and key = key and bound = bound and au = au, folded ch_def]
  define iv where "iv = canon Encoder (VFloat (Fin (fst (signed_times t))))"
  define ev where "ev = canon Encoder (VFloat (Fin (snd (signed_times t))))"
  have iv: "reads_number iv (fst (signed_times t))" "reads_number ev (snd (signed_times t))"
    unfolding iv_def ev_def by (rule canon_reads_number)+
  have num: "number_at ch ''issued_at'' = Inr (iv, Fin (fst (signed_times t)))"
    "number_at ch ''expires_at'' = Inr (ev, Fin (snd (signed_times t)))"
    using reads_number_facts(3) [OF iv(1)] reads_number_facts(3) [OF iv(2)]
    using a(11,12) unfolding iv_def [symmetric] ev_def [symmetric] by (simp_all add: number_at_def)
  have minus: "py_minus ev iv = Inr (Fin (snd (signed_times t) - fst (signed_times t)))"
    by (rule reads_number_minus [OF iv(2,1)])
  have scope: "scope_of ch = Inr [dmn, PROFILE @ '':'' @ bound, ACTION, au]"
    by (simp add: scope_of_def str_at_def a s(2))
  have all: "\<forall>x \<in> set [dmn, PROFILE @ '':'' @ bound, ACTION, au]. py_strip x \<noteq> []"
    "\<forall>x \<in> set [dmn, PROFILE @ '':'' @ bound, ACTION, au]. py_len x \<le> 512"
    using s resource_scope(1) [of m] resource_scope(2) unfolding m by simp_all
  have times: "fst (signed_times t) \<le> snd (signed_times t)" "snd (signed_times t) - fst (signed_times t) \<le> 60"
    "fst (signed_times t) \<le> moment + 300" "moment \<le> snd (signed_times t)"
    using signed_times_close [OF ms] now by linarith+
  have checks: "validate_signing_challenge data (identity_descriptor ?p) moment = Inr ch"
    unfolding validate_signing_challenge_def read
    using data(2) all times t(3)
    by (simp add: limits checks.simps check_def a same_def feq_int uuid str_at_def bytes_at_def strip fp scope num minus)
  then show ?thesis ..
qed

subsection \<open>The bodies are read back\<close>

lemma read_hello_body:
  assumes "identity_validate p = Inr ()" "length nonce = 32" "hello_body p nonce = VDict d"
  shows "read_hello (canonical_dict d) = Inr (p, nonce)"
proof -
  have d: "d = [(''profile'', VStr PROFILE), (''identity'', identity_json p), (''clientNonce'', VStr (b64encode nonce))]"
    using assms(3) by (simp add: hello_body_def)
  then have "distinct (dkeys d)" by simp
  note get = getn_canonical [OF this]
  show ?thesis
    unfolding read_hello_def exact_keys_canonical get
    using assms(1,2) by (simp add: d exact_keys_def getn_def identity_read unb64_text_def b64decode_encode)
qed

lemma read_challenge_body:
  assumes "transcript_ok t" "challenge_body t data = VDict d"
  shows "read_challenge (canonical_dict d) = Inr (t, data)"
proof -
  have d: "d = [(''transcript'', transcript_json t), (''signingData'', VStr (b64encode data))]"
    using assms(2) by (simp add: challenge_body_def)
  then have "distinct (dkeys d)" by simp
  note get = getn_canonical [OF this]
  show ?thesis
    unfolding read_challenge_def exact_keys_canonical get
    using transcript_read [OF assms(1)] by (simp add: d exact_keys_def getn_def unb64_text_def b64decode_encode)
qed

lemma read_proof_body:
  assumes "is_str sid" "is_str gen" "proof_body sid gen signature = VDict d"
  shows "read_proof (canonical_dict d) = Inr signature" "getn (canonical_dict d) ''sessionID'' = sid"
    "getn (canonical_dict d) ''generation'' = gen"
proof -
  have d: "d = [(''sessionID'', sid), (''generation'', gen), (''signature'', VStr (b64encode signature))]"
    using assms(3) by (simp add: proof_body_def)
  then have "distinct (dkeys d)" by simp
  note get = getn_canonical [OF this]
  show "read_proof (canonical_dict d) = Inr signature" "getn (canonical_dict d) ''sessionID'' = sid"
    "getn (canonical_dict d) ''generation'' = gen"
    unfolding read_proof_def exact_keys_canonical get
    using assms(1,2) by (simp_all add: d exact_keys_def getn_def unb64_text_def b64decode_encode)
qed

lemma read_accepted_body:
  assumes "is_str (session_id t)" "is_str (generation t)" "accepted_body t bound = VDict d"
  shows "exact_keys (canonical_dict d) [''sessionID'', ''generation'', ''transcriptDigest''] = Inr ()"
    "getn (canonical_dict d) ''sessionID'' = session_id t" "getn (canonical_dict d) ''generation'' = generation t"
    "getn (canonical_dict d) ''transcriptDigest'' = VStr bound"
proof -
  have d: "d = [(''sessionID'', session_id t), (''generation'', generation t), (''transcriptDigest'', VStr bound)]"
    using assms(3) by (simp add: accepted_body_def)
  then have "distinct (dkeys d)" by simp
  note get = getn_canonical [OF this]
  show "exact_keys (canonical_dict d) [''sessionID'', ''generation'', ''transcriptDigest''] = Inr ()"
    "getn (canonical_dict d) ''sessionID'' = session_id t" "getn (canonical_dict d) ''generation'' = generation t"
    "getn (canonical_dict d) ''transcriptDigest'' = VStr bound"
    unfolding exact_keys_canonical get using assms(1,2) by (simp_all add: d exact_keys_def getn_def)
qed

lemma plain_bodies:
  "plain (hello_body p nonce)" "transcript_ok t \<Longrightarrow> plain (challenge_body t data)"
  "is_str sid \<Longrightarrow> is_str gen \<Longrightarrow> plain (proof_body sid gen signature)"
  "is_str (session_id t) \<Longrightarrow> is_str (generation t) \<Longrightarrow> plain (accepted_body t bound)"
  using plain_transcript
  by (auto simp: hello_body_def identity_json_def challenge_body_def proof_body_def accepted_body_def is_str_iff)

subsection \<open>The run\<close>

text \<open>A message that can be encoded within the limit of a frame.\<close>

definition fits :: "(rat \<Rightarrow> string) \<Rightarrow> string \<Rightarrow> pyval \<Rightarrow> bool" where
  "fits frepr name body \<longleftrightarrow>
     (\<exists>frame. envelope frepr name body = Inr frame \<and> length frame \<le> MAXIMUM_ENVELOPE_BYTES)"

lemma fits_opens:
  assumes "fits frepr name body" "plain body" "name \<in> set AUTH_COMMANDS" "body = VDict d"
  obtains frame where "envelope frepr name body = Inr frame" "open_envelope frepr frame = Inr (name, canonical_dict d)"
  using assms open_envelope_envelope by (auto simp: fits_def)

definition issued_transcript :: "endpoint \<Rightarrow> string \<Rightarrow> public_identity \<Rightarrow> bytes \<Rightarrow> outside \<Rightarrow> transcript" where
  "issued_transcript e gen p nonce out =
     \<lparr>endpoint_of = e, identity_of = p, client_nonce = nonce, server_nonce = random_32 out,
      session_id = VStr (new_uuid out), generation = VStr gen, issued_at_ms = ms (wall_first out),
      channel_expires_at_ms = ms (wall_first out) + 300000, profile = VStr PROFILE, direction = VStr DIRECTION\<rparr>"

text \<open>A wall clock reading within four seconds before and 28 seconds after the issue.\<close>

definition on_time :: "int \<Rightarrow> rat \<Rightarrow> bool" where
  "on_time start w \<longleftrightarrow> of_int start / 1000 - 4 \<le> w \<and> w \<le> of_int start / 1000 + 28"

lemma ms_close:
  assumes "0 \<le> w" "w < 9000000000000"
  shows "w * 1000 - 3 \<le> of_int (ms w)" "of_int (ms w) \<le> w * 1000 + 2"
proof -
  have "\<bar>round_double (w * 1000) - w * 1000\<bar> \<le> (\<bar>w * 1000\<bar> + 1) / 2 ^ 53" by (rule round_double_close)
  also have "\<dots> \<le> 9000000000000001 / 2 ^ 53" using assms by (simp add: divide_right_mono)
  also have "\<dots> \<le> 1" by simp
  finally have r: "\<bar>round_double (w * 1000) - w * 1000\<bar> \<le> 1" .
  have "of_int (ms w) \<le> round_double (w * 1000)" "round_double (w * 1000) < of_int (ms w) + 1"
    unfolding ms_def by linarith+
  then show "w * 1000 - 3 \<le> of_int (ms w)" "of_int (ms w) \<le> w * 1000 + 2" using r by linarith+
qed

text \<open>
  One attempt: the endpoint, the client's identity with its key, the server's policy and generation,
  the client's nonce, when the two started, and what the five calls read of the outside.
\<close>

record attempt =
  at_endpoint :: endpoint
  at_identity :: public_identity
  at_key :: bytes
  at_policy :: "(public_identity \<Rightarrow> bool) option"
  at_generation :: string
  at_nonce :: bytes
  at_server_start :: rat
  at_client_start :: rat
  at_hello :: outside
  at_challenge :: outside
  at_sign :: outside
  at_proof :: outside
  at_accept :: outside

definition at_transcript :: "attempt \<Rightarrow> transcript" where
  "at_transcript h = issued_transcript (at_endpoint h) (at_generation h) (at_identity h) (at_nonce h) (at_hello h)"

definition at_server :: "attempt \<Rightarrow> server" where
  "at_server h = new_server (at_endpoint h) (at_policy h) (at_generation h) (at_server_start h)"

definition at_client :: "attempt \<Rightarrow> client" where
  "at_client h = \<lparr>cl_identity = at_identity h, cl_endpoint = at_endpoint h,
     cl_deadline = round_double (at_client_start h + PRE_AUTH_DEADLINE), cl_nonce = at_nonce h, cl_state = New,
     cl_transcript = None, cl_offered = None, cl_admitted = None\<rparr>"

text \<open>Keys, identity, policy and texts are in order, and the nonces have 32 bytes.\<close>

definition well_set :: "crypto \<Rightarrow> attempt \<Rightarrow> string \<Rightarrow> string \<Rightarrow> bool" where
  "well_set cr h au dmn \<longleftrightarrow>
     crypto_ok cr \<and> ed_public cr (at_key h) = public_key (at_identity h) \<and> (\<forall>x. length (ed_sign cr (at_key h) x) = 64)
     \<and> identity_validate (at_identity h) = Inr () \<and> (\<forall>passes. at_policy h = Some passes \<longrightarrow> passes (at_identity h))
     \<and> text_endpoint (at_endpoint h) \<and> scope_ok (at_transcript h) au dmn
     \<and> is_uuid (VStr (new_uuid (at_hello h))) \<and> is_uuid (VStr (at_generation h))
     \<and> length (at_nonce h) = 32 \<and> length (random_32 (at_hello h)) = 32"

text \<open>Both deadlines are kept, and the wall clocks agree within a few seconds.\<close>

definition well_timed :: "attempt \<Rightarrow> bool" where
  "well_timed h \<longleftrightarrow>
     (let start = ms (wall_first (at_hello h)) in
        5000 < start \<and> start < 8000000000000000
        \<and> list_all (\<lambda>out. on_time start (wall_first out) \<and> on_time start (wall_last out))
            [at_challenge h, at_sign h, at_proof h, at_accept h])
     \<and> list_all (\<lambda>out. mono_first out < srv_deadline (at_server h) \<and> mono_last out < srv_deadline (at_server h))
         [at_hello h, at_proof h]
     \<and> list_all (\<lambda>out. mono_first out < cl_deadline (at_client h)) [at_challenge h, at_sign h, at_accept h]"

text \<open>The four messages and the challenge fit their limits; \<open>repr\<close> writes the two times as numbers.\<close>

definition well_sized :: "crypto \<Rightarrow> (rat \<Rightarrow> string) \<Rightarrow> attempt \<Rightarrow> bytes \<Rightarrow> string \<Rightarrow> bool" where
  "well_sized cr frepr h data bound \<longleftrightarrow>
     (let t = at_transcript h in
        signing_data frepr t = Inr data \<and> length data \<le> MAXIMUM_ENCODED_BYTES \<and> transcript_digest frepr t = Inr bound
        \<and> floats_ok frepr (VFloat (Fin (fst (signed_times t)))) \<and> floats_ok frepr (VFloat (Fin (snd (signed_times t))))
        \<and> fits frepr ''channelAuthHello'' (hello_body (at_identity h) (at_nonce h))
        \<and> fits frepr ''channelAuthChallenge'' (challenge_body t data)
        \<and> fits frepr ''channelAuthProof'' (proof_body (session_id t) (generation t) (ed_sign cr (at_key h) data))
        \<and> fits frepr ''channelAuthAccepted'' (accepted_body t bound))"

lemma at_fields [simp]:
  "endpoint_of (at_transcript h) = at_endpoint h" "identity_of (at_transcript h) = at_identity h"
  "client_nonce (at_transcript h) = at_nonce h" "server_nonce (at_transcript h) = random_32 (at_hello h)"
  "profile (at_transcript h) = VStr PROFILE" "direction (at_transcript h) = VStr DIRECTION"
  "session_id (at_transcript h) = VStr (new_uuid (at_hello h))" "generation (at_transcript h) = VStr (at_generation h)"
  "issued_at_ms (at_transcript h) = ms (wall_first (at_hello h))"
  "channel_expires_at_ms (at_transcript h) = ms (wall_first (at_hello h)) + 300000"
  by (simp_all add: at_transcript_def issued_transcript_def)

lemma at_states [simp]:
  "srv_endpoint (at_server h) = at_endpoint h" "srv_recheck (at_server h) = at_policy h"
  "srv_generation (at_server h) = at_generation h" "srv_state (at_server h) = Unauthenticated"
  "cl_identity (at_client h) = at_identity h" "cl_endpoint (at_client h) = at_endpoint h"
  "cl_nonce (at_client h) = at_nonce h" "cl_state (at_client h) = New" "cl_admitted (at_client h) = None"
  by (simp_all add: at_server_def at_client_def new_server_def)

lemma well_set_transcript: "well_set cr h au dmn \<Longrightarrow> transcript_ok (at_transcript h)"
  by (simp add: well_set_def transcript_ok_def)

lemma well_timed_wall:
  assumes "well_timed h" "out \<in> set [at_challenge h, at_sign h, at_proof h, at_accept h]"
    and "w \<in> {wall_first out, wall_last out}"
  shows "of_int (ms (wall_first (at_hello h))) / 1000 - 4 \<le> w" "w \<le> of_int (ms (wall_first (at_hello h))) / 1000 + 28"
  using assms by (auto simp: well_timed_def Let_def on_time_def)

lemma well_timed_start:
  assumes "well_timed h"
  shows "0 < ms (wall_first (at_hello h))" "ms (wall_first (at_hello h)) + 300000 < 9000000000000000"
    "5 < of_int (ms (wall_first (at_hello h))) / (1000 :: rat)"
    "of_int (ms (wall_first (at_hello h))) / (1000 :: rat) < 8000000000000"
proof -
  let ?i = "ms (wall_first (at_hello h))"
  have i: "5000 < ?i" "?i < 8000000000000000" using assms by (auto simp: well_timed_def Let_def)
  then show "0 < ?i" "?i + 300000 < 9000000000000000" by simp_all
  have "(of_int 5000 :: rat) < of_int ?i" "(of_int ?i :: rat) < of_int 8000000000000000"
    using i by (simp_all only: of_int_less_iff)
  then show "5 < of_int ?i / (1000 :: rat)" "of_int ?i / (1000 :: rat) < 8000000000000" by simp_all
qed

lemma server_challenges:
  assumes h: "well_set cr h au dmn" "well_timed h" "well_sized cr frepr h data bound"
    and f: "open_envelope frepr f1 = Inr (''channelAuthHello'', canonical_dict d)"
      "hello_body (at_identity h) (at_nonce h) = VDict d"
  shows "srv_receive cr frepr (at_hello h) (at_server h) f1 =
    ((at_server h)\<lparr>srv_pending := Some (at_transcript h, data), srv_state := Challenge_Issued\<rparr>,
     envelope frepr ''channelAuthChallenge'' (challenge_body (at_transcript h) data))"
proof -
  have "\<not> srv_deadline (at_server h) \<le> mono_first (at_hello h)" using h(2) by (simp add: well_timed_def)
  moreover have "read_hello (canonical_dict d) = Inr (at_identity h, at_nonce h)"
    using h(1) by (intro read_hello_body [OF _ _ f(2)]) (simp_all add: well_set_def)
  ultimately show ?thesis
    using f(1) h(3)
    by (simp add: srv_receive_def on_hello_def Let_def CHANNEL_LIFETIME_def well_sized_def at_transcript_def issued_transcript_def)
qed

lemma channel_window:
  assumes "0 < i" "i + 300000 < 9000000000000000"
  shows "\<bar>ms_seconds i - of_int i / 1000\<bar> \<le> 1 / 900" "\<bar>ms_seconds (i + 300000) - (of_int i / 1000 + 300)\<bar> \<le> 1 / 900"
    "\<bar>round_double (ms_seconds i + 30) - (of_int i / 1000 + 30)\<bar> \<le> 1 / 450"
proof -
  show i: "\<bar>ms_seconds i - of_int i / 1000\<bar> \<le> 1 / 900" by (rule ms_seconds_close) (use assms in linarith)+
  show "\<bar>ms_seconds (i + 300000) - (of_int i / 1000 + 300)\<bar> \<le> 1 / 900"
    using ms_seconds_close [of "i + 300000"] assms by (simp add: add_divide_distrib)
  have "(of_int i :: rat) < of_int 9000000000000000" "(0 :: rat) < of_int i" using assms by (simp_all only: of_int_less_iff of_int_0_less_iff)
  then have "\<bar>ms_seconds i + 30\<bar> \<le> 9100000000000" using i by linarith
  from round_close [OF this] show "\<bar>round_double (ms_seconds i + 30) - (of_int i / 1000 + 30)\<bar> \<le> 1 / 450"
    using i by linarith
qed

lemma well_set_signature:
  assumes "well_set cr h au dmn"
  shows "verify_signature cr (FVal (VBytes (ed_sign cr (at_key h) data))) data (identity_descriptor (at_identity h)) = Inr True"
proof -
  have "\<forall>sk m. ed_verify cr (ed_public cr sk) (ed_sign cr sk m) m" "ed_public cr (at_key h) = public_key (at_identity h)"
    using assms unfolding well_set_def crypto_ok_def by blast+
  then have "ed_verify cr (public_key (at_identity h)) (ed_sign cr (at_key h) data) data" by metis
  then show ?thesis using assms by (simp add: descriptor_signature well_set_def identity_validate_Inr)
qed

lemma challenge_valid_at:
  assumes h: "well_set cr h au dmn" "well_timed h" "well_sized cr frepr h data bound"
    and m: "of_int (ms (wall_first (at_hello h))) / 1000 - 5 \<le> moment" "moment \<le> of_int (ms (wall_first (at_hello h))) / 1000 + 29"
  shows "\<exists>ch. validate_signing_challenge data (identity_descriptor (at_identity h)) moment = Inr ch"
proof -
  have "\<exists>ch. validate_signing_challenge data (identity_descriptor (identity_of (at_transcript h))) moment = Inr ch"
  proof (rule challenge_is_valid [where au = au and dmn = dmn and frepr = frepr])
    show "floats_ok frepr (VFloat (Fin (fst (signed_times (at_transcript h)))))"
      "floats_ok frepr (VFloat (Fin (snd (signed_times (at_transcript h)))))"
      using h(3) unfolding well_sized_def Let_def by blast+
  qed (use h m well_timed_start [OF h(2)] in \<open>simp_all add: well_set_def well_sized_def Let_def MAXIMUM_ENCODED_BYTES_def\<close>)
  then show ?thesis by simp
qed

lemma client_hands_out:
  assumes h: "well_set cr h au dmn" "well_timed h" "well_sized cr frepr h data bound"
    and f: "open_envelope frepr f2 = Inr (''channelAuthChallenge'', canonical_dict d)"
      "challenge_body (at_transcript h) data = VDict d"
  shows "begin_challenge frepr (at_challenge h) ((at_client h)\<lparr>cl_state := Hello_Sent\<rparr>) f2 =
    ((at_client h)\<lparr>cl_state := Signing, cl_transcript := Some (at_transcript h), cl_offered := Some data\<rparr>, Inr data)"
proof -
  let ?w = "wall_first (at_challenge h)" and ?i = "ms (wall_first (at_hello h))"
  note w = well_timed_wall [OF h(2), of "at_challenge h" ?w] and start = well_timed_start [OF h(2)]
  have w: "of_int ?i / 1000 - 4 \<le> ?w" "?w \<le> of_int ?i / 1000 + 28" using w by simp_all
  have r: "?w * 1000 - 3 \<le> of_int (ms ?w)" "of_int (ms ?w) \<le> ?w * 1000 + 2"
    by (rule ms_close; use w start in linarith)+
  have "(of_int ?i :: rat) \<le> of_int (ms ?w + 4003)" "(of_int (ms ?w) :: rat) \<le> of_int (?i + 28002)"
    using w r by (simp_all add: field_simps)
  then have m: "?i \<le> ms ?w + 4003" "ms ?w \<le> ?i + 28002" by (simp_all only: of_int_le_iff)
  have "(0 :: rat) \<le> of_int (ms ?w)" using w r start by linarith
  then have pos: "0 \<le> ms ?w" by simp
  have now: "\<bar>ms_seconds (ms ?w) - of_int (ms ?w) / 1000\<bar> \<le> 1 / 900"
    by (rule ms_seconds_close [OF pos]) (use m start in linarith)
  have v: "\<exists>ch. validate_signing_challenge data (identity_descriptor (at_identity h)) (ms_seconds (ms ?w)) = Inr ch"
    by (rule challenge_valid_at [OF h]) (use now w r in linarith)+
  have eq: "endpoint_eq (at_endpoint h) (at_endpoint h)"
    using h(1) by (auto simp: well_set_def text_endpoint_def endpoint_eq_def is_str_iff)
  have "challenge_matches frepr ((at_client h)\<lparr>cl_state := Signing\<rparr>) (ms ?w) (at_transcript h) data = Inr True"
    using m start eq h(1,3) by (simp add: challenge_matches_def CHANNEL_LIFETIME_def well_set_def well_sized_def Let_def)
  moreover have "\<not> cl_deadline (at_client h) \<le> mono_first (at_challenge h)" using h(2) by (simp add: well_timed_def)
  ultimately show ?thesis
    using f(1) read_challenge_body [OF well_set_transcript [OF h(1)] f(2)] v
    by (auto simp: begin_challenge_def cl_open_def Let_def)
qed

lemma client_proves:
  assumes h: "well_set cr h au dmn" "well_timed h" "well_sized cr frepr h data bound"
  shows "finish_challenge cr frepr (at_sign h)
      ((at_client h)\<lparr>cl_state := Signing, cl_transcript := Some (at_transcript h), cl_offered := Some data\<rparr>)
      (ed_sign cr (at_key h) data) =
    ((at_client h)\<lparr>cl_state := Proof_Sent, cl_transcript := Some (at_transcript h), cl_offered := None\<rparr>,
     envelope frepr ''channelAuthProof''
       (proof_body (session_id (at_transcript h)) (generation (at_transcript h)) (ed_sign cr (at_key h) data)))"
proof -
  have "\<exists>ch. validate_signing_challenge data (identity_descriptor (at_identity h)) (wall_first (at_sign h)) = Inr ch"
    by (rule challenge_valid_at [OF h]) (use well_timed_wall [OF h(2), of "at_sign h" "wall_first (at_sign h)"] in simp_all)
  moreover have "\<not> cl_deadline (at_client h) \<le> mono_first (at_sign h)" using h(2) by (simp add: well_timed_def)
  ultimately show ?thesis using well_set_signature [OF h(1)] by (auto simp: finish_challenge_def Let_def)
qed

lemma server_admits:
  assumes h: "well_set cr h au dmn" "well_timed h" "well_sized cr frepr h data bound"
    and f: "open_envelope frepr f3 = Inr (''channelAuthProof'', canonical_dict d)"
      "proof_body (session_id (at_transcript h)) (generation (at_transcript h)) (ed_sign cr (at_key h) data) = VDict d"
  shows "srv_receive cr frepr (at_proof h)
      ((at_server h)\<lparr>srv_pending := Some (at_transcript h, data), srv_state := Challenge_Issued\<rparr>) f3 =
    ((at_server h)\<lparr>srv_pending := None, srv_admitted := Some (channel_of (at_server h) (at_transcript h) bound), srv_state := Authenticated\<rparr>,
     envelope frepr ''channelAuthAccepted'' (accepted_body (at_transcript h) bound))"
proof -
  let ?s = "(at_server h)\<lparr>srv_pending := Some (at_transcript h, data), srv_state := Challenge_Issued\<rparr>"
  let ?i = "ms (wall_first (at_hello h))"
  note start = well_timed_start [OF h(2)]
  note w = well_timed_wall [OF h(2), of "at_proof h" "wall_first (at_proof h)"]
    well_timed_wall [OF h(2), of "at_proof h" "wall_last (at_proof h)"]
  have w: "wall_first (at_proof h) \<le> of_int ?i / 1000 + 28" "wall_last (at_proof h) \<le> of_int ?i / 1000 + 28"
    using w by simp_all
  have mono: "mono_first (at_proof h) < srv_deadline ?s" "mono_last (at_proof h) < srv_deadline ?s"
    using h(2) by (simp_all add: well_timed_def)
  have early: "wall_first (at_proof h) < round_double (ms_seconds ?i + 30)" "wall_last (at_proof h) < ms_seconds (?i + 300000)"
    using w channel_window [OF start(1,2)] by linarith+
  note v = well_set_signature [OF h(1)]
  have read: "read_proof (canonical_dict d) = Inr (ed_sign cr (at_key h) data)"
    "getn (canonical_dict d) ''sessionID'' = VStr (new_uuid (at_hello h))" "getn (canonical_dict d) ''generation'' = VStr (at_generation h)"
    using read_proof_body [OF _ _ f(2)] by simp_all
  have ok: "acceptable cr (at_proof h) ?s (canonical_dict d) (at_transcript h) data (ed_sign cr (at_key h) data)"
    using early mono v read h(1) by (auto simp: acceptable_def CHALLENGE_LIFETIME_def well_set_def)
  have "on_proof cr frepr (at_proof h) ?s (canonical_dict d) = srv_admit frepr (?s\<lparr>srv_pending := None, srv_state := Verifying\<rparr>) (at_transcript h)"
  proof -
    have "srv_pending ?s = Some (at_transcript h, data)" "session_id (at_transcript h) = VStr (new_uuid (at_hello h))" by simp_all
    from on_proof_eq [OF this(1) read(1) this(2), of cr frepr "at_proof h"] ok show ?thesis by (simp only: if_True) blast
  qed
  then show ?thesis
    using f(1) mono h(3)
    by (simp add: srv_receive_def not_le [symmetric] srv_admit_def well_sized_def Let_def channel_of_def)
qed

lemma client_accepts:
  assumes h: "well_set cr h au dmn" "well_timed h" "well_sized cr frepr h data bound"
    and f: "open_envelope frepr f4 = Inr (''channelAuthAccepted'', canonical_dict d)"
      "accepted_body (at_transcript h) bound = VDict d"
  shows "accept frepr (at_accept h)
      ((at_client h)\<lparr>cl_state := Proof_Sent, cl_transcript := Some (at_transcript h), cl_offered := None\<rparr>) f4 =
    ((at_client h)\<lparr>cl_state := Client_Authenticated, cl_transcript := Some (at_transcript h), cl_offered := None,
       cl_admitted := Some (channel_of (at_server h) (at_transcript h) bound)\<rparr>, Inr ())"
proof -
  let ?i = "ms (wall_first (at_hello h))"
  note start = well_timed_start [OF h(2)]
  have w: "wall_first (at_accept h) \<le> of_int ?i / 1000 + 28"
    using well_timed_wall [OF h(2), of "at_accept h" "wall_first (at_accept h)"] by simp
  have "\<not> ms_seconds (?i + 300000) \<le> wall_first (at_accept h)"
    using w channel_window(2) [OF start(1,2)] by linarith
  moreover have "\<not> cl_deadline (at_client h) \<le> mono_first (at_accept h)" using h(2) by (simp add: well_timed_def)
  ultimately show ?thesis
    using f(1) read_accepted_body [OF _ _ f(2)] h(3)
    by (simp add: accept_def cl_open_def on_accepted_def well_sized_def Let_def channel_of_def)
qed

lemma honest_run:
  assumes h: "well_set cr h au dmn" "well_timed h" "well_sized cr frepr h data bound"
  shows "\<exists>f1 f2 f3 f4 c1 c2 c3 c4 s1 s2.
    new_client (at_identity h) (at_endpoint h) (at_client_start h) (at_nonce h) = Inr (at_client h)
    \<and> hello frepr (at_client h) = (c1, Inr f1)
    \<and> srv_receive cr frepr (at_hello h) (at_server h) f1 = (s1, Inr f2)
    \<and> begin_challenge frepr (at_challenge h) c1 f2 = (c2, Inr data)
    \<and> finish_challenge cr frepr (at_sign h) c2 (ed_sign cr (at_key h) data) = (c3, Inr f3)
    \<and> srv_receive cr frepr (at_proof h) s1 f3 = (s2, Inr f4)
    \<and> accept frepr (at_accept h) c3 f4 = (c4, Inr ())
    \<and> srv_state s2 = Authenticated \<and> cl_state c4 = Client_Authenticated
    \<and> srv_admitted s2 = Some (channel_of (at_server h) (at_transcript h) bound) \<and> cl_admitted c4 = srv_admitted s2"
proof -
  let ?t = "at_transcript h"
  have sid: "is_str (session_id ?t)" "is_str (generation ?t)" by simp_all
  note fit = h(3) [unfolded well_sized_def Let_def]
  obtain d1 d2 d3 d4 where d: "hello_body (at_identity h) (at_nonce h) = VDict d1" "challenge_body ?t data = VDict d2"
    "proof_body (session_id ?t) (generation ?t) (ed_sign cr (at_key h) data) = VDict d3" "accepted_body ?t bound = VDict d4"
    by (simp add: hello_body_def challenge_body_def proof_body_def accepted_body_def)
  note plains = plain_bodies(1) [of "at_identity h" "at_nonce h"] plain_bodies(2) [OF well_set_transcript [OF h(1)], of data]
    plain_bodies(3) [OF sid, of "ed_sign cr (at_key h) data"] plain_bodies(4) [OF sid, of bound]
  obtain f1 where f1: "envelope frepr ''channelAuthHello'' (hello_body (at_identity h) (at_nonce h)) = Inr f1"
    "open_envelope frepr f1 = Inr (''channelAuthHello'', canonical_dict d1)"
    by (rule fits_opens [OF _ plains(1) _ d(1)]) (use fit in \<open>auto simp: AUTH_COMMANDS_def\<close>)
  obtain f2 where f2: "envelope frepr ''channelAuthChallenge'' (challenge_body ?t data) = Inr f2"
    "open_envelope frepr f2 = Inr (''channelAuthChallenge'', canonical_dict d2)"
    by (rule fits_opens [OF _ plains(2) _ d(2)]) (use fit in \<open>auto simp: AUTH_COMMANDS_def\<close>)
  obtain f3 where f3: "envelope frepr ''channelAuthProof''
      (proof_body (session_id ?t) (generation ?t) (ed_sign cr (at_key h) data)) = Inr f3"
    "open_envelope frepr f3 = Inr (''channelAuthProof'', canonical_dict d3)"
    by (rule fits_opens [OF _ plains(3) _ d(3)]) (use fit in \<open>auto simp: AUTH_COMMANDS_def\<close>)
  obtain f4 where f4: "envelope frepr ''channelAuthAccepted'' (accepted_body ?t bound) = Inr f4"
    "open_envelope frepr f4 = Inr (''channelAuthAccepted'', canonical_dict d4)"
    by (rule fits_opens [OF _ plains(4) _ d(4)]) (use fit in \<open>auto simp: AUTH_COMMANDS_def\<close>)
  have "new_client (at_identity h) (at_endpoint h) (at_client_start h) (at_nonce h) = Inr (at_client h)"
    using h(1) by (simp add: new_client_def at_client_def well_set_def)
  moreover have "hello frepr (at_client h) = ((at_client h)\<lparr>cl_state := Hello_Sent\<rparr>, Inr f1)"
    using f1(1) by (simp add: hello_def)
  ultimately show ?thesis
    using server_challenges [OF h f1(2) d(1)] client_hands_out [OF h f2(2) d(2)] client_proves [OF h]
      server_admits [OF h f3(2) d(3)] client_accepts [OF h f4(2) d(4)] f2(1) f3(1) f4(1)
    by (intro exI conjI) (assumption | simp)+
qed

text \<open>
  C14: an honest attempt succeeds. When keys, texts and clocks are in order and the messages fit their
  frames, the client's hello is answered with a challenge, the client hands out exactly the server's
  bytes, its proof is accepted, and both ends hold the same admitted channel.
\<close>

theorem honest_attempt_is_admitted:
  assumes "well_set cr h au dmn" "well_timed h" "well_sized cr frepr h data bound"
  shows "\<exists>f1 f2 f3 f4 c1 c2 c3 c4 s1 s2.
    new_client (at_identity h) (at_endpoint h) (at_client_start h) (at_nonce h) = Inr (at_client h)
    \<and> hello frepr (at_client h) = (c1, Inr f1)
    \<and> srv_receive cr frepr (at_hello h) (at_server h) f1 = (s1, Inr f2)
    \<and> begin_challenge frepr (at_challenge h) c1 f2 = (c2, Inr data)
    \<and> finish_challenge cr frepr (at_sign h) c2 (ed_sign cr (at_key h) data) = (c3, Inr f3)
    \<and> srv_receive cr frepr (at_proof h) s1 f3 = (s2, Inr f4)
    \<and> accept frepr (at_accept h) c3 f4 = (c4, Inr ())
    \<and> srv_state s2 = Authenticated \<and> cl_state c4 = Client_Authenticated
    \<and> srv_admitted s2 = Some (channel_of (at_server h) (at_transcript h) bound) \<and> cl_admitted c4 = srv_admitted s2"
  by (rule honest_run [OF assms])

end
