(* ===== verification/Channel_Runs.thy ===== *)
theory Channel_Runs
  imports Channel_Honest Verify_Runs
begin

text \<open>
  One admission on concrete data, with the toy signature scheme, as the witness of the properties of
  the channel. The sizes of its frames are bounded through a bound on the canonical text of values
  whose strings are printable ASCII.
\<close>

subsection \<open>The size of printable values\<close>

definition printable :: "string \<Rightarrow> bool" where
  "printable s \<longleftrightarrow> (\<forall>c \<in> set s. 32 \<le> (of_char c :: nat) \<and> of_char c < (128 :: nat))"

lemma printable_append [simp]: "printable (s @ t) \<longleftrightarrow> printable s \<and> printable t"
  by (auto simp: printable_def)

lemma printable_Cons [simp]: "printable (c # s) \<longleftrightarrow> 32 \<le> (of_char c :: nat) \<and> of_char c < (128 :: nat) \<and> printable s"
  by (auto simp: printable_def)

lemma printable_Nil [simp]: "printable []"
  by (simp add: printable_def)

lemma printable_ascii: "printable s \<Longrightarrow> is_ascii s"
  by (simp add: printable_def is_ascii_def)

fun printable_val :: "pyval \<Rightarrow> bool" and printable_items :: "(string \<times> pyval) list \<Rightarrow> bool" where
  "printable_val (VStr s) = printable s"
| "printable_val (VInt i) = True"
| "printable_val (VFloat f) = (case f of Fin q \<Rightarrow> small_whole q | _ \<Rightarrow> False)"
| "printable_val (VDict d) = printable_items d"
| "printable_val _ = False"
| "printable_items [] = True"
| "printable_items ((k, v) # d) = (printable k \<and> printable_val v \<and> printable_items d)"

fun weight :: "pyval \<Rightarrow> nat" and weight_items :: "(string \<times> pyval) list \<Rightarrow> nat" where
  "weight (VStr s) = 2 * length s + 2"
| "weight (VInt i) = length (show_int i)"
| "weight (VFloat f) = (case f of Fin q \<Rightarrow> length (show_int \<lfloor>q\<rfloor>) | _ \<Rightarrow> 0)"
| "weight (VDict d) = weight_items d + 2"
| "weight _ = 0"
| "weight_items [] = 0"
| "weight_items ((k, v) # d) = 2 * length k + 4 + weight v + weight_items d"

lemma printable_items_iff: "printable_items d \<longleftrightarrow> (\<forall>(k, v) \<in> set d. printable k \<and> printable_val v)"
  by (induction d) auto

lemma weight_items_sum: "weight_items d = sum_list (map (\<lambda>(k, v). 2 * length k + 4 + weight v) d)"
  by (induction d) auto

lemma escape_printable:
  assumes "32 \<le> (of_char c :: nat)" "of_char c < (128 :: nat)"
  shows "printable (escape_char esc c) \<and> length (escape_char esc c) \<le> 2"
proof (cases "dget ESCAPES c")
  case None
  then show ?thesis using assms by (simp add: escape_char_def printable_def)
next
  case (Some e)
  have "\<forall>(c, e) \<in> set ESCAPES. printable e \<and> length e \<le> 2" by (simp add: ESCAPES_def printable_def)
  then have "printable e \<and> length e \<le> 2" using map_of_SomeD [OF Some] by blast
  then show ?thesis using Some by (simp add: escape_char_def)
qed

lemma quote_printable:
  assumes "printable s"
  shows "printable (json_quote esc s) \<and> length (json_quote esc s) \<le> 2 * length s + 2"
proof -
  have "printable (concat (map (escape_char esc) s)) \<and> length (concat (map (escape_char esc) s)) \<le> 2 * length s"
    using assms
  proof (induction s)
    case (Cons c s)
    then have "printable (escape_char esc c) \<and> length (escape_char esc c) \<le> 2" using escape_printable by simp
    then show ?case using Cons by simp
  qed simp
  then show ?thesis by (simp add: json_quote_def)
qed

lemma show_int_printable: "printable (show_int i)"
proof -
  have d: "printable (show_nat n)" for n
    using show_nat_digits [of n] by (auto simp: printable_def list_all_iff is_digit_def Let_def)
  then show ?thesis by (auto simp: show_int_def printable_def)
qed

lemma join_printable:
  assumes "\<forall>t \<in> set ts. printable t"
  shows "printable (join_with '','' ts) \<and> length (join_with '','' ts) \<le> sum_list (map length ts) + length ts"
  using assms
proof (induction ts)
  case Nil
  show ?case by (simp add: printable_def)
next
  case (Cons t ts)
  have comma: "printable '',''" by (simp add: printable_def)
  show ?case
  proof (cases ts)
    case Nil
    then show ?thesis using Cons.prems by simp
  next
    case (Cons u us)
    then have "join_with '','' (t # ts) = t @ '','' @ join_with '','' ts" by simp
    then show ?thesis using Cons.IH Cons.prems comma by simp
  qed
qed

lemma rmap_bounded:
  "(\<And>x. x \<in> set xs \<Longrightarrow> \<exists>t. f x = Inr t \<and> printable t \<and> length t + 1 \<le> w x) \<Longrightarrow>
     \<exists>ts. rmap f xs = Inr ts \<and> (\<forall>t \<in> set ts. printable t) \<and> sum_list (map length ts) + length ts \<le> sum_list (map w xs)"
proof (induction xs)
  case (Cons x xs)
  then obtain ts where ts: "rmap f xs = Inr ts" "\<forall>t \<in> set ts. printable t"
    "sum_list (map length ts) + length ts \<le> sum_list (map w xs)" by auto
  from Cons.prems [of x] obtain t where "f x = Inr t" "printable t" "length t + 1 \<le> w x" by auto
  then show ?case using ts by (intro exI [of _ "t # ts"]) simp
qed simp

lemma sum_sort_by: "sum_list (map g (sort_by lt xs)) = sum_list (map g xs)" for g :: "_ \<Rightarrow> nat"
proof -
  have "sum_mset (image_mset g (mset (sort_by lt xs))) = sum_mset (image_mset g (mset xs))" by simp
  then show ?thesis by (simp only: sum_mset_sum_list flip: mset_map)
qed

lemma write_printable:
  "printable_val v \<Longrightarrow> \<exists>t. write_json frepr ord esc v = Inr t \<and> printable t \<and> length t \<le> weight v"
proof (induction frepr ord esc v rule: write_json.induct)
  case (1 frepr ord esc v)
  have colon: "printable '':''" "printable ''{''" "printable ''}''" by (simp_all add: printable_def)
  show ?case
  proof (cases v)
    case (VDict d)
    let ?f = "\<lambda>(k, w). rbind (write_json frepr ord esc w) (\<lambda>t. Inr (json_quote esc k @ '':'' @ t))"
    have "\<exists>ts. rmap ?f (sort_by (item_less ord) d) = Inr ts \<and> (\<forall>t \<in> set ts. printable t)
        \<and> sum_list (map length ts) + length ts \<le> sum_list (map (\<lambda>(k, v). 2 * length k + 4 + weight v) (sort_by (item_less ord) d))"
    proof (rule rmap_bounded)
      fix x assume x: "x \<in> set (sort_by (item_less ord) d)"
      obtain k w where kw: "x = (k, w)" by (cases x)
      with x have "printable k" "printable_val w" using "1.prems" VDict by (auto simp: printable_items_iff)
      moreover from this obtain t where "write_json frepr ord esc w = Inr t" "printable t" "length t \<le> weight w"
        using "1.IH"(3) [OF VDict x kw [symmetric]] by auto
      ultimately show "\<exists>t. ?f x = Inr t \<and> printable t \<and> length t + 1 \<le> (case x of (k, v) \<Rightarrow> 2 * length k + 4 + weight v)"
        using kw quote_printable [of k esc] colon by (intro exI [of _ "json_quote esc k @ '':'' @ t"]) simp
    qed
    then obtain ts where ts: "rmap ?f (sort_by (item_less ord) d) = Inr ts" "\<forall>t \<in> set ts. printable t"
      "sum_list (map length ts) + length ts \<le> sum_list (map (\<lambda>(k, v). 2 * length k + 4 + weight v) (sort_by (item_less ord) d))"
      by blast
    have weight: "sum_list (map (\<lambda>(k, v). 2 * length k + 4 + weight v) (sort_by (item_less ord) d)) = weight_items d"
      unfolding weight_items_sum by (rule sum_sort_by)
    moreover have "write_json frepr ord esc v = Inr (''{'' @ join_with '','' ts @ ''}'')"
      using ts(1) VDict by (simp add: write_json.simps [of _ _ _ "VDict _"])
    moreover have "length (''{'' @ join_with '','' ts @ ''}'') \<le> weight v"
      using ts(3) join_printable [OF ts(2)] VDict weight by simp
    moreover have "printable (''{'' @ join_with '','' ts @ ''}'')"
      using join_printable [OF ts(2)] colon by (simp only: printable_append)
    ultimately show ?thesis by blast
  next
    case (VFloat f)
    then show ?thesis using "1.prems" show_int_printable
      by (cases f) (simp_all add: write_json.simps [of _ _ _ "VFloat _"])
  next
    case (VStr s)
    then show ?thesis using "1.prems" quote_printable [of s esc] by (simp add: write_json.simps [of _ _ _ "VStr _"])
  next
    case (VInt i)
    then show ?thesis using show_int_printable [of i] by (simp add: write_json.simps [of _ _ _ "VInt _"])
  qed (use "1.prems" in simp_all)
qed

lemma canonical_printable:
  assumes "printable_val v" "order \<in> {''foundation'', ''encoder''}"
  shows "\<exists>bs t. canonical_json frepr v order esc = Inr bs \<and> bs = encode_utf8 t \<and> decode_utf8 bs = Inr t \<and> printable t \<and> length bs \<le> weight v"
proof -
  obtain t where "write_json frepr (order_of order) esc v = Inr t" "printable t" "length t \<le> weight v"
    using write_printable [OF assms(1)] by blast
  then show ?thesis using assms(2) valid_utf8_ascii [OF printable_ascii] decode_encode_utf8
    by (auto simp: canonical_json_def order_of_def)
qed

text \<open>A message fits when twice its body's weight does.\<close>

lemma fits_printable:
  assumes "printable_val body" "printable name" "2 * weight body + 2 * length name + 60 \<le> MAXIMUM_ENVELOPE_BYTES"
  shows "fits frepr name body"
proof -
  obtain bs t where b: "encode frepr body = Inr bs" "decode_utf8 bs = Inr t" "printable t" "length t \<le> weight body"
    using canonical_printable [OF assms(1), of "''encoder''" frepr False] by (auto simp: encode_def)
  let ?c = "VDict [(''&string'', VStr t), (''cid'', VInt 0), (''cmd'', VStr name)]"
  have p: "printable ''&string''" "printable ''cid''" "printable ''cmd''" by (simp_all add: printable_def)
  have "printable_val ?c" using b(3) assms(2) p by simp
  from canonical_printable [OF this, of "''encoder''" frepr False]
  obtain cs where c: "encode frepr ?c = Inr cs" "length cs \<le> weight ?c" by (auto simp: encode_def)
  have "weight ?c \<le> 2 * length t + 2 * length name + 60" by (simp add: show_int_def)
  then have "length cs \<le> MAXIMUM_ENVELOPE_BYTES" using c(2) b(4) assms(3) by linarith
  then show ?thesis using b c(1) by (simp add: fits_def envelope_def)
qed

lemma length_b64encode: "length (b64encode bs) = 4 * ((length bs + 2) div 3)"
proof (induction bs rule: b64encode.induct)
  case (4 a b c rest)
  have "(length rest + 2 + 3) div 3 = (length rest + 2) div 3 + 1" by simp
  then show ?case using 4 by (simp add: Let_def add.commute)
qed (simp_all add: Let_def)

lemma b64_printable: "printable (b64encode bs)"
proof -
  have "list_all (\<lambda>c. 32 \<le> (of_char c :: nat) \<and> of_char c < (128 :: nat)) (CHR ''='' # b64_alphabet)" by code_simp
  then have "c \<in> set (CHR ''='' # b64_alphabet) \<Longrightarrow> 32 \<le> (of_char c :: nat) \<and> of_char c < (128 :: nat)" for c
    unfolding list_all_iff by blast
  then show ?thesis using b64_chars unfolding printable_def by blast
qed

subsection \<open>An attempt\<close>

definition run_uuid :: string where "run_uuid = ''00000000-0000-0000-0000-00000000000A''"

definition run_outside :: outside where
  "run_outside = \<lparr>mono_first = 1, wall_first = 1000000000, mono_last = 1, wall_last = 1000000000,
     random_32 = replicate 32 9, new_uuid = run_uuid\<rparr>"

definition run_attempt :: attempt where
  "run_attempt = \<lparr>at_endpoint = \<lparr>origin = VStr ''wss://h'', route = VStr ''/b'', domain = VStr ''private''\<rparr>,
     at_identity = \<lparr>uuid = ''ida'', public_key = alice, algorithm = ''EdDSA'', curve = ''Curve25519''\<rparr>,
     at_key = alice, at_policy = Some (\<lambda>p. uuid p = ''ida''), at_generation = run_uuid, at_nonce = replicate 32 5,
     at_server_start = 0, at_client_start = 0, at_hello = run_outside, at_challenge = run_outside,
     at_sign = run_outside, at_proof = run_outside, at_accept = run_outside\<rparr>"

lemma run_ms: "ms 1000000000 = 1000000000000"
  using round_double_int [of 1000000000000] by (simp add: ms_def)

lemma run_fields [simp]:
  "at_endpoint run_attempt = \<lparr>origin = VStr ''wss://h'', route = VStr ''/b'', domain = VStr ''private''\<rparr>"
  "at_identity run_attempt = \<lparr>uuid = ''ida'', public_key = alice, algorithm = ''EdDSA'', curve = ''Curve25519''\<rparr>"
  "at_key run_attempt = alice" "at_policy run_attempt = Some (\<lambda>p. uuid p = ''ida'')" "at_generation run_attempt = run_uuid"
  "at_nonce run_attempt = replicate 32 5" "at_hello run_attempt = run_outside" "at_challenge run_attempt = run_outside"
  "at_sign run_attempt = run_outside" "at_proof run_attempt = run_outside" "at_accept run_attempt = run_outside"
  "at_server_start run_attempt = 0" "at_client_start run_attempt = 0"
  by (simp_all add: run_attempt_def)

lemma run_outside_fields [simp]:
  "mono_first run_outside = 1" "mono_last run_outside = 1" "wall_first run_outside = 1000000000"
  "wall_last run_outside = 1000000000" "random_32 run_outside = replicate 32 9" "new_uuid run_outside = run_uuid"
  by (simp_all add: run_outside_def)

lemma run_is_uuid: "is_uuid (VStr run_uuid)"
  unfolding run_uuid_def by code_simp

lemma run_set: "well_set run_crypto run_attempt ''wss://h/b'' ''private''"
proof -
  have "py_strip ''wss://h/b'' \<noteq> []" "py_len ''wss://h/b'' \<le> 512" "py_strip ''private'' \<noteq> []" "py_len ''private'' \<le> 512"
    by code_simp+
  then show ?thesis
    using run_crypto_ok run_keys run_is_uuid
    by (simp add: well_set_def identity_validate_def text_endpoint_def scope_ok_def audience_def MAXIMUM_SCOPE_CHARACTERS_def)
qed

lemma run_times: "signed_times (at_transcript run_attempt) = (1000000000, 1000000030)"
  using round_double_int [of 1000000000] round_double_int [of 21692800] round_double_int [of 21692830]
    round_double_int [of 1000000030]
  by (simp add: signed_times_def Let_def ms_seconds_def run_ms REFERENCE_DATE_OFFSET_def CHALLENGE_LIFETIME_def)

lemma run_timed: "well_timed run_attempt"
proof -
  have "round_double 10 = 10" using round_double_int [of 10] by simp
  then show ?thesis
    by (simp add: well_timed_def Let_def run_ms on_time_def at_server_def at_client_def new_server_def PRE_AUTH_DEADLINE_def)
qed

lemma show_lengths: "length (show_int 1000000000000) = 13" "length (show_int 1000000300000) = 13"
  "length (show_int 1000000000) = 10" "length (show_int 1000000030) = 10" "length (show_int 1) = 1" "length (show_int 0) = 1"
  by (simp_all add: show_int_def show_nat.simps)

lemma small_times: "small_whole 1000000000" "small_whole 1000000030"
  by (simp_all add: small_whole_def)

lemma run_printable: "printable run_uuid" "printable PROFILE" "printable DIRECTION" "printable ACTION" "printable CHALLENGE_TYPE"
  "printable CHALLENGE_PURPOSE" "list_all printable TRANSCRIPT_KEYS" "list_all printable AUTH_COMMANDS"
  by (simp_all add: run_uuid_def PROFILE_def DIRECTION_def ACTION_def CHALLENGE_TYPE_def CHALLENGE_PURPOSE_def
      TRANSCRIPT_KEYS_def AUTH_COMMANDS_def)

abbreviation run_transcript :: transcript where
  "run_transcript \<equiv> at_transcript run_attempt"

lemma run_identity_json: "printable_val (identity_json (at_identity run_attempt))" "weight (identity_json (at_identity run_attempt)) \<le> 300"
  using b64_printable [of alice] by (simp_all add: identity_json_def length_b64encode run_keys)

lemma run_transcript_json: "printable_val (transcript_json run_transcript)" "weight (transcript_json run_transcript) \<le> 1200"
  using run_identity_json run_printable b64_printable [of "replicate 32 5"] b64_printable [of "replicate 32 9"]
  by (simp_all add: transcript_json_def endpoint_json_def run_ms length_b64encode show_lengths
      run_uuid_def PROFILE_def DIRECTION_def)

lemma run_bound: "\<exists>m. transcript_digest frepr run_transcript = Inr (hexdigest m)"
  using canonical_printable [OF run_transcript_json(1), of "''encoder''" frepr False]
  by (auto simp: transcript_digest_def encode_def)

lemma printable_hex: "printable (hexdigest m)"
proof -
  have "\<forall>n \<in> set [0..<16]. 32 \<le> (of_char (''0123456789abcdef'' ! n) :: nat) \<and> of_char (''0123456789abcdef'' ! n) < (128 :: nat)"
    by code_simp
  then have n: "n < 16 \<Longrightarrow> 32 \<le> (of_char (''0123456789abcdef'' ! n) :: nat) \<and> of_char (''0123456789abcdef'' ! n) < (128 :: nat)" for n
    by simp
  have "unat b div 16 < 16 \<and> unat b mod 16 < 16" for b :: "8 word"
    using unsigned_less [of b, where 'a = nat] by (simp add: less_mult_imp_div_less)
  then have "printable (hex_of_byte b)" for b
    using n unfolding hex_of_byte_def printable_Cons by (simp del: nth_Cons_numeral)
  then show ?thesis by (auto simp: hexdigest_def printable_def)
qed

lemma run_data:
  assumes "transcript_digest frepr run_transcript = Inr (hexdigest m)"
  shows "\<exists>data. signing_data frepr run_transcript = Inr data \<and> length data \<le> 1400"
proof -
  let ?w = "VDict (challenge_wire run_transcript (hexdigest m) ''wss://h/b'')"
  have "printable_val ?w"
    using run_printable printable_hex [of m] b64_printable [of alice] b64_printable [of "replicate 32 9"] small_times
    by (simp add: challenge_wire_def run_times)
  moreover have "weight ?w \<le> 1400"
    by (simp add: challenge_wire_def run_times length_b64encode run_keys hexdigest_length show_lengths
        CHALLENGE_TYPE_def CHALLENGE_PURPOSE_def PROFILE_def ACTION_def)
  ultimately obtain bs where "canonical_json frepr ?w ''encoder'' True = Inr bs" "length bs \<le> 1400"
    using canonical_printable [of ?w "''encoder''" frepr True] by fastforce
  then show ?thesis using assms by (simp add: signing_data_eq audience_def)
qed

lemma run_sized: "\<exists>data m. well_sized run_crypto run_repr run_attempt data (hexdigest m)"
proof -
  obtain m where m: "transcript_digest run_repr run_transcript = Inr (hexdigest m)" using run_bound by blast
  obtain data where data: "signing_data run_repr run_transcript = Inr data" "length data \<le> 1400" using run_data [OF m] by blast
  have dl: "length (b64encode data) \<le> 1900" using data(2) by (simp add: length_b64encode)
  have sl: "length (b64encode (ed_sign run_crypto alice data)) \<le> 100"
    using run_crypto_ok(3) [OF run_keys(1)] by (simp add: length_b64encode)
  note P = run_printable b64_printable printable_hex
  have "fits run_repr ''channelAuthHello'' (hello_body (at_identity run_attempt) (at_nonce run_attempt))"
    by (rule fits_printable)
      (use P run_identity_json in \<open>simp_all add: hello_body_def length_b64encode PROFILE_def MAXIMUM_ENVELOPE_BYTES_def\<close>)
  moreover have "fits run_repr ''channelAuthChallenge'' (challenge_body run_transcript data)"
    by (rule fits_printable)
      (use P run_transcript_json dl in \<open>simp_all add: challenge_body_def MAXIMUM_ENVELOPE_BYTES_def\<close>)
  moreover have "fits run_repr ''channelAuthProof'' (proof_body (session_id run_transcript) (generation run_transcript)
      (ed_sign run_crypto (at_key run_attempt) data))"
    by (rule fits_printable) (use P sl in \<open>simp_all add: proof_body_def run_uuid_def MAXIMUM_ENVELOPE_BYTES_def\<close>)
  moreover have "fits run_repr ''channelAuthAccepted'' (accepted_body run_transcript (hexdigest m))"
    by (rule fits_printable)
      (use P in \<open>simp_all add: accepted_body_def run_uuid_def hexdigest_length MAXIMUM_ENVELOPE_BYTES_def\<close>)
  ultimately have "well_sized run_crypto run_repr run_attempt data (hexdigest m)"
    using m data small_times by (simp add: well_sized_def run_times MAXIMUM_ENCODED_BYTES_def)
  then show ?thesis by blast
qed

subsection \<open>The witnesses\<close>

lemma honest_attempt_is_admitted_witness:
  "\<exists>data m s1 s2 f1 f3 f4. signing_data run_repr run_transcript = Inr data
    \<and> srv_receive run_crypto run_repr run_outside s1 f3 = (s2, Inr f4)
    \<and> srv_admitted s2 = Some (channel_of (at_server run_attempt) run_transcript (hexdigest m))
    \<and> fst (srv_receive run_crypto run_repr run_outside (at_server run_attempt) f1) = s1"
proof -
  obtain data m where s: "well_sized run_crypto run_repr run_attempt data (hexdigest m)" using run_sized by blast
  then have "signing_data run_repr run_transcript = Inr data" by (simp add: well_sized_def Let_def)
  with honest_attempt_is_admitted [OF run_set run_timed s] show ?thesis
    unfolding run_fields by (metis fst_conv)
qed

lemma admitted_channel_is_proven_witness:
  "\<exists>ins a t. srv_admitted (srv_run run_crypto run_repr (at_server run_attempt) ins) = Some a
    \<and> asked run_repr (at_server run_attempt) (ins ! 0) t \<and> ac_identity a = at_identity run_attempt"
proof -
  obtain data m where s: "well_sized run_crypto run_repr run_attempt data (hexdigest m)" using run_sized by blast
  from honest_run [OF run_set run_timed s] obtain f1 f2 f3 f4 s1 s2 where
    r: "srv_receive run_crypto run_repr run_outside (at_server run_attempt) f1 = (s1, Inr f2)"
      "srv_receive run_crypto run_repr run_outside s1 f3 = (s2, Inr f4)"
      "srv_admitted s2 = Some (channel_of (at_server run_attempt) run_transcript (hexdigest m))"
    unfolding run_fields by blast
  let ?ins = "[(run_outside, f1), (run_outside, f3)]"
  have "srv_admitted (srv_run run_crypto run_repr (at_server run_attempt) ?ins)
      = Some (channel_of (at_server run_attempt) run_transcript (hexdigest m))"
    using r by (simp add: srv_run_def)
  moreover from admitted_channel_is_proven [OF this [unfolded at_server_def]] obtain i j t where
    ij: "i < j" "j < length ?ins" and t: "asked run_repr (at_server run_attempt) (?ins ! i) t"
    unfolding at_server_def by blast
  moreover have "i = 0" using ij by simp
  ultimately have "srv_admitted (srv_run run_crypto run_repr (at_server run_attempt) ?ins)
      = Some (channel_of (at_server run_attempt) run_transcript (hexdigest m))
    \<and> asked run_repr (at_server run_attempt) (?ins ! 0) t
    \<and> ac_identity (channel_of (at_server run_attempt) run_transcript (hexdigest m)) = at_identity run_attempt"
    by (simp add: channel_of_def)
  then show ?thesis by blast
qed

lemma client_signs_one_own_challenge_witness:
  "\<exists>c f2 c' data. begin_challenge run_repr run_outside c f2 = (c', Inr data)
     \<and> isl (snd (begin_challenge run_repr run_outside c' f2))"
proof -
  obtain data m where s: "well_sized run_crypto run_repr run_attempt data (hexdigest m)" using run_sized by blast
  from honest_run [OF run_set run_timed s] obtain c f2 c' where
    b: "begin_challenge run_repr run_outside c f2 = (c', Inr data)" unfolding run_fields by blast
  from client_signs_one_own_challenge [OF b, of run_outside run_crypto "[]" f2] b show ?thesis
    by (auto simp: cl_run_def)
qed

lemma transcript_bytes_determine_witness:
  "\<exists>data. encode run_repr (transcript_json run_transcript) = Inr data
     \<and> rbind (decode run_repr data) (\<lambda>d. transcript_from_json (VDict d)) = Inr run_transcript"
proof -
  obtain data where e: "encode run_repr (transcript_json run_transcript) = Inr data" "length data \<le> MAXIMUM_ENVELOPE_BYTES"
    using canonical_printable [OF run_transcript_json(1), of "''encoder''" run_repr False] run_transcript_json(2)
    by (fastforce simp: encode_def MAXIMUM_ENVELOPE_BYTES_def)
  have ok: "transcript_ok run_transcript" by (rule well_set_transcript [OF run_set])
  from transcript_bytes_determine [OF ok e ok e(1)] e(1) show ?thesis by blast
qed

subsection \<open>A frame that cannot be written back\<close>

text \<open>
  A frame that is JSON but has no canonical form, such as one with a \<open>NaN\<close>, is refused with the
  encoder's exception: the server keeps its state, though its documentation calls any misstep terminal.
\<close>

definition nan_frame :: bytes where
  "nan_frame = encode_utf8 (''{'' @ [CHR 0x22] @ ''a'' @ [CHR 0x22] @ '':NaN}'')"

lemma nan_frame_fails: "open_envelope run_repr nan_frame = Inl CanonicalEncodingError"
  unfolding nan_frame_def by code_simp

lemma unencodable_frame_keeps_server_open:
  "srv_receive cr run_repr out (new_server e policy gen now) nan_frame
     = (new_server e policy gen now, Inl CanonicalEncodingError)"
  by (simp add: srv_receive_def nan_frame_fails new_server_def)

end
