(* ===== verification/Url.thy ===== *)
theory Url
  imports Channel_Wire
begin

text \<open>
  \<open>urllib.parse.urlsplit\<close>, as far as \<open>Endpoint.from_url\<close> of \<open>interop/channel.py\<close> uses it, and
  \<open>from_url\<close> itself: the address of a bridge is built from a configured URL only. The check of an
  address in brackets (\<open>ipaddress\<close>) and the check that a host outside ASCII does not change into a
  delimiter under Unicode normalization are parameters.
\<close>

record url_library =
  bracketed_host_ok :: "string \<Rightarrow> bool"
  nfkc_ok :: "string \<Rightarrow> bool"

record split_url =
  scheme :: string
  netloc :: string
  url_path :: string
  query :: string
  fragment :: string

subsection \<open>Splitting\<close>

definition is_alpha :: "char \<Rightarrow> bool" where
  "is_alpha c = (let n = of_char (ascii_lower c) :: nat in 97 \<le> n \<and> n \<le> 122)"

definition scheme_char :: "char \<Rightarrow> bool" where
  "scheme_char c \<longleftrightarrow> is_alpha c \<or> is_digit c \<or> c \<in> set ''+-.''"

definition split_scheme :: "string \<Rightarrow> string \<times> string" where
  "split_scheme url =
     (let name = before_first (CHR '':'') url
      in if CHR '':'' \<in> set url \<and> name \<noteq> [] \<and> is_alpha (hd url) \<and> list_all scheme_char name
         then (py_lower name, after_first (CHR '':'') url) else ([], url))"

definition split_netloc :: "string \<Rightarrow> string \<times> string" where
  "split_netloc url =
     (if startswith url ''//''
      then (let inside = (\<lambda>c. c \<notin> set ''/?#'') in (takeWhile inside (drop 2 url), dropWhile inside (drop 2 url)))
      else ([], url))"

text \<open>\<open>after_first\<close> is empty where the separator does not occur, as \<open>partition\<close> gives.\<close>

definition bracketed :: "string \<Rightarrow> string" where
  "bracketed n = before_first (CHR '']'') (after_first (CHR ''['') n)"

definition netloc_ok :: "url_library \<Rightarrow> string \<Rightarrow> bool" where
  "netloc_ok lib n \<longleftrightarrow>
     (CHR ''['' \<in> set n \<longleftrightarrow> CHR '']'' \<in> set n)
     \<and> (CHR ''['' \<in> set n \<longrightarrow> bracketed_host_ok lib (bracketed n))
     \<and> (is_ascii n \<or> nfkc_ok lib n)"

definition urlsplit :: "url_library \<Rightarrow> string \<Rightarrow> split_url res" where
  "urlsplit lib url =
     (let url = dropWhile (\<lambda>c. (of_char c :: nat) \<le> 32) url;
          url = filter (\<lambda>c. (of_char c :: nat) \<notin> {9, 10, 13}) url;
          (s, rest) = split_scheme url;
          (n, rest) = split_netloc rest;
          f = after_first (CHR ''#'') rest;
          rest = before_first (CHR ''#'') rest;
          q = after_first (CHR ''?'') rest;
          p = before_first (CHR ''?'') rest
      in if netloc_ok lib n then Inr \<lparr>scheme = s, netloc = n, url_path = p, query = q, fragment = f\<rparr>
         else Inl ValueError)"

subsection \<open>The parts of the network location\<close>

text \<open>\<open>rsplit("@", 1)[-1]\<close>, which is also the part after \<open>rpartition("@")\<close>.\<close>

definition hostinfo :: "string \<Rightarrow> string" where
  "hostinfo n = rev (takeWhile (\<lambda>c. c \<noteq> CHR ''@'') (rev n))"

definition host_and_port :: "string \<Rightarrow> string \<times> string" where
  "host_and_port n =
     (let h = hostinfo n
      in if CHR ''['' \<in> set h
         then (let b = after_first (CHR ''['') h
               in (before_first (CHR '']'') b, after_first (CHR '':'') (after_first (CHR '']'') b)))
         else (before_first (CHR '':'') h, after_first (CHR '':'') h))"

text \<open>\<open>hostname\<close>, empty where it is \<open>None\<close>; the zone of a scoped address keeps its case.\<close>

definition hostname :: "string \<Rightarrow> string" where
  "hostname n =
     (let h = fst (host_and_port n) in py_lower (takeWhile (\<lambda>c. c \<noteq> CHR ''%'') h) @ dropWhile (\<lambda>c. c \<noteq> CHR ''%'') h)"

definition port :: "string \<Rightarrow> nat option res" where
  "port n =
     (let p = snd (host_and_port n)
      in if p = [] then Inr None
         else if list_all is_digit p \<and> read_digits p \<le> 65535 then Inr (Some (read_digits p))
         else Inl ValueError)"

subsection \<open>\<open>Endpoint.from_url\<close>\<close>

text \<open>A user name is there exactly when the location has an \<open>@\<close>; a password only then.\<close>

definition endpoint_refused :: "string \<Rightarrow> split_url \<Rightarrow> string \<Rightarrow> bool" where
  "endpoint_refused url parts dmn =
     (let host = hostname (netloc parts); netloc_host = hostinfo (netloc parts)
      in scheme parts = [] \<or> host = []
         \<or> CHR ''@'' \<in> set (netloc parts)
         \<or> query parts \<noteq> [] \<or> fragment parts \<noteq> []
         \<or> CHR ''?'' \<in> set url \<or> CHR ''#'' \<in> set url
         \<or> scheme parts \<noteq> py_lower (scheme parts)
         \<or> hd (split_on (CHR '':'') netloc_host) \<noteq> py_lower (hd (split_on (CHR '':'') netloc_host))
         \<or> endswith host ''.''
         \<or> \<not> startswith (url_path parts) ''/''
         \<or> sublist ''//'' (url_path parts)
         \<or> list_ex (\<lambda>s. s \<in> {''.'', ''..''}) (split_on (CHR ''/'') (url_path parts))
         \<or> CHR ''%'' \<in> set (url_path parts)
         \<or> dmn = [] \<or> 512 < length (encode_utf8 dmn))"

definition from_url :: "url_library \<Rightarrow> string \<Rightarrow> string \<Rightarrow> bool \<Rightarrow> endpoint res" where
  "from_url lib url dmn allow_insecure_loopback =
     rbind (urlsplit lib url) (\<lambda>parts.
       if endpoint_refused url parts dmn then malformed
       else case port (netloc parts) of
         Inl e \<Rightarrow> (if is_value_error e then malformed else Inl e)
       | Inr p \<Rightarrow>
           (let loopback = hostname (netloc parts) \<in> {''localhost'', ''127.0.0.1'', ''::1''};
                origin_text = scheme parts @ ''://'' @ hostinfo (netloc parts)
            in if p = Some 0 then malformed
               else if \<not> (scheme parts = ''wss'' \<or> (allow_insecure_loopback \<and> scheme parts = ''ws'' \<and> loopback))
                 then Inl (ChannelFailure ''insecureEndpoint'')
               else if (scheme parts = ''wss'' \<and> p = Some 443) \<or> (scheme parts = ''ws'' \<and> p = Some 80) then malformed
               else if 512 < length (encode_utf8 (origin_text @ url_path parts)) then malformed
               else Inr \<lparr>origin = VStr origin_text, route = VStr (url_path parts), domain = VStr dmn\<rparr>))"

end
