(* ===== verification/Vault_Cell.thy ===== *)
theory Vault_Cell
  imports Py_Objects General_Cell
begin

text \<open>
  \<open>cells/vault.py\<close>: a cell that keeps notes and links between them, and a journal of its
  mutations. The state is the base cell with the notes by id, the links, the journal and the
  version; the clock is read anew at each call of \<open>_now_ms\<close>.
\<close>

subsection \<open>State\<close>

record vault_note =
  n_id :: string
  n_title :: string
  n_content :: string
  n_slug :: "string option"
  n_tags :: "string list"
  n_created :: int
  n_updated :: int

record vault =
  v_cell :: cell
  v_notes :: "vault_note dict"
  v_links :: "pyval dict list"
  v_operations :: "pyval dict list"
  v_state_version :: int

record vault_env =
  e_world :: world
  e_clock :: "nat \<Rightarrow> rat"
  e_reads :: nat

type_synonym 'a vault_act = "(vault \<times> vault_env, 'a) act"

definition the_vault :: "(vault \<Rightarrow> 'a) \<Rightarrow> 'a vault_act" where
  "the_vault f = aget (\<lambda>(v, e). f v)"

definition mod_vault :: "(vault \<Rightarrow> vault) \<Rightarrow> unit vault_act" where
  "mod_vault f = amod (\<lambda>(v, e). (f v, e))"

text \<open>An operation of the base cell.\<close>

definition in_cell :: "'a cell_act \<Rightarrow> 'a vault_act" where
  "in_cell m = (\<lambda>(v, e). let (r, (c, w)) = m (v_cell v, e_world e)
                         in (r, (v\<lparr>v_cell := c\<rparr>, e\<lparr>e_world := w\<rparr>)))"

definition now_ms :: "int vault_act" where
  "now_ms = abind (aget (\<lambda>(v, e). e_clock e (e_reads e)))
     (\<lambda>t. abind (amod (\<lambda>(v, e). (v, e\<lparr>e_reads := Suc (e_reads e)\<rparr>))) (\<lambda>_. aret (millis t)))"

definition note_json :: "vault_note \<Rightarrow> pyval" where
  "note_json n = VDict
     [(''id'', VStr (n_id n)), (''slug'', none_or (n_slug n)), (''title'', VStr (n_title n)),
      (''content'', VStr (n_content n)), (''tags'', VList (map VStr (n_tags n))),
      (''createdAtEpochMs'', VInt (n_created n)), (''updatedAtEpochMs'', VInt (n_updated n))]"

definition vault_schema :: string where
  "vault_schema = ''haven.vault.state.v1''"

definition mutation_schema :: string where
  "mutation_schema = ''haven.vault.mutation.v1''"

text \<open>The constructor: the grant on \<open>vault\<close>, one handler that reads (0) and one that is told (1).\<close>

definition vault_set_keys :: "string list" where
  "vault_set_keys =
    [''vault.note.create'', ''vault.note.update'', ''vault.note.get'', ''vault.note.list'',
     ''vault.link.add'', ''vault.links.forward'', ''vault.links.backlinks'']"

definition new_vault :: "identity option \<Rightarrow> string \<Rightarrow> string \<Rightarrow> string \<Rightarrow> string \<Rightarrow> vault" where
  "new_vault owner name uuid template_uuid grant_uuid =
     (let c = new_cell owner name uuid template_uuid in
      \<lparr>v_cell = c\<lparr>cl_agreement_template := add_grant ''rw--'' ''vault'' grant_uuid (cl_agreement_template c),
                 cl_get_handlers := dset (cl_get_handlers c) ''vault.state'' 0,
                 cl_set_handlers := fold (\<lambda>k hs. dset hs k 1) vault_set_keys (cl_set_handlers c)\<rparr>,
       v_notes = [], v_links = [], v_operations = [], v_state_version = 0\<rparr>)"

subsection \<open>Operations\<close>

definition vault_error :: "string \<Rightarrow> string \<Rightarrow> string \<Rightarrow> pyval dict \<Rightarrow> pyval" where
  "vault_error operation code message field_errors = VDict
     [(''status'', VStr ''error''), (''operation'', VStr operation), (''code'', VStr code),
      (''message'', VStr message), (''field_errors'', VDict field_errors)]"

definition mutation :: "int \<Rightarrow> string \<Rightarrow> string \<Rightarrow> string \<Rightarrow> int \<Rightarrow> pyval dict" where
  "mutation version operation kind record_id t =
     [(''schemaVersion'', VStr mutation_schema), (''stateVersion'', VInt version),
      (''operation'', VStr operation), (''recordKind'', VStr kind), (''recordID'', VStr record_id),
      (''result'', VStr ''ok''), (''emittedAtEpochMs'', VInt t)]"

definition vault_event :: "pyval dict \<Rightarrow> string \<Rightarrow> string \<Rightarrow> flow_element" where
  "vault_event event origin fresh =
     \<lparr>f_title = ''VaultMutationEvent'', f_content = VDict event, f_properties = VDict [],
      f_topic = Some ''vault.mutation'', f_origin = Some origin, f_id = fresh\<rparr>"

definition mutate :: "string \<Rightarrow> string \<Rightarrow> string \<Rightarrow> unit vault_act" where
  "mutate operation kind record_id =
     abind (mod_vault (\<lambda>v. v\<lparr>v_state_version := v_state_version v + 1\<rparr>)) (\<lambda>_.
     abind (the_vault v_state_version) (\<lambda>version.
     abind now_ms (\<lambda>t.
     let event = mutation version operation kind record_id t in
     abind (mod_vault (\<lambda>v. v\<lparr>v_operations := v_operations v @ [event]\<rparr>)) (\<lambda>_.
     abind (in_cell fresh_uuid) (\<lambda>fresh.
     abind (the_vault (\<lambda>v. cl_uuid (v_cell v))) (\<lambda>origin.
       in_cell (push_flow_element (vault_event event origin fresh))))))))"

definition put_note :: "string \<Rightarrow> vault_note \<Rightarrow> unit vault_act" where
  "put_note k n = mod_vault (\<lambda>v. v\<lparr>v_notes := dset (v_notes v) k n\<rparr>)"

definition ok_note :: "vault_note \<Rightarrow> pyval" where
  "ok_note n = VDict [(''status'', VStr ''ok''), (''note'', note_json n)]"

text \<open>\<open>_string(a) or _string(b) or str(uuid4())\<close>\<close>

definition new_note_id :: "pyval dict \<Rightarrow> string vault_act" where
  "new_note_id payload =
     (case str_opt (getn payload ''id'') of
        Some s \<Rightarrow> aret s
      | None \<Rightarrow> (case str_opt (getn payload ''slug'') of
            Some s \<Rightarrow> aret s
          | None \<Rightarrow> in_cell fresh_uuid))"

definition create_note :: "pyval dict \<Rightarrow> pyval vault_act" where
  "create_note payload =
     (case (str_opt (getn payload ''title''), str_val (getn payload ''content'')) of
        (Some ttl, Some content) \<Rightarrow>
          abind (new_note_id payload) (\<lambda>note_id.
          abind now_ms (\<lambda>t.
          abind (alift (iter_strs (getd payload ''tags'' (VList [])))) (\<lambda>tags.
          let n = \<lparr>n_id = note_id, n_title = ttl, n_content = content,
                   n_slug = str_val (getn payload ''slug''), n_tags = tags, n_created = t, n_updated = t\<rparr> in
          abind (put_note note_id n) (\<lambda>_.
          abind (mutate ''note.create'' ''note'' note_id) (\<lambda>_. aret (ok_note n))))))
      | _ \<Rightarrow> aret (vault_error ''vault.note.create'' ''field_errors'' ''title and content are required''
               [(''title'', VStr ''required''), (''content'', VStr ''required'')]))"

text \<open>The fields of a note an update replaces.\<close>

definition updated_fields :: "pyval dict \<Rightarrow> vault_note \<Rightarrow> vault_note" where
  "updated_fields payload n =
     (let n1 = (case getn payload ''title'' of VStr s \<Rightarrow> n\<lparr>n_title := s\<rparr> | _ \<Rightarrow> n);
          n2 = (case getn payload ''content'' of VStr s \<Rightarrow> n1\<lparr>n_content := s\<rparr> | _ \<Rightarrow> n1)
      in case getn payload ''tags'' of VList vs \<Rightarrow> n2\<lparr>n_tags := only_strs vs\<rparr> | _ \<Rightarrow> n2)"

definition not_found :: "string \<Rightarrow> pyval" where
  "not_found operation = vault_error operation ''not_found'' ''note not found'' []"

definition update_note :: "pyval dict \<Rightarrow> pyval vault_act" where
  "update_note payload =
     abind (the_vault v_notes) (\<lambda>notes.
       case Option.bind (str_opt (getn payload ''id'')) (\<lambda>k. map_option (Pair k) (dget notes k)) of
         None \<Rightarrow> aret (not_found ''vault.note.update'')
       | Some (k, n) \<Rightarrow>
           abind now_ms (\<lambda>t.
           let n' = (updated_fields payload n)\<lparr>n_updated := t\<rparr> in
           abind (put_note k n') (\<lambda>_.
           abind (mutate ''note.update'' ''note'' (n_id n')) (\<lambda>_. aret (ok_note n')))))"

definition get_note :: "pyval dict \<Rightarrow> vault \<Rightarrow> pyval" where
  "get_note payload v =
     (case dget (v_notes v) (str_or (getn payload ''id'') []) of
        None \<Rightarrow> not_found ''vault.note.get''
      | Some n \<Rightarrow> ok_note n)"

text \<open>
  The three filters of a list, each of which an empty or absent field leaves out. \<open>str.lower\<close>, which
  knows the letters of every script, is the parameter \<open>lower\<close>.
\<close>

definition wanted :: "(string \<Rightarrow> string) \<Rightarrow> string list \<Rightarrow> string option \<Rightarrow> string list \<Rightarrow> vault_note \<Rightarrow> bool" where
  "wanted lower ids needle tags n \<longleftrightarrow>
     (ids = [] \<or> n_id n \<in> set ids)
     \<and> (case needle of None \<Rightarrow> True
        | Some s \<Rightarrow> in_text (lower s) (lower (n_title n)) \<or> in_text (lower s) (lower (n_content n)))
     \<and> (tags = [] \<or> set tags \<subseteq> set (n_tags n))"

text \<open>\<open>notes.sort(key=getattr(note, _sort_field(sort_by)), reverse=reverse)\<close>\<close>

definition sort_notes :: "string \<Rightarrow> bool \<Rightarrow> vault_note list \<Rightarrow> vault_note list" where
  "sort_notes field reversed ns =
     (if field = ''title'' then sort_key (directed str_less reversed) n_title ns
      else if field = ''createdAt'' then sort_key (directed (<) reversed) n_created ns
      else if field = ''updatedAt'' then sort_key (directed (<) reversed) n_updated ns
      else sort_key (directed str_less reversed) n_id ns)"

definition list_answer :: "vault_note list \<Rightarrow> pyval" where
  "list_answer ns = VDict
     [(''status'', VStr ''ok''), (''notes'', VList (map note_json ns)), (''count'', VInt (int (length ns)))]"

definition selected :: "(string \<Rightarrow> string) \<Rightarrow> pyval dict \<Rightarrow> vault \<Rightarrow> vault_note list res" where
  "selected lower payload v =
     rbind (iter_strs (getd payload ''ids'' (VList []))) (\<lambda>ids.
     rbind (iter_strs (getd payload ''tags'' (VList []))) (\<lambda>tags.
     let field = (case str_opt (getn payload ''sortBy'') of Some s \<Rightarrow> s | None \<Rightarrow> ''id'') in
     Inr (sort_notes field (truthy (getd payload ''descending'' (VBool False)))
            (filter (wanted lower ids (str_opt (getn payload ''text'')) tags) (dvalues (v_notes v))))))"

definition list_notes :: "(string \<Rightarrow> string) \<Rightarrow> pyval dict \<Rightarrow> vault \<Rightarrow> pyval res" where
  "list_notes lower payload v =
     rbind (selected lower payload v) (\<lambda>ns.
     rbind (int_of (py_or (getd payload ''offset'' (VInt 0)) (VInt 0))) (\<lambda>offset.
     let n = VInt (int (length ns)) in
     rbind (int_of (py_or (getd payload ''limit'' n) n)) (\<lambda>limit.
       Inr (list_answer (py_slice ns offset (offset + limit))))))"

definition make_link :: "string \<Rightarrow> string \<Rightarrow> string \<Rightarrow> int \<Rightarrow> pyval dict" where
  "make_link from_id to_id relationship t =
     [(''fromNoteID'', VStr from_id), (''toNoteID'', VStr to_id),
      (''relationship'', VStr relationship), (''createdAtEpochMs'', VInt t)]"

definition add_link :: "pyval dict \<Rightarrow> pyval vault_act" where
  "add_link payload =
     (case (str_opt (py_or (getn payload ''fromNoteID'') (getn payload ''from'')),
            str_opt (py_or (getn payload ''toNoteID'') (getn payload ''to''))) of
        (Some from_id, Some to_id) \<Rightarrow>
          abind now_ms (\<lambda>t.
          let link = make_link from_id to_id
                (case str_opt (getn payload ''relationship'') of Some r \<Rightarrow> r | None \<Rightarrow> ''wiki'') t;
              answer = VDict [(''status'', VStr ''ok''), (''link'', VDict link)] in
          abind (the_vault v_links) (\<lambda>links.
            if list_ex (\<lambda>l. py_eq (VDict link) (VDict l)) links then aret answer
            else abind (mod_vault (\<lambda>v. v\<lparr>v_links := v_links v @ [link]\<rparr>)) (\<lambda>_.
                 abind (mutate ''link.add'' ''link'' (from_id @ ''->'' @ to_id)) (\<lambda>_. aret answer))))
      | _ \<Rightarrow> aret (vault_error ''vault.link.add'' ''field_errors'' ''fromNoteID and toNoteID are required'' []))"

definition links_of :: "pyval dict \<Rightarrow> string \<Rightarrow> string \<Rightarrow> vault \<Rightarrow> pyval" where
  "links_of payload source_key target_key v =
     (case str_opt (py_or (py_or (getn payload ''id'') (getn payload ''noteID'')) (getn payload ''note_id'')) of
        None \<Rightarrow> vault_error ''vault.links'' ''field_errors'' ''id is required'' []
      | Some note_id \<Rightarrow>
          let links = filter (\<lambda>l. getn l source_key = VStr note_id) (v_links v) in
          VDict [(''status'', VStr ''ok''), (''links'', VList (map VDict links)),
                 (''ids'', VList (map (\<lambda>l. getn l target_key) links))])"

definition state_payload :: "pyval vault_act" where
  "state_payload =
     abind (the_vault id) (\<lambda>v. abind now_ms (\<lambda>t.
       let notes = VInt (int (length (v_notes v))); links = VInt (int (length (v_links v))) in
       aret (VDict
         [(''status'', VStr ''ready''), (''cell'', VStr (cl_name (v_cell v))),
          (''schemaVersion'', VStr vault_schema), (''stateVersion'', VInt (v_state_version v)),
          (''noteCount'', notes), (''linkCount'', links), (''note_count'', notes), (''link_count'', links),
          (''notes'', VList (map note_json (sort_key str_less n_id (dvalues (v_notes v))))),
          (''links'', VList (map VDict (v_links v))),
          (''operations'', VList (map VDict (v_operations v))), (''updatedAtEpochMs'', VInt t)])))"

definition get_state :: "string \<Rightarrow> pyval vault_act" where
  "get_state keypath = state_payload"

definition set_vault :: "(string \<Rightarrow> string) \<Rightarrow> string \<Rightarrow> pyval \<Rightarrow> pyval vault_act" where
  "set_vault lower keypath value =
     abind (alift (from_json_value value)) (\<lambda>p.
       case p of
         VDict payload \<Rightarrow>
           if keypath = ''vault.note.create'' then create_note payload
           else if keypath = ''vault.note.update'' then update_note payload
           else if keypath = ''vault.note.get'' then the_vault (get_note payload)
           else if keypath = ''vault.note.list'' then abind (the_vault (list_notes lower payload)) alift
           else if keypath = ''vault.link.add'' then add_link payload
           else if keypath = ''vault.links.forward'' then the_vault (links_of payload ''fromNoteID'' ''toNoteID'')
           else if keypath = ''vault.links.backlinks'' then the_vault (links_of payload ''toNoteID'' ''fromNoteID'')
           else aret (vault_error keypath ''unknown_operation'' keypath [])
       | _ \<Rightarrow> aret (vault_error keypath ''invalid_payload'' ''Vault payload must be an object'' []))"

subsection \<open>What a call can do to the state\<close>

text \<open>The state after a mutation is written to the journal and published.\<close>

definition logged :: "vault \<Rightarrow> string \<Rightarrow> string \<Rightarrow> string \<Rightarrow> int \<Rightarrow> string \<Rightarrow> vault" where
  "logged v operation kind record_id t fresh =
     (let event = mutation (v_state_version v + 1) operation kind record_id t in
      v\<lparr>v_state_version := v_state_version v + 1, v_operations := v_operations v @ [event],
        v_cell := (v_cell v)\<lparr>cl_flow_queue :=
          cl_flow_queue (v_cell v) @ [Some (vault_event event (cl_uuid (v_cell v)) fresh)]\<rparr>\<rparr>)"

text \<open>The abstract vault: a note is put under its id, or a new link is added, and the mutation is logged.\<close>

inductive vault_step :: "vault \<Rightarrow> vault \<Rightarrow> bool" where
  quiet: "vault_step v v"
| created: "vault_step v (logged (v\<lparr>v_notes := dset (v_notes v) (n_id n) n\<rparr>)
              ''note.create'' ''note'' (n_id n) t fresh)"
| updated: "dget (v_notes v) (n_id n) = Some n0 \<Longrightarrow> n_created n = n_created n0 \<Longrightarrow> n_slug n = n_slug n0 \<Longrightarrow>
            vault_step v (logged (v\<lparr>v_notes := dset (v_notes v) (n_id n) n\<rparr>)
              ''note.update'' ''note'' (n_id n) t fresh)"
| linked: "a \<noteq> [] \<Longrightarrow> b \<noteq> [] \<Longrightarrow> r \<noteq> [] \<Longrightarrow> make_link a b r t0 \<notin> set (v_links v) \<Longrightarrow>
           vault_step v (logged (v\<lparr>v_links := v_links v @ [make_link a b r t0]\<rparr>)
              ''link.add'' ''link'' (a @ ''->'' @ b) t fresh)"

definition is_link :: "pyval dict \<Rightarrow> bool" where
  "is_link l \<longleftrightarrow> (\<exists>a b r t. l = make_link a b r t \<and> a \<noteq> [] \<and> b \<noteq> [] \<and> r \<noteq> [])"

definition vault_inv :: "vault \<Rightarrow> bool" where
  "vault_inv v \<longleftrightarrow> distinct (dkeys (v_notes v)) \<and> (\<forall>(k, n) \<in> set (v_notes v). n_id n = k)
     \<and> distinct (v_links v) \<and> (\<forall>l \<in> set (v_links v). is_link l)
     \<and> v_state_version v = int (length (v_operations v))
     \<and> map (\<lambda>m. getn m ''stateVersion'') (v_operations v)
         = map (\<lambda>i. VInt (int i)) [1 ..< Suc (length (v_operations v))]"

lemma logged_simps [simp]:
  "v_notes (logged v a b c t f) = v_notes v" "v_links (logged v a b c t f) = v_links v"
  "v_state_version (logged v a b c t f) = v_state_version v + 1"
  "v_operations (logged v a b c t f) = v_operations v @ [mutation (v_state_version v + 1) a b c t]"
  "cl_flow_queue (v_cell (logged v a b c t f)) = cl_flow_queue (v_cell v)
     @ [Some (vault_event (mutation (v_state_version v + 1) a b c t) (cl_uuid (v_cell v)) f)]"
  by (simp_all add: logged_def Let_def)

lemma mutation_version [simp]: "getn (mutation i a b c t) ''stateVersion'' = VInt i"
  by (simp add: mutation_def getn_def)

lemma vault_step_inv: "vault_step v v' \<Longrightarrow> vault_inv v \<Longrightarrow> vault_inv v'"
proof (induction rule: vault_step.induct)
  case (created v n t fresh)
  then show ?case
    using dset_set [of "n_id n" n "v_notes v"] unfolding vault_inv_def by (auto simp: distinct_dset)
next
  case (updated v n n0 t fresh)
  then show ?case
    using dset_set [of "n_id n" n "v_notes v"] unfolding vault_inv_def by (auto simp: distinct_dset)
next
  case (linked a b r t0 v t fresh)
  then show ?case unfolding vault_inv_def is_link_def by auto
qed

subsection \<open>Calls are steps\<close>

lemma vault_acts [act_simps]:
  "the_vault f (v, e) = (Inr (f v), (v, e))" "mod_vault g (v, e) = (Inr (), (g v, e))"
  "abind (the_vault f) k (v, e) = k (f v) (v, e)" "abind (mod_vault g) m (v, e) = m () (g v, e)"
  by (simp_all add: the_vault_def mod_vault_def aget_def amod_def abind_def)

lemma now_ms_run: "\<exists>t e'. now_ms (v, e) = (Inr t, (v, e'))"
  by (simp add: now_ms_def act_simps abind_def)

lemma fresh_run: "\<exists>u e'. in_cell fresh_uuid (v, e) = (Inr u, (v, e'))"
  by (simp add: in_cell_def fresh_uuid_def act_simps abind_def)

lemma push_run: "in_cell (push_flow_element f) (v, e) =
  (Inr (), (v\<lparr>v_cell := (v_cell v)\<lparr>cl_flow_queue := cl_flow_queue (v_cell v) @ [Some f]\<rparr>\<rparr>, e))"
  by (simp add: in_cell_def push_flow_element_def mod_cell_def act_simps)

lemma mutate_run: "\<exists>t fresh e'. mutate a b c (v, e) = (Inr (), (logged v a b c t fresh, e'))"
proof -
  let ?u = "v\<lparr>v_state_version := v_state_version v + 1\<rparr>"
  obtain t e1 where t: "now_ms (?u, e) = (Inr t, (?u, e1))" using now_ms_run by blast
  define event where "event = mutation (v_state_version v + 1) a b c t"
  let ?w = "?u\<lparr>v_operations := v_operations v @ [event]\<rparr>"
  obtain fresh e2 where f: "in_cell fresh_uuid (?w, e1) = (Inr fresh, (?w, e2))" using fresh_run by blast
  have "mutate a b c (v, e) = (Inr (), (logged v a b c t fresh, e2))"
    using f by (simp add: mutate_def abind_def act_run the_vault_def mod_vault_def t Let_def event_def [symmetric]
        f push_run logged_def)
  then show ?thesis by blast
qed

lemma new_note_id_run: "\<exists>k e'. new_note_id payload (v, e) = (Inr k, (v, e'))"
  unfolding new_note_id_def using fresh_run by (auto split: option.split simp: act_simps)

lemma create_note_step:
  assumes "create_note payload (v, e) = (r, (v', e'))"
  shows "vault_step v v' \<and> (\<forall>x. r = Inl x \<longrightarrow> v' = v)"
proof (cases "str_opt (getn payload ''title'')")
  case None
  with assms show ?thesis by (auto simp: create_note_def act_simps intro: quiet)
next
  case ttl: (Some ttl)
  show ?thesis
  proof (cases "str_val (getn payload ''content'')")
    case None
    with assms ttl show ?thesis by (auto simp: create_note_def act_simps intro: quiet)
  next
    case content: (Some content)
    obtain k e1 where k: "new_note_id payload (v, e) = (Inr k, (v, e1))" using new_note_id_run by blast
    obtain t e2 where t: "now_ms (v, e1) = (Inr t, (v, e2))" using now_ms_run by blast
    show ?thesis
    proof (cases "iter_strs (getd payload ''tags'' (VList []))")
      case (Inl x)
      with assms ttl content show ?thesis
        by (auto simp: create_note_def abind_def act_run k t intro: quiet)
    next
      case (Inr tags)
      define n where "n = \<lparr>n_id = k, n_title = ttl, n_content = content,
        n_slug = str_val (getn payload ''slug''), n_tags = tags, n_created = t, n_updated = t\<rparr>"
      let ?u = "v\<lparr>v_notes := dset (v_notes v) k n\<rparr>"
      obtain t' fresh e3 where m: "mutate ''note.create'' ''note'' k (?u, e2)
          = (Inr (), (logged ?u ''note.create'' ''note'' k t' fresh, e3))" using mutate_run by blast
      have "create_note payload (v, e) = (Inr (ok_note n), (logged ?u ''note.create'' ''note'' k t' fresh, e3))"
        using ttl content Inr
        by (simp add: create_note_def k t abind_def act_run
            put_note_def mod_vault_def Let_def n_def [symmetric] m)
      moreover have "n_id n = k" by (simp add: n_def)
      ultimately show ?thesis using assms created [of v n t' fresh] by auto
    qed
  qed
qed

lemma updated_fields_keeps:
  "n_id (updated_fields p n) = n_id n" "n_created (updated_fields p n) = n_created n"
  "n_slug (updated_fields p n) = n_slug n"
  by (simp_all add: updated_fields_def Let_def split: pyval.split)

lemma update_note_step:
  assumes inv: "vault_inv v" and run: "update_note payload (v, e) = (r, (v', e'))"
  shows "vault_step v v' \<and> (\<forall>x. r = Inl x \<longrightarrow> v' = v)"
proof (cases "Option.bind (str_opt (getn payload ''id'')) (\<lambda>k. map_option (Pair k) (dget (v_notes v) k))")
  case None
  with run show ?thesis by (auto simp: update_note_def act_simps intro: quiet)
next
  case (Some kn)
  then obtain k n where kn: "kn = (k, n)" and n: "dget (v_notes v) k = Some n"
    by (auto simp: bind_eq_Some_conv)
  have id: "n_id n = k" using inv map_of_SomeD [OF n] unfolding vault_inv_def by blast
  obtain t e1 where t: "now_ms (v, e) = (Inr t, (v, e1))" using now_ms_run by blast
  define n' where "n' = (updated_fields payload n)\<lparr>n_updated := t\<rparr>"
  have n': "n_id n' = k" "n_created n' = n_created n" "n_slug n' = n_slug n"
    by (simp_all add: n'_def updated_fields_keeps id)
  let ?u = "v\<lparr>v_notes := dset (v_notes v) k n'\<rparr>"
  obtain t' fresh e3 where m: "mutate ''note.update'' ''note'' k (?u, e1)
      = (Inr (), (logged ?u ''note.update'' ''note'' k t' fresh, e3))" using mutate_run by blast
  have "update_note payload (v, e) = (Inr (ok_note n'), (logged ?u ''note.update'' ''note'' k t' fresh, e3))"
    using Some
    by (simp add: kn update_note_def abind_def the_vault_def mod_vault_def act_run t put_note_def Let_def n'_def [symmetric] updated_fields_keeps id m)
  then show ?thesis using run updated [of v n' n t' fresh] n n' by auto
qed

lemma link_eq: "py_eq (VDict (make_link a b r t)) (VDict l) \<and> is_link l \<longleftrightarrow> l = make_link a b r t \<and> is_link l"
  by (auto simp: is_link_def make_link_def)

lemma add_link_step:
  assumes inv: "vault_inv v" and run: "add_link payload (v, e) = (r, (v', e'))"
  shows "vault_step v v' \<and> (\<forall>x. r = Inl x \<longrightarrow> v' = v)"
proof -
  let ?a = "str_opt (py_or (getn payload ''fromNoteID'') (getn payload ''from''))"
  let ?b = "str_opt (py_or (getn payload ''toNoteID'') (getn payload ''to''))"
  show ?thesis
  proof (cases "?a = None \<or> ?b = None")
    case True
    with run show ?thesis by (auto simp: add_link_def act_simps intro: quiet split: option.splits)
  next
    case False
    then obtain a b where ab: "?a = Some a" "?b = Some b" by auto
    define rel where "rel = (case str_opt (getn payload ''relationship'') of Some r \<Rightarrow> r | None \<Rightarrow> ''wiki'')"
    have ne: "a \<noteq> []" "b \<noteq> []" "rel \<noteq> []"
      using ab by (auto simp: str_opt_def rel_def split: pyval.splits if_splits)
    obtain t e1 where t: "now_ms (v, e) = (Inr t, (v, e1))" using now_ms_run by blast
    define l where "l = make_link a b rel t"
    define answer where "answer = VDict [(''status'', VStr ''ok''), (''link'', VDict l)]"
    let ?u = "v\<lparr>v_links := v_links v @ [l]\<rparr>"
    obtain t' fresh e3 where m: "mutate ''link.add'' ''link'' (a @ ''->'' @ b) (?u, e1)
        = (Inr (), (logged ?u ''link.add'' ''link'' (a @ ''->'' @ b) t' fresh, e3))" using mutate_run by blast
    have "add_link payload (v, e) =
        (if list_ex (\<lambda>k. py_eq (VDict l) (VDict k)) (v_links v) then (Inr answer, (v, e1))
         else (Inr answer, (logged ?u ''link.add'' ''link'' (a @ ''->'' @ b) t' fresh, e3)))"
      using ab
      by (simp add: add_link_def abind_def the_vault_def mod_vault_def act_run t Let_def rel_def [symmetric] l_def [symmetric]
          answer_def [symmetric] m [unfolded append.simps] del: py_eq.simps)
    moreover have "l \<notin> set (v_links v)" if "\<not> list_ex (\<lambda>k. py_eq (VDict l) (VDict k)) (v_links v)"
      using that link_eq [of a b rel t l] inv ne
      by (auto simp: list_ex_iff l_def [symmetric] vault_inv_def is_link_def)
    ultimately show ?thesis using run linked [of a b rel t v t' fresh] ne quiet [of v]
      by (auto simp: l_def [symmetric] simp del: py_eq.simps split: if_splits)
  qed
qed

lemma set_vault_step:
  assumes inv: "vault_inv v" and run: "set_vault lower keypath value (v, e) = (r, (v', e'))"
  shows "vault_step v v' \<and> (\<forall>x. r = Inl x \<longrightarrow> v' = v)"
proof (cases "from_json_value value")
  case (Inl x)
  with run show ?thesis by (auto simp: set_vault_def abind_def act_run intro: quiet)
next
  case (Inr p)
  show ?thesis
  proof (cases "\<exists>payload. p = VDict payload")
    case True
    then obtain payload where p: "p = VDict payload" by blast
    have run': "(if keypath = ''vault.note.create'' then create_note payload
           else if keypath = ''vault.note.update'' then update_note payload
           else if keypath = ''vault.note.get'' then the_vault (get_note payload)
           else if keypath = ''vault.note.list'' then abind (the_vault (list_notes lower payload)) alift
           else if keypath = ''vault.link.add'' then add_link payload
           else if keypath = ''vault.links.forward'' then the_vault (links_of payload ''fromNoteID'' ''toNoteID'')
           else if keypath = ''vault.links.backlinks'' then the_vault (links_of payload ''toNoteID'' ''fromNoteID'')
           else aret (vault_error keypath ''unknown_operation'' keypath [])) (v, e) = (r, (v', e'))"
      using run Inr p by (simp add: set_vault_def abind_def [of "alift _"] act_run(5))
    consider "keypath = ''vault.note.create''" | "keypath = ''vault.note.update''"
      | "keypath = ''vault.link.add''" | "v' = v"
      using run' by (force simp: vault_acts act_run split: if_splits)
    then show ?thesis
    proof cases
      case 1 with run' show ?thesis by (intro create_note_step) simp
    next
      case 2 with run' inv show ?thesis by (intro update_note_step) simp_all
    next
      case 3 with run' inv show ?thesis by (intro add_link_step) simp_all
    qed (auto intro: quiet)
  next
    case False
    with run Inr show ?thesis
      by (cases p) (auto simp: set_vault_def abind_def act_run intro: quiet)
  qed
qed

subsection \<open>Runs\<close>

text \<open>The calls of \<open>set\<close> one after the other; a call that raises leaves the next one its state.\<close>

definition vault_run :: "(string \<Rightarrow> string) \<Rightarrow> (string \<times> pyval) list \<Rightarrow> vault \<times> vault_env \<Rightarrow> vault \<times> vault_env" where
  "vault_run lower calls s = fold (\<lambda>(keypath, value) s. snd (set_vault lower keypath value s)) calls s"

definition published :: "vault \<Rightarrow> pyval list" where
  "published v = map (\<lambda>f. case f of Some e \<Rightarrow> f_content e | None \<Rightarrow> VNull) (cl_flow_queue (v_cell v))"

lemma new_vault_inv: "vault_inv (new_vault owner name u t g)"
  by (simp add: vault_inv_def new_vault_def Let_def)

lemma step_published:
  "vault_step v v' \<Longrightarrow> published v = map VDict (v_operations v) \<Longrightarrow> published v' = map VDict (v_operations v')"
  by (induction rule: vault_step.induct) (simp_all add: published_def vault_event_def logged_def Let_def)

lemma vault_run_steps:
  "vault_inv (fst s) \<Longrightarrow> vault_step\<^sup>*\<^sup>* (fst s) (fst (vault_run lower calls s)) \<and> vault_inv (fst (vault_run lower calls s))"
proof (induction calls arbitrary: s)
  case (Cons c calls)
  obtain keypath x where c: "c = (keypath, x)" by (cases c)
  obtain v e where s: "s = (v, e)" by (cases s)
  obtain r v' e' where run: "set_vault lower keypath x (v, e) = (r, (v', e'))" by (metis prod.collapse)
  have step: "vault_step v v'" using set_vault_step [OF _ run] Cons.prems s by simp
  with Cons.prems s have "vault_inv v'" by (auto intro: vault_step_inv)
  with Cons.IH [of "(v', e')"] step show ?case
    by (simp add: vault_run_def c s run converse_rtranclp_into_rtranclp)
qed (simp add: vault_run_def)

lemma steps_published:
  "vault_step\<^sup>*\<^sup>* v v' \<Longrightarrow> published v = map VDict (v_operations v) \<Longrightarrow> published v' = map VDict (v_operations v')"
  by (induction rule: rtranclp_induct) (auto intro: step_published)

subsection \<open>Paging\<close>

definition page :: "pyval dict \<Rightarrow> nat \<Rightarrow> nat \<Rightarrow> pyval dict" where
  "page payload psize k =
     dset (dset payload ''offset'' (VInt (int (k * psize)))) ''limit'' (VInt (int psize))"

definition comes_before :: "string \<Rightarrow> bool \<Rightarrow> vault_note \<Rightarrow> vault_note \<Rightarrow> bool" where
  "comes_before field reversed m n =
     (if field = ''title'' then directed str_less reversed (n_title m) (n_title n)
      else if field = ''createdAt'' then directed (<) reversed (n_created m) (n_created n)
      else if field = ''updatedAt'' then directed (<) reversed (n_updated m) (n_updated n)
      else directed str_less reversed (n_id m) (n_id n))"

lemma sort_notes_sorted: "sorted_wrt (\<lambda>m n. \<not> comes_before field reversed n m) (sort_notes field reversed ns)"
  by (simp add: sort_notes_def comes_before_def code_point_directed.sorted_sort_key int_directed.sorted_sort_key)

lemma mset_sort_notes [simp]: "mset (sort_notes field reversed ns) = mset ns"
  by (simp add: sort_notes_def)

lemma getn_page [simp]:
  "k \<noteq> ''offset'' \<Longrightarrow> k \<noteq> ''limit'' \<Longrightarrow> getn (page p psize i) k = getn p k"
  "k \<noteq> ''offset'' \<Longrightarrow> k \<noteq> ''limit'' \<Longrightarrow> getd (page p psize i) k w = getd p k w"
  "getd (page p psize i) ''offset'' w = VInt (int (i * psize))"
  "getd (page p psize i) ''limit'' w = VInt (int psize)"
  by (simp_all add: page_def getn_def getd_def)

lemma selected_page: "selected lower (page p psize i) v = selected lower p v"
  by (simp add: selected_def)

lemma slice_nat: "py_slice xs (int a) (int a + int b) = take b (drop a xs)"
proof (cases "a \<le> length xs")
  case True
  have "nat (int a + int b) = a + b" by simp
  then show ?thesis using True
    by (simp add: py_slice_def clamp_def min_def drop_take)
next
  case False
  have "nat (int a + int b) = a + b" by simp
  with False show ?thesis by (simp add: py_slice_def clamp_def min_def)
qed

lemma list_page:
  assumes "selected lower p v = Inr ns" "0 < psize"
  shows "list_notes lower (page p psize i) v = Inr (list_answer (take psize (drop (i * psize) ns)))"
proof -
  have offset: "py_or (VInt (int (i * psize))) (VInt 0) = VInt (int (i * psize))" by (simp add: py_or_def)
  have limit: "py_or (VInt (int psize)) w = VInt (int psize)" for w using assms(2) by (simp add: py_or_def)
  show ?thesis
    using assms(1) by (simp only: list_notes_def selected_page getn_page offset limit rbind_simps int_of.simps
      Let_def slice_nat)
qed

lemma concat_pages: "concat (map (\<lambda>i. take psize (drop (i * psize) xs)) [0..<m]) = take (m * psize) xs"
proof (induction m)
  case (Suc m)
  have "take (Suc m * psize) xs = take (m * psize + psize) xs" by (simp add: add.commute)
  then show ?case using Suc by (simp add: take_add)
qed simp

subsection \<open>Properties\<close>


text \<open>
  Whatever calls a new vault cell has served, its journal has the versions 1, 2, ... up to
  its state version, the events published are those of the journal in its order, each note is
  stored under its own id and no link twice.
\<close>

lemma vault_journal_complete:
  "let v = fst (vault_run lower calls (new_vault owner name u t g, e)) in
   vault_inv v \<and> published v = map VDict (v_operations v)"
proof -
  let ?v = "new_vault owner name u t g"
  have "vault_step\<^sup>*\<^sup>* ?v (fst (vault_run lower calls (?v, e)))" "vault_inv (fst (vault_run lower calls (?v, e)))"
    using vault_run_steps [of "(?v, e)" lower calls] new_vault_inv by simp_all
  moreover have "published ?v = map VDict (v_operations ?v)"
    by (simp add: new_vault_def new_cell_def published_def Let_def)
  ultimately show ?thesis unfolding Let_def by (blast intro: steps_published)
qed

text \<open>
  C36: a listing page by page is the whole listing: the pages are answered with the notes of the
  selection in its order, every note that fits the filters once, sorted by the field asked for.
\<close>

theorem list_notes_pages:
  assumes "selected lower payload v = Inr ns" "0 < psize" "length ns \<le> pages * psize"
  shows "\<exists>parts. length parts = pages \<and> concat parts = ns
    \<and> (\<forall>i < pages. list_notes lower (page payload psize i) v = Inr (list_answer (parts ! i)))
    \<and> (\<exists>ids tags field reversed.
         mset ns = mset (filter (wanted lower ids (str_opt (getn payload ''text'')) tags) (dvalues (v_notes v)))
       \<and> sorted_wrt (\<lambda>m n. \<not> comes_before field reversed n m) ns
       \<and> iter_strs (getd payload ''ids'' (VList [])) = Inr ids
       \<and> iter_strs (getd payload ''tags'' (VList [])) = Inr tags
       \<and> field = (case str_opt (getn payload ''sortBy'') of Some s \<Rightarrow> s | None \<Rightarrow> ''id'')
       \<and> reversed = truthy (getd payload ''descending'' (VBool False)))"
proof -
  let ?parts = "map (\<lambda>i. take psize (drop (i * psize) ns)) [0..<pages]"
  let ?field = "case str_opt (getn payload ''sortBy'') of Some s \<Rightarrow> s | None \<Rightarrow> ''id''"
  let ?reversed = "truthy (getd payload ''descending'' (VBool False))"
  have parts: "length ?parts = pages" "concat ?parts = ns"
    "\<forall>i < pages. list_notes lower (page payload psize i) v = Inr (list_answer (?parts ! i))"
    using assms(3) list_page [OF assms(1,2)] by (simp_all add: concat_pages)
  obtain ids tags where it: "iter_strs (getd payload ''ids'' (VList [])) = Inr ids"
    "iter_strs (getd payload ''tags'' (VList [])) = Inr tags"
    using assms(1) by (auto simp: selected_def rbind_Inr_iff)
  have ns: "ns = sort_notes ?field ?reversed
      (filter (wanted lower ids (str_opt (getn payload ''text'')) tags) (dvalues (v_notes v)))"
    using assms(1) it by (simp add: selected_def)
  have "mset ns = mset (filter (wanted lower ids (str_opt (getn payload ''text'')) tags) (dvalues (v_notes v)))"
    unfolding ns by (rule mset_sort_notes)
  moreover have "sorted_wrt (\<lambda>m n. \<not> comes_before ?field ?reversed n m) ns"
    unfolding ns by (rule sort_notes_sorted)
  ultimately show ?thesis using parts it by blast
qed

text \<open>
  The two directions of the links agree: \<open>vault.links.forward\<close> of one note names another
  as often as \<open>vault.links.backlinks\<close> of the other names the one.
\<close>

lemma links_agree:
  assumes "a \<noteq> []" "b \<noteq> []"
  shows "\<exists>ls xs ms ys.
    links_of [(''id'', VStr a)] ''fromNoteID'' ''toNoteID'' v
      = VDict [(''status'', VStr ''ok''), (''links'', VList ls), (''ids'', VList xs)]
    \<and> links_of [(''id'', VStr b)] ''toNoteID'' ''fromNoteID'' v
      = VDict [(''status'', VStr ''ok''), (''links'', VList ms), (''ids'', VList ys)]
    \<and> length (filter (\<lambda>x. x = VStr b) xs) = length (filter (\<lambda>y. y = VStr a) ys)"
proof -
  let ?xs = "map (\<lambda>l. getn l ''toNoteID'') (filter (\<lambda>l. getn l ''fromNoteID'' = VStr a) (v_links v))"
  let ?ys = "map (\<lambda>l. getn l ''fromNoteID'') (filter (\<lambda>l. getn l ''toNoteID'' = VStr b) (v_links v))"
  have "length (filter (\<lambda>x. x = VStr b) ?xs) = length (filter (\<lambda>y. y = VStr a) ?ys)"
    by (simp add: filter_map comp_def conj_commute)
  moreover have "str_opt (py_or (py_or (getn [(''id'', VStr s)] ''id'') x) y) = Some s" if "s \<noteq> []" for s x y
    using that by (simp add: getn_def py_or_def str_opt_def)
  ultimately show ?thesis
    using assms unfolding links_of_def by (auto simp: Let_def)
qed

subsection \<open>Concrete calls\<close>

definition example_vault :: vault where
  "example_vault = new_vault None ''Vault'' ''u'' ''t'' ''g''"

definition example_env :: vault_env where
  "example_env =
     \<lparr>e_world = \<lparr>w_outside = example_outside, w_store = empty_store, w_random = (\<lambda>i. []),
                w_uuid = (\<lambda>i. ''id''), w_tick = 0\<rparr>,
      e_clock = (\<lambda>i. 0), e_reads = 0\<rparr>"

definition example_note :: pyval where
  "example_note = VDict [(''id'', VStr ''n1''), (''title'', VStr ''One''), (''content'', VStr ''Links [[n2]]'')]"

lemma example_create:
  "fst (set_vault py_lower ''vault.note.create'' example_note (example_vault, example_env))
     = Inr (ok_note \<lparr>n_id = ''n1'', n_title = ''One'', n_content = ''Links [[n2]]'', n_slug = None,
                      n_tags = [], n_created = 0, n_updated = 0\<rparr>)"
  "v_state_version (fst (snd (set_vault py_lower ''vault.note.create'' example_note (example_vault, example_env)))) = 1"
  by code_simp+


definition listed_vault :: vault where
  "listed_vault = example_vault\<lparr>v_notes := map (\<lambda>(k, t).
     (k, \<lparr>n_id = k, n_title = t, n_content = [], n_slug = None, n_tags = [], n_created = 0, n_updated = 0\<rparr>))
     [(''a'', ''Two''), (''b'', ''One''), (''c'', ''Three'')]\<rparr>"

definition example_query :: "pyval dict" where
  "example_query = [(''text'', VStr ''T''), (''sortBy'', VStr ''title'')]"

lemma example_selected:
  "selected py_lower example_query listed_vault = Inr (map (\<lambda>(k, t).
     \<lparr>n_id = k, n_title = t, n_content = [], n_slug = None, n_tags = [], n_created = 0, n_updated = 0\<rparr>)
     [(''c'', ''Three''), (''a'', ''Two'')])"
  by code_simp

lemma list_notes_pages_witness:
  "\<exists>parts. length parts = 2 \<and> map n_id (concat parts) = [''c'', ''a'']
    \<and> (\<forall>i < 2. list_notes py_lower (page example_query 1 i) listed_vault = Inr (list_answer (parts ! i)))"
  using list_notes_pages [OF example_selected, of 1 2] by force

lemma links_agree_witness:
  "\<exists>ls xs ms ys.
    links_of [(''id'', VStr ''a'')] ''fromNoteID'' ''toNoteID'' example_vault
      = VDict [(''status'', VStr ''ok''), (''links'', VList ls), (''ids'', VList xs)]
    \<and> links_of [(''id'', VStr ''b'')] ''toNoteID'' ''fromNoteID'' example_vault
      = VDict [(''status'', VStr ''ok''), (''links'', VList ms), (''ids'', VList ys)]
    \<and> length (filter (\<lambda>x. x = VStr ''b'') xs) = length (filter (\<lambda>y. y = VStr ''a'') ys)"
  by (rule links_agree) simp_all

end
