(* ===== verification/Graph_Cell.thy ===== *)
theory Graph_Cell
  imports Py_Objects General_Cell
begin

text \<open>
  \<open>cells/graph.py\<close>: an index of the wiki links between notes. The set of nodes and the sets of
  targets are lists without repetitions; their order is never seen, every answer is sorted.
\<close>

record graph =
  gr_cell :: cell
  gr_nodes :: "string list"
  gr_edges :: "string list dict"

type_synonym 'a graph_act = "(graph, 'a) act"

definition new_graph :: "identity option \<Rightarrow> string \<Rightarrow> string \<Rightarrow> string \<Rightarrow> string \<Rightarrow> graph" where
  "new_graph owner name uuid template_uuid grant_uuid =
     (let c = new_cell owner name uuid template_uuid in
      \<lparr>gr_cell = c\<lparr>cl_agreement_template := add_grant ''rw--'' ''graph'' grant_uuid (cl_agreement_template c),
         cl_get_handlers := dset (cl_get_handlers c) ''graph.state'' 0,
         cl_set_handlers := fold (\<lambda>k hs. dset hs k 1)
           [''graph.reindex'', ''graph.outgoing'', ''graph.incoming'', ''graph.neighbors''] (cl_set_handlers c)\<rparr>,
       gr_nodes = [], gr_edges = []\<rparr>)"

definition set_union :: "'a list \<Rightarrow> 'a list \<Rightarrow> 'a list" where
  "set_union xs ys = fold List.insert ys xs"

lemma set_set_union [simp]: "set (set_union xs ys) = set xs \<union> set ys"
  unfolding set_union_def by (induction ys arbitrary: xs) auto

lemma distinct_set_union [simp]: "distinct xs \<Longrightarrow> distinct (set_union xs ys)"
  unfolding set_union_def by (induction ys arbitrary: xs) auto

subsection \<open>The links in a text\<close>

text \<open>
  \<open>re.findall(r"\[\[([^\]]+)\]\]", s)\<close>: from each two opening brackets the run of characters that
  are not closing brackets, when it is not empty and two closing brackets follow. No shorter run
  can match, since a closing bracket has to follow it.
\<close>

definition link_at :: "string \<Rightarrow> (string \<times> string) option" where
  "link_at s =
     (if startswith s ''[['' then
        let rest = drop 2 s; name = takeWhile (\<lambda>c. c \<noteq> CHR '']'') rest;
            after = dropWhile (\<lambda>c. c \<noteq> CHR '']'') rest
        in if name \<noteq> [] \<and> startswith after '']]'' then Some (name, drop 2 after) else None
      else None)"

lemma link_at_shorter: "link_at s = Some (w, t) \<Longrightarrow> length t < length s"
proof -
  assume "link_at s = Some (w, t)"
  then have "startswith s ''[[''" "t = drop 2 (dropWhile (\<lambda>c. c \<noteq> CHR '']'') (drop 2 s))"
    by (auto simp: link_at_def Let_def split: if_splits)
  moreover from this have "s \<noteq> []" by (auto simp: startswith_def)
  moreover have "length (dropWhile (\<lambda>c. c \<noteq> CHR '']'') (drop 2 s)) \<le> length (drop 2 s)"
    by (rule length_dropWhile_le)
  ultimately show ?thesis by (cases s) auto
qed

function wiki_links :: "string \<Rightarrow> string list" where
  "wiki_links [] = []"
| "wiki_links (c # cs) =
     (case link_at (c # cs) of Some (w, t) \<Rightarrow> w # wiki_links t | None \<Rightarrow> wiki_links cs)"
  by pat_completeness auto
termination
  by (relation "measure length") (auto dest: link_at_shorter)

subsection \<open>Operations\<close>

fun content_text :: "pyval \<Rightarrow> string" where
  "content_text (VStr s) = s"
| "content_text v = []"

definition index_note :: "pyval \<Rightarrow> graph \<Rightarrow> graph" where
  "index_note item g =
     (case item of
        VDict d \<Rightarrow> (case getn d ''id'' of
            VStr note_id \<Rightarrow>
              let targets = remdups (wiki_links (content_text (getd d ''content'' (VStr [])))) in
              g\<lparr>gr_nodes := set_union (List.insert note_id (gr_nodes g)) targets,
                gr_edges := dset (gr_edges g) note_id targets\<rparr>
          | _ \<Rightarrow> g)
      | _ \<Rightarrow> g)"

definition edge_count :: "graph \<Rightarrow> nat" where
  "edge_count g = sum_list (map length (dvalues (gr_edges g)))"

definition reindex :: "pyval dict \<Rightarrow> pyval graph_act" where
  "reindex payload =
     abind (amod (\<lambda>g. g\<lparr>gr_nodes := [], gr_edges := []\<rparr>)) (\<lambda>_.
     abind (alift (iter_vals (getd payload ''notes'' (VList [])))) (\<lambda>items.
     abind (amod (fold index_note items)) (\<lambda>_.
     aget (\<lambda>g. VDict [(''status'', VStr ''ok''), (''nodeCount'', VInt (int (length (gr_nodes g)))),
                      (''edgeCount'', VInt (int (edge_count g)))]))))"

text \<open>\<open>_node_id\<close>: the first of the keys that holds a string, empty or not.\<close>

definition node_id :: "pyval dict \<Rightarrow> string option" where
  "node_id payload =
     (case List.map_filter (\<lambda>k. str_val (getn payload k)) [''id'', ''node-id'', ''note_id'', ''noteID''] of
        [] \<Rightarrow> None | s # _ \<Rightarrow> Some s)"

definition sorted_ids :: "string list \<Rightarrow> pyval" where
  "sorted_ids xs = VDict [(''status'', VStr ''ok''), (''ids'', VList (map VStr (sort_by str_less xs)))]"

definition outgoing :: "graph \<Rightarrow> string \<Rightarrow> string list" where
  "outgoing g node = (case dget (gr_edges g) node of Some ts \<Rightarrow> ts | None \<Rightarrow> [])"

definition incoming :: "graph \<Rightarrow> string \<Rightarrow> string list" where
  "incoming g node = map fst (filter (\<lambda>(s, ts). node \<in> set ts) (gr_edges g))"

definition graph_error :: "string \<Rightarrow> pyval" where
  "graph_error message = VDict [(''status'', VStr ''error''), (''message'', VStr message)]"

definition set_graph :: "string \<Rightarrow> pyval \<Rightarrow> pyval graph_act" where
  "set_graph keypath value =
     abind (alift (from_json_value value)) (\<lambda>p.
       case p of
         VDict payload \<Rightarrow>
           if keypath = ''graph.reindex'' then reindex payload
           else (case node_id payload of
               None \<Rightarrow> aret (graph_error ''id is required'')
             | Some node \<Rightarrow>
                 if node = [] then aret (graph_error ''id is required'')
                 else if keypath = ''graph.outgoing'' then aget (\<lambda>g. sorted_ids (outgoing g node))
                 else if keypath = ''graph.incoming'' then aget (\<lambda>g. sorted_ids (incoming g node))
                 else if keypath = ''graph.neighbors'' then
                   aget (\<lambda>g. sorted_ids (set_union (outgoing g node) (incoming g node)))
                 else aret (graph_error (''unknown operation '' @ keypath)))
       | _ \<Rightarrow> aret (graph_error ''payload must be object''))"

definition graph_state :: "graph \<Rightarrow> pyval" where
  "graph_state g = VDict
     [(''status'', VStr ''ready''), (''nodeCount'', VInt (int (length (gr_nodes g)))),
      (''edgeCount'', VInt (int (edge_count g))),
      (''nodes'', VList (map VStr (sort_by str_less (gr_nodes g)))),
      (''edges'', VList (concat (map (\<lambda>(source, targets).
          map (\<lambda>target. VDict [(''from'', VStr source), (''to'', VStr target)]) (sort_by str_less targets))
        (sort_key str_less fst (gr_edges g)))))]"

subsection \<open>The invariant\<close>

definition graph_inv :: "graph \<Rightarrow> bool" where
  "graph_inv g \<longleftrightarrow> distinct (gr_nodes g) \<and> distinct (dkeys (gr_edges g))
     \<and> (\<forall>(s, ts) \<in> set (gr_edges g). s \<in> set (gr_nodes g) \<and> distinct ts \<and> set ts \<subseteq> set (gr_nodes g))"

lemma index_note_inv: "graph_inv g \<Longrightarrow> graph_inv (index_note item g)"
proof -
  assume inv: "graph_inv g"
  have "graph_inv (g\<lparr>gr_nodes := set_union (List.insert n (gr_nodes g)) ts, gr_edges := dset (gr_edges g) n ts\<rparr>)"
    if "distinct ts" for n ts
  proof -
    let ?nodes = "set_union (List.insert n (gr_nodes g)) ts"
    have "s \<in> set ?nodes \<and> distinct us \<and> set us \<subseteq> set ?nodes"
      if "(s, us) \<in> set (dset (gr_edges g) n ts)" for s us
    proof -
      have "(s, us) = (n, ts) \<or> (s, us) \<in> set (gr_edges g)" using that dset_set by fast
      moreover have "(s, us) \<in> set (gr_edges g) \<Longrightarrow> s \<in> set (gr_nodes g) \<and> distinct us \<and> set us \<subseteq> set (gr_nodes g)"
        using inv unfolding graph_inv_def by blast
      ultimately show ?thesis using \<open>distinct ts\<close> by auto
    qed
    then show ?thesis using inv unfolding graph_inv_def by (auto simp: distinct_dset)
  qed
  with inv show ?thesis by (auto simp: index_note_def Let_def split: pyval.split)
qed

lemma fold_index_inv: "graph_inv g \<Longrightarrow> graph_inv (fold index_note items g)"
  by (induction items arbitrary: g) (auto intro: index_note_inv)

lemma empty_graph_inv: "graph_inv (g\<lparr>gr_nodes := [], gr_edges := []\<rparr>)"
  by (simp add: graph_inv_def)

lemma reindex_keeps: "keeps_prop graph_inv (reindex payload)"
  unfolding reindex_def
  by (intro keeps_bind keeps_mod keeps_pure) (auto intro: empty_graph_inv fold_index_inv)

lemma set_graph_keeps: "keeps_prop graph_inv (set_graph keypath value)"
  unfolding set_graph_def
proof (rule keeps_bind, rule keeps_pure)
  fix p
  show "keeps_prop graph_inv (case p of
         VDict payload \<Rightarrow>
           if keypath = ''graph.reindex'' then reindex payload
           else (case node_id payload of
               None \<Rightarrow> aret (graph_error ''id is required'')
             | Some node \<Rightarrow>
                 if node = [] then aret (graph_error ''id is required'')
                 else if keypath = ''graph.outgoing'' then aget (\<lambda>g. sorted_ids (outgoing g node))
                 else if keypath = ''graph.incoming'' then aget (\<lambda>g. sorted_ids (incoming g node))
                 else if keypath = ''graph.neighbors'' then
                   aget (\<lambda>g. sorted_ids (set_union (outgoing g node) (incoming g node)))
                 else aret (graph_error (''unknown operation '' @ keypath)))
       | _ \<Rightarrow> aret (graph_error ''payload must be object''))"
    by (cases p) (simp_all add: keeps_pure reindex_keeps split: option.split)
qed

subsection \<open>What the index holds\<close>

text \<open>The text of the last note of an id, and the links in it.\<close>

fun note_text :: "string \<Rightarrow> pyval \<Rightarrow> string option" where
  "note_text k (VDict d) =
     (if getn d ''id'' = VStr k then Some (content_text (getd d ''content'' (VStr []))) else None)"
| "note_text k v = None"

definition last_text :: "pyval list \<Rightarrow> string \<Rightarrow> string option" where
  "last_text items k = fold (\<lambda>item t. case note_text k item of Some s \<Rightarrow> Some s | None \<Rightarrow> t) items None"

definition linked :: "pyval list \<Rightarrow> string \<Rightarrow> string \<Rightarrow> bool" where
  "linked items a b \<longleftrightarrow> (case last_text items a of Some s \<Rightarrow> b \<in> set (wiki_links s) | None \<Rightarrow> False)"

lemma index_note_edges:
  "dget (gr_edges (index_note item g)) k =
     (case note_text k item of Some s \<Rightarrow> Some (remdups (wiki_links s)) | None \<Rightarrow> dget (gr_edges g) k)"
  by (auto simp: index_note_def Let_def split: pyval.split)

lemma fold_index_edges:
  "dget (gr_edges (fold index_note items g)) k =
     (case fold (\<lambda>item t. case note_text k item of Some s \<Rightarrow> Some s | None \<Rightarrow> t) items None of
        Some s \<Rightarrow> Some (remdups (wiki_links s)) | None \<Rightarrow> dget (gr_edges g) k)"
proof (induction items rule: rev_induct)
  case (snoc item items)
  then show ?case by (auto simp: index_note_edges split: option.split)
qed simp

definition indexed :: "pyval list \<Rightarrow> graph \<Rightarrow> graph" where
  "indexed items g = fold index_note items (g\<lparr>gr_nodes := [], gr_edges := []\<rparr>)"

lemma indexed_inv: "graph_inv (indexed items g)"
  unfolding indexed_def by (intro fold_index_inv empty_graph_inv)

lemma outgoing_indexed: "set (outgoing (indexed items g) a) = {b. linked items a b}"
  by (auto simp: outgoing_def indexed_def fold_index_edges linked_def last_text_def split: option.split)

lemma outgoing_distinct: "graph_inv g \<Longrightarrow> distinct (outgoing g a)"
  by (auto simp: outgoing_def graph_inv_def split: option.split dest: map_of_SomeD)

lemma incoming_outgoing: "graph_inv g \<Longrightarrow> b \<in> set (incoming g a) \<longleftrightarrow> a \<in> set (outgoing g b)"
  by (force simp: incoming_def outgoing_def graph_inv_def split: option.split dest: map_of_SomeD)

lemma incoming_distinct: "graph_inv g \<Longrightarrow> distinct (incoming g a)"
  unfolding incoming_def graph_inv_def by (auto intro: distinct_map_filter)

lemma sorted_distinct: "distinct xs \<Longrightarrow> sorted_wrt str_less (sort_by str_less xs)"
proof -
  assume "distinct xs"
  then have "distinct (sort_by str_less xs)"
    by (metis mset_eq_imp_distinct_iff mset_sort_by)
  moreover have "sorted_wrt (\<lambda>x y. \<not> str_less y x) (sort_by str_less xs)"
    by (rule code_point.sorted_sort_by)
  ultimately have "sorted_wrt (\<lambda>x y. x \<noteq> y \<and> \<not> str_less y x) (sort_by str_less xs)"
    by (simp add: sorted_wrt_iff_nth_less nth_eq_iff_index_eq)
  then show ?thesis by (rule sorted_wrt_mono_rel [rotated]) (use str_less_linear in blast)
qed

text \<open>One query, and the form of an answer.\<close>

definition query_graph :: "string \<Rightarrow> string \<Rightarrow> graph \<Rightarrow> pyval res" where
  "query_graph operation a g = fst (set_graph operation (VDict [(''id'', VStr a)]) g)"

definition ids_answer :: "string list \<Rightarrow> pyval" where
  "ids_answer xs = VDict [(''status'', VStr ''ok''), (''ids'', VList (map VStr xs))]"

definition after_reindex :: "pyval list \<Rightarrow> graph \<Rightarrow> graph" where
  "after_reindex items g = snd (set_graph ''graph.reindex'' (VDict [(''notes'', VList items)]) g)"

subsection \<open>Properties\<close>

text \<open>
  C22: after \<open>graph.reindex\<close> of a list of notes the index answers from those notes alone:
  \<open>graph.outgoing\<close> of a note gives the links in the text of the last note of that id,
  \<open>graph.incoming\<close> the notes that link to it, \<open>graph.neighbors\<close> both, each id once and in the
  order of code points.
\<close>

theorem reindex_answers:
  assumes "is_json_list items" "a \<noteq> []"
  shows "\<exists>to_a from_a all_a.
    query_graph ''graph.outgoing'' a (after_reindex items g) = Inr (ids_answer from_a)
    \<and> query_graph ''graph.incoming'' a (after_reindex items g) = Inr (ids_answer to_a)
    \<and> query_graph ''graph.neighbors'' a (after_reindex items g) = Inr (ids_answer all_a)
    \<and> set from_a = {b. linked items a b} \<and> set to_a = {b. linked items b a}
    \<and> set all_a = set from_a \<union> set to_a
    \<and> sorted_wrt str_less from_a \<and> sorted_wrt str_less to_a \<and> sorted_wrt str_less all_a"
proof -
  define g' where "g' = after_reindex items g"
  have g': "g' = indexed items g"
    using assms(1) unfolding g'_def after_reindex_def
    by (simp add: set_graph_def from_json_id abind_def act_run reindex_def getd_def indexed_def)
  have inv: "graph_inv g'" unfolding g' by (rule indexed_inv)
  have node: "node_id [(''id'', VStr a)] = Some a"
    by (simp add: node_id_def List.map_filter_def getn_def)
  have "query_graph ''graph.outgoing'' a g' = Inr (sorted_ids (outgoing g' a))"
    "query_graph ''graph.incoming'' a g' = Inr (sorted_ids (incoming g' a))"
    "query_graph ''graph.neighbors'' a g' = Inr (sorted_ids (set_union (outgoing g' a) (incoming g' a)))"
    using assms(2) by (simp_all add: query_graph_def set_graph_def abind_def act_run node)
  moreover have "set (outgoing g' a) = {b. linked items a b}" "set (incoming g' a) = {b. linked items b a}"
    using outgoing_indexed [of items g] incoming_outgoing [OF inv] unfolding g' by auto
  moreover have "distinct (outgoing g' a)" "distinct (incoming g' a)"
    using outgoing_distinct [OF inv] incoming_distinct [OF inv] by auto
  ultimately show ?thesis unfolding g'_def [symmetric] ids_answer_def sorted_ids_def
    by (intro exI [of _ "sort_by str_less (incoming g' a)"] exI [of _ "sort_by str_less (outgoing g' a)"]
      exI [of _ "sort_by str_less (set_union (outgoing g' a) (incoming g' a))"])
      (simp add: sorted_distinct)
qed

subsection \<open>Concrete notes\<close>

definition example_notes :: "pyval list" where
  "example_notes =
     [VDict [(''id'', VStr ''a''), (''content'', VStr ''see [[b]], [[c]] and [[b]]'')],
      VDict [(''id'', VStr ''b''), (''content'', VStr ''[[a]] [[]] [[x'')],
      VDict [(''id'', VStr ''a''), (''content'', VStr ''[[b]] only'')]]"

lemma reindex_answers_witness:
  "\<exists>to_a from_a all_a.
    query_graph ''graph.outgoing'' ''a'' (after_reindex example_notes (new_graph None ''G'' ''u'' ''t'' ''g''))
      = Inr (ids_answer from_a)
    \<and> query_graph ''graph.incoming'' ''a'' (after_reindex example_notes (new_graph None ''G'' ''u'' ''t'' ''g''))
      = Inr (ids_answer to_a)
    \<and> query_graph ''graph.neighbors'' ''a'' (after_reindex example_notes (new_graph None ''G'' ''u'' ''t'' ''g''))
      = Inr (ids_answer all_a)
    \<and> set all_a = set from_a \<union> set to_a
    \<and> linked example_notes ''a'' ''b'' \<and> \<not> linked example_notes ''a'' ''c'' \<and> ''b'' \<in> set from_a"
proof -
  have "is_json_list example_notes" by (simp add: example_notes_def)
  moreover have "linked example_notes ''a'' ''b''" "\<not> linked example_notes ''a'' ''c''" by code_simp+
  ultimately show ?thesis
    using reindex_answers [of example_notes "''a''" "new_graph None ''G'' ''u'' ''t'' ''g''"] by blast
qed

end
