(* ===== verification/Configuration.thy ===== *)
theory Configuration
  imports Py_Objects
begin

text \<open>
  \<open>configuration.py\<close>: what a cell configuration is and its JSON form: the skeleton, the discovery
  data and the tree of references. A reference has references below it, so it is a datatype. A set
  of keypaths is a list without repetitions.
\<close>

subsection \<open>Skeletons\<close>

definition SUPPORTED_SKELETON_ELEMENTS :: "string list" where
  "SUPPORTED_SKELETON_ELEMENTS =
    [''List'', ''Object'', ''Spacer'', ''Image'', ''Text'', ''AttachmentField'', ''FileUpload'',
     ''TextField'', ''TextArea'', ''HStack'', ''VStack'', ''Reference'', ''Button'', ''Divider'',
     ''ScrollView'', ''Section'', ''Tabs'', ''ZStack'', ''Grid'', ''Toggle'', ''Picker'', ''Visualization'']"

record skeleton =
  sk_kind :: string
  sk_payload :: pyval

definition SkeletonElement_from_json :: "pyval \<Rightarrow> skeleton res" where
  "SkeletonElement_from_json value =
     (case value of
        VDict d \<Rightarrow>
          (if length d = 1 \<and> fst (hd d) \<in> set SUPPORTED_SKELETON_ELEMENTS then
             rbind (from_json_value (snd (hd d))) (\<lambda>p. Inr \<lparr>sk_kind = fst (hd d), sk_payload = p\<rparr>)
           else if ''elements'' \<in> set (dkeys d) then
             rbind (from_json_value value) (\<lambda>p. Inr \<lparr>sk_kind = ''Object'', sk_payload = p\<rparr>)
           else Inl ConfigurationError)
      | _ \<Rightarrow> Inl ConfigurationError)"

definition SkeletonElement_to_json :: "skeleton \<Rightarrow> pyval res" where
  "SkeletonElement_to_json s = rbind (to_json_value (sk_payload s)) (\<lambda>j. Inr (VDict [(sk_kind s, j)]))"

text \<open>The strings stored under a key that names a keypath, anywhere in a payload.\<close>

definition names_keypath :: "string \<Rightarrow> bool" where
  "names_keypath key \<longleftrightarrow> endswith key ''keypath'' \<or> endswith key ''Keypath'' \<or> key = ''keypath''"

fun walk :: "pyval \<Rightarrow> string list"
and walk_list :: "pyval list \<Rightarrow> string list"
and walk_items :: "(string \<times> pyval) list \<Rightarrow> string list" where
  "walk (VDict d) = walk_items d"
| "walk (VList vs) = walk_list vs"
| "walk v = []"
| "walk_list [] = []"
| "walk_list (v # vs) = walk v @ walk_list vs"
| "walk_items [] = []"
| "walk_items ((k, v) # d) =
     (if names_keypath k then (case v of VStr s \<Rightarrow> [s] | _ \<Rightarrow> []) else []) @ walk v @ walk_items d"

definition keypaths :: "skeleton \<Rightarrow> string list" where
  "keypaths s = remdups (walk (sk_payload s))"

subsection \<open>Discovery\<close>

definition string_list :: "pyval \<Rightarrow> string list" where
  "string_list v = (case v of VList vs \<Rightarrow> only_strs vs | _ \<Rightarrow> [])"

definition clean_refs :: "string list \<Rightarrow> string list" where
  "clean_refs ss = sort_by str_less (remdups (map py_strip (filter (\<lambda>s. py_strip s \<noteq> []) ss)))"

record discovery =
  dc_endpoint :: "string option"
  dc_cell_name :: "string option"
  dc_purpose :: "string option"
  dc_purpose_description :: "string option"
  dc_interests :: "string list"
  dc_purpose_refs :: "string list"
  dc_interest_refs :: "string list"
  dc_menu_slots :: "string list"
  dc_localized_text :: pyval

definition new_discovery :: discovery where
  "new_discovery =
     \<lparr>dc_endpoint = None, dc_cell_name = None, dc_purpose = None, dc_purpose_description = None,
      dc_interests = [], dc_purpose_refs = [], dc_interest_refs = [], dc_menu_slots = [],
      dc_localized_text = VDict []\<rparr>"

definition discovery_from_json :: "pyval \<Rightarrow> discovery res" where
  "discovery_from_json v =
     (if \<not> truthy v then Inr new_discovery
      else (case v of
          VDict d \<Rightarrow>
            rbind (from_json_value (getd d ''localizedText'' (VDict []))) (\<lambda>texts. Inr
              \<lparr>dc_endpoint = str_val (getn d ''sourceCellEndpoint''),
               dc_cell_name = str_val (getn d ''sourceCellName''),
               dc_purpose = str_val (getn d ''purpose''),
               dc_purpose_description = str_val (getn d ''purposeDescription''),
               dc_interests = string_list (getn d ''interests''),
               dc_purpose_refs = clean_refs (string_list (getn d ''purposeRefs'')),
               dc_interest_refs = clean_refs (string_list (getn d ''interestRefs'')),
               dc_menu_slots = string_list (getn d ''menuSlots''),
               dc_localized_text = texts\<rparr>)
        | _ \<Rightarrow> Inl AttributeError))"

definition strs :: "string list \<Rightarrow> pyval" where
  "strs ss = VList (map VStr ss)"

definition discovery_to_json :: "discovery \<Rightarrow> pyval" where
  "discovery_to_json c = VDict
     [(''sourceCellEndpoint'', none_or (dc_endpoint c)), (''sourceCellName'', none_or (dc_cell_name c)),
      (''purpose'', none_or (dc_purpose c)), (''purposeDescription'', none_or (dc_purpose_description c)),
      (''interests'', strs (dc_interests c)),
      (''purposeRefs'', strs (clean_refs (dc_purpose_refs c))),
      (''interestRefs'', strs (clean_refs (dc_interest_refs c))),
      (''menuSlots'', strs (dc_menu_slots c)), (''localizedText'', dc_localized_text c)]"

subsection \<open>References\<close>

datatype cell_reference = CellReference
  (cr_endpoint: string) (cr_subscribe: bool) (cr_label: string)
  (cr_subscriptions: "cell_reference list") (cr_set: pyval)

definition reference_id :: "cell_reference \<Rightarrow> string" where
  "reference_id r = cr_label r @ '':'' @ cr_endpoint r"

definition only_dicts :: "pyval list \<Rightarrow> pyval dict list" where
  "only_dicts vs = List.map_filter (\<lambda>v. case v of VDict d \<Rightarrow> Some d | _ \<Rightarrow> None) vs"

text \<open>\<open>[item for item in d.get(k, []) or [] if isinstance(item, Mapping)]\<close>\<close>

definition dict_items :: "pyval dict \<Rightarrow> string \<Rightarrow> pyval dict list res" where
  "dict_items d k =
     rbind (iter_vals (py_or (getd d k (VList [])) (VList []))) (\<lambda>vs. Inr (only_dicts vs))"

lemma only_dicts_simps [simp]:
  "only_dicts [] = []" "only_dicts (VDict d # vs) = d # only_dicts vs"
  "(\<And>d. v \<noteq> VDict d) \<Longrightarrow> only_dicts (v # vs) = only_dicts vs"
  by (cases v; simp add: only_dicts_def List.map_filter_def)+

lemma set_only_dicts: "d \<in> set (only_dicts vs) \<longleftrightarrow> VDict d \<in> set vs"
proof (induction vs)
  case (Cons v vs)
  then show ?case by (cases v) auto
qed simp

lemma only_dicts_map [simp]: "only_dicts (map VDict ds) = ds"
  by (induction ds) auto

text \<open>What a field holds is smaller than the dictionary, so reading references ends.\<close>

definition dict_size :: "pyval dict \<Rightarrow> nat" where
  "dict_size d = size (VDict d)"

lemma value_size: "dget d k = Some v \<Longrightarrow> size v < dict_size d"
  unfolding dict_size_def by (induction d) (auto split: if_splits)

lemma item_size: "v \<in> set vs \<Longrightarrow> size v < size (VList vs)" "v \<in> set vs \<Longrightarrow> size v < size (VTuple vs)"
  by (induction vs) auto

lemma iter_size: "iter_vals v = Inr vs \<Longrightarrow> VDict e \<in> set vs \<Longrightarrow> size (VDict e) < size v"
  by (cases v) (use item_size in \<open>auto simp del: pyval.size\<close>)

lemma dict_items_size: "dict_items d k = Inr ds \<Longrightarrow> e \<in> set ds \<Longrightarrow> dict_size e < dict_size d"
proof -
  assume "dict_items d k = Inr ds" "e \<in> set ds"
  then obtain v vs where v: "v = py_or (getd d k (VList [])) (VList [])" "iter_vals v = Inr vs" "VDict e \<in> set vs"
    by (auto simp: dict_items_def rbind_Inr_iff set_only_dicts)
  then have "v \<noteq> VList []" by auto
  then have "dget d k = Some v" using v(1) by (auto simp: py_or_def getd_def split: if_splits option.splits)
  moreover have "size (VDict e) < size v" using v(2,3) by (rule iter_size)
  ultimately show ?thesis using value_size [of d k v] by (simp add: dict_size_def)
qed

function CellReference_from_json :: "pyval dict \<Rightarrow> cell_reference res" where
  "CellReference_from_json d =
     (case str_opt (getn d ''endpoint'') of
        None \<Rightarrow> Inl ConfigurationError
      | Some endpoint \<Rightarrow>
          rbind (dict_items d ''subscriptions'') (\<lambda>ds.
          rbind (rmap CellReference_from_json ds) (\<lambda>subs.
          rbind (from_json_value (py_or (getd d ''setKeysAndValues'' (VList [])) (VList []))) (\<lambda>sets.
            Inr (CellReference endpoint (truthy (getd d ''subscribeFeed'' (VBool True)))
                   (case str_val (getn d ''label'') of Some s \<Rightarrow> s | None \<Rightarrow> []) subs sets)))))"
  by pat_completeness auto
termination
  by (relation "measure dict_size") (auto intro: dict_items_size)

declare CellReference_from_json.simps [simp del]

fun CellReference_to_json :: "cell_reference \<Rightarrow> pyval dict res" where
  "CellReference_to_json (CellReference endpoint subscribe label subs sets) =
     rbind (rmap CellReference_to_json subs) (\<lambda>js.
     rbind (to_json_value sets) (\<lambda>s.
       Inr [(''endpoint'', VStr endpoint), (''subscribeFeed'', VBool subscribe), (''label'', VStr label),
            (''subscriptions'', VList (map VDict js)), (''setKeysAndValues'', s)]))"

subsection \<open>Configurations\<close>

record configuration =
  cf_name :: string
  cf_uuid :: string
  cf_description :: "string option"
  cf_discovery :: discovery
  cf_references :: "cell_reference list"
  cf_skeleton :: "skeleton option"

definition new_configuration :: "string \<Rightarrow> string \<Rightarrow> configuration" where
  "new_configuration name fresh =
     \<lparr>cf_name = name, cf_uuid = fresh, cf_description = None, cf_discovery = new_discovery,
      cf_references = [],
      cf_skeleton = Some \<lparr>sk_kind = ''Text'', sk_payload = VDict [(''text'', VStr ''Hello HAVEN'')]\<rparr>\<rparr>"

definition CellConfiguration_from_json :: "string \<Rightarrow> pyval dict \<Rightarrow> configuration res" where
  "CellConfiguration_from_json fresh d =
     (case str_opt (getn d ''name'') of
        None \<Rightarrow> Inl ConfigurationError
      | Some name \<Rightarrow>
          rbind (discovery_from_json (getn d ''discovery'')) (\<lambda>disc.
          rbind (dict_items d ''cellReferences'') (\<lambda>ds.
          rbind (rmap CellReference_from_json ds) (\<lambda>refs.
          rbind (if getn d ''skeleton'' = VNull then Inr None
                 else rbind (SkeletonElement_from_json (getn d ''skeleton'')) (\<lambda>s. Inr (Some s))) (\<lambda>skel.
            Inr \<lparr>cf_name = name,
                 cf_uuid = (case str_opt (getn d ''uuid'') of Some u \<Rightarrow> u | None \<Rightarrow> fresh),
                 cf_description = str_val (getn d ''description''), cf_discovery = disc,
                 cf_references = refs, cf_skeleton = skel\<rparr>)))))"

definition CellConfiguration_to_json :: "configuration \<Rightarrow> pyval dict res" where
  "CellConfiguration_to_json c =
     rbind (rmap CellReference_to_json (cf_references c)) (\<lambda>refs.
     let output = [(''uuid'', VStr (cf_uuid c)), (''name'', VStr (cf_name c)),
                   (''description'', none_or (cf_description c)),
                   (''discovery'', discovery_to_json (cf_discovery c)),
                   (''cellReferences'', VList (map VDict refs))] in
     (case cf_skeleton c of
        None \<Rightarrow> Inr output
      | Some s \<Rightarrow> rbind (SkeletonElement_to_json s) (\<lambda>j. Inr (output @ [(''skeleton'', j)]))))"

definition skeleton_keypaths :: "configuration \<Rightarrow> string list" where
  "skeleton_keypaths c = (case cf_skeleton c of Some s \<Rightarrow> keypaths s | None \<Rightarrow> [])"

subsection \<open>What is read\<close>

text \<open>The references and skeletons reading gives.\<close>

fun reference_ok :: "cell_reference \<Rightarrow> bool" where
  "reference_ok (CellReference endpoint subscribe label subs sets) \<longleftrightarrow>
     endpoint \<noteq> [] \<and> list_all reference_ok subs \<and> is_json sets \<and> (truthy sets \<or> sets = VList [])"

definition skeleton_ok :: "skeleton \<Rightarrow> bool" where
  "skeleton_ok s \<longleftrightarrow> sk_kind s \<in> set SUPPORTED_SKELETON_ELEMENTS \<and> is_json (sk_payload s)"

definition discovery_ok :: "discovery \<Rightarrow> bool" where
  "discovery_ok c \<longleftrightarrow> is_json (dc_localized_text c)
     \<and> clean_refs (dc_purpose_refs c) = dc_purpose_refs c
     \<and> clean_refs (dc_interest_refs c) = dc_interest_refs c"

lemma CellReference_from_json_ok: "CellReference_from_json d = Inr r \<Longrightarrow> reference_ok r"
proof (induction d arbitrary: r rule: CellReference_from_json.induct)
  case (1 d)
  then obtain endpoint ds subs sets where parts: "str_opt (getn d ''endpoint'') = Some endpoint"
    "dict_items d ''subscriptions'' = Inr ds" "rmap CellReference_from_json ds = Inr subs"
    "from_json_value (py_or (getd d ''setKeysAndValues'' (VList [])) (VList [])) = Inr sets"
    "r = CellReference endpoint (truthy (getd d ''subscribeFeed'' (VBool True)))
           (case str_val (getn d ''label'') of Some s \<Rightarrow> s | None \<Rightarrow> []) subs sets"
    using "1.prems" by (auto simp: CellReference_from_json.simps [of d] rbind_Inr_iff split: option.splits)
  have "reference_ok s" if "s \<in> set subs" for s
    using rmap_Inr_set [OF parts(3) that] "1.IH" [OF parts(1,2)] by blast
  moreover have "endpoint \<noteq> []" using parts(1) by (auto simp: str_opt_def split: pyval.splits if_splits)
  moreover have "is_json sets" "truthy sets \<or> sets = VList []"
    using parts(4) by (auto simp: from_json_value_iff py_or_def split: if_splits)
  ultimately show ?case using parts(5) by (simp add: list_all_iff)
qed

lemma none_or_simps [simp]: "str_val (none_or x) = x"
  by (cases x) auto

lemma string_list_strs [simp]: "string_list (strs ss) = ss"
  by (simp add: string_list_def strs_def)

lemma CellReference_round_trip:
  "reference_ok r \<Longrightarrow> \<exists>d. CellReference_to_json r = Inr d \<and> CellReference_from_json d = Inr r"
proof (induction r)
  case (CellReference endpoint subscribe label subs sets)
  have "\<exists>ds. rmap CellReference_to_json subs = Inr ds \<and> rmap CellReference_from_json ds = Inr subs"
    using CellReference by (intro rmap_inverse) (simp add: list_all_iff)
  then obtain ds where ds: "rmap CellReference_to_json subs = Inr ds" "rmap CellReference_from_json ds = Inr subs"
    by blast
  define d where "d = [(''endpoint'', VStr endpoint), (''subscribeFeed'', VBool subscribe), (''label'', VStr label),
    (''subscriptions'', VList (map VDict ds)), (''setKeysAndValues'', sets)]"
  have written: "CellReference_to_json (CellReference endpoint subscribe label subs sets) = Inr d"
    using CellReference.prems by (simp add: ds(1) d_def to_json_id)
  have items: "dict_items d ''subscriptions'' = Inr ds"
    by (cases ds) (simp_all add: dict_items_def d_def getd_def py_or_def)
  moreover have fields: "getn d ''endpoint'' = VStr endpoint" "getn d ''label'' = VStr label"
    "getd d ''subscribeFeed'' w = VBool subscribe" "getd d ''setKeysAndValues'' w = sets" for w
    by (simp_all add: d_def getn_def getd_def)
  moreover have "py_or sets (VList []) = sets" using CellReference.prems by (auto simp: py_or_def)
  moreover have "str_opt (VStr endpoint) = Some endpoint" using CellReference.prems by (simp add: str_opt_def)
  ultimately have "CellReference_from_json d = Inr (CellReference endpoint subscribe label subs sets)"
    using CellReference.prems ds(2) by (simp add: CellReference_from_json.simps [of d] from_json_id)
  with written show ?case by blast
qed

lemma SkeletonElement_from_json_ok: "SkeletonElement_from_json v = Inr s \<Longrightarrow> skeleton_ok s"
proof (cases v)
  case (VDict d)
  assume "SkeletonElement_from_json v = Inr s"
  moreover have "''Object'' \<in> set SUPPORTED_SKELETON_ELEMENTS" by (simp add: SUPPORTED_SKELETON_ELEMENTS_def)
  ultimately show ?thesis using VDict from_json_Inr(1)
    by (force simp: SkeletonElement_from_json_def skeleton_ok_def rbind_Inr_iff
        simp del: from_json_value.simps split: if_splits)
qed (simp_all add: SkeletonElement_from_json_def)

lemma SkeletonElement_round_trip:
  "skeleton_ok s \<Longrightarrow> \<exists>d. SkeletonElement_to_json s = Inr (VDict d) \<and> SkeletonElement_from_json (VDict d) = Inr s"
  by (simp add: skeleton_ok_def SkeletonElement_to_json_def SkeletonElement_from_json_def to_json_id from_json_id)

subsection \<open>Discovery data\<close>

lemma clean_refs_idem: "clean_refs (clean_refs ss) = clean_refs ss"
proof -
  let ?r = "remdups (map py_strip (filter (\<lambda>s. py_strip s \<noteq> []) ss))"
  let ?s = "sort_by str_less ?r"
  have ok: "py_strip s = s \<and> s \<noteq> []" if "s \<in> set ?s" for s
  proof -
    have "set ?s = py_strip ` {s \<in> set ss. py_strip s \<noteq> []}" by simp
    with that have "s \<in> py_strip ` {s \<in> set ss. py_strip s \<noteq> []}" by (simp only:)
    then obtain x where x: "s = py_strip x" "x \<in> {s \<in> set ss. py_strip s \<noteq> []}" by (rule imageE)
    have "py_strip s = s" unfolding x(1) by (rule py_strip_idem)
    moreover have "s \<noteq> []" unfolding x(1) using x(2) by (simp only: mem_Collect_eq simp_thms)
    ultimately show ?thesis by (rule conjI)
  qed
  have ok': "py_strip s = s" "py_strip s \<noteq> []" if "s \<in> set ?s" for s
  proof -
    show 1: "py_strip s = s" using ok [OF that] by (rule conjunct1)
    show "py_strip s \<noteq> []" unfolding 1 using ok [OF that] by (rule conjunct2)
  qed
  have "filter (\<lambda>s. py_strip s \<noteq> []) ?s = ?s"
  proof (rule filter_True, rule ballI)
    show "py_strip x \<noteq> []" if "x \<in> set ?s" for x using that by (rule ok'(2))
  qed
  moreover have "map py_strip ?s = ?s" by (rule map_idI) (rule ok'(1))
  moreover have "distinct ?s" by (metis distinct_remdups mset_eq_imp_distinct_iff mset_sort_by)
  ultimately show ?thesis unfolding clean_refs_def by (simp only: distinct_remdups_id code_point.sort_by_idem)
qed

lemma clean_refs_Nil [simp]: "clean_refs [] = []"
  by (simp add: clean_refs_def sort_by_def)

lemma discovery_from_json_ok: "discovery_from_json v = Inr c \<Longrightarrow> discovery_ok c"
proof (cases "truthy v")
  case True
  assume run: "discovery_from_json v = Inr c"
  with True obtain d where v: "v = VDict d" by (cases v) (auto simp: discovery_from_json_def)
  obtain texts where texts: "from_json_value (getd d ''localizedText'' (VDict [])) = Inr texts"
    using run True by (auto simp: discovery_from_json_def v rbind_Inr_iff)
  have "dc_localized_text c = texts" "dc_purpose_refs c = clean_refs (string_list (getn d ''purposeRefs''))"
    "dc_interest_refs c = clean_refs (string_list (getn d ''interestRefs''))"
    using run True unfolding discovery_from_json_def v by (auto simp: texts)
  then show ?thesis using from_json_Inr(1) [OF texts] by (simp add: discovery_ok_def clean_refs_idem)
qed (auto simp: discovery_from_json_def discovery_ok_def new_discovery_def)

lemma discovery_round_trip: "discovery_ok c \<Longrightarrow> discovery_from_json (discovery_to_json c) = Inr c"
  by (simp add: discovery_ok_def discovery_from_json_def discovery_to_json_def getn_def getd_def from_json_id)

subsection \<open>Properties\<close>

definition configuration_ok :: "configuration \<Rightarrow> bool" where
  "configuration_ok c \<longleftrightarrow> cf_name c \<noteq> [] \<and> cf_uuid c \<noteq> [] \<and> discovery_ok (cf_discovery c)
     \<and> list_all reference_ok (cf_references c) \<and> (\<forall>s. cf_skeleton c = Some s \<longrightarrow> skeleton_ok s)"

lemma configuration_from_json_ok:
  "CellConfiguration_from_json fresh d = Inr c \<Longrightarrow> fresh \<noteq> [] \<Longrightarrow> configuration_ok c"
  unfolding CellConfiguration_from_json_def configuration_ok_def
  by (auto simp: rbind_Inr_iff list_all_iff str_opt_def
      dest: discovery_from_json_ok rmap_Inr_set CellReference_from_json_ok SkeletonElement_from_json_ok
      split: option.splits if_splits pyval.splits)

lemma references_round_trip:
  "list_all reference_ok rs \<Longrightarrow>
     \<exists>ds. rmap CellReference_to_json rs = Inr ds \<and> rmap CellReference_from_json ds = Inr rs"
  by (intro rmap_inverse CellReference_round_trip) (simp add: list_all_iff)

lemma configuration_round_trip:
  assumes "configuration_ok c"
  shows "\<exists>d. CellConfiguration_to_json c = Inr d \<and> CellConfiguration_from_json fresh d = Inr c"
proof -
  have refs: "list_all reference_ok (cf_references c)" and disc: "discovery_ok (cf_discovery c)"
    using assms by (auto simp: configuration_ok_def)
  obtain ds where ds: "rmap CellReference_to_json (cf_references c) = Inr ds"
    "rmap CellReference_from_json ds = Inr (cf_references c)"
    using references_round_trip [OF refs] by blast
  define head where "head = [(''uuid'', VStr (cf_uuid c)), (''name'', VStr (cf_name c)),
     (''description'', none_or (cf_description c)), (''discovery'', discovery_to_json (cf_discovery c)),
     (''cellReferences'', VList (map VDict ds))]"
  have items: "dict_items (head @ more) ''cellReferences'' = Inr ds" for more
    by (cases ds) (simp_all add: dict_items_def head_def getd_def py_or_def)
  have fields: "getn (head @ more) ''name'' = VStr (cf_name c)" "getn (head @ more) ''uuid'' = VStr (cf_uuid c)"
    "getn (head @ more) ''description'' = none_or (cf_description c)"
    "getn (head @ more) ''discovery'' = discovery_to_json (cf_discovery c)"
    "getn (head @ more) ''skeleton'' = getn more ''skeleton''" for more
    by (simp_all add: head_def getn_def)
  have ne: "str_opt (VStr (cf_name c)) = Some (cf_name c)" "str_opt (VStr (cf_uuid c)) = Some (cf_uuid c)"
    using assms by (simp_all add: configuration_ok_def str_opt_def)
  show ?thesis
  proof (cases "cf_skeleton c")
    case None
    have "CellConfiguration_from_json fresh (head @ []) = Inr c"
      unfolding CellConfiguration_from_json_def fields items
      by (simp add: ne ds(2) discovery_round_trip [OF disc] getn_def None [symmetric])
    moreover have "CellConfiguration_to_json c = Inr (head @ [])"
      by (simp add: CellConfiguration_to_json_def ds(1) None head_def)
    ultimately show ?thesis by blast
  next
    case (Some s)
    then have "skeleton_ok s" using assms by (simp add: configuration_ok_def)
    then obtain e where e: "SkeletonElement_to_json s = Inr (VDict e)" "SkeletonElement_from_json (VDict e) = Inr s"
      using SkeletonElement_round_trip by blast
    let ?more = "[(''skeleton'', VDict e)]"
    have "CellConfiguration_from_json fresh (head @ ?more) = Inr c"
      unfolding CellConfiguration_from_json_def fields items
      by (simp add: ne ds(2) discovery_round_trip [OF disc] getn_def e(2) Some [symmetric])
    moreover have "CellConfiguration_to_json c = Inr (head @ ?more)"
      by (simp add: CellConfiguration_to_json_def ds(1) Some head_def e(1))
    ultimately show ?thesis by blast
  qed
qed

text \<open>
  C37: a configuration that was read, of whatever form, is written to JSON that is read back as
  the same configuration: names, identifiers, discovery data, the whole tree of references and
  the skeleton.
\<close>

theorem configuration_reads_back:
  assumes "CellConfiguration_from_json fresh d = Inr c" "fresh \<noteq> []"
  shows "\<exists>e. CellConfiguration_to_json c = Inr e \<and> CellConfiguration_from_json fresh' e = Inr c"
  by (rule configuration_round_trip) (rule configuration_from_json_ok [OF assms])

subsection \<open>A concrete configuration\<close>

definition example_configuration :: "pyval dict" where
  "example_configuration =
     [(''name'', VStr ''Demo''), (''uuid'', VStr []),
      (''discovery'', VDict [(''purposeRefs'', VList [VStr '' b '', VStr ''a'', VInt 3, VStr ''b''])]),
      (''cellReferences'', VList
        [VDict [(''endpoint'', VStr ''cell:///Vault''), (''label'', VNull),
                (''subscriptions'', VList [VDict [(''endpoint'', VStr ''cell:///Graph''), (''subscribeFeed'', VInt 0)]]),
                (''setKeysAndValues'', VList [VDict [(''key'', VStr ''state'')]])],
         VStr ''skipped'']),
      (''skeleton'', VDict [(''elements'', VList []), (''keypath'', VStr ''demo.state'')])]"

lemma example_configuration_read:
  "map_sum id (\<lambda>c. (cf_uuid c, dc_purpose_refs (cf_discovery c), map reference_id (cf_references c),
      map (\<lambda>r. map cr_subscribe (cr_subscriptions r)) (cf_references c), skeleton_keypaths c))
    (CellConfiguration_from_json ''fresh'' example_configuration)
   = Inr (''fresh'', [''a'', ''b''], ['':cell:///Vault''], [[False]], [''demo.state''])"
  by code_simp

lemma configuration_reads_back_witness:
  "\<exists>c e. CellConfiguration_from_json ''fresh'' example_configuration = Inr c
    \<and> map reference_id (cf_references c) = ['':cell:///Vault'']
    \<and> CellConfiguration_to_json c = Inr e \<and> CellConfiguration_from_json ''other'' e = Inr c"
proof (cases "CellConfiguration_from_json ''fresh'' example_configuration")
  case (Inl x)
  with example_configuration_read show ?thesis by simp
next
  case (Inr c)
  with example_configuration_read have "map reference_id (cf_references c) = ['':cell:///Vault'']" by simp
  with configuration_reads_back [OF Inr, of "''other''"] Inr show ?thesis by simp
qed

end
