(* ===== verification/Profile.thy ===== *)
theory Profile
  imports Py_Objects General_Cell "HOL-Library.While_Combinator"
begin

text \<open>
  \<open>cells/structural_value_profile.py\<close>: the graphs the profile cell measures: adjacency, connected
  components, breadth-first distances, triangles and wedges, and the cell's loading of a graph.
  A Python set of neighbours is a list without repetitions, in the order in which Python happens
  to give it; loops that take from a queue are \<open>while_option\<close>, whose value is \<open>None\<close> when they
  do not end.
\<close>

subsection \<open>Adjacency\<close>

type_synonym adjacency = "string list dict"

definition nbrs :: "adjacency \<Rightarrow> string \<Rightarrow> string list" where
  "nbrs adj x = (case dget adj x of Some ys \<Rightarrow> ys | None \<Rightarrow> [])"

definition add_node :: "string \<Rightarrow> string list \<times> adjacency \<Rightarrow> string list \<times> adjacency" where
  "add_node x = (\<lambda>(ids, adj). if x \<in> set ids then (ids, adj) else (ids @ [x], dset adj x []))"

definition add_neighbour :: "string \<Rightarrow> string \<Rightarrow> adjacency \<Rightarrow> adjacency" where
  "add_neighbour u v adj = dset adj u (List.insert v (nbrs adj u))"

definition add_edge :: "string \<times> string \<Rightarrow> string list \<times> adjacency \<Rightarrow> string list \<times> adjacency" where
  "add_edge = (\<lambda>(u, v) s.
     let (ids, adj) = add_node v (add_node u s) in
     (ids, if u \<noteq> v then add_neighbour v u (add_neighbour u v adj) else adj))"

definition build_adjacency :: "string list \<Rightarrow> (string \<times> string) list \<Rightarrow> string list \<times> adjacency" where
  "build_adjacency nodes edges = fold add_edge edges (nodes, fold (\<lambda>n adj. dset adj n []) nodes [])"

definition undirected_edge_count :: "adjacency \<Rightarrow> nat" where
  "undirected_edge_count adj = sum_list (map length (dvalues adj)) div 2"

subsection \<open>Triangles and wedges\<close>

text \<open>The pairs at positions \<open>i < j\<close> of a list, and how many of a node's neighbours are joined.\<close>

fun pairs :: "'a list \<Rightarrow> ('a \<times> 'a) list" where
  "pairs [] = []"
| "pairs (x # xs) = map (Pair x) xs @ pairs xs"

definition joined_pairs :: "adjacency \<Rightarrow> string \<Rightarrow> nat" where
  "joined_pairs adj v = length (filter (\<lambda>(x, y). y \<in> set (nbrs adj x)) (pairs (nbrs adj v)))"

definition triangles_and_wedges :: "string list \<Rightarrow> adjacency \<Rightarrow> nat \<times> nat" where
  "triangles_and_wedges nodes adj =
     (sum_list (map (joined_pairs adj) nodes) div 3,
      sum_list (map (\<lambda>v. let d = length (nbrs adj v) in d * (d - 1) div 2) nodes))"

subsection \<open>Components\<close>

text \<open>The queue loop: the seen nodes, the component so far and the queue.\<close>

definition see :: "string \<Rightarrow> string list \<times> string list \<Rightarrow> string list \<times> string list" where
  "see y = (\<lambda>(seen, q). if y \<in> set seen then (seen, q) else (y # seen, q @ [y]))"

definition search_step ::
    "adjacency \<Rightarrow> string list \<times> string list \<times> string list \<Rightarrow> string list \<times> string list \<times> string list" where
  "search_step adj = (\<lambda>(seen, part, q).
     case q of
       [] \<Rightarrow> (seen, part, q)
     | x # rest \<Rightarrow> let (seen', q') = fold see (nbrs adj x) (seen, rest) in (seen', part @ [x], q'))"

definition search :: "adjacency \<Rightarrow> string list \<Rightarrow> string \<Rightarrow> (string list \<times> string list) option" where
  "search adj seen start =
     map_option (\<lambda>(seen', part, q). (seen', part))
       (while_option (\<lambda>(seen, part, q). q \<noteq> []) (search_step adj) (start # seen, [], [start]))"

definition add_component ::
    "adjacency \<Rightarrow> string \<Rightarrow> (string list \<times> string list list) option \<Rightarrow> (string list \<times> string list list) option" where
  "add_component adj start s =
     (case s of None \<Rightarrow> None | Some (seen, comps) \<Rightarrow>
        if start \<in> set seen then Some (seen, comps)
        else map_option (\<lambda>(seen', part). (seen', comps @ [part])) (search adj seen start))"

definition components :: "string list \<Rightarrow> adjacency \<Rightarrow> string list list option" where
  "components nodes adj =
     map_option (\<lambda>(seen, comps). sort_key (directed (<) True) (\<lambda>c. int (length c)) comps)
       (fold (add_component adj) nodes (Some ([], [])))"

subsection \<open>The cell\<close>

record profile_cell =
  pc_cell :: cell
  pc_graph_id :: "string option"
  pc_nodes :: "string list"
  pc_edges :: "(string \<times> string) list"
  pc_edge_types :: "string list"
  pc_last_profile :: "pyval option"

definition STATE_SCHEMA :: string where
  "STATE_SCHEMA = ''haven.graph.structural-value-profile.v1''"

definition new_profile_cell :: "identity option \<Rightarrow> string \<Rightarrow> string \<Rightarrow> string \<Rightarrow> string \<Rightarrow> profile_cell" where
  "new_profile_cell owner name uuid template_uuid grant_uuid =
     (let c = new_cell owner name uuid template_uuid in
      \<lparr>pc_cell = c\<lparr>cl_agreement_template :=
           add_grant ''rw--'' ''graph.profile'' grant_uuid (cl_agreement_template c),
         cl_get_handlers := dset (cl_get_handlers c) ''graph.profile.state'' 0,
         cl_set_handlers := fold (\<lambda>k hs. dset hs k 1)
           [''graph.profile.load'', ''graph.profile.fromGraphIndex'', ''graph.profile.compute''] (cl_set_handlers c)\<rparr>,
       pc_graph_id = None, pc_nodes = [], pc_edges = [], pc_edge_types = [], pc_last_profile = None\<rparr>)"

definition profile_state :: "profile_cell \<Rightarrow> pyval" where
  "profile_state p = VDict
     [(''status'', VStr ''ready''), (''schemaVersion'', VStr STATE_SCHEMA),
      (''graphID'', none_or (pc_graph_id p)), (''N'', VInt (int (length (pc_nodes p)))),
      (''E'', VInt (int (length (pc_edges p)))), (''hasProfile'', VBool (pc_last_profile p \<noteq> None))]"

text \<open>The id of a node item: the string itself, or the \<open>id\<close> of an object.\<close>

definition node_of :: "pyval \<Rightarrow> string option" where
  "node_of item =
     (case item of VDict d \<Rightarrow> str_val (getn d ''id'') | VStr s \<Rightarrow> Some s | _ \<Rightarrow> None)"

definition edge_of :: "string \<Rightarrow> string \<Rightarrow> pyval \<Rightarrow> ((string \<times> string) \<times> string) option" where
  "edge_of source target item =
     (case item of
        VDict d \<Rightarrow> (case (str_val (getn d source), str_val (getn d target)) of
            (Some u, Some v) \<Rightarrow>
              Some ((u, v), case str_val (getn d ''type'') of Some t \<Rightarrow> t | None \<Rightarrow> ''edge'')
          | _ \<Rightarrow> None)
      | _ \<Rightarrow> None)"

definition edgelist_from_payload ::
    "pyval dict \<Rightarrow> (string list \<times> (string \<times> string) list \<times> string list \<times> string option) res" where
  "edgelist_from_payload payload =
     rbind (iter_vals (py_or (getd payload ''nodes'' (VList [])) (VList []))) (\<lambda>ns.
     rbind (iter_vals (py_or (getd payload ''edges'' (VList [])) (VList []))) (\<lambda>es.
     let found = List.map_filter (edge_of ''u'' ''v'') es in
       Inr (List.map_filter node_of ns, map fst found, map snd found, str_val (getn payload ''graphID''))))"

definition ingest ::
    "pyval \<Rightarrow> pyval \<Rightarrow> (string \<times> string) list \<Rightarrow> string list \<Rightarrow> (profile_cell, pyval) act" where
  "ingest graph_id node_items edge_pairs edge_types =
     (let ids = (case node_items of VList vs \<Rightarrow> List.map_filter node_of vs | _ \<Rightarrow> []);
          nodes = fst (build_adjacency ids edge_pairs) in
      abind (amod (\<lambda>p. p\<lparr>pc_graph_id := str_val graph_id, pc_nodes := nodes, pc_edges := edge_pairs,
                         pc_edge_types := edge_types, pc_last_profile := None\<rparr>)) (\<lambda>_.
      aret (VDict [(''status'', VStr ''ok''), (''graphID'', none_or (str_val graph_id)),
                   (''N'', VInt (int (length nodes))), (''E'', VInt (int (length edge_pairs)))])))"

definition load_edgelist :: "pyval dict \<Rightarrow> (profile_cell, pyval) act" where
  "load_edgelist payload =
     abind (alift (edgelist_from_payload payload)) (\<lambda>(ids, edges, types, graph_id).
       ingest (none_or graph_id) (VList (map VStr ids)) edges types)"

definition load_from_graph_index :: "pyval dict \<Rightarrow> (profile_cell, pyval) act" where
  "load_from_graph_index payload =
     abind (alift (iter_vals (getd payload ''edges'' (VList [])))) (\<lambda>es.
     let edges = map fst (List.map_filter (edge_of ''from'' ''to'') es) in
       ingest (getn payload ''graphID'') (getn payload ''nodes'') edges (replicate (length edges) ''edge''))"

text \<open>\<open>_clamp_int\<close>: only a \<open>TypeError\<close> or \<open>ValueError\<close> of \<open>int\<close> is caught.\<close>

definition clamp_int :: "pyval \<Rightarrow> int \<Rightarrow> int \<Rightarrow> int res" where
  "clamp_int v low high =
     (case int_of v of
        Inr i \<Rightarrow> Inr (max low (min high i))
      | Inl e \<Rightarrow> if e = TypeError \<or> is_value_error e then Inr low else Inl e)"

subsection \<open>What adjacency holds\<close>

definition joined :: "(string \<times> string) list \<Rightarrow> (string \<times> string) set" where
  "joined edges = {(x, y). x \<noteq> y \<and> ((x, y) \<in> set edges \<or> (y, x) \<in> set edges)}"

definition adjacency_ok :: "string list \<Rightarrow> adjacency \<Rightarrow> (string \<times> string) set \<Rightarrow> bool" where
  "adjacency_ok ids adj R \<longleftrightarrow> set (dkeys adj) = set ids \<and> distinct (dkeys adj)
     \<and> (\<forall>x y. y \<in> set (nbrs adj x) \<longleftrightarrow> (x, y) \<in> R) \<and> (\<forall>x. distinct (nbrs adj x)) \<and> R \<subseteq> set ids \<times> set ids"

lemma nbrs_dset [simp]: "nbrs (dset adj k ys) x = (if x = k then ys else nbrs adj x)"
  by (simp add: nbrs_def)

lemma image_dset [simp]: "fst ` set (dset d k v) = insert k (fst ` set d)"
  by (metis dkeys_dset list.set_map)

lemma nbrs_new: "k \<notin> set (dkeys adj) \<Longrightarrow> nbrs adj k = []"
  by (simp add: nbrs_def dget_None_iff [THEN iffD2])

lemma add_node_ok:
  assumes "adjacency_ok ids adj R" "add_node x (ids, adj) = (ids', adj')"
  shows "adjacency_ok ids' adj' R \<and> set ids' = insert x (set ids)"
proof (cases "x \<in> set ids")
  case False
  then have "ids' = ids @ [x]" "adj' = dset adj x []" using assms(2) by (simp_all add: add_node_def)
  moreover have "x \<notin> set (dkeys adj)" using False assms(1) by (simp add: adjacency_ok_def)
  then have "nbrs adj x = []" by (rule nbrs_new)
  then have "\<forall>y. (x, y) \<notin> R" using assms(1) unfolding adjacency_ok_def by (metis empty_iff empty_set)
  moreover have "fst ` set adj = set ids" using assms(1) by (simp add: adjacency_ok_def)
  ultimately show ?thesis using assms(1) unfolding adjacency_ok_def
    by (simp add: distinct_dset) (blast intro: insertI2)
qed (use assms in \<open>auto simp: add_node_def\<close>)

lemma add_neighbour_ok:
  "adjacency_ok ids adj R \<Longrightarrow> u \<in> set ids \<Longrightarrow> v \<in> set ids \<Longrightarrow>
     adjacency_ok ids (add_neighbour u v adj) (insert (u, v) R)"
  unfolding adjacency_ok_def add_neighbour_def
  by (auto simp: dkeys_dset distinct_dset)

lemma add_edge_ok:
  assumes "adjacency_ok ids adj (joined es)" "add_edge (u, v) (ids, adj) = (ids', adj')"
  shows "adjacency_ok ids' adj' (joined ((u, v) # es)) \<and> set ids' = insert u (insert v (set ids))"
proof -
  obtain i1 a1 where 1: "add_node u (ids, adj) = (i1, a1)" by fastforce
  obtain i2 a2 where 2: "add_node v (i1, a1) = (i2, a2)" by fastforce
  have ok: "adjacency_ok i2 a2 (joined es)" "set i2 = insert u (insert v (set ids))"
    using add_node_ok [OF assms(1) 1] add_node_ok [OF _ 2] by auto
  have r: "joined ((u, v) # es) = (if u \<noteq> v then insert (v, u) (insert (u, v) (joined es)) else joined es)"
    by (auto simp: joined_def)
  have "ids' = i2" "adj' = (if u \<noteq> v then add_neighbour v u (add_neighbour u v a2) else a2)"
    using assms(2) by (simp_all add: add_edge_def 1 2)
  then show ?thesis using ok add_neighbour_ok unfolding r by auto
qed

lemma nodes_ok: "adjacency_ok nodes (fold (\<lambda>n adj. dset adj n []) nodes []) {}"
proof -
  have "set (dkeys (fold (\<lambda>n adj. dset adj n []) ns a)) = set ns \<union> set (dkeys a)
      \<and> (distinct (dkeys a) \<longrightarrow> distinct (dkeys (fold (\<lambda>n adj. dset adj n []) ns a)))
      \<and> ((\<forall>x. nbrs a x = []) \<longrightarrow> (\<forall>x. nbrs (fold (\<lambda>n adj. dset adj n []) ns a) x = []))"
    for ns and a :: adjacency
    by (induction ns arbitrary: a) (auto simp: dkeys_dset distinct_dset)
  from this [of nodes "[]"] show ?thesis by (simp add: adjacency_ok_def nbrs_def)
qed

lemma build_adjacency_ok:
  assumes "build_adjacency nodes edges = (ids, adj)"
  shows "adjacency_ok ids adj (joined edges) \<and> set ids = set nodes \<union> fst ` set edges \<union> snd ` set edges"
proof -
  have "adjacency_ok i' a' (joined (es @ fs)) \<and> set i' = set i \<union> fst ` set es \<union> snd ` set es"
    if "fold add_edge es (i, a) = (i', a')" "adjacency_ok i a (joined fs)" for es fs i a i' a'
    using that
  proof (induction es arbitrary: i a fs)
    case (Cons e es)
    obtain u v where e: "e = (u, v)" by (cases e)
    obtain i1 a1 where 1: "add_edge (u, v) (i, a) = (i1, a1)" by fastforce
    have "joined (es @ (u, v) # fs) = joined ((e # es) @ fs)" by (auto simp: joined_def e)
    with Cons.IH [of i1 a1 "(u, v) # fs"] Cons.prems add_edge_ok [OF Cons.prems(2) 1] 1 e
    show ?case by auto
  qed simp
  from this [of edges nodes _ ids adj "[]"] assms nodes_ok show ?thesis
    by (simp add: build_adjacency_def joined_def)
qed

subsection \<open>The search ends, with the component of its start\<close>

lemma see_all:
  assumes "fold see ys (seen, q) = (seen', q')" "distinct q" "set q \<subseteq> set seen"
  shows "set seen' = set seen \<union> set ys \<and> (\<exists>new. q' = q @ new \<and> distinct new
    \<and> set new = set ys - set seen \<and> set new \<inter> set q = {})"
  using assms
proof (induction ys arbitrary: seen q)
  case (Cons y ys)
  show ?case
  proof (cases "y \<in> set seen")
    case True
    with Cons.prems have "fold see ys (seen, q) = (seen', q')" by (simp add: see_def [of y])
    from Cons.IH [OF this Cons.prems(2,3)] True show ?thesis by (auto simp: insert_absorb)
  next
    case False
    then have "fold see ys (y # seen, q @ [y]) = (seen', q')" using Cons.prems(1) by (simp add: see_def [of y])
    moreover have "distinct (q @ [y])" "set (q @ [y]) \<subseteq> set (y # seen)" using Cons.prems(2,3) False by auto
    ultimately obtain new where
      new: "set seen' = set (y # seen) \<union> set ys" "q' = (q @ [y]) @ new" "distinct new"
        "set new = set ys - set (y # seen)" "set new \<inter> set (q @ [y]) = {}"
      using Cons.IH by blast
    show ?thesis
    proof (intro conjI exI [of _ "y # new"])
      show "set (y # new) = set (y # ys) - set seen" using new(4) False by auto
      show "set (y # new) \<inter> set q = {}" using new(5) False Cons.prems(3) by auto
    qed (use new False in auto)
  qed
qed simp

text \<open>
  The invariant of the loop: the seen nodes are those seen before, those done and those waiting,
  each of which the start reaches; the neighbours of a node that is done are seen.
\<close>

definition searching ::
    "adjacency \<Rightarrow> string list \<Rightarrow> string \<Rightarrow> string list \<times> string list \<times> string list \<Rightarrow> bool" where
  "searching adj seen0 start = (\<lambda>(seen, part, q).
     distinct (part @ q) \<and> set (part @ q) \<inter> set seen0 = {} \<and> set seen = set seen0 \<union> set (part @ q)
     \<and> (\<forall>x \<in> set part. set (nbrs adj x) \<subseteq> set seen) \<and> start \<in> set (part @ q)
     \<and> (\<forall>x \<in> set (part @ q). (start, x) \<in> {(x, y). y \<in> set (nbrs adj x)}\<^sup>*))"

lemma search_step_inv:
  assumes inv: "searching adj seen0 start (seen, part, x # rest)"
    and run: "fold see (nbrs adj x) (seen, rest) = (seen', q')"
  shows "searching adj seen0 start (seen', part @ [x], q')
    \<and> (\<exists>new. q' = rest @ new \<and> distinct new \<and> set new = set seen' - set seen \<and> set seen \<subseteq> set seen')"
proof -
  let ?R = "{(x, y). y \<in> set (nbrs adj x)}"
  have d: "distinct rest" "set rest \<subseteq> set seen" using inv by (auto simp: searching_def)
  obtain new where new: "set seen' = set seen \<union> set (nbrs adj x)" "q' = rest @ new" "distinct new"
      "set new = set (nbrs adj x) - set seen" "set new \<inter> set rest = {}"
    using see_all [OF run d] by blast
  have reached: "(start, y) \<in> ?R\<^sup>*" if "y \<in> set new" for y
  proof -
    have "(start, x) \<in> ?R\<^sup>*" using inv by (simp add: searching_def)
    moreover have "(x, y) \<in> ?R" using that new(4) by simp
    ultimately show ?thesis by (rule rtrancl_into_rtrancl)
  qed
  have fresh: "set new \<inter> set seen = {}" using new(4) by auto
  have "distinct ((part @ [x]) @ q')" "set ((part @ [x]) @ q') \<inter> set seen0 = {}"
    using inv new(2,3) fresh unfolding searching_def by auto
  moreover have "set seen' = set seen0 \<union> set ((part @ [x]) @ q')"
    using inv new(1,2,4) unfolding searching_def by auto
  moreover have "\<forall>z \<in> set (part @ [x]). set (nbrs adj z) \<subseteq> set seen'"
  proof
    fix z assume "z \<in> set (part @ [x])"
    then consider "z \<in> set part" | "z = x" by auto
    then show "set (nbrs adj z) \<subseteq> set seen'"
    proof cases
      case 1
      then have "set (nbrs adj z) \<subseteq> set seen" using inv unfolding searching_def by blast
      with new(1) show ?thesis by blast
    qed (use new(1) in blast)
  qed
  moreover have "start \<in> set ((part @ [x]) @ q')" using inv new(2) unfolding searching_def by auto
  moreover have "\<forall>z \<in> set ((part @ [x]) @ q'). (start, z) \<in> ?R\<^sup>*"
    using inv new(2) reached unfolding searching_def by auto
  ultimately have "searching adj seen0 start (seen', part @ [x], q')" unfolding searching_def by blast
  moreover have "set new = set seen' - set seen" using new(1,4) by auto
  ultimately show ?thesis using new(1,2,3) by blast
qed

lemma search_ends:
  assumes start: "start \<notin> set seen0" and closed: "\<And>x. set (nbrs adj x) \<subseteq> U" "start \<in> U" "finite U"
  shows "\<exists>seen part. search adj seen0 start = Some (seen, part) \<and> searching adj seen0 start (seen, part, [])"
proof -
  let ?b = "\<lambda>(seen :: string list, part :: string list, q :: string list). q \<noteq> []"
  let ?P = "\<lambda>s. searching adj seen0 start s \<and> set (fst s) \<subseteq> U \<union> set seen0"
  let ?f = "\<lambda>(seen :: string list, part :: string list, q :: string list).
      2 * card (U \<union> set seen0 - set seen) + length q"
  have fin: "finite (U \<union> set seen0)" using closed(3) by simp
  have step: "?P (search_step adj s) \<and> ?f (search_step adj s) < ?f s" if P: "?P s" and b: "?b s" for s
  proof -
    obtain seen part x rest where s: "s = (seen, part, x # rest)"
      using b by (cases s) (auto simp: neq_Nil_conv)
    obtain seen' q' where run: "fold see (nbrs adj x) (seen, rest) = (seen', q')" by fastforce
    have inv: "searching adj seen0 start (seen, part, x # rest)" using P s by simp
    from search_step_inv [OF inv run] obtain new where
      inv': "searching adj seen0 start (seen', part @ [x], q')" and
      new: "q' = rest @ new" "distinct new" "set new = set seen' - set seen" "set seen \<subseteq> set seen'" by blast
    have "set rest \<subseteq> set seen" "distinct rest" using inv by (auto simp: searching_def)
    then have "set seen' = set seen \<union> set (nbrs adj x)" using see_all [OF run] by blast
    then have sub: "set seen' \<subseteq> U \<union> set seen0" using P s closed(1) by auto
    have "U \<union> set seen0 - set seen = (U \<union> set seen0 - set seen') \<union> set new" using new sub by auto
    moreover have "(U \<union> set seen0 - set seen') \<inter> set new = {}" using new by auto
    ultimately have "card (U \<union> set seen0 - set seen) = card (U \<union> set seen0 - set seen') + card (set new)"
      using fin by (metis card_Un_disjoint finite_Diff finite_set)
    then have "card (U \<union> set seen0 - set seen) = card (U \<union> set seen0 - set seen') + length new"
      using new(2) by (simp add: distinct_card)
    then show ?thesis using inv' sub new(1) by (simp add: s search_step_def run)
  qed
  have init: "?P (start # seen0, [], [start])" using start closed(2) by (simp add: searching_def)
  obtain t where t: "while_option ?b (search_step adj) (start # seen0, [], [start]) = Some t"
    using measure_while_option_Some [of ?P ?b "search_step adj" ?f, OF step init] by blast
  obtain seen part q where t': "t = (seen, part, q)" by (cases t)
  have "?P t" using while_option_rule [of ?P ?b "search_step adj", OF _ t init] step by blast
  moreover have "q = []" using while_option_stop [OF t] t' by simp
  ultimately show ?thesis using t t' by (simp add: search_def)
qed

text \<open>What was seen before is a union of components, so the search gives the whole component of its start.\<close>

lemma search_component:
  assumes ok: "adjacency_ok ids adj R" and sym: "sym R" and start: "start \<in> set ids" "start \<notin> set seen0"
    and closed: "R `` set seen0 \<subseteq> set seen0"
  shows "\<exists>seen part. search adj seen0 start = Some (seen, part) \<and> distinct part
    \<and> set part = R\<^sup>* `` {start} \<and> set seen = set seen0 \<union> set part \<and> set part \<inter> set seen0 = {}"
proof -
  have R: "{(x, y). y \<in> set (nbrs adj x)} = R" using ok unfolding adjacency_ok_def by auto
  have "set (nbrs adj x) \<subseteq> set ids" for x using ok unfolding adjacency_ok_def by auto
  from search_ends [OF start(2) this start(1)] obtain seen part where
    run: "search adj seen0 start = Some (seen, part)" and inv: "searching adj seen0 start (seen, part, [])"
    by auto
  have part: "distinct part" "set part \<inter> set seen0 = {}" "set seen = set seen0 \<union> set part"
      "start \<in> set part" "\<forall>x \<in> set part. (start, x) \<in> R\<^sup>*" "\<forall>x \<in> set part. set (nbrs adj x) \<subseteq> set seen"
    using inv unfolding searching_def R by (simp_all only: append_Nil2 prod.case) blast+
  have "R `` set part \<subseteq> set part"
  proof
    fix y assume "y \<in> R `` set part"
    then obtain x where x: "x \<in> set part" "(x, y) \<in> R" by blast
    then have "y \<in> set seen" using part(6) ok unfolding adjacency_ok_def by blast
    moreover have "y \<notin> set seen0"
      using x closed part(2) sym by (meson Image_singleton_iff Image_iff disjoint_iff subsetD symD)
    ultimately show "y \<in> set part" using part(3) by blast
  qed
  then have "R\<^sup>* `` set part = set part" by (rule Image_closed_trancl)
  then have "set part = R\<^sup>* `` {start}" using part(4,5) by blast
  with run part show ?thesis by blast
qed

subsection \<open>The components\<close>

definition partitioned ::
    "(string \<times> string) set \<Rightarrow> string list \<Rightarrow> string list \<Rightarrow> string list list \<Rightarrow> bool" where
  "partitioned R ids seen comps \<longleftrightarrow> set seen = set (concat comps) \<and> distinct (concat comps)
     \<and> R `` set seen \<subseteq> set seen \<and> (\<forall>c \<in> set comps. \<exists>s \<in> set ids. set c = R\<^sup>* `` {s})"

lemma add_component_ok:
  assumes "adjacency_ok ids adj R" "sym R" "start \<in> set ids" "partitioned R ids seen comps"
  shows "\<exists>seen' comps'. add_component adj start (Some (seen, comps)) = Some (seen', comps')
    \<and> partitioned R ids seen' comps' \<and> insert start (set seen) \<subseteq> set seen'"
proof (cases "start \<in> set seen")
  case True
  with assms(4) show ?thesis by (auto simp: add_component_def)
next
  case False
  have "R `` set seen \<subseteq> set seen" using assms(4) unfolding partitioned_def by blast
  from search_component [OF assms(1-3) False this] obtain seen' part where
    run: "search adj seen start = Some (seen', part)" and part: "distinct part" "set part = R\<^sup>* `` {start}"
      "set seen' = set seen \<union> set part" "set part \<inter> set seen = {}" by blast
  have closed: "R `` (R\<^sup>* `` {start}) \<subseteq> R\<^sup>* `` {start}" by (auto intro: rtrancl_into_rtrancl)
  have "partitioned R ids seen' (comps @ [part])"
    unfolding partitioned_def
  proof (intro conjI)
    have old: "set seen = set (concat comps)" "distinct (concat comps)"
      "\<forall>c \<in> set comps. \<exists>s \<in> set ids. set c = R\<^sup>* `` {s}"
      using assms(4) unfolding partitioned_def by blast+
    show "set seen' = set (concat (comps @ [part]))" using part(3) old(1) by simp
    have "set (concat comps) \<inter> set part = {}" using part(4) unfolding old(1) by (simp only: Int_commute)
    with old(2) part(1) show "distinct (concat (comps @ [part]))" by simp
    show "R `` set seen' \<subseteq> set seen'"
      unfolding part(3) Image_Un using \<open>R `` set seen \<subseteq> set seen\<close> closed unfolding part(2) by blast
    show "\<forall>c \<in> set (comps @ [part]). \<exists>s \<in> set ids. set c = R\<^sup>* `` {s}"
      using old(3) part(2) assms(3) by (simp only: set_append list.set ball_Un) blast
  qed
  moreover have "start \<in> set seen'" using part by auto
  ultimately show ?thesis using run False part(3) by (simp add: add_component_def)
qed

lemma add_components_ok:
  assumes "adjacency_ok ids adj R" "sym R"
  shows "set ns \<subseteq> set ids \<Longrightarrow> partitioned R ids seen comps \<Longrightarrow>
    \<exists>seen' comps'. fold (add_component adj) ns (Some (seen, comps)) = Some (seen', comps')
      \<and> partitioned R ids seen' comps' \<and> set ns \<union> set seen \<subseteq> set seen'"
proof (induction ns arbitrary: seen comps)
  case (Cons n ns)
  then obtain seen1 comps1 where 1: "add_component adj n (Some (seen, comps)) = Some (seen1, comps1)"
      "partitioned R ids seen1 comps1" "insert n (set seen) \<subseteq> set seen1"
    using add_component_ok [OF assms] by force
  from Cons.IH [OF _ 1(2)] Cons.prems(1) obtain seen' comps' where
    "fold (add_component adj) ns (Some (seen1, comps1)) = Some (seen', comps')"
    "partitioned R ids seen' comps'" "set ns \<union> set seen1 \<subseteq> set seen'" by auto
  with 1 show ?case by auto
qed simp

lemma reach_within:
  assumes "R \<subseteq> A \<times> A" "s \<in> A"
  shows "R\<^sup>* `` {s} \<subseteq> A"
proof
  fix y assume "y \<in> R\<^sup>* `` {s}"
  then have "(s, y) \<in> R\<^sup>*" by simp
  then show "y \<in> A" by induction (use assms in auto)
qed

lemma components_ok:
  assumes ok: "adjacency_ok ids adj R" and sym: "sym R"
  shows "\<exists>comps. components ids adj = Some comps \<and> distinct (concat comps) \<and> set ids \<subseteq> set (concat comps)
    \<and> (\<forall>c \<in> set comps. \<exists>s \<in> set ids. set c = R\<^sup>* `` {s}) \<and> sorted_wrt (\<lambda>c d. length d \<le> length c) comps"
proof -
  have "partitioned R ids [] []" by (simp add: partitioned_def)
  from add_components_ok [OF ok sym subset_refl this] obtain seen comps where
    run: "fold (add_component adj) ids (Some ([], [])) = Some (seen, comps)" and
    part: "partitioned R ids seen comps" "set ids \<subseteq> set seen" by auto
  let ?s = "sort_key (directed (<) True) (\<lambda>c. int (length c)) comps"
  have "components ids adj = Some ?s" by (simp add: components_def run)
  moreover have "mset (concat ?s) = mset (concat comps)"
    by (simp add: mset_concat flip: sum_mset_sum_list)
  then have "distinct (concat ?s)"
    using part(1) mset_eq_imp_distinct_iff unfolding partitioned_def by blast
  moreover have "set (concat ?s) = set (concat comps)" by simp
  moreover have "\<forall>c \<in> set ?s. \<exists>s \<in> set ids. set c = R\<^sup>* `` {s}"
    using part(1) unfolding partitioned_def set_sort_key by blast
  moreover have "sorted_wrt (\<lambda>c d. \<not> directed (<) True (int (length d)) (int (length c))) ?s"
    by (rule int_directed.sorted_sort_key)
  then have "sorted_wrt (\<lambda>c d. length d \<le> length c) ?s"
    by (rule sorted_wrt_mono_rel [rotated]) (simp add: directed_def)
  moreover have "set ids \<subseteq> set (concat ?s)"
    using part unfolding \<open>set (concat ?s) = set (concat comps)\<close> partitioned_def by (simp only:)
  ultimately show ?thesis by (intro exI [of _ ?s] conjI)
qed

lemma sym_joined: "sym (joined edges)"
  by (auto simp: sym_def joined_def)

subsection \<open>Properties\<close>

text \<open>
  C16: the component search ends on every graph built from a list of nodes and edges, and its
  result is the partition of the nodes into connected components, the largest first: each node
  is in exactly one component, and with it everything it is connected to.
\<close>

theorem components_partition:
  assumes "build_adjacency nodes edges = (ids, adj)"
  shows "\<exists>comps. components ids adj = Some comps \<and> distinct (concat comps) \<and> set (concat comps) = set ids
    \<and> (\<forall>c \<in> set comps. c \<noteq> [] \<and> (\<forall>x \<in> set c. set c = (joined edges)\<^sup>* `` {x}))
    \<and> sorted_wrt (\<lambda>c d. length d \<le> length c) comps"
proof -
  have ok: "adjacency_ok ids adj (joined edges)" using build_adjacency_ok [OF assms] by blast
  from components_ok [OF ok sym_joined] obtain comps where
    run: "components ids adj = Some comps" "distinct (concat comps)" "set ids \<subseteq> set (concat comps)"
      "sorted_wrt (\<lambda>c d. length d \<le> length c) comps" and
    classes: "\<forall>c \<in> set comps. \<exists>s \<in> set ids. set c = (joined edges)\<^sup>* `` {s}"
    by blast
  have "set c \<subseteq> set ids \<and> c \<noteq> [] \<and> (\<forall>x \<in> set c. set c = (joined edges)\<^sup>* `` {x})" if "c \<in> set comps" for c
  proof -
    obtain s where s: "s \<in> set ids" "set c = (joined edges)\<^sup>* `` {s}" using classes \<open>c \<in> set comps\<close> by blast
    have "joined edges \<subseteq> set ids \<times> set ids" using ok by (simp add: adjacency_ok_def)
    then have "set c \<subseteq> set ids" unfolding s(2) by (rule reach_within) (rule s(1))
    moreover have "(joined edges)\<^sup>* `` {s} = (joined edges)\<^sup>* `` {x}" if "x \<in> set c" for x
    proof -
      have "(s, x) \<in> (joined edges)\<^sup>*" "(x, s) \<in> (joined edges)\<^sup>*"
        using that s(2) sym_rtrancl [OF sym_joined, of edges] by (auto dest: symD)
      then show ?thesis by (auto intro: rtrancl_trans)
    qed
    moreover have "s \<in> set c" using s(2) by simp
    ultimately show ?thesis using s(2) by fastforce
  qed
  then have "set (concat comps) \<subseteq> set ids" "\<forall>c \<in> set comps. c \<noteq> [] \<and> (\<forall>x \<in> set c. set c = (joined edges)\<^sup>* `` {x})"
    by auto
  with run show ?thesis by blast
qed

subsection \<open>Counts\<close>

lemma length_pairs: "2 * length (pairs xs) = length xs * (length xs - 1)"
proof (induction xs)
  case (Cons x xs)
  then show ?case by (cases "length xs") (simp_all add: algebra_simps)
qed simp

text \<open>No more triangles than wedges, so the transitivity is between 0 and 1.\<close>

lemma triangles_le_wedges:
  "triangles_and_wedges nodes adj = (triangles, wedges) \<Longrightarrow> 3 * triangles \<le> wedges"
proof -
  assume run: "triangles_and_wedges nodes adj = (triangles, wedges)"
  have "joined_pairs adj v \<le> (let d = length (nbrs adj v) in d * (d - 1) div 2)" for v
  proof -
    have "joined_pairs adj v \<le> length (pairs (nbrs adj v))"
      unfolding joined_pairs_def by (rule length_filter_le)
    also have "\<dots> = length (nbrs adj v) * (length (nbrs adj v) - 1) div 2"
      unfolding length_pairs [symmetric] by simp
    finally show ?thesis by (simp add: Let_def)
  qed
  then have "sum_list (map (joined_pairs adj) nodes)
      \<le> sum_list (map (\<lambda>v. let d = length (nbrs adj v) in d * (d - 1) div 2) nodes)"
    by (intro sum_list_mono) blast
  moreover have "wedges = sum_list (map (\<lambda>v. let d = length (nbrs adj v) in d * (d - 1) div 2) nodes)"
    using run unfolding triangles_and_wedges_def by (rule Pair_inject) (rule sym)
  moreover have "triangles = sum_list (map (joined_pairs adj) nodes) div 3"
    using run by (simp add: triangles_and_wedges_def)
  ultimately show ?thesis by linarith
qed

text \<open>Every undirected edge is counted once from each of its ends.\<close>

lemma sum_nbrs_card:
  "distinct (dkeys adj) \<Longrightarrow> (\<And>x. distinct (nbrs adj x)) \<Longrightarrow>
     sum_list (map length (dvalues adj)) = card {(x, y). y \<in> set (nbrs adj x)}"
proof (induction adj)
  case Nil
  then show ?case by (simp add: nbrs_def)
next
  case (Cons kv adj)
  obtain k ys where kv: "kv = (k, ys)" by (cases kv)
  have k: "k \<notin> set (dkeys adj)" and d: "distinct (dkeys adj)" using Cons.prems(1) kv by auto
  have nb: "nbrs ((k, ys) # adj) x = (if x = k then ys else nbrs adj x)" for x by (simp add: nbrs_def)
  have old: "distinct (nbrs adj x)" for x
    using Cons.prems(2) [of x] nbrs_new [OF k] unfolding kv nb by (cases "x = k") auto
  have "finite {(x, y). y \<in> set (nbrs adj x)}"
  proof (rule finite_subset)
    show "{(x, y). y \<in> set (nbrs adj x)} \<subseteq> set (dkeys adj) \<times> set (concat (dvalues adj))"
    proof clarify
      fix x y assume "y \<in> set (nbrs adj x)"
      then obtain zs where "dget adj x = Some zs" "y \<in> set zs" by (cases "dget adj x") (auto simp: nbrs_def)
      then show "x \<in> set (dkeys adj) \<and> y \<in> set (concat (dvalues adj))" by (force dest: map_of_SomeD)
    qed
  qed simp
  moreover have "{(x, y). y \<in> set (nbrs ((k, ys) # adj) x)} = Pair k ` set ys \<union> {(x, y). y \<in> set (nbrs adj x)}"
    using nbrs_new [OF k] by (auto simp: nb split: if_splits)
  moreover have "Pair k ` set ys \<inter> {(x, y). y \<in> set (nbrs adj x)} = {}" using nbrs_new [OF k] by auto
  ultimately have "card {(x, y). y \<in> set (nbrs ((k, ys) # adj) x)}
      = card (Pair k ` set ys) + card {(x, y). y \<in> set (nbrs adj x)}"
    by (simp add: card_Un_disjoint)
  moreover have "card (Pair k ` set ys) = length ys"
    using Cons.prems(2) [of k] unfolding kv nb by (simp add: card_image inj_on_def distinct_card)
  ultimately show ?case using Cons.IH [OF d old] unfolding kv by simp
qed

lemma edge_count:
  assumes "build_adjacency nodes edges = (ids, adj)"
  shows "undirected_edge_count adj = card (joined edges) div 2"
proof -
  have ok: "adjacency_ok ids adj (joined edges)" using build_adjacency_ok [OF assms] by blast
  then have "{(x, y). y \<in> set (nbrs adj x)} = joined edges" unfolding adjacency_ok_def by auto
  then show ?thesis using ok sum_nbrs_card [of adj] by (simp add: undirected_edge_count_def adjacency_ok_def)
qed

lemma components_partition_witness:
  "\<exists>ids adj comps. build_adjacency [''a'', ''b'', ''a''] [(''b'', ''c''), (''d'', ''d'')] = (ids, adj)
    \<and> components ids adj = Some comps \<and> set (concat comps) = set ids \<and> ''d'' \<in> set ids
    \<and> (\<forall>c \<in> set comps. \<forall>x \<in> set c. set c = (joined [(''b'', ''c''), (''d'', ''d'')])\<^sup>* `` {x})"
proof -
  obtain ids adj where run: "build_adjacency [''a'', ''b'', ''a''] [(''b'', ''c''), (''d'', ''d'')] = (ids, adj)"
    by fastforce
  moreover have "''d'' \<in> set (fst (build_adjacency [''a'', ''b'', ''a''] [(''b'', ''c''), (''d'', ''d'')]))"
    by code_simp
  ultimately show ?thesis using components_partition [OF run] by auto
qed

end
