(* ===== verification/Graph_Profile.thy ===== *)
theory Graph_Profile
  imports Graph_Cell Profile
begin

text \<open>
  The two graph cells together: what the graph index reports as its state is what the profile cell
  loads with \<open>graph.profile.fromGraphIndex\<close>.
\<close>

definition index_edges :: "graph \<Rightarrow> (string \<times> string) list" where
  "index_edges g = concat (map (\<lambda>(s, ts). map (Pair s) (sort_by str_less ts)) (sort_key str_less fst (gr_edges g)))"

lemma map_filter_map_some: "(\<And>x. x \<in> set xs \<Longrightarrow> f (g x) = Some (h x)) \<Longrightarrow> List.map_filter f (map g xs) = map h xs"
  by (induction xs) (auto simp: List.map_filter_def)

lemma state_edges:
  "concat (map (\<lambda>(source, targets).
      map (\<lambda>target. VDict [(''from'', VStr source), (''to'', VStr target)]) (sort_by str_less targets)) es)
   = map (\<lambda>(s, t). VDict [(''from'', VStr s), (''to'', VStr t)])
       (concat (map (\<lambda>(s, ts). map (Pair s) (sort_by str_less ts)) es))"
  by (induction es) auto

lemma length_index_edges: "length (index_edges g) = edge_count g"
proof -
  have "length (sort_by str_less ts) = length ts" for ts by (metis mset_sort_by size_mset)
  then have "length (concat (map (\<lambda>(s, ts). map (Pair s) (sort_by str_less ts)) es))
      = sum_list (map (length \<circ> snd) es)" for es
    by (induction es) auto
  then have "length (index_edges g) = sum_list (map (length \<circ> snd) (sort_key str_less fst (gr_edges g)))"
    by (simp add: index_edges_def)
  also have "\<dots> = sum_list (map (length \<circ> snd) (gr_edges g))"
    by (simp flip: sum_mset_sum_list)
  finally show ?thesis by (simp add: edge_count_def)
qed

lemma set_index_edges: "graph_inv g \<Longrightarrow> set (index_edges g) = {(s, t). t \<in> set (outgoing g s)}"
  by (force simp: index_edges_def outgoing_def graph_inv_def split: option.splits dest: map_of_SomeD)

lemma add_edge_known: "u \<in> set ids \<Longrightarrow> v \<in> set ids \<Longrightarrow> fst (add_edge (u, v) (ids, adj)) = ids"
  by (simp add: add_edge_def add_node_def)

lemma build_known:
  "(\<And>u v. (u, v) \<in> set edges \<Longrightarrow> u \<in> set ids \<and> v \<in> set ids) \<Longrightarrow> fst (build_adjacency ids edges) = ids"
proof -
  assume known: "\<And>u v. (u, v) \<in> set edges \<Longrightarrow> u \<in> set ids \<and> v \<in> set ids"
  have "fst (fold add_edge es (ids, adj)) = ids" if "set es \<subseteq> set edges" for es adj
    using that
  proof (induction es arbitrary: adj)
    case (Cons e es)
    obtain u v where e: "e = (u, v)" by (cases e)
    have "(u, v) \<in> set edges" using Cons.prems e by simp
    then have "fst (add_edge e (ids, adj)) = ids" unfolding e using known add_edge_known by blast
    with Cons show ?case by (metis fold_simps(2) insert_subset list.set(2) prod.collapse)
  qed simp
  then show ?thesis by (simp add: build_adjacency_def)
qed

text \<open>
  C38: the profile cell that is given the state of a graph index cell holds that graph: as many
  nodes and edges as the index reports, its nodes in their order, and an edge exactly where a
  note links to another.
\<close>

theorem profile_of_graph_index:
  assumes "graph_inv g" "graph_state g = VDict d"
  shows "\<exists>p'. load_from_graph_index d p =
      (Inr (VDict [(''status'', VStr ''ok''), (''graphID'', VNull), (''N'', getn d ''nodeCount''),
                   (''E'', getn d ''edgeCount'')]), p')
    \<and> pc_nodes p' = sort_by str_less (gr_nodes g) \<and> length (pc_edges p') = edge_count g
    \<and> set (pc_edges p') = {(s, t). t \<in> set (outgoing g s)} \<and> pc_last_profile p' = None"
proof -
  have d: "getd d ''edges'' w = VList (map (\<lambda>(s, t). VDict [(''from'', VStr s), (''to'', VStr t)]) (index_edges g))"
      "getn d ''nodes'' = VList (map VStr (sort_by str_less (gr_nodes g)))" "getn d ''graphID'' = VNull"
      "getn d ''nodeCount'' = VInt (int (length (gr_nodes g)))" "getn d ''edgeCount'' = VInt (int (edge_count g))"
    for w
    using assms(2) by (auto simp: graph_state_def getd_def getn_def index_edges_def state_edges)
  have edges: "map fst (List.map_filter (edge_of ''from'' ''to'')
      (map (\<lambda>(s, t). VDict [(''from'', VStr s), (''to'', VStr t)]) es)) = es" for es
    by (subst map_filter_map_some [where h = "\<lambda>e. (e, ''edge'')"])
      (auto simp: edge_of_def getn_def comp_def)
  have count: "length (List.map_filter (edge_of ''from'' ''to'')
      (map (\<lambda>(s, t). VDict [(''from'', VStr s), (''to'', VStr t)]) es)) = length es" for es
    using edges [of es] by (metis length_map)
  have nodes: "List.map_filter node_of (map VStr ns) = ns" for ns
    by (subst map_filter_map_some [where h = id]) (auto simp: node_of_def)
  have "u \<in> set (sort_by str_less (gr_nodes g)) \<and> v \<in> set (sort_by str_less (gr_nodes g))"
    if "(u, v) \<in> set (index_edges g)" for u v
    using that assms(1) unfolding set_index_edges [OF assms(1)] graph_inv_def
    by (auto simp: outgoing_def split: option.splits dest!: map_of_SomeD)
  then have known: "fst (build_adjacency (sort_by str_less (gr_nodes g)) (index_edges g)) = sort_by str_less (gr_nodes g)"
    by (rule build_known)
  have "length (sort_by str_less (gr_nodes g)) = length (gr_nodes g)" by (metis mset_sort_by size_mset)
  then show ?thesis
    using set_index_edges [OF assms(1)]
    by (simp add: load_from_graph_index_def d edges nodes known ingest_def Let_def abind_def act_run count
        length_index_edges)
qed

lemma profile_of_graph_index_witness:
  "\<exists>d p'. graph_state (after_reindex example_notes (new_graph None ''G'' ''u'' ''t'' ''g'')) = VDict d
    \<and> load_from_graph_index d (new_profile_cell None ''P'' ''u'' ''t'' ''g'') =
        (Inr (VDict [(''status'', VStr ''ok''), (''graphID'', VNull), (''N'', VInt 3), (''E'', VInt 2)]), p')
    \<and> pc_nodes p' = [''a'', ''b'', ''c'']"
proof -
  define g where "g = after_reindex example_notes (new_graph None ''G'' ''u'' ''t'' ''g'')"
  have "graph_inv g" unfolding g_def after_reindex_def
    using set_graph_keeps unfolding keeps_prop_def by (auto simp: graph_inv_def new_graph_def Let_def)
  moreover obtain d where d: "graph_state g = VDict d" by (simp add: graph_state_def)
  moreover have "sort_by str_less (gr_nodes g) = [''a'', ''b'', ''c'']"
    "getn (case graph_state g of VDict d \<Rightarrow> d | _ \<Rightarrow> []) ''nodeCount'' = VInt 3"
    "getn (case graph_state g of VDict d \<Rightarrow> d | _ \<Rightarrow> []) ''edgeCount'' = VInt 2"
    unfolding g_def by code_simp+
  ultimately show ?thesis
    unfolding g_def [symmetric]
    using profile_of_graph_index [of g d "new_profile_cell None ''P'' ''u'' ''t'' ''g''"] by auto
qed

end
