(* ===== verification/Base58.thy ===== *)
theory Base58
  imports Prelude "HOL-Library.Log_Nat"
begin

text \<open>
  The base 58 text of \<open>did:key\<close> identifiers in \<open>interop/identity_link.py\<close>, and Python's
  \<open>int.from_bytes\<close>, \<open>int.to_bytes\<close> and \<open>bit_length\<close>.
\<close>

subsection \<open>Numbers of byte strings\<close>

definition from_bytes :: "bytes \<Rightarrow> nat" where
  "from_bytes bs = foldl (\<lambda>n b. n * 256 + unat b) 0 bs"

fun to_bytes :: "nat \<Rightarrow> nat \<Rightarrow> bytes" where
  "to_bytes 0 n = []"
| "to_bytes (Suc k) n = to_bytes k (n div 256) @ [of_nat (n mod 256)]"

definition bit_length :: "nat \<Rightarrow> nat" where
  "bit_length n = floorlog 2 n"

lemma from_bytes_simps [simp]:
  "from_bytes [] = 0" "from_bytes (bs @ [b]) = from_bytes bs * 256 + unat b"
  by (simp_all add: from_bytes_def)

lemma unat_byte: "unat (b :: 8 word) < 256"
  using unsigned_less [of b, where 'a = nat] by simp

lemma from_bytes_less: "from_bytes bs < 256 ^ length bs"
proof (induction bs rule: rev_induct)
  case (snoc b bs)
  then show ?case using unat_byte [of b] by simp
qed simp

lemma to_from_bytes: "to_bytes (length bs) (from_bytes bs) = bs"
proof (induction bs rule: rev_induct)
  case (snoc b bs)
  have "(from_bytes bs * 256 + unat b) div 256 = from_bytes bs" "(from_bytes bs * 256 + unat b) mod 256 = unat b"
    using unat_byte [of b] by simp_all
  with snoc show ?case by simp
qed simp

lemma from_bytes_zeros: "from_bytes (replicate z 0 @ bs) = from_bytes bs"
  unfolding from_bytes_def by (induction z) simp_all

lemma from_bytes_lower:
  assumes "b \<noteq> 0"
  shows "256 ^ length bs \<le> from_bytes (b # bs)"
proof (induction bs rule: rev_induct)
  case Nil
  have "unat b \<noteq> 0" using assms by (simp add: unat_eq_zero)
  then show ?case by (simp add: from_bytes_def)
next
  case (snoc c bs)
  have "from_bytes (b # bs @ [c]) = from_bytes (b # bs) * 256 + unat c"
    using from_bytes_simps(2) [of "b # bs" c] by simp
  with snoc show ?case by simp
qed

lemma byte_count:
  assumes "256 ^ k \<le> n" "n < 256 ^ Suc k"
  shows "(bit_length n + 7) div 8 = Suc k"
proof -
  have p: "(256 :: nat) = 2 ^ 8" by simp
  have n: "0 < n" using assms(1) by (metis gr0I le_zero_eq power_not_zero zero_neq_numeral)
  have "n < 2 ^ floorlog 2 n" "2 ^ (floorlog 2 n - 1) \<le> n"
    using n floorlog_bounds [of n 2] by simp_all
  moreover have "(2 :: nat) ^ (8 * k) \<le> n" "n < 2 ^ (8 * Suc k)"
    using assms unfolding p power_mult [symmetric] by simp_all
  ultimately have "(2 :: nat) ^ (8 * k) < 2 ^ floorlog 2 n" "(2 :: nat) ^ (floorlog 2 n - 1) < 2 ^ (8 * Suc k)"
    by linarith+
  then have "8 * k < floorlog 2 n" "floorlog 2 n - 1 < 8 * Suc k"
    by (simp_all add: power_strict_increasing_iff del: mult_Suc_right)
  then show ?thesis unfolding bit_length_def by (intro div_nat_eqI) simp_all
qed

lemma to_bytes_minimal:
  assumes "b \<noteq> 0"
  shows "to_bytes ((bit_length (from_bytes (b # bs)) + 7) div 8) (from_bytes (b # bs)) = b # bs"
proof -
  have "(bit_length (from_bytes (b # bs)) + 7) div 8 = length (b # bs)"
    using byte_count [OF from_bytes_lower [OF assms]] from_bytes_less [of "b # bs"] by simp
  then show ?thesis using to_from_bytes [of "b # bs"] by simp
qed

subsection \<open>Base 58\<close>

definition base58_alphabet :: string where
  "base58_alphabet = ''123456789ABCDEFGHJKLMNPQRSTUVWXYZabcdefghijkmnopqrstuvwxyz''"

text \<open>The loop \<open>while number > 0\<close>.\<close>

function base58_loop :: "nat \<Rightarrow> string \<Rightarrow> string" where
  "base58_loop n out = (if 0 < n then base58_loop (n div 58) (base58_alphabet ! (n mod 58) # out) else out)"
  by pat_completeness auto
termination
  by (relation "measure fst") auto

declare base58_loop.simps [simp del]

definition base58_encode :: "bytes \<Rightarrow> string" where
  "base58_encode data =
     replicate (length (takeWhile (\<lambda>b. b = 0) data)) (CHR ''1'') @ base58_loop (from_bytes data) []"

text \<open>\<open>_ALPHABET.find(char)\<close>\<close>

definition base58_index :: "char \<Rightarrow> nat option" where
  "base58_index c =
     (let i = length (takeWhile (\<lambda>x. x \<noteq> c) base58_alphabet) in if i < 58 then Some i else None)"

fun base58_number :: "nat \<Rightarrow> string \<Rightarrow> nat res" where
  "base58_number n [] = Inr n"
| "base58_number n (c # cs) =
     (case base58_index c of None \<Rightarrow> Inl ValueError | Some i \<Rightarrow> base58_number (n * 58 + i) cs)"

definition base58_decode :: "string \<Rightarrow> bytes res" where
  "base58_decode text =
     rbind (base58_number 0 text) (\<lambda>n.
       let body = (if n = 0 then [] else to_bytes ((bit_length n + 7) div 8) n) in
       Inr (replicate (length (takeWhile (\<lambda>c. c = CHR ''1'') text)) 0 @ body))"

subsection \<open>The round trip\<close>

lemma base58_table: "\<forall>i \<in> set [0..<58]. base58_index (base58_alphabet ! i) = Some i
    \<and> (base58_alphabet ! i = CHR ''1'' \<longleftrightarrow> i = 0)"
  by code_simp

lemma base58_index_nth [simp]: "i < 58 \<Longrightarrow> base58_index (base58_alphabet ! i) = Some i"
  using base58_table by simp

lemma base58_one: "i < 58 \<Longrightarrow> base58_alphabet ! i = CHR ''1'' \<longleftrightarrow> i = 0"
  using base58_table by simp

lemma base58_loop_append: "base58_loop n out = base58_loop n [] @ out"
proof (induction n arbitrary: out rule: less_induct)
  case (less n)
  show ?case
  proof (cases "0 < n")
    case True
    then have smaller: "n div 58 < n" by simp
    have "base58_loop n s = base58_loop (n div 58) (base58_alphabet ! (n mod 58) # s)" for s
      using True by (subst base58_loop.simps) simp
    then show ?thesis using less [OF smaller] by (metis append.assoc append_Cons append_Nil)
  qed (simp add: base58_loop.simps)
qed

lemma base58_digits:
  "base58_loop n [] = (if n = 0 then [] else base58_loop (n div 58) [] @ [base58_alphabet ! (n mod 58)])"
proof (cases "n = 0")
  case False
  then have "base58_loop n [] = base58_loop (n div 58) [base58_alphabet ! (n mod 58)]"
    by (subst base58_loop.simps) simp
  then show ?thesis using base58_loop_append [of "n div 58"] False by (metis (no_types))
qed (simp add: base58_loop.simps)

lemma base58_number_append:
  "base58_number n (s @ t) = rbind (base58_number n s) (\<lambda>m. base58_number m t)"
  by (induction n s rule: base58_number.induct) (auto split: option.split)

lemma base58_number_digits: "base58_number 0 (base58_loop n []) = Inr n"
proof (induction n rule: less_induct)
  case (less n)
  show ?case
  proof (cases "n = 0")
    case False
    then have "base58_number 0 (base58_loop (n div 58) []) = Inr (n div 58)" by (intro less) simp
    then have "base58_number 0 (base58_loop (n div 58) [] @ [base58_alphabet ! (n mod 58)]) = Inr n"
      by (simp add: base58_number_append)
    with False show ?thesis by (subst base58_digits) simp
  qed (simp add: base58_loop.simps)
qed

lemma base58_head: "n \<noteq> 0 \<Longrightarrow> base58_loop n [] \<noteq> [] \<and> hd (base58_loop n []) \<noteq> CHR ''1''"
proof (induction n rule: less_induct)
  case (less n)
  show ?case
  proof (cases "n div 58 = 0")
    case True
    then have "n < 58" by (metis div_eq_0_iff zero_neq_numeral)
    with less.prems have "base58_loop n [] = [base58_alphabet ! n]" by (subst base58_digits) (simp add: base58_loop.simps)
    with less.prems \<open>n < 58\<close> show ?thesis using base58_one by simp
  next
    case False
    have "n div 58 < n" using less.prems by simp
    from less.IH [OF this False] less.prems show ?thesis by (subst (1 2) base58_digits) simp
  qed
qed

lemma takeWhile_replicate:
  "(\<And>y ys. xs = y # ys \<Longrightarrow> \<not> P y) \<Longrightarrow> P x \<Longrightarrow> takeWhile P (replicate n x @ xs) = replicate n x"
  by (induction n) (cases xs; simp)+

lemma leading_zeros: "\<exists>z bs. data = replicate z (0 :: 8 word) @ bs \<and> (bs = [] \<or> hd bs \<noteq> 0)"
proof (induction data)
  case (Cons b data)
  then obtain z bs where zb: "data = replicate z 0 @ bs" "bs = [] \<or> hd bs \<noteq> 0" by blast
  show ?case
  proof (cases "b = 0")
    case True
    with zb have "b # data = replicate (Suc z) 0 @ bs" by simp
    with zb(2) show ?thesis by blast
  next
    case False
    then have "b # data = replicate 0 0 @ (b # data)" "hd (b # data) \<noteq> 0" by simp_all
    then show ?thesis by blast
  qed
qed simp

lemma base58_number_ones: "base58_number 0 (replicate z (CHR ''1'') @ s) = base58_number 0 s"
proof -
  have "base58_index (CHR ''1'') = Some 0" by code_simp
  then show ?thesis by (induction z) simp_all
qed

lemma base58_decode_encode: "base58_decode (base58_encode data) = Inr data"
proof -
  obtain z bs where data: "data = replicate z 0 @ bs" and bs: "bs = [] \<or> hd bs \<noteq> 0"
    using leading_zeros by blast
  have zeros: "length (takeWhile (\<lambda>b. b = 0) data) = z"
    unfolding data using bs by (subst takeWhile_replicate) auto
  let ?n = "from_bytes bs"
  have encoded: "base58_encode data = replicate z (CHR ''1'') @ base58_loop ?n []"
    by (simp only: base58_encode_def zeros) (simp only: data from_bytes_zeros)
  have n0: "?n = 0 \<longleftrightarrow> bs = []"
  proof (cases bs)
    case (Cons b cs)
    with bs from_bytes_lower [of b cs] show ?thesis by (metis list.sel(1) list.simps(3) le_zero_eq power_not_zero zero_neq_numeral)
  qed simp
  have ones: "takeWhile (\<lambda>c. c = CHR ''1'') (replicate z (CHR ''1'') @ base58_loop ?n []) = replicate z (CHR ''1'')"
  proof (rule takeWhile_replicate)
    fix y ys assume l: "base58_loop ?n [] = y # ys"
    have "?n \<noteq> 0" using l by (cases "?n = 0") (auto simp: base58_loop.simps)
    from base58_head [OF this] l show "y \<noteq> CHR ''1''" by simp
  qed simp
  have "(if ?n = 0 then [] else to_bytes ((bit_length ?n + 7) div 8) ?n) = bs"
  proof (cases bs)
    case (Cons b cs)
    then show ?thesis using bs n0 to_bytes_minimal [of b cs] by simp
  qed simp
  then show ?thesis
    unfolding base58_decode_def encoded base58_number_ones base58_number_digits rbind_simps Let_def ones
    by (simp add: data)
qed

end
