(* ===== verification/Link_Dates.thy ===== *)
theory Link_Dates
  imports Iso_Date
begin

text \<open>
  The dates of \<open>interop/identity_link.py\<close>: \<open>parse_iso8601\<close> with its regular expression, and
  \<open>iso8601\<close>, which writes whole seconds in UTC. A moment is the number of seconds since the epoch;
  \<open>datetime\<close> knows the years 1 to 9999.
\<close>

subsection \<open>Reading\<close>

text \<open>\<open>[+-]\d{2}:?\d{2}\<close>: hours and minutes, with the sign.\<close>

definition zone_offset :: "string \<Rightarrow> int option" where
  "zone_offset z =
     (case z of
        [] \<Rightarrow> None
      | c # off \<Rightarrow>
          if c = CHR ''+'' \<or> c = CHR ''-'' then
            (let rest = drop 2 off; minutes = (if rest \<noteq> [] \<and> hd rest = CHR '':'' then tl rest else rest) in
             case (digits_of 2 off, digits_of 2 minutes) of
               (Some h, Some m) \<Rightarrow>
                 if length minutes = 2 then
                   Some ((if c = CHR ''+'' then 1 else -1) * (int h * 3600 + int m * 60)) else None
             | _ \<Rightarrow> None)
          else None)"

text \<open>The end of the text, or the newline before it, is where \<open>$\<close> matches.\<close>

definition before_end :: "string \<Rightarrow> string" where
  "before_end s = (if s \<noteq> [] \<and> last s = CHR 0x0A then butlast s else s)"

definition iso_fields :: "string \<Rightarrow> (nat \<times> nat \<times> nat \<times> nat \<times> nat \<times> nat \<times> string) option" where
  "iso_fields s =
     (if 20 \<le> length s \<and> s ! 4 = CHR ''-'' \<and> s ! 7 = CHR ''-'' \<and> s ! 10 = CHR ''T'' \<and> s ! 13 = CHR '':''
         \<and> s ! 16 = CHR '':'' then
        (case (digits_of 4 s, digits_of 2 (drop 5 s), digits_of 2 (drop 8 s), digits_of 2 (drop 11 s),
               digits_of 2 (drop 14 s), digits_of 2 (drop 17 s)) of
           (Some y, Some mo, Some d, Some h, Some mi, Some se) \<Rightarrow> Some (y, mo, d, h, mi, se, drop 19 s)
         | _ \<Rightarrow> None)
      else None)"

definition day_seconds :: "nat \<Rightarrow> nat \<Rightarrow> nat \<Rightarrow> int option" where
  "day_seconds h mi se =
     (if h < 24 \<and> mi < 60 \<and> se < 60 then Some ((int h * 60 + int mi) * 60 + int se) else None)"

definition FIRST_SECOND :: int where
  "FIRST_SECOND = (1 - EPOCH_ORDINAL) * 86400"

definition LAST_SECOND :: int where
  "LAST_SECOND = (MAX_ORDINAL + 1 - EPOCH_ORDINAL) * 86400 - 1"

text \<open>
  \<open>\d\<close> and \<open>int\<close> take the decimal digits of every script, so those are read as ASCII digits first.
  An offset that leads out of the years of \<open>datetime\<close> is an \<open>OverflowError\<close>.
\<close>

definition parse_iso8601 :: "string \<Rightarrow> int option res" where
  "parse_iso8601 s =
     (case iso_fields (ascii_digits (before_end s)) of
        None \<Rightarrow> Inr None
      | Some (y, mo, d, h, mi, se, zone) \<Rightarrow>
          if zone \<noteq> ''Z'' \<and> zone_offset zone = None then Inr None
          else (case (calendar_date (int y) (int mo) (int d), day_seconds h mi se) of
              (Some day, Some sec) \<Rightarrow>
                (let moment = (day - EPOCH_ORDINAL) * 86400 + sec in
                 case zone_offset zone of
                   None \<Rightarrow> Inr (Some moment)
                 | Some off \<Rightarrow>
                     if FIRST_SECOND \<le> moment - off \<and> moment - off \<le> LAST_SECOND then Inr (Some (moment - off))
                     else Inl OverflowError)
            | _ \<Rightarrow> Inr None))"

subsection \<open>Writing\<close>

text \<open>The date of an ordinal: the year by counting up from a lower bound, then the month.\<close>

function find_year :: "int \<Rightarrow> nat \<Rightarrow> nat" where
  "find_year n y = (if ordinal (int y + 1) 1 1 \<le> n then find_year n (Suc y) else y)"
  by pat_completeness auto
termination
proof (relation "measure (\<lambda>(n, y). nat (n - int y))")
  fix n :: int and y :: nat
  assume le: "ordinal (int y + 1) 1 1 \<le> n"
  have "int y div 100 \<le> int y div 4" by linarith
  then have "int y < n" using le by (simp add: ordinal_def days_before_month_def)
  then show "((n, Suc y), n, y) \<in> measure (\<lambda>(n, y). nat (n - int y))" by simp
qed simp

declare find_year.simps [simp del]

function find_month :: "int \<Rightarrow> int \<Rightarrow> int \<Rightarrow> int \<times> int" where
  "find_month y m d =
     (if m < 12 \<and> month_days y m < d then find_month y (m + 1) (d - month_days y m) else (m, d))"
  by pat_completeness auto
termination
  by (relation "measure (\<lambda>(y, m, d). nat (12 - m))") auto

declare find_month.simps [simp del]

definition civil :: "int \<Rightarrow> int \<times> int \<times> int" where
  "civil n =
     (let y = int (find_year n (nat (n div 366) + 1)); (m, d) = find_month y 1 (n - ordinal y 1 1 + 1) in (y, m, d))"

definition pad2 :: "nat \<Rightarrow> string" where
  "pad2 n = [digit_char (n div 10), digit_char (n mod 10)]"

text \<open>\<open>%Y\<close> of a year before 1000 depends on the platform; it is left without leading zeros here.\<close>

definition year_text :: "nat \<Rightarrow> string" where
  "year_text y = (if y < 1000 then show_nat y else pad2 (y div 100) @ pad2 (y mod 100))"

definition utc_text :: "int \<Rightarrow> string" where
  "utc_text s =
     (let (y, m, d) = civil (s div 86400 + EPOCH_ORDINAL); r = nat (s mod 86400) in
      year_text (nat y) @ ''-'' @ pad2 (nat m) @ ''-'' @ pad2 (nat d) @ ''T''
      @ pad2 (r div 3600) @ '':'' @ pad2 (r div 60 mod 60) @ '':'' @ pad2 (r mod 60) @ ''Z'')"

definition iso8601 :: "rat \<Rightarrow> string res" where
  "iso8601 moment =
     (let s = \<lfloor>moment\<rfloor> in if FIRST_SECOND \<le> s \<and> s \<le> LAST_SECOND then Inr (utc_text s) else Inl ValueError)"

subsection \<open>What is written is read back\<close>

lemma div_step: "0 < k \<Longrightarrow> (y :: int) div k - (y - 1) div k = (if y mod k = 0 then 1 else 0)"
proof -
  assume k: "0 < k"
  define q r where "q = y div k" "r = y mod k"
  have y: "y = k * q + r" "0 \<le> r" "r < k" using k by (simp_all add: q_r_def)
  have "(y - 1) div k = (if r = 0 then q - 1 else q)"
  proof (cases "r = 0")
    case True
    have "(y - 1) div k = q - 1"
      by (rule int_div_pos_eq [where r = "k - 1"]) (use y k True in \<open>simp_all add: algebra_simps\<close>)
    with True show ?thesis by simp
  next
    case False
    have "(y - 1) div k = q" by (rule int_div_pos_eq [where r = "r - 1"]) (use y False in simp_all)
    with False show ?thesis by simp
  qed
  then show ?thesis by (simp add: q_r_def [symmetric])
qed

lemma leap_mods: "(y :: int) mod 100 = 0 \<Longrightarrow> y mod 4 = 0" "(y :: int) mod 400 = 0 \<Longrightarrow> y mod 100 = 0"
  by (simp_all add: mod_eq_0_iff_dvd) (rule dvd_trans; simp; fail)+

lemma leap_step:
  "ordinal (y + 1) 1 1 - ordinal y 1 1 = 365 + (if is_leap y then 1 else 0)"
proof -
  have b: "days_before_month z 1 = 0" for z by (simp add: days_before_month_def)
  define p4 p100 p400 leap :: int
    where "p4 = (if y mod 4 = 0 then 1 else 0)" and "p100 = (if y mod 100 = 0 then 1 else 0)"
      and "p400 = (if y mod 400 = 0 then 1 else 0)" and "leap = (if is_leap y then 1 else 0)"
  have "leap = p4 - p100 + p400"
    using leap_mods [of y] by (cases "y mod 4 = 0"; cases "y mod 100 = 0"; cases "y mod 400 = 0")
      (simp_all add: is_leap_def p4_def p100_def p400_def leap_def)
  moreover have "y div 4 - (y - 1) div 4 = p4" "y div 100 - (y - 1) div 100 = p100"
    "y div 400 - (y - 1) div 400 = p400"
    unfolding p4_def p100_def p400_def by (rule div_step; simp)+
  moreover have "ordinal (y + 1) 1 1 = y * 365 + y div 4 - y div 100 + y div 400 + 1"
    "ordinal y 1 1 = (y - 1) * 365 + (y - 1) div 4 - (y - 1) div 100 + (y - 1) div 400 + 1"
    unfolding ordinal_def b by simp_all
  moreover have "(y - 1) * 365 = y * 365 - 365" by simp
  ultimately show ?thesis unfolding leap_def [symmetric] by presburger
qed

lemma ordinal_mono: "a \<le> b \<Longrightarrow> ordinal a 1 1 \<le> ordinal b 1 1"
proof (induction b rule: int_ge_induct)
  case (step b)
  with leap_step [of b] show ?case by (simp split: if_splits)
qed simp

lemma find_year_bounds:
  "ordinal (int y) 1 1 \<le> n \<Longrightarrow>
     ordinal (int (find_year n y)) 1 1 \<le> n \<and> n < ordinal (int (find_year n y) + 1) 1 1 \<and> y \<le> find_year n y"
proof (induction n y rule: find_year.induct)
  case (1 n y)
  show ?case
  proof (cases "ordinal (int y + 1) 1 1 \<le> n")
    case True
    then have "ordinal (int (Suc y)) 1 1 \<le> n" by (simp add: add.commute)
    from "1.IH" [OF True this] True show ?thesis by (simp add: find_year.simps [of n y])
  qed (use "1.prems" in \<open>simp add: find_year.simps [of n y]\<close>)
qed

lemma year_start: "1 \<le> n \<Longrightarrow> ordinal (int (nat (n div 366) + 1)) 1 1 \<le> n"
proof -
  assume n: "1 \<le> n"
  define k where "k = n div 366"
  have k: "0 \<le> k" "366 * k \<le> n" using n by (simp_all add: k_def pos_imp_zdiv_nonneg_iff)
  have "k div 400 \<le> k div 100" "1 \<le> k \<Longrightarrow> k div 4 + 1 \<le> k" "k = 0 \<Longrightarrow> k div 4 = 0"
    using k(1) by (simp add: zdiv_mono2, linarith, simp)
  then have "k * 365 + k div 4 - k div 100 + k div 400 + 1 \<le> n" using k n by linarith
  then show ?thesis using k(1) by (simp add: ordinal_def days_before_month_def k_def [symmetric])
qed

lemma month_step: "1 \<le> m \<Longrightarrow> days_before_month y (m + 1) = days_before_month y m + month_days y m"
proof -
  assume "1 \<le> m"
  then have "[1..m + 1 - 1] = [1..m - 1] @ [m]" using upto_rec2 [of 1 m] by simp
  then show ?thesis by (simp add: days_before_month_def)
qed

lemma find_month_ok:
  "find_month y m d = (m', d') \<Longrightarrow> 1 \<le> m \<Longrightarrow> m \<le> 12 \<Longrightarrow> 1 \<le> d \<Longrightarrow>
     1 \<le> m' \<and> m' \<le> 12 \<and> 1 \<le> d' \<and> days_before_month y m' + d' = days_before_month y m + d
     \<and> (m' < 12 \<longrightarrow> d' \<le> month_days y m')"
proof (induction y m d rule: find_month.induct)
  case (1 y m d)
  show ?case
  proof (cases "m < 12 \<and> month_days y m < d")
    case True
    then have "find_month y (m + 1) (d - month_days y m) = (m', d')"
      using "1.prems"(1) by (simp add: find_month.simps [of y m d])
    from "1.IH" [OF True this] True "1.prems" month_step [of m y] show ?thesis by auto
  next
    case False
    then have "m' = m" "d' = d" using "1.prems"(1) by (auto simp: find_month.simps [of y m d])
    with False "1.prems" show ?thesis by auto
  qed
qed

lemma days_before_december: "days_before_month y 12 = 334 + (if is_leap y then 1 else 0)"
  by (simp add: days_before_month_def upto_rec1 month_days_def)

lemma civil_ok:
  assumes "1 \<le> n" "n \<le> MAX_ORDINAL" "civil n = (y, m, d)"
  shows "calendar_date y m d = Some n"
proof -
  define y0 where "y0 = find_year n (nat (n div 366) + 1)"
  have year: "ordinal (int y0) 1 1 \<le> n" "n < ordinal (int y0 + 1) 1 1" "1 \<le> y0"
    using find_year_bounds [OF year_start [OF assms(1)]] by (simp_all add: y0_def)
  obtain m0 d0 where md: "find_month (int y0) 1 (n - ordinal (int y0) 1 1 + 1) = (m0, d0)" by fastforce
  have ymd: "y = int y0" "m = m0" "d = d0"
    using assms(3) unfolding civil_def Let_def y0_def [symmetric] md by simp_all
  have b: "days_before_month z 1 = 0" for z by (simp add: days_before_month_def)
  have one: "1 \<le> n - ordinal (int y0) 1 1 + 1" using year(1) by simp
  have month: "1 \<le> m0" "m0 \<le> 12" "1 \<le> d0"
      "days_before_month (int y0) m0 + d0 = n - ordinal (int y0) 1 1 + 1" "m0 < 12 \<longrightarrow> d0 \<le> month_days (int y0) m0"
    using find_month_ok [OF md _ _ one] b by simp_all
  have "d0 \<le> month_days (int y0) m0"
  proof (cases "m0 < 12")
    case False
    then have "m0 = 12" using month(2) by simp
    then show ?thesis using month(4) year(2) leap_step [of "int y0"] days_before_december [of "int y0"]
      by (simp add: month_days_def)
  qed (use month(5) in simp)
  moreover have "ordinal (int y0) m0 d0 = n"
    using month(4) by (simp add: ordinal_def b)
  moreover have "int y0 \<le> 9999"
  proof (rule ccontr)
    assume "\<not> int y0 \<le> 9999"
    then have y0: "10000 \<le> int y0" by simp
    from ordinal_mono [OF this] year(1) assms(2) show False
      by (simp add: ordinal_def b MAX_ORDINAL_def)
  qed
  ultimately show ?thesis using month year(3) unfolding ymd calendar_date_def by simp
qed

lemma digits2: "a < 10 \<Longrightarrow> b < 10 \<Longrightarrow> digits_of 2 (digit_char a # digit_char b # s) = Some (10 * a + b)"
  by (simp add: digits_of_def read_digits_def numeral_2_eq_2)

lemma digits4:
  "a < 10 \<Longrightarrow> b < 10 \<Longrightarrow> c < 10 \<Longrightarrow> d < 10 \<Longrightarrow>
     digits_of 4 (digit_char a # digit_char b # digit_char c # digit_char d # s) = Some (1000 * a + 100 * b + 10 * c + d)"
  by (simp add: digits_of_def read_digits_def algebra_simps)

lemma tens: "n < 100 \<Longrightarrow> n div 10 < (10 :: nat)" "10 * (n div 10) + n mod 10 = n"
  by (simp_all add: less_mult_imp_div_less)

lemma written_fields:
  assumes "y < 10000" "1000 \<le> y" "m < 100" "d < 100" "h < 100" "i < 100" "s < 100"
  shows "iso_fields (year_text y @ ''-'' @ pad2 m @ ''-'' @ pad2 d @ ''T'' @ pad2 h @ '':'' @ pad2 i @ '':''
      @ pad2 s @ ''Z'') = Some (y, m, d, h, i, s, ''Z'')"
proof -
  have y: "y div 100 < 100" "y mod 100 < 100" using assms(1) by (simp_all add: less_mult_imp_div_less)
  have y4: "1000 * (q div 10) + 100 * (q mod 10) + 10 * (r div 10) + r mod 10 = y" if "q = y div 100" "r = y mod 100" for q r
  proof -
    have "y = 100 * q + r" using that by simp
    then show ?thesis using tens(2) [of q] tens(2) [of r] by linarith
  qed
  show ?thesis
    using assms(2) tens(1) [OF y(1)] tens(1) [OF y(2)] tens(1) [OF assms(3)] tens(1) [OF assms(4)]
      tens(1) [OF assms(5)] tens(1) [OF assms(6)] tens(1) [OF assms(7)]
    using y4 [OF refl refl]
    by (simp add: iso_fields_def year_text_def pad2_def digits2 digits4 tens(2) del: div_mult2_eq [symmetric] mod_mod_cancel)
qed

lemma civil_bounds:
  assumes "calendar_date y m d = Some n"
  shows "1 \<le> y" "y \<le> 9999" "1 \<le> m" "m \<le> 12" "1 \<le> d" "d \<le> 31" "n = ordinal y m d"
proof -
  have "d \<le> month_days y m" using assms by (simp add: calendar_date_def split: if_splits)
  also have "\<dots> \<le> 31" by (simp add: month_days_def)
  finally show "d \<le> 31" .
qed (use assms in \<open>simp_all add: calendar_date_def split: if_splits\<close>)

lemma civil_year: "1 \<le> n \<Longrightarrow> civil n = (y, m, d) \<Longrightarrow> n < ordinal (y + 1) 1 1"
  using find_year_bounds [OF year_start] unfolding civil_def Let_def by (auto split: prod.splits)

lemma pad2_ascii: "n < 100 \<Longrightarrow> is_ascii (pad2 n)"
  by (simp add: is_ascii_def pad2_def of_char_digit_char less_mult_imp_div_less)

lemma year_text_ascii: "1000 \<le> y \<Longrightarrow> y < 10000 \<Longrightarrow> is_ascii (year_text y)"
  using pad2_ascii [of "y div 100"] pad2_ascii [of "y mod 100"]
  by (simp add: year_text_def is_ascii_def ball_Un less_mult_imp_div_less)

theorem parse_utc_text:
  assumes "0 \<le> s" "s \<le> LAST_SECOND"
  shows "parse_iso8601 (utc_text s) = Inr (Some s)"
proof -
  define n where "n = s div 86400 + EPOCH_ORDINAL"
  obtain y m d where ymd: "civil n = (y, m, d)" by (cases "civil n")
  have "0 \<le> s div 86400" using assms(1) by (simp add: pos_imp_zdiv_nonneg_iff)
  moreover have "s div 86400 \<le> MAX_ORDINAL - EPOCH_ORDINAL" 
  proof -
    have "s = 86400 * (s div 86400) + s mod 86400" "0 \<le> s mod 86400" by simp_all
    moreover have "s \<le> 253402300799"
      using assms(2) by (simp add: LAST_SECOND_def MAX_ORDINAL_def EPOCH_ORDINAL_def)
    ultimately have "s div 86400 \<le> 2932896" by linarith
    then show ?thesis by (simp add: MAX_ORDINAL_def EPOCH_ORDINAL_def)
  qed
  ultimately have n: "EPOCH_ORDINAL \<le> n" "n \<le> MAX_ORDINAL" unfolding n_def by simp_all
  have one: "1 \<le> n" using n(1) by (simp add: EPOCH_ORDINAL_def)
  from civil_ok [OF one n(2) ymd] have cal: "calendar_date y m d = Some n" .
  note b = civil_bounds [OF cal]
  have "1000 \<le> y"
  proof (rule ccontr)
    assume "\<not> 1000 \<le> y"
    then have "ordinal (y + 1) 1 1 \<le> ordinal 1000 1 1" by (intro ordinal_mono) simp
    moreover have "ordinal 1000 1 1 = 364878" by (simp add: ordinal_def days_before_month_def)
    ultimately show False using civil_year [OF one ymd] n(1) by (simp add: EPOCH_ORDINAL_def)
  qed
  define r where "r = nat (s mod 86400)"
  have r: "r < 86400" "int r = s mod 86400" using nat_less_iff [of "s mod 86400" 86400] by (simp_all add: r_def)
  have hms: "r div 3600 < 24" "r div 60 mod 60 < 60" "r mod 60 < 60" using r(1) by (simp_all add: less_mult_imp_div_less)
  have "utc_text s = year_text (nat y) @ ''-'' @ pad2 (nat m) @ ''-'' @ pad2 (nat d) @ ''T''
      @ pad2 (r div 3600) @ '':'' @ pad2 (r div 60 mod 60) @ '':'' @ pad2 (r mod 60) @ ''Z''"
    by (simp add: utc_text_def n_def [symmetric] ymd Let_def r_def [symmetric])
  moreover have "before_end (utc_text s) = utc_text s"
    by (simp add: before_end_def calculation)
  moreover have "is_ascii (utc_text s)"
    using year_text_ascii [of "nat y"] pad2_ascii [of "nat m"] pad2_ascii [of "nat d"]
      pad2_ascii [of "r div 3600"] pad2_ascii [of "r div 60 mod 60"] pad2_ascii [of "r mod 60"] b hms \<open>1000 \<le> y\<close>
    unfolding calculation(1) by (simp add: is_ascii_def ball_Un)
  ultimately have "iso_fields (ascii_digits (before_end (utc_text s)))
      = Some (nat y, nat m, nat d, r div 3600, r div 60 mod 60, r mod 60, ''Z'')"
    using written_fields [of "nat y" "nat m" "nat d" "r div 3600" "r div 60 mod 60" "r mod 60"] b hms \<open>1000 \<le> y\<close>
    by (simp add: ascii_digits_id)
  moreover have "(int (r div 3600) * 60 + int (r div 60 mod 60)) * 60 + int (r mod 60) = int r"
  proof -
    have "r div 3600 = r div 60 div 60" by (simp add: div_mult2_eq)
    then have "((r div 3600) * 60 + r div 60 mod 60) * 60 + r mod 60 = r" by simp
    then show ?thesis by (metis of_nat_add of_nat_mult of_nat_numeral)
  qed
  moreover have "(n - EPOCH_ORDINAL) * 86400 + int r = s" unfolding r(2) n_def by simp
  ultimately show ?thesis
    using cal b hms by (simp add: parse_iso8601_def day_seconds_def zone_offset_def)
qed

end
