(* ===== verification/Link_Models.thy ===== *)
theory Link_Models
  imports Verify Base58 Link_Dates
begin

text \<open>
  The data of \<open>interop/identity_link.py\<close>: \<open>did:key\<close> identifiers and the classes that extending an
  entity exchanges (credential, presentation, record, envelopes, genesis seal). Objects are those of
  \<open>Models\<close>; the two classes that check more than their table (\<open>VCProof\<close>, \<open>VCClaim\<close>) do so each
  time one is read, at any depth (\<open>from_wire_with\<close>).
\<close>

subsection \<open>did:key\<close>

definition PREFIXES :: "(string \<times> bytes) list" where
  "PREFIXES = [(''Curve25519'', [0xED, 0x01]), (''secp256k1'', [0xE7, 0x01]), (''P256'', [0x80, 0x24])]"

definition did_key :: "instance \<Rightarrow> string res" where
  "did_key descriptor =
     rbind (str_at descriptor [''curve_type'']) (\<lambda>curve.
       case dget PREFIXES curve of
         None \<Rightarrow> Inl (LinkFailure ''missingPublicKey'')
       | Some p \<Rightarrow> rbind (bytes_at descriptor [''public_key'']) (\<lambda>key.
           Inr (''did:key:z'' @ base58_encode (p @ key))))"

fun strip_prefix :: "(string \<times> bytes) list \<Rightarrow> bytes \<Rightarrow> (string \<times> bytes) res" where
  "strip_prefix [] decoded = Inl ValueError"
| "strip_prefix ((curve, p) # ps) decoded =
     (if take (length p) decoded = p then Inr (curve, drop (length p) decoded) else strip_prefix ps decoded)"

definition public_key_from_did_key :: "string \<Rightarrow> (string \<times> bytes) res" where
  "public_key_from_did_key did =
     (if \<not> startswith did ''did:key:z'' then Inl ValueError
      else rbind (base58_decode (drop 9 did)) (strip_prefix PREFIXES))"

subsection \<open>Classes\<close>

definition VCProof :: model_class where
  "VCProof = Class ''VCProof'' [(''signature_data'', VBytes [])]
     [need ''type'' ''type'' KStr,
      need ''created'' ''created'' KStr,
      need ''proof_purpose'' ''proofPurpose'' KStr,
      need ''verification_method'' ''verificationMethod'' KStr,
      need ''signature_data'' ''signatureData'' KBytes]
     []"

definition VCClaim :: model_class where
  "VCClaim = Class ''VCClaim'' [(''context'', VNull)]
     [opt ''context'' ''@context'' KStrs,
      need ''id'' ''id'' KStr,
      need ''type'' ''type'' KStrs,
      need ''issuer'' ''issuer'' KRaw,
      need ''issuance_date'' ''issuanceDate'' KStr,
      need ''credential_subject'' ''credentialSubject'' KRaw,
      need ''proof'' ''proof'' (KModel VCProof)]
     []"

definition VCPresentation :: model_class where
  "VCPresentation = Class ''VCPresentation''
     [(''context'', VNull), (''challenge'', VNull), (''domain'', VNull), (''holder_binding'', VNull),
      (''verifiable_credential'', VNull)]
     [opt ''context'' ''@context'' KStrs,
      need ''id'' ''id'' KStr,
      need ''type'' ''type'' KStrs,
      need ''holder'' ''holder'' KRaw,
      opt ''challenge'' ''challenge'' KBytes,
      opt ''domain'' ''domain'' KStr,
      opt ''holder_binding'' ''holderBinding'' (KModel IdentityPublicKeyDescriptor),
      opt ''verifiable_credential'' ''verifiableCredential'' (KModels VCClaim),
      need ''proof'' ''proof'' (KModel VCProof)]
     []"

definition SameEntityIdentityLinkCredentialSubject :: model_class where
  "SameEntityIdentityLinkCredentialSubject = Class ''SameEntityIdentityLinkCredentialSubject''
     [(''link_type'', VStr ''same_entity''), (''revocation_reference'', VNull)]
     [need ''id'' ''id'' KStr,
      need ''link_type'' ''linkType'' KStr,
      need ''entity_binding'' ''entityBinding'' (KModel EntityBindingDescriptor),
      need ''linked_identity'' ''linkedIdentity'' (KModel IdentityPublicKeyDescriptor),
      need ''approved_domains'' ''approvedDomains'' KStrs,
      need ''approved_identity_contexts'' ''approvedIdentityContexts'' KStrs,
      need ''approved_scopes'' ''approvedScopes'' KStrs,
      need ''enrollment_request_hash'' ''enrollmentRequestHash'' KBytes,
      need ''assurance_source'' ''assuranceSource'' KStr,
      need ''assurance_level'' ''assuranceLevel'' KStr,
      need ''valid_until'' ''validUntil'' KStr,
      opt ''revocation_reference'' ''revocationReference'' KStr]
     []"

definition IdentityLinkRecord :: model_class where
  "IdentityLinkRecord = Class ''IdentityLinkRecord''
     [(''status'', VStr ''active''), (''last_used_at'', VNull), (''revoked_at'', VNull),
      (''revocation_reference'', VNull)]
     [need ''link_id'' ''linkID'' KStr,
      need ''entity_binding'' ''entityBinding'' (KModel EntityBindingDescriptor),
      need ''linked_identity'' ''linkedIdentity'' (KModel IdentityPublicKeyDescriptor),
      need ''approved_domains'' ''approvedDomains'' KStrs,
      need ''approved_identity_contexts'' ''approvedIdentityContexts'' KStrs,
      need ''approved_scopes'' ''approvedScopes'' KStrs,
      need ''issuer_identity_uuid'' ''issuerIdentityUUID'' KStr,
      need ''issuer_type'' ''issuerType'' KStr,
      need ''status'' ''status'' KStr,
      need ''linked_at'' ''linkedAt'' KStr,
      opt ''last_used_at'' ''lastUsedAt'' KStr,
      opt ''revoked_at'' ''revokedAt'' KStr,
      opt ''revocation_reference'' ''revocationReference'' KStr]
     []"

definition IdentityLinkCompletionEnvelope :: model_class where
  "IdentityLinkCompletionEnvelope = Class ''IdentityLinkCompletionEnvelope''
     [(''require_fresh_auth_evidence'', VNull)]
     [need ''request'' ''request'' (KModel IdentityEnrollmentRequest),
      need ''approval'' ''approval'' (KModel IdentityEnrollmentApproval),
      need ''same_entity_credential'' ''sameEntityCredential'' (KModel VCClaim),
      need ''presentation'' ''presentation'' (KModel VCPresentation),
      need ''issuer_identity'' ''issuerIdentity'' (KModel IdentityPublicKeyDescriptor),
      need ''expected_audience'' ''expectedAudience'' KStr,
      need ''expected_origin'' ''expectedOrigin'' KStr,
      need ''expected_presentation_challenge'' ''expectedPresentationChallenge'' KBytes,
      need ''expected_presentation_domain'' ''expectedPresentationDomain'' KStr,
      opt ''require_fresh_auth_evidence'' ''requireFreshAuthEvidence'' KBool]
     []"

definition IdentityLinkApprovalEnvelope :: model_class where
  "IdentityLinkApprovalEnvelope = Class ''IdentityLinkApprovalEnvelope''
     [(''issuer_type'', VStr ''existingDevice''), (''fresh_auth_required'', VBool True),
      (''approved_domains'', VNull), (''approved_identity_contexts'', VNull), (''approved_scopes'', VNull),
      (''expires_at'', VNull), (''jti'', VNull), (''fresh_auth_performed_at'', VNull),
      (''fresh_auth_evidence'', VNull), (''revocation_reference'', VNull)]
     [need ''request'' ''request'' (KModel IdentityEnrollmentRequest),
      need ''issuer_type'' ''issuerType'' KStr,
      opt ''approved_domains'' ''approvedDomains'' KStrs,
      opt ''approved_identity_contexts'' ''approvedIdentityContexts'' KStrs,
      opt ''approved_scopes'' ''approvedScopes'' KStrs,
      opt ''expires_at'' ''expiresAt'' KStr,
      opt ''jti'' ''jti'' KStr,
      need ''fresh_auth_required'' ''freshAuthRequired'' KBool,
      opt ''fresh_auth_performed_at'' ''freshAuthPerformedAt'' KStr,
      opt ''fresh_auth_evidence'' ''freshAuthEvidence'' (KModel IdentityLinkFreshAuthEvidence),
      opt ''revocation_reference'' ''revocationReference'' KStr]
     []"

definition IdentityLinkApprovalPackage :: model_class where
  "IdentityLinkApprovalPackage = Class ''IdentityLinkApprovalPackage'' []
     [need ''approval'' ''approval'' (KModel IdentityEnrollmentApproval),
      need ''same_entity_credential'' ''sameEntityCredential'' (KModel VCClaim),
      need ''issuer_identity'' ''issuerIdentity'' (KModel IdentityPublicKeyDescriptor)]
     []"

definition EntityGenesisSeal :: model_class where
  "EntityGenesisSeal = Class ''EntityGenesisSeal'' [(''version'', VInt 1), (''proof'', VNull)]
     [need ''version'' ''version'' KInt,
      need ''anchor_id'' ''anchorID'' KStr,
      need ''sealed_at'' ''sealedAt'' KStr,
      need ''trigger'' ''trigger'' KStr,
      need ''link_id'' ''linkID'' KStr,
      need ''initiator_identity_uuid'' ''initiatorIdentityUUID'' KStr,
      opt ''proof'' ''proof'' (KModel IdentityEnrollmentApprovalProof)]
     [''proof'']"

subsection \<open>Reading with the checks of \<open>VCProof\<close> and \<open>VCClaim\<close>\<close>

fun from_wire_with :: "(instance \<Rightarrow> unit res) \<Rightarrow> model_class \<Rightarrow> pyval \<Rightarrow> instance res"
and read_specs_with :: "(instance \<Rightarrow> unit res) \<Rightarrow> spec list \<Rightarrow> pyval dict \<Rightarrow> (string \<times> fval) list res"
and decode_field_with :: "(instance \<Rightarrow> unit res) \<Rightarrow> kind \<Rightarrow> pyval \<Rightarrow> fval res" where
  "from_wire_with chk (Class n df sps ex) = (\<lambda>wire.
     case wire of
       VDict d \<Rightarrow> rbind (read_specs_with chk sps d) (\<lambda>fs.
         let m = Instance (Class n df sps ex) fs in rbind (chk m) (\<lambda>_. Inr m))
     | _ \<Rightarrow> Inl WireDecodeError)"
| "read_specs_with chk [] = (\<lambda>d. Inr [])"
| "read_specs_with chk (Spec a key k optional dflt omit # sps) = (\<lambda>d.
     rbind (if getn d key = VNull then absent_field (Spec a key k optional dflt omit)
            else decode_field_with chk k (getn d key))
       (\<lambda>v. rbind (read_specs_with chk sps d) (\<lambda>fs. Inr ((a, v) # fs))))"
| "decode_field_with chk (KModel c) = (\<lambda>v. rbind (from_wire_with chk c v) (\<lambda>m. Inr (FObj m)))"
| "decode_field_with chk (KModels c) = (\<lambda>v.
     case v of VList vs \<Rightarrow> rbind (rmap (from_wire_with chk c) vs) (\<lambda>ms. Inr (FObjs ms))
     | _ \<Rightarrow> Inl WireDecodeError)"
| "decode_field_with chk KStr = decode_field KStr"
| "decode_field_with chk KInt = decode_field KInt"
| "decode_field_with chk KNumber = decode_field KNumber"
| "decode_field_with chk KBool = decode_field KBool"
| "decode_field_with chk KBytes = decode_field KBytes"
| "decode_field_with chk KStrs = decode_field KStrs"
| "decode_field_with chk KRaw = decode_field KRaw"

definition refuse :: "bool \<Rightarrow> unit res" where
  "refuse b = (if b then Inl WireDecodeError else Inr ())"

definition vc_checks :: "instance \<Rightarrow> unit res" where
  "vc_checks m =
     (if class_name (inst_class m) = ''VCProof'' then
        rbind (str_at m [''created'']) (\<lambda>created. rbind (parse_iso8601 created) (\<lambda>moment.
          refuse (moment = None \<or> \<not> endswith created ''Z'' \<and> CHR ''+'' \<notin> set created)))
      else if class_name (inst_class m) = ''VCClaim'' then
        rbind (attr m ''issuer'') (\<lambda>issuer. rbind (attr m ''credential_subject'') (\<lambda>subject.
        rbind (refuse (\<not> (case (issuer, subject) of
            (FVal (VStr s), FVal (VDict d)) \<Rightarrow> True | (FVal (VDict e), FVal (VDict d)) \<Rightarrow> True | _ \<Rightarrow> False))) (\<lambda>_.
        rbind (str_at m [''issuance_date'']) (\<lambda>date. rbind (parse_iso8601 date) (\<lambda>moment.
          refuse (moment = None))))))
      else Inr ())"

definition read_link :: "model_class \<Rightarrow> pyval \<Rightarrow> instance res" where
  "read_link c wire = from_wire_with vc_checks c wire"

text \<open>What is read with the checks is read without them: it is typed by its table.\<close>

lemma rmap_mono:
  "rmap f xs = Inr ys \<Longrightarrow> (\<And>x y. x \<in> set xs \<Longrightarrow> f x = Inr y \<Longrightarrow> g x = Inr y) \<Longrightarrow> rmap g xs = Inr ys"
  by (induction xs arbitrary: ys) (auto simp: rbind_Inr_iff)

lemma from_wire_with_plain:
  "from_wire_with chk c w = Inr m \<Longrightarrow> from_wire c w = Inr m"
  "read_specs_with chk sps d = Inr fs \<Longrightarrow> read_specs sps d = Inr fs"
  "decode_field_with chk k w = Inr v \<Longrightarrow> decode_field k w = Inr v"
proof (induction c and sps and k arbitrary: w m and d fs and w v rule: table_induct)
  case (3 a key k optional dflt omit sps)
  then show ?case by (cases "getn d key = VNull") (auto simp: rbind_Inr_iff)
next
  case (5 c)
  then show ?case by (auto simp: rbind_Inr_iff split: pyval.splits intro: rmap_mono)
qed (auto simp: rbind_Inr_iff Let_def split: pyval.splits)

lemma read_link_ok: "class_ok c \<Longrightarrow> is_json w \<Longrightarrow> read_link c w = Inr m \<Longrightarrow> instance_ok c m"
  unfolding read_link_def by (rule from_wire_ok(1)) (auto dest: from_wire_with_plain(1))

subsection \<open>A \<open>did:key\<close> names its key\<close>

definition link_classes :: "model_class list" where
  "link_classes = [VCProof, VCClaim, VCPresentation, SameEntityIdentityLinkCredentialSubject, IdentityLinkRecord,
     IdentityLinkCompletionEnvelope, IdentityLinkApprovalEnvelope, IdentityLinkApprovalPackage, EntityGenesisSeal]"

lemmas link_class_defs = VCProof_def VCClaim_def VCPresentation_def SameEntityIdentityLinkCredentialSubject_def
  IdentityLinkRecord_def IdentityLinkCompletionEnvelope_def IdentityLinkApprovalEnvelope_def
  IdentityLinkApprovalPackage_def EntityGenesisSeal_def

lemma link_classes_ok: "c \<in> set link_classes \<Longrightarrow> class_ok c"
proof -
  have "list_all class_ok link_classes" by code_simp
  then show "c \<in> set link_classes \<Longrightarrow> class_ok c" by (simp add: list_all_iff)
qed

lemma link_tables_ok [simp]:
  "class_ok VCProof" "class_ok VCClaim" "class_ok VCPresentation" "class_ok SameEntityIdentityLinkCredentialSubject"
  "class_ok IdentityLinkRecord" "class_ok IdentityLinkCompletionEnvelope" "class_ok EntityGenesisSeal"
  by (rule link_classes_ok; simp add: link_classes_def)+

lemma strip_prefix_own:
  "(curve, p) \<in> set PREFIXES \<Longrightarrow> strip_prefix PREFIXES (p @ key) = Inr (curve, key)"
  by (auto simp: PREFIXES_def)

lemma did_key_Inr:
  "did_key d = Inr did \<longleftrightarrow> (\<exists>curve p key. attr d ''curve_type'' = text_val curve \<and> dget PREFIXES curve = Some p
     \<and> attr d ''public_key'' = Inr (FVal (VBytes key)) \<and> did = ''did:key:z'' @ base58_encode (p @ key))"
  by (auto simp: did_key_def rbind_Inr_iff str_at1 bytes_at1 split: option.splits)

text \<open>
  C39: The \<open>did:key\<close> of a descriptor, decoded, gives the descriptor's curve and public key again:
  distinct keys have distinct identifiers.\<close>

theorem did_key_names_the_key:
  assumes "did_key d = Inr did"
  shows "\<exists>curve key. attr d ''curve_type'' = text_val curve \<and> attr d ''public_key'' = Inr (FVal (VBytes key))
    \<and> public_key_from_did_key did = Inr (curve, key)"
proof -
  obtain curve p key where d: "attr d ''curve_type'' = text_val curve" "dget PREFIXES curve = Some p"
      "attr d ''public_key'' = Inr (FVal (VBytes key))" "did = ''did:key:z'' @ base58_encode (p @ key)"
    using assms did_key_Inr [of d did] by blast
  have "(curve, p) \<in> set PREFIXES" using d(2) by (auto simp: PREFIXES_def split: if_splits)
  then have "strip_prefix PREFIXES (p @ key) = Inr (curve, key)" by (rule strip_prefix_own)
  then have "public_key_from_did_key did = Inr (curve, key)"
    by (simp add: public_key_from_did_key_def d(4) startswith_def base58_decode_encode)
  with d show ?thesis by blast
qed

theorem did_key_names_the_key_witness:
  "\<exists>did. did_key example_descriptor = Inr did \<and> (\<exists>key. public_key_from_did_key did = Inr (''Curve25519'', key))"
proof -
  obtain did where did: "did_key example_descriptor = Inr did"
    using did_key_Inr [of example_descriptor] by (fastforce simp: example_descriptor_def attr_def PREFIXES_def)
  from did_key_names_the_key [OF this]
  have "\<exists>key. public_key_from_did_key did = Inr (''Curve25519'', key)"
    by (auto simp: example_descriptor_def attr_def)
  with did show ?thesis by blast
qed

end
