(* ===== verification/Credentials.thy ===== *)
theory Credentials
  imports Verify Link_Models
begin

text \<open>
  The verifiable credential and presentation of \<open>interop/identity_link.py\<close>: the bytes they sign,
  issuing and binding, and the two verifications. A refusal of an \<open>if ... raise LinkFailure\<close> is
  \<open>fails\<close>; the rest of the reading of attributes is that of \<open>Verify\<close>.
\<close>

subsection \<open>Checks\<close>

definition fails :: "bool res \<Rightarrow> string \<Rightarrow> unit res" where
  "fails c code = rbind c (\<lambda>b. if b then Inl (LinkFailure code) else Inr ())"

definition either :: "bool res \<Rightarrow> bool res \<Rightarrow> bool res" where
  "either a b = rbind a (\<lambda>x. if x then Inr True else b)"

fun any_of :: "bool res list \<Rightarrow> bool res" where
  "any_of [] = Inr False"
| "any_of (c # cs) = either c (any_of cs)"

fun all_of :: "bool res list \<Rightarrow> bool res" where
  "all_of [] = Inr True"
| "all_of (c # cs) = both c (all_of cs)"

abbreviation differ :: "fval res \<Rightarrow> fval res \<Rightarrow> bool res" where
  "differ a b \<equiv> negate (same a b)"

lemma fails_Inr [err_simps]: "fails c code = Inr u \<longleftrightarrow> c = Inr False"
  by (cases c) (auto simp: fails_def)

lemma either_False [err_simps]: "either a b = Inr False \<longleftrightarrow> a = Inr False \<and> b = Inr False"
  by (cases a) (auto simp: either_def)

lemma any_of_False [err_simps]: "any_of cs = Inr False \<longleftrightarrow> (\<forall>c \<in> set cs. c = Inr False)"
  by (induction cs) (auto simp: either_False)

lemma all_of_True [err_simps]: "all_of cs = Inr True \<longleftrightarrow> (\<forall>c \<in> set cs. c = Inr True)"
  by (induction cs) (auto simp: both_True)

text \<open>The check at a place of an accepted sequence passed.\<close>

lemma checks_nth: "checks cs = Inr u \<Longrightarrow> i < length cs \<Longrightarrow> cs ! i = Inr ()"
  by (simp add: checks_Inr)

lemma any_of_nth: "any_of cs = Inr False \<Longrightarrow> i < length cs \<Longrightarrow> cs ! i = Inr False"
  by (simp add: any_of_False)

lemma all_of_nth: "all_of cs = Inr True \<Longrightarrow> i < length cs \<Longrightarrow> cs ! i = Inr True"
  by (simp add: all_of_True)

declare any_of.simps [simp del] all_of.simps [simp del]

lemma differ_False:
  "differ a (text_val s) = Inr False \<longleftrightarrow> a = text_val s"
  "differ a (Inr (FVal (VBytes bs))) = Inr False \<longleftrightarrow> a = Inr (FVal (VBytes bs))"
  by (simp_all add: negate_False same_str same_bytes)

text \<open>The attributes that are lists of strings.\<close>

definition strs_at :: "instance \<Rightarrow> string list \<Rightarrow> string list res" where
  "strs_at m p = rbind (path m p) (\<lambda>v. case v of FVal (VList vs) \<Rightarrow> Inr (only_strs vs) | _ \<Rightarrow> Inl TypeError)"

definition strs_val :: "string list \<Rightarrow> fval" where
  "strs_val ss = FVal (VList (map VStr ss))"

subsection \<open>Dates and signed bytes\<close>

definition vc_encode :: "(rat \<Rightarrow> string) \<Rightarrow> pyval dict \<Rightarrow> bytes res" where
  "vc_encode frepr wire = canonical_json frepr (VDict wire) ''encoder'' False"

definition claim_bytes :: "(rat \<Rightarrow> string) \<Rightarrow> instance \<Rightarrow> bytes res" where
  "claim_bytes frepr claim = rbind (to_wire claim) (\<lambda>wire. vc_encode frepr (ddel wire ''proof''))"

definition presentation_wire :: "instance \<Rightarrow> pyval dict res" where
  "presentation_wire m = rbind (to_wire m) (\<lambda>wire.
     Inr (if dget wire ''verifiableCredential'' = None then dset wire ''verifiableCredential'' VNull else wire))"

definition presentation_bytes :: "(rat \<Rightarrow> string) \<Rightarrow> instance \<Rightarrow> bytes res" where
  "presentation_bytes frepr m = rbind (presentation_wire m) (\<lambda>wire. vc_encode frepr (ddel wire ''proof''))"

definition proof_type_for :: "instance \<Rightarrow> string option res" where
  "proof_type_for d =
     rbind (str_at d [''algorithm'']) (\<lambda>al. rbind (str_at d [''curve_type'']) (\<lambda>cv.
       Inr (if al = ''EdDSA'' \<and> cv = ''Curve25519'' then Some ''Ed25519Signature2020''
            else if al = ''ECDSA'' \<and> cv = ''P256'' then Some ''EcdsaSecp256r1Signature2019'' else None)))"

subsection \<open>Credentials\<close>

definition CREDENTIAL_TYPE :: string where "CREDENTIAL_TYPE = ''SameEntityIdentityLinkCredential''"
definition PRESENTATION_TYPE :: string where "PRESENTATION_TYPE = ''SameEntityIdentityLinkPresentation''"

definition VC_CONTEXT :: "string list" where
  "VC_CONTEXT = [''https://www.w3.org/2018/credentials/v1'', ''https://www.w3.org/2018/credentials/examples/v1'']"

text \<open>A \<open>LinkFailure\<close> of \<open>did_key\<close> is an answer \<open>False\<close>.\<close>

definition with_did :: "instance \<Rightarrow> (string \<Rightarrow> bool res) \<Rightarrow> bool res" where
  "with_did d f =
     (case did_key d of
        Inl (LinkFailure code) \<Rightarrow> Inr False
      | Inl e \<Rightarrow> Inl e
      | Inr did \<Rightarrow> f did)"

definition claim_verify :: "crypto \<Rightarrow> (rat \<Rightarrow> string) \<Rightarrow> instance \<Rightarrow> instance \<Rightarrow> bool res" where
  "claim_verify cr frepr claim issuer =
     rbind (proof_type_for issuer) (\<lambda>expected_type. with_did issuer (\<lambda>issuer_did. all_of [
       same (path claim [''issuer'']) (text_val issuer_did),
       same (path claim [''proof'', ''verification_method'']) (path issuer [''uuid'']),
       same (path claim [''proof'', ''proof_purpose'']) (text_val ''assertionMethod''),
       Inr (expected_type \<noteq> None),
       same (path claim [''proof'', ''type'']) (text_val (the expected_type)),
       rbind (bytes_at claim [''proof'', ''signature_data'']) (\<lambda>s. Inr (0 < length s \<and> length s \<le> 512)),
       rbind (path claim [''proof'', ''signature_data'']) (\<lambda>s. rbind (claim_bytes frepr claim) (\<lambda>payload.
         verify_signature cr s payload issuer))]))"

definition new_vc_proof :: "string \<Rightarrow> string \<Rightarrow> string \<Rightarrow> string \<Rightarrow> instance res" where
  "new_vc_proof proof_type created purpose method =
     new_object VCProof [(''type'', FVal (VStr proof_type)), (''created'', FVal (VStr created)),
       (''proof_purpose'', FVal (VStr purpose)), (''verification_method'', FVal (VStr method))]"

definition signed_vc :: "bytes \<Rightarrow> instance \<Rightarrow> instance \<Rightarrow> instance" where
  "signed_vc signature p m = replace_attr ''proof'' (FObj (replace_attr ''signature_data'' (FVal (VBytes signature)) p)) m"

definition identity_url :: "string \<Rightarrow> string \<Rightarrow> string" where
  "identity_url owner claim = ''cell:///identity/'' @ owner @ ''/claims/'' @ claim"

text \<open>\<open>VCClaim.issue\<close>\<close>

definition issue ::
    "(rat \<Rightarrow> string) \<Rightarrow> string \<Rightarrow> instance \<Rightarrow> instance \<Rightarrow> pyval dict \<Rightarrow> (bytes \<Rightarrow> bytes) \<Rightarrow> string \<Rightarrow> rat \<Rightarrow> instance res" where
  "issue frepr credential_type issuer subject credential_subject signer claim_uuid issued_at =
     rbind (proof_type_for issuer) (\<lambda>pt. case pt of
       None \<Rightarrow> Inl (LinkFailure ''missingPublicKey'')
     | Some proof_type \<Rightarrow>
         rbind (did_key subject) (\<lambda>subject_did. rbind (str_at subject [''uuid'']) (\<lambda>subject_uuid.
         rbind (did_key issuer) (\<lambda>issuer_did. rbind (iso8601 issued_at) (\<lambda>date.
         rbind (str_at issuer [''uuid'']) (\<lambda>issuer_uuid.
         rbind (new_vc_proof proof_type date ''assertionMethod'' issuer_uuid) (\<lambda>p.
         rbind (new_object VCClaim
             [(''context'', strs_val VC_CONTEXT), (''id'', FVal (VStr (identity_url subject_uuid claim_uuid))),
              (''type'', strs_val [''VerifiableCredential'', credential_type]), (''issuer'', FVal (VStr issuer_did)),
              (''issuance_date'', FVal (VStr date)),
              (''credential_subject'', FVal (VDict (dset credential_subject ''id'' (VStr subject_did)))),
              (''proof'', FObj p)]) (\<lambda>claim.
         rbind (claim_bytes frepr claim) (\<lambda>payload. Inr (signed_vc (signer payload) p claim))))))))))"

subsection \<open>Presentations\<close>

definition verify_holder_proof :: "crypto \<Rightarrow> (rat \<Rightarrow> string) \<Rightarrow> instance \<Rightarrow> bytes \<Rightarrow> string \<Rightarrow> bool res" where
  "verify_holder_proof cr frepr m expected_challenge expected_domain =
     rbind (attr m ''holder_binding'') (\<lambda>binding.
     rbind (any_of [
         differ (path m [''challenge'']) (Inr (FVal (VBytes expected_challenge))),
         differ (path m [''domain'']) (text_val expected_domain),
         Inr (binding = FNone),
         differ (path m [''proof'', ''proof_purpose'']) (text_val ''authentication''),
         differ (path m [''proof'', ''verification_method'']) (path m [''holder_binding'', ''uuid'']),
         rbind (bytes_at m [''proof'', ''signature_data'']) (\<lambda>s. Inr (s = []))])
       (\<lambda>no. if no then Inr False
        else rbind (obj_at m [''holder_binding'']) (\<lambda>b. with_did b (\<lambda>holder_did. all_of [
          same (path m [''holder'']) (text_val holder_did),
          rbind (proof_type_for b) (\<lambda>pt. same (path m [''proof'', ''type''])
            (Inr (case pt of Some t \<Rightarrow> FVal (VStr t) | None \<Rightarrow> FNone))),
          rbind (path m [''proof'', ''signature_data'']) (\<lambda>s. rbind (presentation_bytes frepr m) (\<lambda>payload.
            verify_signature cr s payload b))]))))"

text \<open>\<open>VCPresentation.bind_and_sign\<close>\<close>

definition bind_and_sign ::
    "(rat \<Rightarrow> string) \<Rightarrow> instance list \<Rightarrow> instance \<Rightarrow> (bytes \<Rightarrow> bytes) \<Rightarrow> bytes \<Rightarrow> string \<Rightarrow> string \<Rightarrow> rat \<Rightarrow> string \<Rightarrow> instance res" where
  "bind_and_sign frepr credentials holder signer challenge domain_text presentation_uuid created_at presentation_type =
     rbind (proof_type_for holder) (\<lambda>pt. case pt of
       None \<Rightarrow> Inl (LinkFailure ''missingPublicKey'')
     | Some proof_type \<Rightarrow>
         rbind (str_at holder [''uuid'']) (\<lambda>holder_uuid. rbind (did_key holder) (\<lambda>holder_did.
         rbind (iso8601 created_at) (\<lambda>date.
         rbind (new_vc_proof proof_type date ''authentication'' holder_uuid) (\<lambda>p.
         rbind (new_object VCPresentation
             [(''context'', strs_val VC_CONTEXT), (''id'', FVal (VStr (identity_url holder_uuid presentation_uuid))),
              (''type'', strs_val [''VerifiableCredential'', presentation_type]), (''holder'', FVal (VStr holder_did)),
              (''challenge'', FVal (VBytes challenge)), (''domain'', FVal (VStr domain_text)),
              (''holder_binding'', FObj holder), (''verifiable_credential'', FObjs credentials),
              (''proof'', FObj p)]) (\<lambda>m.
         rbind (presentation_bytes frepr m) (\<lambda>payload. Inr (signed_vc (signer payload) p m))))))))"

subsection \<open>What a verified credential and presentation are signed with\<close>

definition vc_signed :: "crypto \<Rightarrow> bytes res \<Rightarrow> instance \<Rightarrow> instance \<Rightarrow> bool" where
  "vc_signed cr payload m d \<longleftrightarrow> (\<exists>p sig pk bs. attr m ''proof'' = Inr (FObj p)
     \<and> attr p ''signature_data'' = Inr (FVal (VBytes sig)) \<and> payload = Inr bs
     \<and> attr d ''algorithm'' = text_val ''EdDSA'' \<and> attr d ''curve_type'' = text_val ''Curve25519''
     \<and> attr d ''public_key'' = Inr (FVal (VBytes pk)) \<and> length pk = 32 \<and> length sig = 64 \<and> ed_verify cr pk sig bs)"

lemma with_did_True: "with_did d f = Inr True \<longleftrightarrow> (\<exists>did. did_key d = Inr did \<and> f did = Inr True)"
  by (cases "did_key d") (auto simp: with_did_def split: exc.splits)

lemma signature_step:
  "rbind (path m [''proof'', ''signature_data'']) (\<lambda>s. rbind payload (\<lambda>bs. verify_signature cr s bs d)) = Inr True
     \<longleftrightarrow> vc_signed cr payload m d"
  by (auto simp: rbind_Inr_iff path2 verify_signature_True vc_signed_def)

lemma claim_verified:
  assumes "claim_verify cr frepr claim issuer = Inr True"
  shows "vc_signed cr (claim_bytes frepr claim) claim issuer
    \<and> (\<exists>did. did_key issuer = Inr did \<and> attr claim ''issuer'' = text_val did)"
proof -
  obtain t did where did: "did_key issuer = Inr did" and all: "all_of [
       same (path claim [''issuer'']) (text_val did),
       same (path claim [''proof'', ''verification_method'']) (path issuer [''uuid'']),
       same (path claim [''proof'', ''proof_purpose'']) (text_val ''assertionMethod''),
       Inr (t \<noteq> None),
       same (path claim [''proof'', ''type'']) (text_val (the t)),
       rbind (bytes_at claim [''proof'', ''signature_data'']) (\<lambda>s. Inr (0 < length s \<and> length s \<le> 512)),
       rbind (path claim [''proof'', ''signature_data'']) (\<lambda>s. rbind (claim_bytes frepr claim) (\<lambda>payload.
         verify_signature cr s payload issuer))] = Inr True"
    using assms unfolding claim_verify_def rbind_Inr_iff with_did_True by blast
  have "same (attr claim ''issuer'') (text_val did) = Inr True"
    using all_of_nth [OF all, of 0] by simp
  moreover have "rbind (path claim [''proof'', ''signature_data'']) (\<lambda>s. rbind (claim_bytes frepr claim) (\<lambda>payload.
         verify_signature cr s payload issuer)) = Inr True"
    using all_of_nth [OF all, of 6] by (simp del: path.simps)
  ultimately show ?thesis using did unfolding signature_step same_str by blast
qed

lemma holder_verified:
  assumes "verify_holder_proof cr frepr m challenge d = Inr True"
  shows "\<exists>b did. attr m ''holder_binding'' = Inr (FObj b) \<and> vc_signed cr (presentation_bytes frepr m) m b
    \<and> did_key b = Inr did \<and> attr m ''holder'' = text_val did
    \<and> attr m ''challenge'' = Inr (FVal (VBytes challenge)) \<and> attr m ''domain'' = text_val d"
proof -
  obtain binding no where b: "any_of [
         differ (path m [''challenge'']) (Inr (FVal (VBytes challenge))),
         differ (path m [''domain'']) (text_val d),
         Inr (binding = FNone),
         differ (path m [''proof'', ''proof_purpose'']) (text_val ''authentication''),
         differ (path m [''proof'', ''verification_method'']) (path m [''holder_binding'', ''uuid'']),
         rbind (bytes_at m [''proof'', ''signature_data'']) (\<lambda>s. Inr (s = []))] = Inr no"
      "(if no then Inr False
        else rbind (obj_at m [''holder_binding'']) (\<lambda>b. with_did b (\<lambda>holder_did. all_of [
          same (path m [''holder'']) (text_val holder_did),
          rbind (proof_type_for b) (\<lambda>pt. same (path m [''proof'', ''type''])
            (Inr (case pt of Some t \<Rightarrow> FVal (VStr t) | None \<Rightarrow> FNone))),
          rbind (path m [''proof'', ''signature_data'']) (\<lambda>s. rbind (presentation_bytes frepr m) (\<lambda>payload.
            verify_signature cr s payload b))]))) = Inr True"
    using assms unfolding verify_holder_proof_def rbind_Inr_iff by blast
  have no: "no = False" using b(2) by (cases no) simp_all
  have "attr m ''challenge'' = Inr (FVal (VBytes challenge))" "attr m ''domain'' = text_val d"
    using any_of_nth [OF b(1) [unfolded no], of 0] any_of_nth [OF b(1) [unfolded no], of 1]
    by (simp_all add: differ_False)
  moreover obtain bd did where bd: "attr m ''holder_binding'' = Inr (FObj bd)" "did_key bd = Inr did"
    and all: "all_of [
          same (path m [''holder'']) (text_val did),
          rbind (proof_type_for bd) (\<lambda>pt. same (path m [''proof'', ''type''])
            (Inr (case pt of Some t \<Rightarrow> FVal (VStr t) | None \<Rightarrow> FNone))),
          rbind (path m [''proof'', ''signature_data'']) (\<lambda>s. rbind (presentation_bytes frepr m) (\<lambda>payload.
            verify_signature cr s payload bd))] = Inr True"
    using b(2) unfolding no if_False rbind_Inr_iff obj_at1 with_did_True by blast
  moreover have "attr m ''holder'' = text_val did" using all_of_nth [OF all, of 0] by (simp add: same_str)
  moreover have "vc_signed cr (presentation_bytes frepr m) m bd"
    unfolding signature_step [symmetric] using all_of_nth [OF all, of 2] by (simp del: path.simps)
  ultimately show ?thesis by blast
qed

end
