(* ===== verification/Identity_Link.thy ===== *)
theory Identity_Link
  imports Credentials Double
begin

text \<open>
  \<open>IdentityLinkProtocolService\<close> of \<open>interop/identity_link.py\<close>: the four signed pieces of an entity
  extension (request, approval, same-entity credential, presentation) checked in the order of the
  code, and the approver's side. The clock is a number of seconds since 1970, dates are whole
  seconds, the verifier of fresh-auth evidence is an argument.
\<close>

definition ISSUER_TYPES :: "string list" where
  "ISSUER_TYPES = [''existingDevice'', ''custodian'', ''recoveryAuthority'']"

record CompletionResult =
  link_record :: "instance"
  link_request_hash :: bytes
  approval_jti :: string
  credential_id :: string
  presentation_id :: string

subsection \<open>Verification\<close>

definition ensure_not_expired :: "string \<Rightarrow> rat \<Rightarrow> unit res" where
  "ensure_not_expired expires_at now =
     rbind (parse_iso8601 expires_at) (\<lambda>moment. case moment of
       None \<Rightarrow> Inl (LinkFailure ''invalidExpiry'')
     | Some s \<Rightarrow> if of_int s < now then Inl (LinkFailure ''expired'') else Inr ())"

definition ensure_subset :: "string list \<Rightarrow> string list \<Rightarrow> unit res" where
  "ensure_subset approved requested =
     (if filter (\<lambda>item. item \<notin> set requested) approved \<noteq> [] then Inl (LinkFailure ''scopeEscalation'') else Inr ())"

definition subset_at :: "instance \<Rightarrow> string \<Rightarrow> instance \<Rightarrow> string \<Rightarrow> unit res" where
  "subset_at m a n b = rbind (strs_at m [a]) (\<lambda>approved. rbind (strs_at n [b]) (ensure_subset approved))"

definition is_blank :: "instance \<Rightarrow> string \<Rightarrow> bool res" where
  "is_blank m a = rbind (str_at m [a]) (\<lambda>s. Inr (py_strip s = []))"

definition is_empty_list :: "instance \<Rightarrow> string \<Rightarrow> bool res" where
  "is_empty_list m a = rbind (strs_at m [a]) (\<lambda>ss. Inr (ss = []))"

text \<open>\<open>proof is None or not proof.signature\<close>\<close>

definition lacks_signature :: "instance \<Rightarrow> bool res" where
  "lacks_signature m = rbind (attr m ''proof'') (\<lambda>p.
     if p = FNone then Inr True
     else rbind (path m [''proof'', ''signature'']) (\<lambda>s. Inr (s = FNone \<or> s = FVal (VBytes []))))"

definition request_checks :: "crypto \<Rightarrow> (rat \<Rightarrow> string) \<Rightarrow> instance \<Rightarrow> rat \<Rightarrow> unit res list" where
  "request_checks cr frepr request now =
     [
       fails (differ (path request [''purpose'']) (text_val ''link_identity'')) ''invalidPurpose'',
       fails (negate (has (path request [''entity_binding'']))) ''missingEntityBinding'',
       fails (rbind (bytes_at request [''nonce'']) (\<lambda>n. Inr (length n < 16))) ''invalidNonce'',
       fails (any_of [is_blank request ''audience'', is_blank request ''origin'',
           is_empty_list request ''requested_domains'', is_empty_list request ''requested_identity_contexts'',
           is_empty_list request ''requested_scopes'']) ''missingRequiredContext'',
       rbind (str_at request [''expires_at'']) (\<lambda>e. ensure_not_expired e now),
       fails (lacks_signature request) ''missingRequestProof'',
       fails (any_of [
           differ (path request [''proof'', ''by_identity_uuid'']) (path request [''new_identity'', ''uuid'']),
           differ (path request [''proof'', ''algorithm'']) (path request [''new_identity'', ''algorithm'']),
           differ (path request [''proof'', ''curve_type'']) (path request [''new_identity'', ''curve_type''])])
         ''identityMismatch'',
       fails (negate (proof_verifies cr frepr request (obj_at request [''new_identity'']))) ''invalidRequestSignature'']"

definition validate_enrollment_request :: "crypto \<Rightarrow> (rat \<Rightarrow> string) \<Rightarrow> instance \<Rightarrow> rat \<Rightarrow> bytes res" where
  "validate_enrollment_request cr frepr request now =
     rbind (checks (request_checks cr frepr request now)) (\<lambda>_.
       rbind (model_payload frepr request) (\<lambda>payload. Inr (sha256 payload)))"

text \<open>The part of the approval's check that the envelope asks for: fresh-auth evidence.\<close>

definition check_evidence :: "(instance \<Rightarrow> bool) option \<Rightarrow> instance \<Rightarrow> bytes \<Rightarrow> instance \<Rightarrow> unit res" where
  "check_evidence fresh_auth_verifier approval hash envelope =
     rbind (attr envelope ''require_fresh_auth_evidence'') (\<lambda>r.
       if r \<noteq> FVal (VBool True) then Inr ()
       else checks [
         fails (negate (has (path approval [''fresh_auth_evidence'']))) ''missingFreshAuth'',
         fails (differ (path approval [''fresh_auth_evidence'', ''challenge'']) (Inr (FVal (VBytes hash))))
           ''invalidFreshAuthEvidence'',
         (case fresh_auth_verifier of
            None \<Rightarrow> Inl (LinkFailure ''invalidFreshAuthEvidence'')
          | Some v \<Rightarrow> fails (Inr (\<not> v approval)) ''invalidFreshAuthEvidence'')])"

definition approval_checks ::
    "crypto \<Rightarrow> (rat \<Rightarrow> string) \<Rightarrow> instance \<Rightarrow> instance \<Rightarrow> bytes \<Rightarrow> instance \<Rightarrow> instance \<Rightarrow> rat \<Rightarrow> string list
      \<Rightarrow> (instance \<Rightarrow> bool) option \<Rightarrow> unit res list" where
  "approval_checks cr frepr approval request hash issuer envelope now used_jtis fresh_auth_verifier =
     [
       fails (differ (path approval [''purpose'']) (text_val ''approve_link_identity'')) ''invalidPurpose'',
       fails (differ (path approval [''request_hash'']) (Inr (FVal (VBytes hash)))) ''requestHashMismatch'',
       fails (negate (rbind (obj_at approval [''subject_identity'']) (\<lambda>s.
         rbind (obj_at request [''new_identity'']) (same_key s)))) ''identityMismatch'',
       fails (differ (path approval [''entity_binding'']) (path request [''entity_binding''])) ''identityMismatch'',
       fails (either (differ (path approval [''audience'']) (path request [''audience'']))
                     (differ (path approval [''audience'']) (path envelope [''expected_audience'']))) ''audienceMismatch'',
       fails (either (differ (path approval [''origin'']) (path request [''origin'']))
                     (differ (path approval [''origin'']) (path envelope [''expected_origin'']))) ''originMismatch'',
       fails (is_blank approval ''jti'') ''missingRequiredContext'',
       fails (rbind (str_at approval [''jti'']) (\<lambda>j. Inr (j \<in> set used_jtis))) ''replayDetected'',
       fails (rbind (str_at approval [''issuer_type'']) (\<lambda>t. Inr (t \<notin> set ISSUER_TYPES))) ''issuerTypeNotAllowed'',
       fails (either (same (path approval [''issuer_identity_uuid'']) (path request [''new_identity'', ''uuid'']))
                     (rbind (obj_at request [''new_identity'']) (same_key issuer))) ''sameKeyOnBothSides'',
       fails (either (differ (path approval [''fresh_auth_required'']) (Inr (FVal (VBool True))))
                     (negate (has (path approval [''fresh_auth_performed_at''])))) ''missingFreshAuth'',
       check_evidence fresh_auth_verifier approval hash envelope,
       rbind (str_at approval [''expires_at'']) (\<lambda>e. ensure_not_expired e now),
       subset_at approval ''approved_domains'' request ''requested_domains'',
       subset_at approval ''approved_identity_contexts'' request ''requested_identity_contexts'',
       subset_at approval ''approved_scopes'' request ''requested_scopes'',
       fails (lacks_signature approval) ''missingApprovalProof'',
       fails (any_of [
           differ (path approval [''proof'', ''issuer_identity_uuid'']) (path issuer [''uuid'']),
           differ (path approval [''proof'', ''issuer_type'']) (path approval [''issuer_type'']),
           differ (path approval [''proof'', ''algorithm'']) (path issuer [''algorithm'']),
           differ (path approval [''proof'', ''curve_type'']) (path issuer [''curve_type'']),
           differ (path approval [''issuer_identity_uuid'']) (path issuer [''uuid''])]) ''issuerMismatch'',
       fails (negate (proof_verifies cr frepr approval (Inr issuer))) ''invalidApprovalSignature'']"

definition validate_approval ::
    "crypto \<Rightarrow> (rat \<Rightarrow> string) \<Rightarrow> instance \<Rightarrow> instance \<Rightarrow> bytes \<Rightarrow> instance \<Rightarrow> instance \<Rightarrow> rat \<Rightarrow> string list
      \<Rightarrow> (instance \<Rightarrow> bool) option \<Rightarrow> unit res" where
  "validate_approval cr frepr approval request hash issuer envelope now used_jtis fresh_auth_verifier =
     checks (approval_checks cr frepr approval request hash issuer envelope now used_jtis fresh_auth_verifier)"

definition credential_checks :: "crypto \<Rightarrow> (rat \<Rightarrow> string) \<Rightarrow> instance \<Rightarrow> instance \<Rightarrow> unit res list" where
  "credential_checks cr frepr credential issuer =
     [fails (rbind (strs_at credential [''type'']) (\<lambda>ts. Inr (CREDENTIAL_TYPE \<notin> set ts))) ''invalidCredentialType'',
      fails (rbind (attr credential ''issuer'') (\<lambda>i. case i of
          FVal (VStr s) \<Rightarrow> rbind (did_key issuer) (\<lambda>did. Inr (s \<noteq> did)) | _ \<Rightarrow> Inr True)) ''issuerMismatch'',
      fails (negate (claim_verify cr frepr credential issuer)) ''invalidCredentialSignature'']"

definition read_subject :: "fval \<Rightarrow> instance res" where
  "read_subject body =
     (case (case body of FVal v \<Rightarrow> from_wire SameEntityIdentityLinkCredentialSubject v | _ \<Rightarrow> Inl WireDecodeError) of
        Inl e \<Rightarrow> (if e = WireDecodeError then Inl (LinkFailure ''invalidCredentialSubject'') else Inl e)
      | Inr subject \<Rightarrow> Inr subject)"

definition subject_checks :: "instance \<Rightarrow> instance \<Rightarrow> instance \<Rightarrow> bytes \<Rightarrow> rat \<Rightarrow> unit res list" where
  "subject_checks subject request approval hash now =
     [fails (differ (path subject [''link_type'']) (text_val ''same_entity'')) ''invalidCredentialSubject'',
      fails (rbind (obj_at request [''new_identity'']) (\<lambda>n. rbind (did_key n) (\<lambda>did.
        differ (path subject [''id'']) (text_val did)))) ''holderMismatch'',
      fails (negate (rbind (obj_at subject [''linked_identity'']) (\<lambda>s.
        rbind (obj_at request [''new_identity'']) (same_key s)))) ''identityMismatch'',
      fails (any_of [
          differ (path subject [''entity_binding'']) (path approval [''entity_binding'']),
          differ (path subject [''enrollment_request_hash'']) (Inr (FVal (VBytes hash))),
          differ (path subject [''approved_domains'']) (path approval [''approved_domains'']),
          differ (path subject [''approved_identity_contexts'']) (path approval [''approved_identity_contexts'']),
          differ (path subject [''approved_scopes'']) (path approval [''approved_scopes''])])
        ''invalidCredentialSubject'',
      rbind (str_at subject [''valid_until'']) (\<lambda>e. ensure_not_expired e now)]"

definition validate_credential ::
    "crypto \<Rightarrow> (rat \<Rightarrow> string) \<Rightarrow> instance \<Rightarrow> instance \<Rightarrow> instance \<Rightarrow> instance \<Rightarrow> bytes \<Rightarrow> rat \<Rightarrow> instance res" where
  "validate_credential cr frepr credential request approval issuer hash now =
     rbind (checks (credential_checks cr frepr credential issuer)) (\<lambda>_.
     rbind (attr credential ''credential_subject'') (\<lambda>body. rbind (read_subject body) (\<lambda>subject.
     rbind (checks (subject_checks subject request approval hash now)) (\<lambda>_. Inr subject))))"

text \<open>\<open>any(item.id == credential.id for item in (presentation.verifiable_credential or []))\<close>\<close>

fun any_same_id :: "instance list \<Rightarrow> instance \<Rightarrow> bool res" where
  "any_same_id [] credential = Inr False"
| "any_same_id (item # items) credential =
     either (same (path item [''id'']) (path credential [''id''])) (any_same_id items credential)"

definition holds_credential :: "instance \<Rightarrow> instance \<Rightarrow> bool res" where
  "holds_credential presentation credential =
     rbind (attr presentation ''verifiable_credential'') (\<lambda>v. case v of
       FObjs ms \<Rightarrow> any_same_id ms credential | _ \<Rightarrow> Inr False)"

definition presentation_checks ::
    "crypto \<Rightarrow> (rat \<Rightarrow> string) \<Rightarrow> instance \<Rightarrow> instance \<Rightarrow> instance \<Rightarrow> instance \<Rightarrow> unit res list" where
  "presentation_checks cr frepr presentation credential linked envelope =
     [
       fails (any_of [
           rbind (strs_at presentation [''type'']) (\<lambda>ts. Inr (PRESENTATION_TYPE \<notin> set ts)),
           negate (holds_credential presentation credential),
           negate (has (path presentation [''holder_binding''])),
           negate (rbind (obj_at presentation [''holder_binding'']) (\<lambda>b. same_key b linked)),
           rbind (attr presentation ''holder'') (\<lambda>h. case h of
             FVal (VStr s) \<Rightarrow> rbind (did_key linked) (\<lambda>did. Inr (s \<noteq> did)) | _ \<Rightarrow> Inr True)]) ''holderMismatch'',
       fails (rbind (bytes_at envelope [''expected_presentation_challenge'']) (\<lambda>challenge.
         rbind (str_at envelope [''expected_presentation_domain'']) (\<lambda>d.
           negate (verify_holder_proof cr frepr presentation challenge d)))) ''invalidPresentation'']"

definition validate_presentation ::
    "crypto \<Rightarrow> (rat \<Rightarrow> string) \<Rightarrow> instance \<Rightarrow> instance \<Rightarrow> instance \<Rightarrow> instance \<Rightarrow> unit res" where
  "validate_presentation cr frepr presentation credential linked envelope =
     checks (presentation_checks cr frepr presentation credential linked envelope)"

text \<open>Keyword arguments, evaluated in order.\<close>

definition keyword_args :: "(string \<times> fval res) list \<Rightarrow> (string \<times> fval) list res" where
  "keyword_args = rmap (\<lambda>(a, r). rbind r (\<lambda>v. Inr (a, v)))"

text \<open>The record's list of what an approval approves is a copy of the approval's.\<close>

definition completed_record :: "instance \<Rightarrow> instance \<Rightarrow> instance \<Rightarrow> instance \<Rightarrow> rat \<Rightarrow> instance res" where
  "completed_record request approval issuer subject now =
     rbind (keyword_args [
       (''link_id'', attr approval ''approval_id''),
       (''entity_binding'', attr approval ''entity_binding''),
       (''linked_identity'', attr request ''new_identity''),
       (''approved_domains'', attr approval ''approved_domains''),
       (''approved_identity_contexts'', attr approval ''approved_identity_contexts''),
       (''approved_scopes'', attr approval ''approved_scopes''),
       (''issuer_identity_uuid'', attr issuer ''uuid''),
       (''issuer_type'', attr approval ''issuer_type''),
       (''status'', text_val ''active''),
       (''linked_at'', rbind (iso8601 now) text_val),
       (''revocation_reference'', attr subject ''revocation_reference'')])
     (new_object IdentityLinkRecord)"

definition verify_completion ::
    "crypto \<Rightarrow> (rat \<Rightarrow> string) \<Rightarrow> instance \<Rightarrow> rat \<Rightarrow> string list \<Rightarrow> (instance \<Rightarrow> bool) option \<Rightarrow> CompletionResult res" where
  "verify_completion cr frepr envelope now used_approval_jtis fresh_auth_verifier =
     rbind (obj_at envelope [''request'']) (\<lambda>request. rbind (obj_at envelope [''approval'']) (\<lambda>approval.
     rbind (validate_enrollment_request cr frepr request now) (\<lambda>hash.
     rbind (obj_at envelope [''issuer_identity'']) (\<lambda>issuer.
     rbind (validate_approval cr frepr approval request hash issuer envelope now used_approval_jtis fresh_auth_verifier) (\<lambda>_.
     rbind (obj_at envelope [''same_entity_credential'']) (\<lambda>credential.
     rbind (validate_credential cr frepr credential request approval issuer hash now) (\<lambda>subject.
     rbind (obj_at envelope [''presentation'']) (\<lambda>presentation. rbind (obj_at request [''new_identity'']) (\<lambda>linked.
     rbind (validate_presentation cr frepr presentation credential linked envelope) (\<lambda>_.
     rbind (completed_record request approval issuer subject now) (\<lambda>link.
     rbind (str_at approval [''jti'']) (\<lambda>jti. rbind (str_at credential [''id'']) (\<lambda>cid.
     rbind (str_at presentation [''id'']) (\<lambda>pid.
       Inr \<lparr>link_record = link, link_request_hash = hash, approval_jti = jti, credential_id = cid,
            presentation_id = pid\<rparr>))))))))))))))"

subsection \<open>Approval\<close>

text \<open>\<open>x if x is not None else y\<close> and \<open>jti or envelope.jti or approval_id\<close>.\<close>

definition if_given :: "instance \<Rightarrow> string \<Rightarrow> instance \<Rightarrow> string \<Rightarrow> fval res" where
  "if_given envelope a request b = rbind (attr envelope a) (\<lambda>v. if v \<noteq> FNone then Inr v else attr request b)"

definition first_jti :: "string option \<Rightarrow> fval \<Rightarrow> string \<Rightarrow> string" where
  "first_jti jti given approval_id =
     (if jti \<noteq> None \<and> jti \<noteq> Some [] then the jti
      else case given of FVal (VStr s) \<Rightarrow> if s \<noteq> [] then s else approval_id | _ \<Rightarrow> approval_id)"

definition approval_expiry :: "instance \<Rightarrow> rat \<Rightarrow> rat res" where
  "approval_expiry envelope now =
     rbind (attr envelope ''expires_at'') (\<lambda>v.
       if v = FNone then Inr (round_double (now + 300))
       else rbind (str_at envelope [''expires_at'']) (\<lambda>e. rbind (parse_iso8601 e) (\<lambda>moment. case moment of
         None \<Rightarrow> Inl (LinkFailure ''invalidExpiry'') | Some s \<Rightarrow> Inr (of_int s))))"

definition auth_performed :: "instance \<Rightarrow> bool \<Rightarrow> rat \<Rightarrow> fval res" where
  "auth_performed envelope required now =
     rbind (attr envelope ''fresh_auth_performed_at'') (\<lambda>v.
       if v \<noteq> FNone then
         rbind (str_at envelope [''fresh_auth_performed_at'']) (\<lambda>e. rbind (parse_iso8601 e) (\<lambda>moment.
           if moment = None then Inl (LinkFailure ''invalidExpiry'') else Inr v))
       else if required then rbind (iso8601 now) (\<lambda>d. Inr (FVal (VStr d))) else Inr FNone)"

text \<open>The approval before it is signed.\<close>

definition unsigned_approval ::
    "instance \<Rightarrow> instance \<Rightarrow> bytes \<Rightarrow> instance \<Rightarrow> rat \<Rightarrow> string \<Rightarrow> string option \<Rightarrow> instance res" where
  "unsigned_approval envelope request hash issuer now approval_id jti =
     rbind (approval_expiry envelope now) (\<lambda>expiry.
     rbind (attr envelope ''fresh_auth_required'') (\<lambda>required.
     rbind (auth_performed envelope (required = FVal (VBool True)) now) (\<lambda>performed.
     rbind (keyword_args [
       (''approval_id'', text_val approval_id),
       (''request_hash'', Inr (FVal (VBytes hash))),
       (''entity_binding'', attr request ''entity_binding''),
       (''subject_identity'', attr request ''new_identity''),
       (''approved_domains'', if_given envelope ''approved_domains'' request ''requested_domains''),
       (''approved_identity_contexts'', if_given envelope ''approved_identity_contexts'' request ''requested_identity_contexts''),
       (''approved_scopes'', if_given envelope ''approved_scopes'' request ''requested_scopes''),
       (''issuer_identity_uuid'', attr issuer ''uuid''),
       (''issuer_type'', attr envelope ''issuer_type''),
       (''audience'', attr request ''audience''),
       (''origin'', attr request ''origin''),
       (''created_at'', rbind (iso8601 now) text_val),
       (''expires_at'', rbind (iso8601 expiry) text_val),
       (''jti'', rbind (attr envelope ''jti'') (\<lambda>given. text_val (first_jti jti given approval_id))),
       (''fresh_auth_required'', Inr required),
       (''fresh_auth_method'', Inr (if required = FVal (VBool True) then FVal (VStr ''local-user-presence'') else FNone)),
       (''fresh_auth_performed_at'', Inr performed),
       (''fresh_auth_evidence'', attr envelope ''fresh_auth_evidence''),
       (''proof'', rbind (keyword_args [
            (''issuer_identity_uuid'', attr issuer ''uuid''),
            (''issuer_type'', attr envelope ''issuer_type''),
            (''algorithm'', attr issuer ''algorithm''),
            (''curve_type'', attr issuer ''curve_type'')]) (\<lambda>args.
          rbind (new_object IdentityEnrollmentApprovalProof args) (\<lambda>p. Inr (FObj p))))])
     (new_object IdentityEnrollmentApproval))))"

definition credential_subject_of ::
    "instance \<Rightarrow> instance \<Rightarrow> bytes \<Rightarrow> instance \<Rightarrow> rat \<Rightarrow> instance res" where
  "credential_subject_of envelope request hash approval expiry =
     rbind (obj_at request [''new_identity'']) (\<lambda>linked.
     rbind (attr approval ''fresh_auth_required'') (\<lambda>required.
     rbind (keyword_args [
       (''id'', rbind (did_key linked) text_val),
       (''entity_binding'', attr approval ''entity_binding''),
       (''linked_identity'', attr request ''new_identity''),
       (''approved_domains'', attr approval ''approved_domains''),
       (''approved_identity_contexts'', attr approval ''approved_identity_contexts''),
       (''approved_scopes'', attr approval ''approved_scopes''),
       (''enrollment_request_hash'', Inr (FVal (VBytes hash))),
       (''assurance_source'', text_val
          (if required = FVal (VBool True) then ''fresh_auth_and_possession'' else ''possession_only'')),
       (''assurance_level'', text_val (if required = FVal (VBool True) then ''high'' else ''medium'')),
       (''valid_until'', rbind (iso8601 expiry) text_val),
       (''revocation_reference'', attr envelope ''revocation_reference'')])
     (new_object SameEntityIdentityLinkCredentialSubject)))"

definition approve_enrollment ::
    "crypto \<Rightarrow> (rat \<Rightarrow> string) \<Rightarrow> instance \<Rightarrow> instance \<Rightarrow> (bytes \<Rightarrow> bytes) \<Rightarrow> rat \<Rightarrow> string \<Rightarrow> string \<Rightarrow> string option
      \<Rightarrow> instance res" where
  "approve_enrollment cr frepr envelope issuer signer now approval_id credential_uuid jti =
     rbind (obj_at envelope [''request'']) (\<lambda>request.
     rbind (validate_enrollment_request cr frepr request now) (\<lambda>hash.
     rbind (fails (negate (has (path request [''entity_binding'']))) ''missingEntityBinding'') (\<lambda>_.
     rbind (unsigned_approval envelope request hash issuer now approval_id jti) (\<lambda>unsigned.
     rbind (model_payload frepr unsigned) (\<lambda>payload. rbind (obj_at unsigned [''proof'']) (\<lambda>p.
     let approval = replace_attr ''proof'' (FObj (replace_attr ''signature'' (FVal (VBytes (signer payload))) p)) unsigned in
     rbind (approval_expiry envelope now) (\<lambda>expiry.
     rbind (credential_subject_of envelope request hash approval expiry) (\<lambda>subject.
     rbind (to_wire subject) (\<lambda>body. rbind (obj_at request [''new_identity'']) (\<lambda>linked.
     rbind (issue frepr CREDENTIAL_TYPE issuer linked body signer credential_uuid now) (\<lambda>credential.
       new_object IdentityLinkApprovalPackage
         [(''approval'', FObj approval), (''same_entity_credential'', FObj credential), (''issuer_identity'', FObj issuer)])))))))))))"

end
