(* ===== verification/Genesis.thy ===== *)
theory Genesis
  imports Identity_Link Verify_Runs
begin

text \<open>
  The genesis seal of \<open>interop/identity_link.py\<close>: sealing an anchor for its first owner, the record
  that goes with the seal, the verification of the two against each other, and the keypaths they are
  stored at.
\<close>

subsection \<open>Keypaths\<close>

definition SEAL_KEYPATH :: string where "SEAL_KEYPATH = ''identityLinks.genesis''"
definition RECORDS_KEYPATH :: string where "RECORDS_KEYPATH = ''identityLinks.records''"
definition GENESIS_LINK_PREFIX :: string where "GENESIS_LINK_PREFIX = ''genesis-''"
definition ANCHOR_REFERENCE :: string where "ANCHOR_REFERENCE = ''cell:///EntityAnchor''"
definition SAME_ENTITY_SCOPE :: string where "SAME_ENTITY_SCOPE = ''same_entity''"

definition GENESIS_TRIGGERS :: "string list" where
  "GENESIS_TRIGGERS = [''onboarding'', ''addressBookImport'', ''verifiableCredential'', ''fileUpload'',
     ''directEdit'', ''firstPersist'']"

definition genesis_link_id :: "string \<Rightarrow> string" where
  "genesis_link_id anchor_id = GENESIS_LINK_PREFIX @ anchor_id"

definition is_genesis_link :: "string \<Rightarrow> bool" where
  "is_genesis_link link_id = startswith link_id GENESIS_LINK_PREFIX"

definition is_immutable_genesis_keypath :: "string \<Rightarrow> bool" where
  "is_immutable_genesis_keypath keypath = (keypath = SEAL_KEYPATH \<or> startswith keypath (SEAL_KEYPATH @ ''.''))"

text \<open>\<open>[A-Za-z0-9_-]\<close>; every other character, of one byte or more, becomes one underscore.\<close>

definition key_char :: "char \<Rightarrow> bool" where
  "key_char c = (let n = of_char c :: nat in 48 \<le> n \<and> n \<le> 57 \<or> 65 \<le> n \<and> n \<le> 90 \<or> 97 \<le> n \<and> n \<le> 122
     \<or> c = CHR ''_'' \<or> c = CHR ''-'')"

definition safe_record_key :: "string \<Rightarrow> string" where
  "safe_record_key link_id = concat (map (\<lambda>c. if list_all key_char c then c else ''_'') (py_chars link_id))"

definition record_keypath :: "string \<Rightarrow> string" where
  "record_keypath link_id = RECORDS_KEYPATH @ ''.'' @ safe_record_key link_id"

subsection \<open>Sealing and verifying\<close>

definition genesis_record :: "string \<Rightarrow> instance \<Rightarrow> string \<Rightarrow> string \<Rightarrow> instance res" where
  "genesis_record anchor_id initiator identity_domain sealed_at =
     rbind (new_object EntityBindingDescriptor
       [(''mode'', FVal (VStr ''localEntityAnchor'')), (''entity_anchor_reference'', FVal (VStr ANCHOR_REFERENCE))]) (\<lambda>binding.
     rbind (str_at initiator [''uuid'']) (\<lambda>uuid.
       new_object IdentityLinkRecord
         [(''link_id'', FVal (VStr (genesis_link_id anchor_id))), (''entity_binding'', FObj binding),
          (''linked_identity'', FObj initiator), (''approved_domains'', strs_val [identity_domain]),
          (''approved_identity_contexts'', strs_val []), (''approved_scopes'', strs_val [SAME_ENTITY_SCOPE]),
          (''issuer_identity_uuid'', FVal (VStr uuid)), (''issuer_type'', FVal (VStr ''existingDevice'')),
          (''status'', FVal (VStr ''active'')), (''linked_at'', FVal (VStr sealed_at))]))"

definition unsigned_genesis_seal :: "string \<Rightarrow> instance \<Rightarrow> string \<Rightarrow> rat \<Rightarrow> instance res" where
  "unsigned_genesis_seal anchor_id initiator trigger now =
     (if trigger \<notin> set GENESIS_TRIGGERS then Inl (LinkFailure ''invalidTrigger'')
      else rbind (iso8601 now) (\<lambda>sealed_at. rbind (str_at initiator [''uuid'']) (\<lambda>uuid.
        rbind (attr initiator ''algorithm'') (\<lambda>al. rbind (attr initiator ''curve_type'') (\<lambda>cv.
        rbind (new_object IdentityEnrollmentApprovalProof
          [(''issuer_identity_uuid'', FVal (VStr uuid)), (''issuer_type'', FVal (VStr ''existingDevice'')),
           (''algorithm'', al), (''curve_type'', cv)]) (\<lambda>p.
        new_object EntityGenesisSeal
          [(''anchor_id'', FVal (VStr anchor_id)), (''sealed_at'', FVal (VStr sealed_at)), (''trigger'', FVal (VStr trigger)),
           (''link_id'', FVal (VStr (genesis_link_id anchor_id))), (''initiator_identity_uuid'', FVal (VStr uuid)),
           (''proof'', FObj p)]))))))"

definition seal_genesis ::
    "(rat \<Rightarrow> string) \<Rightarrow> string \<Rightarrow> instance \<Rightarrow> (bytes \<Rightarrow> bytes) \<Rightarrow> string \<Rightarrow> string \<Rightarrow> rat \<Rightarrow> (instance \<times> instance) res" where
  "seal_genesis frepr anchor_id initiator signer identity_domain trigger now =
     rbind (unsigned_genesis_seal anchor_id initiator trigger now) (\<lambda>unsigned.
     rbind (model_payload frepr unsigned) (\<lambda>payload. rbind (obj_at unsigned [''proof'']) (\<lambda>p.
     let seal = replace_attr ''proof'' (FObj (replace_attr ''signature'' (FVal (VBytes (signer payload))) p)) unsigned in
     rbind (str_at seal [''sealed_at'']) (\<lambda>sealed_at.
     rbind (genesis_record anchor_id initiator identity_domain sealed_at) (\<lambda>r. Inr (seal, r))))))"

definition genesis_checks :: "crypto \<Rightarrow> (rat \<Rightarrow> string) \<Rightarrow> instance \<Rightarrow> instance \<Rightarrow> unit res list" where
  "genesis_checks cr frepr seal r =
     [fails (differ (path seal [''link_id'']) (path r [''link_id''])) ''sealDoesNotMatchRecord'',
      fails (either (differ (path seal [''initiator_identity_uuid'']) (path r [''linked_identity'', ''uuid'']))
                    (differ (path seal [''initiator_identity_uuid'']) (path r [''issuer_identity_uuid''])))
        ''sealDoesNotMatchRecord'',
      fails (differ (path r [''entity_binding'', ''mode'']) (text_val ''localEntityAnchor'')) ''sealDoesNotMatchRecord'',
      fails (either (differ (path r [''issuer_type'']) (text_val ''existingDevice''))
                    (differ (path r [''status'']) (text_val ''active''))) ''sealDoesNotMatchRecord'',
      fails (negate (is_signed seal)) ''sealProofInvalid'',
      fails (negate (proof_verifies cr frepr seal (obj_at r [''linked_identity'']))) ''sealProofInvalid'']"

definition verify_genesis :: "crypto \<Rightarrow> (rat \<Rightarrow> string) \<Rightarrow> instance \<Rightarrow> instance \<Rightarrow> unit res" where
  "verify_genesis cr frepr seal r = checks (genesis_checks cr frepr seal r)"

subsection \<open>What is sealed verifies\<close>

lemma key_char_under: "key_char CHR ''_''" by (simp add: key_char_def)

text \<open>The key of a record has no dot and no bracket: the keypath has three segments.\<close>

lemma safe_record_key_safe: "list_all key_char (safe_record_key link_id)"
  by (auto simp: safe_record_key_def list_all_iff key_char_under)

lemma genesis_keypath_immutable: "is_immutable_genesis_keypath SEAL_KEYPATH"
  "is_immutable_genesis_keypath (SEAL_KEYPATH @ ''.'' @ rest)"
  by (simp_all add: is_immutable_genesis_keypath_def startswith_def)

interpretation genesis: signed_envelope "\<lambda>seal. verify_genesis cr frepr seal r = Inr ()"
    "\<lambda>seal. obj_at r [''linked_identity'']" cr frepr
  for cr frepr r
  by unfold_locales (simp add: verify_genesis_def genesis_checks_def checks_Inr fails_Inr negate_False)

text \<open>The objects \<open>seal_genesis\<close> makes.\<close>

definition seal_object :: "string \<Rightarrow> string \<Rightarrow> string \<Rightarrow> string \<Rightarrow> fval \<Rightarrow> instance" where
  "seal_object anchor_id sealed_at trigger uuid signature = Instance EntityGenesisSeal
     [(''version'', FVal (VInt 1)), (''anchor_id'', FVal (VStr anchor_id)), (''sealed_at'', FVal (VStr sealed_at)),
      (''trigger'', FVal (VStr trigger)), (''link_id'', FVal (VStr (genesis_link_id anchor_id))),
      (''initiator_identity_uuid'', FVal (VStr uuid)),
      (''proof'', FObj (Instance IdentityEnrollmentApprovalProof
         [(''type'', FVal (VStr ''signature'')), (''issuer_identity_uuid'', FVal (VStr uuid)),
          (''issuer_type'', FVal (VStr ''existingDevice'')), (''algorithm'', FVal (VStr ''EdDSA'')),
          (''curve_type'', FVal (VStr ''Curve25519'')), (''signature'', signature)]))]"

lemma seal_object_ok: "signature = FNone \<or> (\<exists>s. signature = FVal (VBytes s)) \<Longrightarrow>
    instance_ok EntityGenesisSeal (seal_object anchor_id sealed_at trigger uuid signature)"
  by (auto simp: seal_object_def EntityGenesisSeal_def IdentityEnrollmentApprovalProof_def need_def opt_def)

lemma signed_seal: "signed_class EntityGenesisSeal"
  by code_simp

lemma seal_payload:
  "signature = FNone \<or> (\<exists>s. signature = FVal (VBytes s)) \<Longrightarrow>
     model_payload frepr (seal_object anchor_id sealed_at trigger uuid signature)
     = model_payload frepr (seal_object anchor_id sealed_at trigger uuid FNone)"
  by (rule payload_same [OF signed_seal seal_object_ok seal_object_ok]) (auto simp: seal_object_def attr_def)

lemma sealed:
  assumes "seal_genesis frepr anchor_id initiator signer identity_domain trigger now = Inr (seal, r)"
    and "attr initiator ''uuid'' = text_val uuid" "attr initiator ''algorithm'' = text_val ''EdDSA''"
    and "attr initiator ''curve_type'' = text_val ''Curve25519''"
  shows "\<exists>sealed_at payload. iso8601 now = Inr sealed_at
    \<and> model_payload frepr (seal_object anchor_id sealed_at trigger uuid FNone) = Inr payload
    \<and> seal = seal_object anchor_id sealed_at trigger uuid (FVal (VBytes (signer payload)))
    \<and> genesis_record anchor_id initiator identity_domain sealed_at = Inr r"
proof -
  obtain unsigned payload p sealed_at where s: "unsigned_genesis_seal anchor_id initiator trigger now = Inr unsigned"
    "model_payload frepr unsigned = Inr payload" "obj_at unsigned [''proof''] = Inr p"
    "seal = replace_attr ''proof'' (FObj (replace_attr ''signature'' (FVal (VBytes (signer payload))) p)) unsigned"
    "str_at seal [''sealed_at''] = Inr sealed_at" "genesis_record anchor_id initiator identity_domain sealed_at = Inr r"
    using assms(1) by (auto simp: seal_genesis_def rbind_Inr_iff Let_def)
  obtain t where t: "iso8601 now = Inr t"
    using s(1) by (auto simp: unsigned_genesis_seal_def rbind_Inr_iff split: if_splits)
  have u: "unsigned = seal_object anchor_id t trigger uuid FNone"
    using s(1) assms(2-4) t
    by (simp add: unsigned_genesis_seal_def str_at_def seal_object_def new_object_def plain_value_def
        EntityGenesisSeal_def IdentityEnrollmentApprovalProof_def need_def opt_def split: if_splits)
  have "seal = seal_object anchor_id t trigger uuid (FVal (VBytes (signer payload)))"
    using s(3,4) unfolding u obj_at1 by (auto simp: seal_object_def replace_attr_def attr_def)
  moreover from this have "sealed_at = t"
    using s(5) by (simp add: str_at1) (simp add: seal_object_def attr_def)
  ultimately show ?thesis using s(2,6) t unfolding u by blast
qed

text \<open>
  An anchor sealed with the initiator's own key verifies against the record made with it: seal and
  record name the same link, the same initiator and the initiator's key, whatever the anchor, the
  trigger and the time.\<close>

lemma sealed_genesis_verifies:
  assumes "seal_genesis frepr anchor_id initiator (ed_sign cr sk) identity_domain trigger now = Inr (seal, r)"
    and "crypto_ok cr" "length (ed_public cr sk) = 32" "\<forall>x. length (ed_sign cr sk x) = 64"
    and "attr initiator ''uuid'' = text_val uuid" "attr initiator ''algorithm'' = text_val ''EdDSA''"
    and "attr initiator ''curve_type'' = text_val ''Curve25519''"
    and "attr initiator ''public_key'' = Inr (FVal (VBytes (ed_public cr sk)))"
  shows "verify_genesis cr frepr seal r = Inr () \<and> attr r ''linked_identity'' = Inr (FObj initiator)
    \<and> attr r ''link_id'' = text_val (''genesis-'' @ anchor_id)"
proof -
  obtain t payload where s: "model_payload frepr (seal_object anchor_id t trigger uuid FNone) = Inr payload"
    "seal = seal_object anchor_id t trigger uuid (FVal (VBytes (ed_sign cr sk payload)))"
    "genesis_record anchor_id initiator identity_domain t = Inr r"
    using sealed [OF assms(1,5-7)] by blast
  have uuid: "str_at initiator [''uuid''] = Inr uuid" by (simp add: str_at1 assms(5))
  have r: "attr r ''linked_identity'' = Inr (FObj initiator)" "attr r ''link_id'' = text_val (genesis_link_id anchor_id)"
    "attr r ''issuer_identity_uuid'' = text_val uuid" "attr r ''issuer_type'' = text_val ''existingDevice''"
    "attr r ''status'' = text_val ''active''"
    "path r [''entity_binding'', ''mode''] = text_val ''localEntityAnchor''"
    using s(3) uuid
    by (auto simp: genesis_record_def new_object_def IdentityLinkRecord_def EntityBindingDescriptor_def
        need_def opt_def attr_def plain_value_def strs_val_def path.simps)
  have a: "attr seal ''link_id'' = text_val (genesis_link_id anchor_id)" "attr seal ''initiator_identity_uuid'' = text_val uuid"
    unfolding s(2) by (simp_all add: seal_object_def attr_def)
  have p: "valid_proof cr frepr seal initiator"
    unfolding valid_proof_def s(2) seal_payload [OF disjI2 [OF exI [of _ "ed_sign cr sk payload"]], OF refl] s(1)
    using assms(2-4,6-8) by (simp add: crypto_ok_def) (simp add: seal_object_def attr_def)
  have u: "path r [''linked_identity'', ''uuid''] = text_val uuid" unfolding path2 using r(1) assms(5) by simp
  have "verify_genesis cr frepr seal r = Inr ()"
    unfolding verify_genesis_def genesis_checks_def checks_Inr using p valid_proof_signed [OF p]
    by (simp add: fails_Inr either_False negate_False same_str a r u proof_verifies_obj obj_at1)
  then show ?thesis using r by (simp add: genesis_link_id_def GENESIS_LINK_PREFIX_def)
qed

lemma run_seal_payload:
  "\<exists>p. model_payload run_repr (seal_object ''a'' ''1970-01-01T00:00:00Z'' ''onboarding'' ''ida'' FNone) = Inr p"
proof -
  have "\<exists>d. to_wire (seal_object ''a'' ''1970-01-01T00:00:00Z'' ''onboarding'' ''ida'' FNone) = Inr d \<and> ascii_items d"
    by (simp add: seal_object_def EntityGenesisSeal_def IdentityEnrollmentApprovalProof_def need_def opt_def
        genesis_link_id_def GENESIS_LINK_PREFIX_def) (simp add: is_ascii_def)
  then show ?thesis using payload_ascii by blast
qed

lemma run_seal:
  "\<exists>seal r. seal_genesis run_repr ''a'' (descriptor ''ida'' alice) (ed_sign run_crypto alice) ''private'' ''onboarding'' 0
     = Inr (seal, r)"
proof -
  let ?u = "seal_object ''a'' ''1970-01-01T00:00:00Z'' ''onboarding'' ''ida'' FNone"
  obtain p where p: "model_payload run_repr ?u = Inr p" using run_seal_payload by blast
  have date: "iso8601 0 = Inr ''1970-01-01T00:00:00Z''" by code_simp
  have s: "str_at (descriptor ''ida'' alice) [''uuid''] = Inr ''ida''" by (simp add: str_at1 descriptor_attrs)
  have "''onboarding'' \<in> set GENESIS_TRIGGERS" by (simp add: GENESIS_TRIGGERS_def)
  then have u: "unsigned_genesis_seal ''a'' (descriptor ''ida'' alice) ''onboarding'' 0 = Inr ?u"
    using date s
    by (simp add: unsigned_genesis_seal_def descriptor_attrs seal_object_def new_object_def plain_value_def
        EntityGenesisSeal_def IdentityEnrollmentApprovalProof_def need_def opt_def)
  have o: "\<exists>q. obj_at ?u [''proof''] = Inr q" unfolding obj_at1 by (simp add: seal_object_def attr_def)
  have t: "str_at (replace_attr ''proof'' v ?u) [''sealed_at''] = Inr ''1970-01-01T00:00:00Z''" for v
    by (simp add: str_at1) (simp add: seal_object_def attr_def)
  have "\<exists>r. genesis_record ''a'' (descriptor ''ida'' alice) ''private'' ''1970-01-01T00:00:00Z'' = Inr r"
    using s by (simp add: genesis_record_def new_object_def IdentityLinkRecord_def EntityBindingDescriptor_def
        need_def opt_def plain_value_def)
  then show ?thesis using u p o t by (auto simp: seal_genesis_def Let_def)
qed

theorem sealed_genesis_verifies_witness:
  "\<exists>seal r. seal_genesis run_repr ''a'' (descriptor ''ida'' alice) (ed_sign run_crypto alice) ''private'' ''onboarding'' 0
     = Inr (seal, r) \<and> verify_genesis run_crypto run_repr seal r = Inr ()"
proof -
  obtain seal r where s: "seal_genesis run_repr ''a'' (descriptor ''ida'' alice) (ed_sign run_crypto alice) ''private''
      ''onboarding'' 0 = Inr (seal, r)"
    using run_seal by blast
  with sealed_genesis_verifies [OF s run_crypto_ok(1) _ run_crypto_ok(3) [OF run_keys(1)] descriptor_attrs(4,1,2)]
  show ?thesis by (auto simp: run_crypto_ok run_keys descriptor_attrs)
qed

end
