(* ===== verification/Link_Safety.thy ===== *)
theory Link_Safety
  imports Identity_Link
begin

text \<open>
  What \<open>verify_completion\<close> accepts: the four pieces are signed by the right keys, belong together,
  are in time and grant no more than was asked.
\<close>

subsection \<open>The types of attributes\<close>

definition declares :: "model_class \<Rightarrow> string \<Rightarrow> bool \<Rightarrow> kind \<Rightarrow> bool" where
  "declares c a optional k \<longleftrightarrow>
     list_ex (\<lambda>sp. sp_name sp = a \<and> sp_optional sp = optional \<and> sp_kind sp = k) (class_specs c)"

lemma declared:
  assumes "instance_ok c m" "class_ok c" "declares c a optional k"
  shows "\<exists>v. attr m a = Inr v \<and> (if v = FNone then optional else fval_ok k v)"
proof -
  obtain sp where sp: "sp \<in> set (class_specs c)" "sp_name sp = a" "sp_optional sp = optional" "sp_kind sp = k"
    using assms(3) by (auto simp: declares_def list_ex_iff)
  from typed_attr [OF assms(1,2) sp(1)] show ?thesis by (simp only: sp(2-4))
qed

lemma a_str: "instance_ok c m \<Longrightarrow> class_ok c \<Longrightarrow> declares c a False KStr \<Longrightarrow> \<exists>s. attr m a = text_val s"
  by (drule (2) declared) (auto split: if_splits fval.splits elim: is_str.elims)

lemma a_obj: "instance_ok c m \<Longrightarrow> class_ok c \<Longrightarrow> declares c a False (KModel d) \<Longrightarrow>
    \<exists>n. attr m a = Inr (FObj n) \<and> instance_ok d n"
  by (drule (2) declared) (auto split: if_splits fval.splits)

lemma strs_of: "list_all is_str vs \<Longrightarrow> \<exists>ss. vs = map VStr ss"
proof (induction vs)
  case (Cons v vs)
  then obtain s ss where "v = VStr s" "vs = map VStr ss" by (auto elim: is_str.elims)
  then have "v # vs = map VStr (s # ss)" by simp
  then show ?case by (rule exI)
qed simp

lemma a_strs: "instance_ok c m \<Longrightarrow> class_ok c \<Longrightarrow> declares c a False KStrs \<Longrightarrow> \<exists>ss. attr m a = Inr (strs_val ss)"
  by (drule (2) declared) (auto simp: strs_val_def dest: strs_of split: if_splits fval.splits pyval.splits)

lemma strs_at_val: "attr m a = Inr (strs_val ss) \<Longrightarrow> strs_at m [a] = Inr ss"
  by (simp add: strs_at_def strs_val_def)


lemma descriptor_declares:
  "declares IdentityPublicKeyDescriptor ''uuid'' False KStr" "declares IdentityPublicKeyDescriptor ''algorithm'' False KStr"
  "declares IdentityPublicKeyDescriptor ''curve_type'' False KStr"
  by (simp_all add: declares_def IdentityPublicKeyDescriptor_def need_def opt_def)

lemma request_declares:
  "declares IdentityEnrollmentRequest ''new_identity'' False (KModel IdentityPublicKeyDescriptor)"
  "declares IdentityEnrollmentRequest ''requested_domains'' False KStrs"
  "declares IdentityEnrollmentRequest ''requested_identity_contexts'' False KStrs"
  "declares IdentityEnrollmentRequest ''requested_scopes'' False KStrs"
  by (simp_all add: declares_def IdentityEnrollmentRequest_def need_def opt_def)

lemma approval_declares:
  "declares IdentityEnrollmentApproval ''subject_identity'' False (KModel IdentityPublicKeyDescriptor)"
  "declares IdentityEnrollmentApproval ''approved_domains'' False KStrs"
  "declares IdentityEnrollmentApproval ''approved_identity_contexts'' False KStrs"
  "declares IdentityEnrollmentApproval ''approved_scopes'' False KStrs"
  by (simp_all add: declares_def IdentityEnrollmentApproval_def need_def opt_def)

lemma envelope_declares:
  "declares IdentityLinkCompletionEnvelope ''request'' False (KModel IdentityEnrollmentRequest)"
  "declares IdentityLinkCompletionEnvelope ''approval'' False (KModel IdentityEnrollmentApproval)"
  "declares IdentityLinkCompletionEnvelope ''same_entity_credential'' False (KModel VCClaim)"
  "declares IdentityLinkCompletionEnvelope ''presentation'' False (KModel VCPresentation)"
  "declares IdentityLinkCompletionEnvelope ''issuer_identity'' False (KModel IdentityPublicKeyDescriptor)"
  by (simp_all add: declares_def IdentityLinkCompletionEnvelope_def need_def opt_def)

subsection \<open>What each check means\<close>

text \<open>The date in an attribute has not passed.\<close>

definition in_time :: "instance \<Rightarrow> string \<Rightarrow> rat \<Rightarrow> bool" where
  "in_time m a now \<longleftrightarrow> (\<exists>e s. attr m a = text_val e \<and> parse_iso8601 e = Inr (Some s) \<and> now \<le> of_int s)"

lemma not_expired:
  "rbind (str_at m [a]) (\<lambda>e. ensure_not_expired e now) = Inr u \<Longrightarrow> in_time m a now"
  by (auto simp: ensure_not_expired_def rbind_Inr_iff str_at1 in_time_def split: option.splits if_splits)

text \<open>The names in one list are among those of another.\<close>

definition names_within :: "instance \<Rightarrow> string \<Rightarrow> instance \<Rightarrow> string \<Rightarrow> bool" where
  "names_within m a n b \<longleftrightarrow> (\<exists>xs ys. attr m a = Inr (strs_val xs) \<and> attr n b = Inr (strs_val ys) \<and> set xs \<subseteq> set ys)"

lemma subset_checked:
  "subset_at m a n b = Inr u \<Longrightarrow> \<exists>xs. attr m a = Inr (strs_val xs) \<Longrightarrow> \<exists>ys. attr n b = Inr (strs_val ys) \<Longrightarrow>
     names_within m a n b"
  unfolding names_within_def
  by (fastforce simp: subset_at_def strs_at_val ensure_subset_def filter_empty_conv subset_iff split: if_splits)

lemma request_accepted:
  assumes "validate_enrollment_request cr frepr request now = Inr hash"
  shows "\<exists>new payload. attr request ''new_identity'' = Inr (FObj new) \<and> valid_proof cr frepr request new
    \<and> model_payload frepr request = Inr payload \<and> hash = sha256 payload \<and> in_time request ''expires_at'' now"
proof -
  obtain u payload where cs: "checks (request_checks cr frepr request now) = Inr u"
    and p: "model_payload frepr request = Inr payload" "hash = sha256 payload"
    using assms unfolding validate_enrollment_request_def rbind_Inr_iff by blast
  have "in_time request ''expires_at'' now"
    by (rule not_expired) (use checks_nth [OF cs, of 4] in \<open>simp add: request_checks_def\<close>)
  moreover have "proof_verifies cr frepr request (obj_at request [''new_identity'']) = Inr True"
    using checks_nth [OF cs, of 7] by (simp add: request_checks_def fails_Inr negate_False)
  ultimately show ?thesis using p unfolding proof_verifies_obj obj_at1 by blast
qed

lemma approval_accepted:
  assumes "validate_approval cr frepr approval request hash issuer envelope now used_jtis v = Inr u"
    and "instance_ok IdentityEnrollmentRequest request" "instance_ok IdentityEnrollmentApproval approval"
  shows "valid_proof cr frepr approval issuer \<and> attr approval ''request_hash'' = Inr (FVal (VBytes hash))
    \<and> (\<exists>j. attr approval ''jti'' = text_val j \<and> j \<notin> set used_jtis)
    \<and> (\<exists>new. attr request ''new_identity'' = Inr (FObj new) \<and> same_key issuer new = Inr False)
    \<and> in_time approval ''expires_at'' now
    \<and> names_within approval ''approved_domains'' request ''requested_domains''
    \<and> names_within approval ''approved_identity_contexts'' request ''requested_identity_contexts''
    \<and> names_within approval ''approved_scopes'' request ''requested_scopes''"
proof -
  note cs = checks_nth [OF assms(1) [unfolded validate_approval_def]]
  note d = approval_checks_def
  have 1: "valid_proof cr frepr approval issuer"
    using cs [of 18] by (simp add: d fails_Inr negate_False proof_verifies_True)
  have 2: "attr approval ''request_hash'' = Inr (FVal (VBytes hash))"
    using cs [of 1] by (simp add: d fails_Inr differ_False)
  have 3: "\<exists>j. attr approval ''jti'' = text_val j \<and> j \<notin> set used_jtis"
    using cs [of 7] by (auto simp: d fails_Inr rbind_Inr_iff str_at1)
  have 4: "\<exists>new. attr request ''new_identity'' = Inr (FObj new) \<and> same_key issuer new = Inr False"
    using cs [of 9] by (auto simp: d fails_Inr either_False rbind_Inr_iff obj_at1)
  have 5: "in_time approval ''expires_at'' now"
    by (rule not_expired) (use cs [of 12] in \<open>simp add: d\<close>)
  note r = a_strs [OF assms(2) tables_ok(5)] and s = a_strs [OF assms(3) tables_ok(8)]
  have 6: "names_within approval ''approved_domains'' request ''requested_domains''"
    using cs [of 13] by (intro subset_checked s approval_declares r request_declares) (simp add: d)
  have 7: "names_within approval ''approved_identity_contexts'' request ''requested_identity_contexts''"
    using cs [of 14] by (intro subset_checked s approval_declares r request_declares) (simp add: d)
  have 8: "names_within approval ''approved_scopes'' request ''requested_scopes''"
    using cs [of 15] by (intro subset_checked s approval_declares r request_declares) (simp add: d)
  show ?thesis using 1 2 3 4 5 6 7 8 by blast
qed

lemma credential_accepted:
  assumes "validate_credential cr frepr credential request approval issuer hash now = Inr subject"
  shows "vc_signed cr (claim_bytes frepr credential) credential issuer
    \<and> (\<exists>body. attr credential ''credential_subject'' = Inr body \<and> read_subject body = Inr subject)
    \<and> (\<exists>new did. attr request ''new_identity'' = Inr (FObj new) \<and> did_key new = Inr did \<and> attr subject ''id'' = text_val did)
    \<and> attr subject ''enrollment_request_hash'' = Inr (FVal (VBytes hash)) \<and> in_time subject ''valid_until'' now"
proof -
  obtain u w body where cs: "checks (credential_checks cr frepr credential issuer) = Inr u"
    and body: "attr credential ''credential_subject'' = Inr body" "read_subject body = Inr subject"
    and ss: "checks (subject_checks subject request approval hash now) = Inr w"
    using assms unfolding validate_credential_def rbind_Inr_iff by blast
  have 1: "vc_signed cr (claim_bytes frepr credential) credential issuer"
    using checks_nth [OF cs, of 2] claim_verified
    by (simp add: credential_checks_def fails_Inr negate_False)
  have 2: "\<exists>new did. attr request ''new_identity'' = Inr (FObj new) \<and> did_key new = Inr did \<and> attr subject ''id'' = text_val did"
    using checks_nth [OF ss, of 1] by (auto simp: subject_checks_def fails_Inr rbind_Inr_iff obj_at1 differ_False)
  have any: "any_of [
          differ (path subject [''entity_binding'']) (path approval [''entity_binding'']),
          differ (path subject [''enrollment_request_hash'']) (Inr (FVal (VBytes hash))),
          differ (path subject [''approved_domains'']) (path approval [''approved_domains'']),
          differ (path subject [''approved_identity_contexts'']) (path approval [''approved_identity_contexts'']),
          differ (path subject [''approved_scopes'']) (path approval [''approved_scopes''])] = Inr False"
    using checks_nth [OF ss, of 3] by (simp add: subject_checks_def fails_Inr)
  have 3: "attr subject ''enrollment_request_hash'' = Inr (FVal (VBytes hash))"
    using any_of_nth [OF any, of 1] by (simp add: differ_False)
  have 4: "in_time subject ''valid_until'' now"
    by (rule not_expired) (use checks_nth [OF ss, of 4] in \<open>simp add: subject_checks_def\<close>)
  show ?thesis using 1 2 3 4 body by blast
qed

lemma vc_signed_by_same_key:
  assumes "vc_signed cr payload m b" "same_key b n = Inr True"
    and "instance_ok IdentityPublicKeyDescriptor b" "instance_ok IdentityPublicKeyDescriptor n"
  shows "vc_signed cr payload m n"
  using assms(1,2) unfolding same_key_True [OF assms(3,4)] vc_signed_def by simp

lemma presentation_accepted:
  assumes "validate_presentation cr frepr presentation credential linked envelope = Inr u"
    and "instance_ok VCPresentation presentation" "instance_ok IdentityPublicKeyDescriptor linked"
  shows "vc_signed cr (presentation_bytes frepr presentation) presentation linked
    \<and> attr presentation ''challenge'' = attr envelope ''expected_presentation_challenge''
    \<and> attr presentation ''domain'' = attr envelope ''expected_presentation_domain''"
proof -
  note cs = checks_nth [OF assms(1) [unfolded validate_presentation_def]]
  obtain challenge d where e: "attr envelope ''expected_presentation_challenge'' = Inr (FVal (VBytes challenge))"
      "attr envelope ''expected_presentation_domain'' = text_val d"
      "verify_holder_proof cr frepr presentation challenge d = Inr True"
    using cs [of 1] by (auto simp: presentation_checks_def fails_Inr rbind_Inr_iff bytes_at1 str_at1 negate_False)
  obtain b where b: "attr presentation ''holder_binding'' = Inr (FObj b)"
      "vc_signed cr (presentation_bytes frepr presentation) presentation b"
      "attr presentation ''challenge'' = Inr (FVal (VBytes challenge))" "attr presentation ''domain'' = text_val d"
    using holder_verified [OF e(3)] by blast
  have "any_of [
           rbind (strs_at presentation [''type'']) (\<lambda>ts. Inr (PRESENTATION_TYPE \<notin> set ts)),
           negate (holds_credential presentation credential),
           negate (has (path presentation [''holder_binding''])),
           negate (rbind (obj_at presentation [''holder_binding'']) (\<lambda>b. same_key b linked)),
           rbind (attr presentation ''holder'') (\<lambda>h. case h of
             FVal (VStr s) \<Rightarrow> rbind (did_key linked) (\<lambda>did. Inr (s \<noteq> did)) | _ \<Rightarrow> Inr True)] = Inr False"
    using cs [of 0] by (simp add: presentation_checks_def fails_Inr)
  from any_of_nth [OF this, of 3] have key: "same_key b linked = Inr True"
    using b(1) by (simp add: negate_False rbind_Inr_iff obj_at1)
  have "opt ''holder_binding'' ''holderBinding'' (KModel IdentityPublicKeyDescriptor) \<in> set (class_specs VCPresentation)"
    by (simp add: VCPresentation_def)
  from opt_obj [OF assms(2) link_tables_ok(3) this] have "instance_ok IdentityPublicKeyDescriptor b"
    using b(1) by simp
  from vc_signed_by_same_key [OF b(2) key this assms(3)] e(1,2) b(3,4) show ?thesis by simp
qed

lemma keyword_at:
  "keyword_args kws = Inr args \<Longrightarrow> (a, r) \<in> set kws \<Longrightarrow> distinct (map fst kws) \<Longrightarrow> \<exists>v. r = Inr v \<and> dget args a = Some v"
  unfolding keyword_args_def
proof (induction kws arbitrary: args)
  case (Cons kw kws)
  then obtain b q v args' where k: "kw = (b, q)" "q = Inr v" "args = (b, v) # args'"
      "rmap (\<lambda>(a, r). rbind r (\<lambda>v. Inr (a, v))) kws = Inr args'"
    by (cases kw) (auto simp: rbind_Inr_iff)
  show ?case
  proof (cases "(a, r) = kw")
    case False
    then have "(a, r) \<in> set kws" "a \<noteq> b" using Cons.prems k(1) by (auto simp: image_iff)
    with Cons.IH [OF k(4)] Cons.prems(3) k(3) show ?thesis by simp
  qed (use k in simp)
qed simp

lemma new_object_at:
  assumes "new_object c args = Inr m" "dget args a = Some v"
  shows "attr m a = Inr v"
proof -
  define f where "f = (\<lambda>sp. case dget args (sp_name sp) of
             Some v \<Rightarrow> Inr (sp_name sp, v)
           | None \<Rightarrow> (case dget (class_init c) (sp_name sp) of
               Some v \<Rightarrow> Inr (sp_name sp, plain_value (sp_kind sp) v)
             | None \<Rightarrow> Inl TypeError))"
  obtain fs where sub: "set (dkeys args) \<subseteq> set (map sp_name (class_specs c))" and fs: "rmap f (class_specs c) = Inr fs" "m = Instance c fs"
    using assms(1) unfolding new_object_def f_def by (auto simp: rbind_Inr_iff split: if_splits)
  have "a \<in> set (map sp_name (class_specs c))" using sub assms(2) dget_None_iff [of args a] by auto
  moreover have "rmap f sps = Inr gs \<Longrightarrow> a \<in> set (map sp_name sps) \<Longrightarrow> dget gs a = Some v" for sps gs
  proof (induction sps arbitrary: gs)
    case (Cons sp sps)
    then obtain x gs' where g: "f sp = Inr x" "rmap f sps = Inr gs'" "gs = x # gs'" by (auto simp: rbind_Inr_iff)
    show ?case
    proof (cases "sp_name sp = a")
      case True
      then show ?thesis using g assms(2) by (cases x) (auto simp: f_def)
    next
      case False
      then have "fst x \<noteq> a" using g(1) by (auto simp: f_def split: option.splits)
      then show ?thesis using Cons False g by (cases x) simp
    qed
  qed simp
  ultimately show ?thesis using fs by (simp add: attr_def)
qed

lemma record_of_approval:
  assumes "completed_record request approval issuer subject now = Inr link"
  shows "attr link ''linked_identity'' = attr request ''new_identity'' \<and> attr link ''issuer_identity_uuid'' = attr issuer ''uuid''
    \<and> attr link ''status'' = text_val ''active''
    \<and> (\<forall>a \<in> {''entity_binding'', ''approved_domains'', ''approved_identity_contexts'', ''approved_scopes''}.
        attr link a = attr approval a)"
proof -
  obtain args where k: "keyword_args [
       (''link_id'', attr approval ''approval_id''),
       (''entity_binding'', attr approval ''entity_binding''),
       (''linked_identity'', attr request ''new_identity''),
       (''approved_domains'', attr approval ''approved_domains''),
       (''approved_identity_contexts'', attr approval ''approved_identity_contexts''),
       (''approved_scopes'', attr approval ''approved_scopes''),
       (''issuer_identity_uuid'', attr issuer ''uuid''),
       (''issuer_type'', attr approval ''issuer_type''),
       (''status'', text_val ''active''),
       (''linked_at'', rbind (iso8601 now) text_val),
       (''revocation_reference'', attr subject ''revocation_reference'')] = Inr args" (is "keyword_args ?kws = _")
    and m: "new_object IdentityLinkRecord args = Inr link"
    using assms unfolding completed_record_def rbind_Inr_iff by blast
  have at: "(a, r) \<in> set ?kws \<Longrightarrow> attr link a = r" for a r
    using keyword_at [OF k, of a r] new_object_at [OF m, of a] by fastforce
  show ?thesis by (intro conjI ballI at) (auto intro!: at)
qed

subsection \<open>Acceptance\<close>

text \<open>
  C4: a completed entity extension is signed four times by the right keys: the request and the
  presentation by the new key, the approval and the credential by the approving key, which is not
  the new one. The approval repeats the hash of the signed request, its identifier has not been used,
  request and approval are in time, the presentation answers the challenge and domain the owner
  asked for, and the record links the new key with what the approval grants, which is no more than
  the request asked for.\<close>

theorem completion_is_signed_and_bounded:
  assumes "instance_ok IdentityLinkCompletionEnvelope e" "verify_completion cr frepr e now used v = Inr res"
  shows "\<exists>request approval credential presentation issuer new payload.
    attr e ''request'' = Inr (FObj request) \<and> attr e ''approval'' = Inr (FObj approval)
    \<and> attr e ''same_entity_credential'' = Inr (FObj credential) \<and> attr e ''presentation'' = Inr (FObj presentation)
    \<and> attr e ''issuer_identity'' = Inr (FObj issuer) \<and> attr request ''new_identity'' = Inr (FObj new)
    \<and> valid_proof cr frepr request new \<and> valid_proof cr frepr approval issuer
    \<and> vc_signed cr (claim_bytes frepr credential) credential issuer
    \<and> vc_signed cr (presentation_bytes frepr presentation) presentation new
    \<and> same_key issuer new = Inr False \<and> model_payload frepr request = Inr payload
    \<and> attr approval ''request_hash'' = Inr (FVal (VBytes (sha256 payload))) \<and> link_request_hash res = sha256 payload
    \<and> attr approval ''jti'' = text_val (approval_jti res) \<and> approval_jti res \<notin> set used
    \<and> in_time request ''expires_at'' now \<and> in_time approval ''expires_at'' now
    \<and> attr presentation ''challenge'' = attr e ''expected_presentation_challenge''
    \<and> attr presentation ''domain'' = attr e ''expected_presentation_domain''
    \<and> attr (link_record res) ''linked_identity'' = Inr (FObj new)
    \<and> names_within (link_record res) ''approved_domains'' request ''requested_domains''
    \<and> names_within (link_record res) ''approved_identity_contexts'' request ''requested_identity_contexts''
    \<and> names_within (link_record res) ''approved_scopes'' request ''requested_scopes''"
proof -
  obtain request approval hash issuer u credential subject presentation linked w link jti cid pid where
    a: "attr e ''request'' = Inr (FObj request)" "attr e ''approval'' = Inr (FObj approval)"
      "attr e ''issuer_identity'' = Inr (FObj issuer)" "attr e ''same_entity_credential'' = Inr (FObj credential)"
      "attr e ''presentation'' = Inr (FObj presentation)" "attr request ''new_identity'' = Inr (FObj linked)"
    and v: "validate_enrollment_request cr frepr request now = Inr hash"
      "validate_approval cr frepr approval request hash issuer e now used v = Inr u"
      "validate_credential cr frepr credential request approval issuer hash now = Inr subject"
      "validate_presentation cr frepr presentation credential linked e = Inr w"
      "completed_record request approval issuer subject now = Inr link" "str_at approval [''jti''] = Inr jti"
    and res: "Inr \<lparr>link_record = link, link_request_hash = hash, approval_jti = jti, credential_id = cid,
            presentation_id = pid\<rparr> = (Inr res :: CompletionResult res)"
    using assms(2) unfolding verify_completion_def rbind_Inr_iff obj_at1 by blast
  note o = a_obj [OF assms(1) link_tables_ok(6)]
  have ok: "instance_ok IdentityEnrollmentRequest request" "instance_ok IdentityEnrollmentApproval approval"
    "instance_ok VCPresentation presentation"
    using o [OF envelope_declares(1)] o [OF envelope_declares(2)] o [OF envelope_declares(4)] a by simp_all
  have new: "instance_ok IdentityPublicKeyDescriptor linked"
    using a_obj [OF ok(1) tables_ok(5) request_declares(1)] a(6) by simp
  have r: "link_record res = link" "link_request_hash res = hash" "approval_jti res = jti" using res by auto
  have j: "attr approval ''jti'' = text_val jti" using v(6) by (simp add: str_at1)
  note link = record_of_approval [OF v(5)]
  have w: "names_within approval b request c \<Longrightarrow> attr link b = attr approval b \<Longrightarrow> names_within link b request c" for b c
    by (simp add: names_within_def)
  show ?thesis unfolding r
    using request_accepted [OF v(1)] approval_accepted [OF v(2) ok(1,2)] credential_accepted [OF v(3)]
      presentation_accepted [OF v(4) ok(3) new] link a j w
    by auto
qed

end
