(* ===== verification/Link_Honest.thy ===== *)
theory Link_Honest
  imports Link_Safety
begin

text \<open>
  The honest run of an entity extension: what \<open>approve_enrollment\<close> and \<open>bind_and_sign\<close> make, and that
  \<open>verify_completion\<close> accepts it.
\<close>

subsection \<open>Honest keys\<close>

text \<open>A descriptor of the Ed25519 key of a private key.\<close>

definition honest_key :: "crypto \<Rightarrow> bytes \<Rightarrow> instance \<Rightarrow> string \<Rightarrow> bool" where
  "honest_key cr sk d uuid \<longleftrightarrow> instance_ok IdentityPublicKeyDescriptor d \<and> attr d ''uuid'' = text_val uuid
     \<and> attr d ''algorithm'' = text_val ''EdDSA'' \<and> attr d ''curve_type'' = text_val ''Curve25519''
     \<and> attr d ''public_key'' = Inr (FVal (VBytes (ed_public cr sk))) \<and> length (ed_public cr sk) = 32
     \<and> (\<forall>x. length (ed_sign cr sk x) = 64)"

definition key_did :: "crypto \<Rightarrow> bytes \<Rightarrow> string" where
  "key_did cr sk = ''did:key:z'' @ base58_encode ([0xED, 0x01] @ ed_public cr sk)"

lemma honest_did: "honest_key cr sk d uuid \<Longrightarrow> did_key d = Inr (key_did cr sk)"
  by (simp add: honest_key_def did_key_def str_at_def bytes_at_def PREFIXES_def key_did_def)

lemma honest_proof_type: "honest_key cr sk d uuid \<Longrightarrow> proof_type_for d = Inr (Some ''Ed25519Signature2020'')"
  by (simp add: honest_key_def proof_type_for_def str_at_def)

lemma honest_signature:
  "honest_key cr sk d uuid \<Longrightarrow> crypto_ok cr \<Longrightarrow> verify_signature cr (FVal (VBytes (ed_sign cr sk payload))) payload d = Inr True"
  by (simp add: verify_signature_True honest_key_def crypto_ok_def)

lemma honest_same_key: "honest_key cr sk d uuid \<Longrightarrow> same_key d d = Inr True"
  by (simp add: honest_key_def same_key_True)

subsection \<open>The approval\<close>

definition approval_object ::
    "string \<Rightarrow> bytes \<Rightarrow> fval \<Rightarrow> instance \<Rightarrow> fval \<Rightarrow> fval \<Rightarrow> fval \<Rightarrow> string \<Rightarrow> string \<Rightarrow> fval \<Rightarrow> fval \<Rightarrow> string \<Rightarrow> string \<Rightarrow> string
      \<Rightarrow> fval \<Rightarrow> fval \<Rightarrow> fval \<Rightarrow> instance" where
  "approval_object aid hash binding new ds cs ss uuid kind audience origin created expires j performed evidence signature =
     Instance IdentityEnrollmentApproval
       [(''version'', FVal (VInt 1)), (''approval_id'', FVal (VStr aid)), (''purpose'', FVal (VStr ''approve_link_identity'')),
        (''request_hash'', FVal (VBytes hash)), (''entity_binding'', binding), (''subject_identity'', FObj new),
        (''approved_domains'', ds), (''approved_identity_contexts'', cs), (''approved_scopes'', ss),
        (''issuer_identity_uuid'', FVal (VStr uuid)), (''issuer_type'', FVal (VStr kind)),
        (''audience'', audience), (''origin'', origin),
        (''created_at'', FVal (VStr created)), (''expires_at'', FVal (VStr expires)), (''jti'', FVal (VStr j)),
        (''fresh_auth_required'', FVal (VBool True)), (''fresh_auth_method'', FVal (VStr ''local-user-presence'')),
        (''fresh_auth_performed_at'', performed), (''fresh_auth_evidence'', evidence),
        (''proof'', FObj (Instance IdentityEnrollmentApprovalProof
           [(''type'', FVal (VStr ''signature'')), (''issuer_identity_uuid'', FVal (VStr uuid)),
            (''issuer_type'', FVal (VStr kind)), (''algorithm'', FVal (VStr ''EdDSA'')),
            (''curve_type'', FVal (VStr ''Curve25519'')), (''signature'', signature)]))]"

lemma unsigned_approval_object:
  assumes "unsigned_approval env request hash issuer now aid jti = Inr m" "honest_key cr sk issuer uuid"
    and "attr env ''fresh_auth_required'' = Inr (FVal (VBool True))" "attr env ''issuer_type'' = text_val kind"
    and "attr request ''new_identity'' = Inr (FObj new)"
  shows "\<exists>eb ds cs ss au og created expires j performed evidence q.
    m = approval_object aid hash eb new ds cs ss uuid kind au og created expires j performed evidence FNone
    \<and> attr request ''entity_binding'' = Inr eb \<and> attr request ''audience'' = Inr au \<and> attr request ''origin'' = Inr og
    \<and> if_given env ''approved_domains'' request ''requested_domains'' = Inr ds
    \<and> if_given env ''approved_identity_contexts'' request ''requested_identity_contexts'' = Inr cs
    \<and> if_given env ''approved_scopes'' request ''requested_scopes'' = Inr ss
    \<and> approval_expiry env now = Inr q \<and> iso8601 q = Inr expires \<and> auth_performed env True now = Inr performed
    \<and> attr env ''fresh_auth_evidence'' = Inr evidence"
proof -
  obtain q performed where q: "approval_expiry env now = Inr q" "auth_performed env True now = Inr performed"
    using assms(1,3) by (auto simp: unsigned_approval_def rbind_Inr_iff)
  have i: "attr issuer ''uuid'' = text_val uuid" "attr issuer ''algorithm'' = text_val ''EdDSA''"
    "attr issuer ''curve_type'' = text_val ''Curve25519''"
    using assms(2) by (simp_all add: honest_key_def)
  have p: "new_object IdentityEnrollmentApprovalProof
     [(''issuer_identity_uuid'', FVal (VStr uuid)), (''issuer_type'', FVal (VStr kind)),
      (''algorithm'', FVal (VStr ''EdDSA'')), (''curve_type'', FVal (VStr ''Curve25519''))]
     = Inr (Instance IdentityEnrollmentApprovalProof
           [(''type'', FVal (VStr ''signature'')), (''issuer_identity_uuid'', FVal (VStr uuid)),
            (''issuer_type'', FVal (VStr kind)), (''algorithm'', FVal (VStr ''EdDSA'')),
            (''curve_type'', FVal (VStr ''Curve25519'')), (''signature'', FNone)])"
    by (simp add: new_object_def IdentityEnrollmentApprovalProof_def need_def opt_def plain_value_def)
  obtain eb ds cs ss au og created expires jv evidence where r: "attr request ''entity_binding'' = Inr eb"
    "if_given env ''approved_domains'' request ''requested_domains'' = Inr ds"
    "if_given env ''approved_identity_contexts'' request ''requested_identity_contexts'' = Inr cs"
    "if_given env ''approved_scopes'' request ''requested_scopes'' = Inr ss"
    "attr request ''audience'' = Inr au" "attr request ''origin'' = Inr og" "iso8601 now = Inr created"
    "iso8601 q = Inr expires" "attr env ''jti'' = Inr jv" "attr env ''fresh_auth_evidence'' = Inr evidence"
    using assms(1,3) q by (auto simp: unsigned_approval_def rbind_Inr_iff keyword_args_def)
  have "m = approval_object aid hash eb new ds cs ss uuid kind au og created expires (first_jti jti jv aid) performed evidence FNone"
    using assms(1,3,4,5) q i p r
    by (simp add: unsigned_approval_def keyword_args_def approval_object_def)
       (simp add: new_object_def IdentityEnrollmentApproval_def need_def opt_def plain_value_def)
  with q r show ?thesis by blast
qed

text \<open>The values an approval is made of are typed.\<close>

definition approval_values :: "fval \<Rightarrow> instance \<Rightarrow> fval list \<Rightarrow> fval list \<Rightarrow> fval \<Rightarrow> fval \<Rightarrow> bool" where
  "approval_values eb new given_lists names performed evidence \<longleftrightarrow>
     (\<exists>b. eb = FObj b \<and> instance_ok EntityBindingDescriptor b) \<and> instance_ok IdentityPublicKeyDescriptor new
     \<and> list_all (\<lambda>v. \<exists>ss. v = strs_val ss) given_lists \<and> list_all (\<lambda>v. \<exists>s. v = FVal (VStr s)) names
     \<and> (performed = FNone \<or> (\<exists>s. performed = FVal (VStr s)))
     \<and> (evidence = FNone \<or> (\<exists>n. evidence = FObj n \<and> instance_ok IdentityLinkFreshAuthEvidence n))"

lemma strs_ok: "list_all is_str (map VStr ss)"
  by (induction ss) simp_all

lemma approval_object_ok:
  assumes "approval_values eb new [ds, cs, ss] [au, og] performed evidence"
    and "signature = FNone \<or> (\<exists>s. signature = FVal (VBytes s))"
  shows "instance_ok IdentityEnrollmentApproval
    (approval_object aid hash eb new ds cs ss uuid kind au og created expires j performed evidence signature)"
  using assms
  by (auto simp: approval_object_def approval_values_def strs_val_def strs_ok IdentityEnrollmentApproval_def
      IdentityEnrollmentApprovalProof_def need_def opt_def)

lemma approval_payload:
  assumes "approval_values eb new [ds, cs, ss] [au, og] performed evidence"
    and "signature = FNone \<or> (\<exists>s. signature = FVal (VBytes s))"
  shows "model_payload frepr (approval_object aid hash eb new ds cs ss uuid kind au og created expires j performed evidence signature)
    = model_payload frepr (approval_object aid hash eb new ds cs ss uuid kind au og created expires j performed evidence FNone)"
  by (rule payload_same [OF signed_types approval_object_ok [OF assms] approval_object_ok [OF assms(1)]])
    (auto simp: approval_object_def attr_def SIGNED_TYPES_def)

lemma envelope_types:
  "declares IdentityLinkApprovalEnvelope ''approved_domains'' True KStrs"
  "declares IdentityLinkApprovalEnvelope ''approved_identity_contexts'' True KStrs"
  "declares IdentityLinkApprovalEnvelope ''approved_scopes'' True KStrs"
  "declares IdentityLinkApprovalEnvelope ''fresh_auth_evidence'' True (KModel IdentityLinkFreshAuthEvidence)"
  "declares IdentityLinkApprovalEnvelope ''fresh_auth_performed_at'' True KStr"
  "declares IdentityEnrollmentRequest ''entity_binding'' True (KModel EntityBindingDescriptor)"
  "declares IdentityEnrollmentRequest ''audience'' False KStr" "declares IdentityEnrollmentRequest ''origin'' False KStr"
  by (simp_all add: declares_def IdentityLinkApprovalEnvelope_def IdentityEnrollmentRequest_def need_def opt_def)

lemma envelope_class: "class_ok IdentityLinkApprovalEnvelope"
  by (rule link_classes_ok) (simp add: link_classes_def)

lemma given_strs:
  assumes "instance_ok IdentityLinkApprovalEnvelope env" "declares IdentityLinkApprovalEnvelope a True KStrs"
    and "instance_ok IdentityEnrollmentRequest request" "declares IdentityEnrollmentRequest b False KStrs"
    and "if_given env a request b = Inr v"
  shows "\<exists>ss. v = strs_val ss"
proof -
  obtain u where u: "attr env a = Inr u" "if u = FNone then True else fval_ok KStrs u"
    using declared [OF assms(1) envelope_class assms(2)] by blast
  show ?thesis
  proof (cases "u = FNone")
    case True
    then show ?thesis using assms(5) u a_strs [OF assms(3) tables_ok(5) assms(4)] by (auto simp: if_given_def)
  next
    case False
    then have "fval_ok KStrs u" "v = u" using u assms(5) by (auto simp: if_given_def)
    then show ?thesis by (auto simp: strs_val_def dest: strs_of split: fval.splits pyval.splits)
  qed
qed

lemma approval_typed:
  assumes env: "instance_ok IdentityLinkApprovalEnvelope env" and req: "instance_ok IdentityEnrollmentRequest request"
    and "attr request ''entity_binding'' = Inr eb" "eb \<noteq> FNone" "attr request ''new_identity'' = Inr (FObj new)"
    and "if_given env ''approved_domains'' request ''requested_domains'' = Inr ds"
    and "if_given env ''approved_identity_contexts'' request ''requested_identity_contexts'' = Inr cs"
    and "if_given env ''approved_scopes'' request ''requested_scopes'' = Inr ss"
    and "attr request ''audience'' = Inr au" "attr request ''origin'' = Inr og"
    and "auth_performed env True now = Inr performed" "attr env ''fresh_auth_evidence'' = Inr evidence"
  shows "approval_values eb new [ds, cs, ss] [au, og] performed evidence"
proof -
  note o = declared [OF env envelope_class] and r = declared [OF req tables_ok(5)]
  have eb: "\<exists>b. eb = FObj b \<and> instance_ok EntityBindingDescriptor b"
    using r [OF envelope_types(6)] assms(3,4) by (auto split: fval.splits)
  have new: "instance_ok IdentityPublicKeyDescriptor new"
    using a_obj [OF req tables_ok(5) request_declares(1)] assms(5) by simp
  have names: "\<exists>s. au = FVal (VStr s)" "\<exists>s. og = FVal (VStr s)"
    using a_str [OF req tables_ok(5) envelope_types(7)] a_str [OF req tables_ok(5) envelope_types(8)] assms(9,10) by auto
  have evidence: "evidence = FNone \<or> (\<exists>n. evidence = FObj n \<and> instance_ok IdentityLinkFreshAuthEvidence n)"
    using o [OF envelope_types(4)] assms(12) by (auto split: fval.splits if_splits)
  have performed: "\<exists>s. performed = FVal (VStr s)"
    using assms(11) by (auto simp: auth_performed_def rbind_Inr_iff str_at1 split: if_splits)
  note g = given_strs [OF env _ req]
  show ?thesis unfolding approval_values_def
    using eb new names evidence performed g [OF envelope_types(1) request_declares(2) assms(6)]
      g [OF envelope_types(2) request_declares(3) assms(7)] g [OF envelope_types(3) request_declares(4) assms(8)]
    by simp
qed

subsection \<open>The credential\<close>

definition vc_proof :: "string \<Rightarrow> string \<Rightarrow> string \<Rightarrow> bytes \<Rightarrow> instance" where
  "vc_proof date purpose uuid signature = Instance VCProof
     [(''type'', FVal (VStr ''Ed25519Signature2020'')), (''created'', FVal (VStr date)),
      (''proof_purpose'', FVal (VStr purpose)), (''verification_method'', FVal (VStr uuid)),
      (''signature_data'', FVal (VBytes signature))]"

lemma new_vc_proof: "new_vc_proof ''Ed25519Signature2020'' date purpose uuid = Inr (vc_proof date purpose uuid [])"
  by (simp add: new_vc_proof_def new_object_def VCProof_def need_def vc_proof_def plain_value_def)

definition claim_object :: "string \<Rightarrow> string \<Rightarrow> string \<Rightarrow> string \<Rightarrow> pyval dict \<Rightarrow> string \<Rightarrow> bytes \<Rightarrow> instance" where
  "claim_object cid kind did date body uuid signature = Instance VCClaim
     [(''context'', strs_val VC_CONTEXT), (''id'', FVal (VStr cid)), (''type'', strs_val [''VerifiableCredential'', kind]),
      (''issuer'', FVal (VStr did)), (''issuance_date'', FVal (VStr date)),
      (''credential_subject'', FVal (VDict body)), (''proof'', FObj (vc_proof date ''assertionMethod'' uuid signature))]"

lemma claim_attrs:
  "attr (claim_object cid kind did date body uuid s) ''id'' = text_val cid"
  "attr (claim_object cid kind did date body uuid s) ''type'' = Inr (strs_val [''VerifiableCredential'', kind])"
  "attr (claim_object cid kind did date body uuid s) ''issuer'' = text_val did"
  "attr (claim_object cid kind did date body uuid s) ''credential_subject'' = Inr (FVal (VDict body))"
  "attr (claim_object cid kind did date body uuid s) ''proof'' = Inr (FObj (vc_proof date ''assertionMethod'' uuid s))"
  "attr (vc_proof date purpose uuid s) ''type'' = text_val ''Ed25519Signature2020''"
  "attr (vc_proof date purpose uuid s) ''proof_purpose'' = text_val purpose"
  "attr (vc_proof date purpose uuid s) ''verification_method'' = text_val uuid"
  "attr (vc_proof date purpose uuid s) ''signature_data'' = Inr (FVal (VBytes s))"
  by (simp_all add: attr_def claim_object_def vc_proof_def)

lemma vc_proof_wire: "\<exists>d. to_wire (vc_proof date purpose uuid s) = Inr d"
  by (simp add: vc_proof_def VCProof_def need_def)

lemma claim_bytes_signature:
  "claim_bytes frepr (claim_object cid kind did date body uuid s) = claim_bytes frepr (claim_object cid kind did date body uuid [])"
proof -
  obtain d e where "to_wire (vc_proof date ''assertionMethod'' uuid s) = Inr d" "to_wire (vc_proof date ''assertionMethod'' uuid []) = Inr e"
    using vc_proof_wire by blast
  then show ?thesis
    by (simp add: claim_bytes_def claim_object_def VCClaim_def need_def opt_def strs_val_def)
qed

lemma issued_claim:
  assumes "issue frepr kind issuer subject body signer claim_uuid now = Inr claim"
    and "honest_key cr ski issuer uuid" "honest_key cr skn subject owner"
  shows "\<exists>date payload. claim_bytes frepr (claim_object (identity_url owner claim_uuid) kind (key_did cr ski) date
        (dset body ''id'' (VStr (key_did cr skn))) uuid []) = Inr payload
    \<and> claim = claim_object (identity_url owner claim_uuid) kind (key_did cr ski) date
        (dset body ''id'' (VStr (key_did cr skn))) uuid (signer payload)"
proof -
  have u: "str_at issuer [''uuid''] = Inr uuid" "str_at subject [''uuid''] = Inr owner"
    using assms(2,3) by (simp_all add: str_at1 honest_key_def)
  obtain date where date: "iso8601 now = Inr date"
    using assms(1) by (auto simp: issue_def rbind_Inr_iff split: option.splits)
  let ?c = "claim_object (identity_url owner claim_uuid) kind (key_did cr ski) date (dset body ''id'' (VStr (key_did cr skn))) uuid"
  have n: "new_object VCClaim
     [(''context'', strs_val VC_CONTEXT), (''id'', FVal (VStr (identity_url owner claim_uuid))),
      (''type'', strs_val [''VerifiableCredential'', kind]), (''issuer'', FVal (VStr (key_did cr ski))),
      (''issuance_date'', FVal (VStr date)),
      (''credential_subject'', FVal (VDict (dset body ''id'' (VStr (key_did cr skn))))),
      (''proof'', FObj (vc_proof date ''assertionMethod'' uuid []))] = Inr (?c [])"
    by (simp add: new_object_def claim_object_def VCClaim_def need_def opt_def)
  have s: "signed_vc sig (vc_proof date ''assertionMethod'' uuid []) (?c []) = ?c sig" for sig
    by (simp add: signed_vc_def claim_object_def replace_attr_def vc_proof_def)
  show ?thesis
    using assms(1) unfolding issue_def honest_proof_type [OF assms(2)] honest_did [OF assms(2)] honest_did [OF assms(3)] u date
    by (auto simp: new_vc_proof n rbind_Inr_iff s)
qed

lemma claim_verifies:
  assumes "honest_key cr sk issuer uuid" "crypto_ok cr"
    and "claim_bytes frepr (claim_object cid kind (key_did cr sk) date body uuid []) = Inr payload"
  shows "claim_verify cr frepr (claim_object cid kind (key_did cr sk) date body uuid (ed_sign cr sk payload)) issuer = Inr True"
proof -
  have "claim_bytes frepr (claim_object cid kind (key_did cr sk) date body uuid (ed_sign cr sk payload)) = Inr payload"
    by (rule trans [OF claim_bytes_signature assms(3)])
  moreover have "length (ed_sign cr sk payload) = 64" "attr issuer ''uuid'' = text_val uuid"
    using assms(1) by (simp_all add: honest_key_def)
  moreover from this have "ed_sign cr sk payload \<noteq> []" by auto
  moreover note honest_signature [OF assms(1,2), of payload] honest_did [OF assms(1)] honest_proof_type [OF assms(1)]
  ultimately show ?thesis
    by (simp add: claim_verify_def with_did_def all_of_True path.simps claim_attrs same_str bytes_at_def)
qed

subsection \<open>The subject of the credential\<close>

definition subject_object ::
    "string \<Rightarrow> fval \<Rightarrow> instance \<Rightarrow> fval \<Rightarrow> fval \<Rightarrow> fval \<Rightarrow> bytes \<Rightarrow> string \<Rightarrow> fval \<Rightarrow> instance" where
  "subject_object did binding new ds cs ss hash expires reference = Instance SameEntityIdentityLinkCredentialSubject
     [(''id'', FVal (VStr did)), (''link_type'', FVal (VStr ''same_entity'')), (''entity_binding'', binding),
      (''linked_identity'', FObj new), (''approved_domains'', ds), (''approved_identity_contexts'', cs),
      (''approved_scopes'', ss), (''enrollment_request_hash'', FVal (VBytes hash)),
      (''assurance_source'', FVal (VStr ''fresh_auth_and_possession'')), (''assurance_level'', FVal (VStr ''high'')),
      (''valid_until'', FVal (VStr expires)), (''revocation_reference'', reference)]"

lemma subject_ok:
  assumes "approval_values eb new [ds, cs, ss] names performed evidence" "reference = FNone \<or> (\<exists>s. reference = FVal (VStr s))"
  shows "instance_ok SameEntityIdentityLinkCredentialSubject (subject_object did eb new ds cs ss hash expires reference)"
  using assms
  by (auto simp: subject_object_def approval_values_def strs_val_def strs_ok SameEntityIdentityLinkCredentialSubject_def
      need_def opt_def)

lemma dset_present: "dget d k = Some v \<Longrightarrow> dset d k v = d"
  by (induction d) (auto split: if_splits)

lemma from_wire_fields: "from_wire c (VDict d) = Inr m \<Longrightarrow> read_specs (class_specs c) d = Inr (inst_fields m)"
  by (cases c) (auto simp: rbind_Inr_iff)

lemma subject_reads_back:
  assumes "approval_values eb new [ds, cs, ss] names performed evidence" "reference = FNone \<or> (\<exists>s. reference = FVal (VStr s))"
    and "to_wire (subject_object did eb new ds cs ss hash expires reference) = Inr body"
  shows "read_subject (FVal (VDict (dset body ''id'' (VStr did)))) = Inr (subject_object did eb new ds cs ss hash expires reference)"
proof -
  let ?s = "subject_object did eb new ds cs ss hash expires reference"
  have f: "from_wire SameEntityIdentityLinkCredentialSubject (VDict body) = Inr ?s"
    using wire_round_trip_lemma(1) [OF link_tables_ok(4) subject_ok [OF assms(1,2), of did hash expires]] assms(3) by auto
  have "read_specs (class_specs SameEntityIdentityLinkCredentialSubject) body = Inr (inst_fields ?s)"
    by (rule from_wire_fields [OF f])
  then have "(if getn body ''id'' = VNull then absent_field (Spec ''id'' ''id'' KStr False None False)
      else decode_field KStr (getn body ''id'')) = Inr (FVal (VStr did))"
    unfolding SameEntityIdentityLinkCredentialSubject_def subject_object_def need_def
    by (simp only: model_class.sel instance.sel read_specs.simps rbind_Inr_iff) auto
  then have "getn body ''id'' = VStr did"
    by (simp add: absent_field_def split: if_splits)
  then have "dget body ''id'' = Some (VStr did)" by (auto simp: getn_def split: option.splits)
  from dset_present [OF this] f show ?thesis by (simp add: read_subject_def)
qed

lemma credential_subject_object:
  assumes "credential_subject_of env request hash approval q = Inr subject" "iso8601 q = Inr expires"
    and "honest_key cr sk new uuid" "attr request ''new_identity'' = Inr (FObj new)"
    and "approval = approval_object aid hash eb new ds cs ss iu kind au og created expires j performed evidence signature"
  shows "\<exists>reference. attr env ''revocation_reference'' = Inr reference
    \<and> subject = subject_object (key_did cr sk) eb new ds cs ss hash expires reference"
proof -
  obtain reference where r: "attr env ''revocation_reference'' = Inr reference"
    using assms(1) by (auto simp: credential_subject_of_def rbind_Inr_iff keyword_args_def)
  have a: "attr approval ''fresh_auth_required'' = Inr (FVal (VBool True))" "attr approval ''entity_binding'' = Inr eb"
    "attr approval ''approved_domains'' = Inr ds" "attr approval ''approved_identity_contexts'' = Inr cs"
    "attr approval ''approved_scopes'' = Inr ss"
    by (simp_all add: assms(5) approval_object_def attr_def)
  have o: "obj_at request [''new_identity''] = Inr new" using assms(4) by (simp add: obj_at1)
  have "subject = subject_object (key_did cr sk) eb new ds cs ss hash expires reference"
    using assms(1,2,4) r a o honest_did [OF assms(3)]
    by (simp add: credential_subject_of_def keyword_args_def subject_object_def)
       (simp add: new_object_def SameEntityIdentityLinkCredentialSubject_def need_def opt_def plain_value_def)
  with r show ?thesis by blast
qed

subsection \<open>The presentation\<close>

definition presentation_object ::
    "string \<Rightarrow> string \<Rightarrow> string \<Rightarrow> bytes \<Rightarrow> string \<Rightarrow> instance \<Rightarrow> instance list \<Rightarrow> string \<Rightarrow> string \<Rightarrow> bytes \<Rightarrow> instance" where
  "presentation_object pid kind did challenge d holder credentials date uuid signature = Instance VCPresentation
     [(''context'', strs_val VC_CONTEXT), (''id'', FVal (VStr pid)), (''type'', strs_val [''VerifiableCredential'', kind]),
      (''holder'', FVal (VStr did)), (''challenge'', FVal (VBytes challenge)), (''domain'', FVal (VStr d)),
      (''holder_binding'', FObj holder), (''verifiable_credential'', FObjs credentials),
      (''proof'', FObj (vc_proof date ''authentication'' uuid signature))]"

lemma presentation_attrs:
  "attr (presentation_object pid kind did challenge d holder credentials date uuid s) ''id'' = text_val pid"
  "attr (presentation_object pid kind did challenge d holder credentials date uuid s) ''type'' = Inr (strs_val [''VerifiableCredential'', kind])"
  "attr (presentation_object pid kind did challenge d holder credentials date uuid s) ''holder'' = text_val did"
  "attr (presentation_object pid kind did challenge d holder credentials date uuid s) ''challenge'' = Inr (FVal (VBytes challenge))"
  "attr (presentation_object pid kind did challenge d holder credentials date uuid s) ''domain'' = text_val d"
  "attr (presentation_object pid kind did challenge d holder credentials date uuid s) ''holder_binding'' = Inr (FObj holder)"
  "attr (presentation_object pid kind did challenge d holder credentials date uuid s) ''verifiable_credential'' = Inr (FObjs credentials)"
  "attr (presentation_object pid kind did challenge d holder credentials date uuid s) ''proof''
     = Inr (FObj (vc_proof date ''authentication'' uuid s))"
  by (simp_all add: attr_def presentation_object_def)

lemma presentation_bytes_signature:
  "presentation_bytes frepr (presentation_object pid kind did challenge d holder credentials date uuid s)
     = presentation_bytes frepr (presentation_object pid kind did challenge d holder credentials date uuid [])"
proof -
  obtain u w where p: "to_wire (vc_proof date ''authentication'' uuid s) = Inr u" "to_wire (vc_proof date ''authentication'' uuid []) = Inr w"
    using vc_proof_wire by blast
  show ?thesis
    by (cases "to_wire holder"; cases "rmap (\<lambda>m. rbind (to_wire m) (\<lambda>w. Inr (VDict w))) credentials")
      (simp_all add: presentation_bytes_def presentation_wire_def presentation_object_def VCPresentation_def need_def
        opt_def strs_val_def p)
qed

lemma bound_presentation:
  assumes "bind_and_sign frepr credentials holder signer challenge d puuid at_time kind = Inr m"
    and "honest_key cr sk holder uuid"
  shows "\<exists>date payload. presentation_bytes frepr (presentation_object (identity_url uuid puuid) kind (key_did cr sk) challenge d
        holder credentials date uuid []) = Inr payload
    \<and> m = presentation_object (identity_url uuid puuid) kind (key_did cr sk) challenge d holder credentials date uuid (signer payload)"
proof -
  have u: "str_at holder [''uuid''] = Inr uuid" using assms(2) by (simp add: str_at1 honest_key_def)
  obtain date where date: "iso8601 at_time = Inr date"
    using assms(1) by (auto simp: bind_and_sign_def rbind_Inr_iff split: option.splits)
  let ?c = "presentation_object (identity_url uuid puuid) kind (key_did cr sk) challenge d holder credentials date uuid"
  have n: "new_object VCPresentation
     [(''context'', strs_val VC_CONTEXT), (''id'', FVal (VStr (identity_url uuid puuid))),
      (''type'', strs_val [''VerifiableCredential'', kind]), (''holder'', FVal (VStr (key_did cr sk))),
      (''challenge'', FVal (VBytes challenge)), (''domain'', FVal (VStr d)),
      (''holder_binding'', FObj holder), (''verifiable_credential'', FObjs credentials),
      (''proof'', FObj (vc_proof date ''authentication'' uuid []))] = Inr (?c [])"
    by (simp add: new_object_def presentation_object_def VCPresentation_def need_def opt_def)
  have s: "signed_vc sig (vc_proof date ''authentication'' uuid []) (?c []) = ?c sig" for sig
    by (simp add: signed_vc_def presentation_object_def replace_attr_def vc_proof_def)
  show ?thesis
    using assms(1) unfolding bind_and_sign_def honest_proof_type [OF assms(2)] honest_did [OF assms(2)] u date
    by (auto simp: new_vc_proof n rbind_Inr_iff s)
qed

lemma holder_proof_verifies:
  assumes "honest_key cr sk holder uuid" "crypto_ok cr"
    and "presentation_bytes frepr (presentation_object pid kind (key_did cr sk) challenge d holder credentials date uuid []) = Inr payload"
  shows "verify_holder_proof cr frepr (presentation_object pid kind (key_did cr sk) challenge d holder credentials date uuid
    (ed_sign cr sk payload)) challenge d = Inr True"
proof -
  have "presentation_bytes frepr (presentation_object pid kind (key_did cr sk) challenge d holder credentials date uuid
      (ed_sign cr sk payload)) = Inr payload"
    by (rule trans [OF presentation_bytes_signature assms(3)])
  moreover have "length (ed_sign cr sk payload) = 64" "attr holder ''uuid'' = text_val uuid"
    using assms(1) by (simp_all add: honest_key_def)
  moreover from this have "ed_sign cr sk payload \<noteq> []" by auto
  moreover note honest_signature [OF assms(1,2), of payload] honest_did [OF assms(1)] honest_proof_type [OF assms(1)]
  ultimately show ?thesis
    by (simp add: verify_holder_proof_def with_did_def all_of_True path.simps claim_attrs presentation_attrs same_def
        bytes_at_def obj_at_def negate_def any_of.simps either_def)
qed

subsection \<open>What the approver hands back\<close>

lemma approved_package:
  assumes "approve_enrollment cr frepr env issuer (ed_sign cr ski) now aid cuuid jti = Inr pkg"
    and "instance_ok IdentityLinkApprovalEnvelope env" "instance_ok IdentityEnrollmentRequest request"
    and "honest_key cr ski issuer iu" "honest_key cr skn new nu"
    and "attr env ''request'' = Inr (FObj request)" "attr env ''fresh_auth_required'' = Inr (FVal (VBool True))"
    and "attr env ''issuer_type'' = text_val kind" "attr request ''new_identity'' = Inr (FObj new)"
  shows "\<exists>hash payload eb ds cs ss au og created expires j performed evidence reference body cid date claim_payload.
    validate_enrollment_request cr frepr request now = Inr hash
    \<and> approval_values eb new [ds, cs, ss] [au, og] performed evidence
    \<and> attr request ''entity_binding'' = Inr eb \<and> attr request ''audience'' = Inr au \<and> attr request ''origin'' = Inr og
    \<and> performed \<noteq> FNone \<and> (reference = FNone \<or> (\<exists>s. reference = FVal (VStr s)))
    \<and> model_payload frepr (approval_object aid hash eb new ds cs ss iu kind au og created expires j performed evidence FNone) = Inr payload
    \<and> attr pkg ''approval'' = Inr (FObj (approval_object aid hash eb new ds cs ss iu kind au og created expires j performed evidence
        (FVal (VBytes (ed_sign cr ski payload)))))
    \<and> to_wire (subject_object (key_did cr skn) eb new ds cs ss hash expires reference) = Inr body
    \<and> claim_bytes frepr (claim_object cid CREDENTIAL_TYPE (key_did cr ski) date (dset body ''id'' (VStr (key_did cr skn))) iu [])
        = Inr claim_payload
    \<and> attr pkg ''same_entity_credential'' = Inr (FObj (claim_object cid CREDENTIAL_TYPE (key_did cr ski) date
        (dset body ''id'' (VStr (key_did cr skn))) iu (ed_sign cr ski claim_payload)))"
proof -
  obtain hash u unsigned payload p q subject body credential where
    v: "validate_enrollment_request cr frepr request now = Inr hash" "fails (negate (has (attr request ''entity_binding''))) ''missingEntityBinding'' = Inr u"
      "unsigned_approval env request hash issuer now aid jti = Inr unsigned" "model_payload frepr unsigned = Inr payload"
      "attr unsigned ''proof'' = Inr (FObj p)" "approval_expiry env now = Inr q"
    and s: "credential_subject_of env request hash (replace_attr ''proof'' (FObj (replace_attr ''signature'' (FVal (VBytes (ed_sign cr ski payload))) p)) unsigned) q = Inr subject"
      "to_wire subject = Inr body" "issue frepr CREDENTIAL_TYPE issuer new body (ed_sign cr ski) cuuid now = Inr credential"
    and k: "new_object IdentityLinkApprovalPackage [(''approval'', FObj (replace_attr ''proof'' (FObj (replace_attr ''signature'' (FVal (VBytes (ed_sign cr ski payload))) p)) unsigned)),
       (''same_entity_credential'', FObj credential), (''issuer_identity'', FObj issuer)] = Inr pkg"
    using assms(1,6,9) unfolding approve_enrollment_def Let_def rbind_Inr_iff obj_at1 by (auto simp: obj_at1)
  obtain eb ds cs ss au og created expires j performed evidence q' where
    m: "unsigned = approval_object aid hash eb new ds cs ss iu kind au og created expires j performed evidence FNone"
    and r: "attr request ''entity_binding'' = Inr eb" "attr request ''audience'' = Inr au" "attr request ''origin'' = Inr og"
      "if_given env ''approved_domains'' request ''requested_domains'' = Inr ds"
      "if_given env ''approved_identity_contexts'' request ''requested_identity_contexts'' = Inr cs"
      "if_given env ''approved_scopes'' request ''requested_scopes'' = Inr ss"
      "approval_expiry env now = Inr q'" "iso8601 q' = Inr expires" "auth_performed env True now = Inr performed"
      "attr env ''fresh_auth_evidence'' = Inr evidence"
    using unsigned_approval_object [OF v(3) assms(4,7-9)] by blast
  have eb: "eb \<noteq> FNone" using v(2) r(1) by (simp add: fails_Inr negate_False has_def)
  note typed = approval_typed [OF assms(2,3) r(1) eb assms(9) r(4-6,2,3,9,10)]
  have performed: "performed \<noteq> FNone"
    using r(9) by (auto simp: auth_performed_def rbind_Inr_iff split: if_splits)
  let ?a = "approval_object aid hash eb new ds cs ss iu kind au og created expires j performed evidence (FVal (VBytes (ed_sign cr ski payload)))"
  have a: "replace_attr ''proof'' (FObj (replace_attr ''signature'' (FVal (VBytes (ed_sign cr ski payload))) p)) unsigned = ?a"
    using v(5) unfolding m by (auto simp: approval_object_def replace_attr_def attr_def)
  have q: "q' = q" using r(7) v(6) by simp
  obtain reference where ref: "attr env ''revocation_reference'' = Inr reference"
    "subject = subject_object (key_did cr skn) eb new ds cs ss hash expires reference"
    using credential_subject_object [OF s(1) _ assms(5,9) a] r(8) unfolding q by blast
  have "declares IdentityLinkApprovalEnvelope ''revocation_reference'' True KStr"
    by (simp add: declares_def IdentityLinkApprovalEnvelope_def need_def opt_def)
  from declared [OF assms(2) envelope_class this] have reference: "reference = FNone \<or> (\<exists>s. reference = FVal (VStr s))"
    using ref(1) by (auto split: if_splits fval.splits elim: is_str.elims)
  obtain date claim_payload where c: "claim_bytes frepr (claim_object (identity_url nu cuuid) CREDENTIAL_TYPE (key_did cr ski) date
      (dset body ''id'' (VStr (key_did cr skn))) iu []) = Inr claim_payload"
    "credential = claim_object (identity_url nu cuuid) CREDENTIAL_TYPE (key_did cr ski) date
      (dset body ''id'' (VStr (key_did cr skn))) iu (ed_sign cr ski claim_payload)"
    using issued_claim [OF s(3) assms(4,5)] by blast
  have "attr pkg ''approval'' = Inr (FObj ?a)" "attr pkg ''same_entity_credential'' = Inr (FObj credential)"
    using new_object_at [OF k, of "''approval''"] new_object_at [OF k, of "''same_entity_credential''"] a by simp_all
  with v(1) typed r(1-3) performed reference v(4) s(2) c show ?thesis unfolding m ref(2) by blast
qed

subsection \<open>The checks pass\<close>

lemma same_strs: "same (Inr (strs_val ss)) (Inr (strs_val ss)) = Inr True"
  by (simp add: same_def strs_val_def feq.simps) (induction ss; simp)

lemma fields_eq_refl:
  "distinct (dkeys fs) \<Longrightarrow> (\<And>a v. (a, v) \<in> set fs \<Longrightarrow> feq v v) \<Longrightarrow> fields_eq fs fs"
proof -
  assume d: "distinct (dkeys fs)" and r: "\<And>a v. (a, v) \<in> set fs \<Longrightarrow> feq v v"
  have get: "(a, v) \<in> set fs \<Longrightarrow> dget fs a = Some v" for a v
    using d by (induction fs) (auto simp: rev_image_eqI)
  have "set gs \<subseteq> set fs \<Longrightarrow> fields_eq gs fs" for gs
  proof (induction gs)
    case (Cons g gs)
    obtain a v where g: "g = (a, v)" by (cases g)
    with Cons.prems have "dget fs a = Some v" "feq v v" using get r by auto
    with Cons g show ?case by (simp add: fields_eq.simps)
  qed (simp add: fields_eq.simps)
  then show ?thesis by simp
qed

lemma field_values:
  "fields_ok sps fs \<Longrightarrow> (a, v) \<in> set fs \<Longrightarrow> v = FNone \<or> (\<exists>sp \<in> set sps. fval_ok (sp_kind sp) v)"
proof (induction sps arbitrary: fs)
  case (Cons sp sps)
  then show ?case by (cases sp; cases fs) (auto split: if_splits prod.splits)
qed simp

lemma instance_fields: "instance_ok c (Instance c' fs) \<Longrightarrow> fields_ok (class_specs c) fs"
  by (cases c) simp

lemma same_binding:
  assumes "instance_ok EntityBindingDescriptor b"
  shows "same (Inr (FObj b)) (Inr (FObj b)) = Inr True"
proof -
  obtain c fs where b: "b = Instance c fs" by (cases b)
  have ok: "fields_ok (class_specs EntityBindingDescriptor) fs"
    by (rule instance_fields [OF assms [unfolded b]])
  have "distinct (dkeys fs)"
    using fields_names [OF ok] by (simp add: EntityBindingDescriptor_def need_def opt_def)
  moreover have "feq v v" if "(a, v) \<in> set fs" for a v
  proof -
    have k: "sp \<in> set (class_specs EntityBindingDescriptor) \<Longrightarrow> sp_kind sp = KStr" for sp
      by (auto simp: EntityBindingDescriptor_def need_def opt_def)
    then have "v = FNone \<or> fval_ok KStr v" using field_values [OF ok that] by auto
    then show ?thesis by (auto simp: feq.simps elim: is_str.elims split: fval.splits)
  qed
  ultimately have "fields_eq fs fs" by (rule fields_eq_refl)
  then show ?thesis unfolding b by (simp add: same_def feq.simps inst_eq.simps)
qed

lemma in_time_passes: "in_time m a now \<Longrightarrow> rbind (str_at m [a]) (\<lambda>e. ensure_not_expired e now) = Inr ()"
  by (auto simp: in_time_def str_at_def ensure_not_expired_def)

lemma subset_passes: "names_within m a n b \<Longrightarrow> subset_at m a n b = Inr ()"
  by (auto simp: names_within_def subset_at_def strs_at_val ensure_subset_def filter_empty_conv)

lemma approval_attrs:
  assumes "m = approval_object aid hash eb new ds cs ss uuid kind au og created expires j performed evidence s"
  shows "attr m ''purpose'' = text_val ''approve_link_identity''"
  "attr m ''approval_id'' = text_val aid"
  "attr m ''request_hash'' = Inr (FVal (VBytes hash))"
  "attr m ''subject_identity'' = Inr (FObj new)"
  "attr m ''entity_binding'' = Inr eb"
  "attr m ''audience'' = Inr au"
  "attr m ''origin'' = Inr og"
  "attr m ''jti'' = text_val j"
  "attr m ''issuer_type'' = text_val kind"
  "attr m ''issuer_identity_uuid'' = text_val uuid"
  "attr m ''fresh_auth_required'' = Inr (FVal (VBool True))"
  "attr m ''fresh_auth_performed_at'' = Inr performed"
  "attr m ''expires_at'' = text_val expires"
  "attr m ''approved_domains'' = Inr ds"
  "attr m ''approved_identity_contexts'' = Inr cs"
  "attr m ''approved_scopes'' = Inr ss"
  "\<exists>p. attr m ''proof'' = Inr (FObj p)
    \<and> attr p ''issuer_identity_uuid'' = text_val uuid \<and> attr p ''issuer_type'' = text_val kind
    \<and> attr p ''algorithm'' = text_val ''EdDSA'' \<and> attr p ''curve_type'' = text_val ''Curve25519'' \<and> attr p ''signature'' = Inr s"
  by (simp_all add: assms approval_object_def attr_def)

lemma approval_passes:
  assumes m: "m = approval_object aid hash eb new ds cs ss iu kind au og created expires j performed evidence
      (FVal (VBytes (ed_sign cr ski payload)))"
    and "model_payload frepr (approval_object aid hash eb new ds cs ss iu kind au og created expires j performed evidence FNone) = Inr payload"
    and vals: "approval_values eb new [ds, cs, ss] [au, og] performed evidence" and "performed \<noteq> FNone"
    and issuer: "honest_key cr ski issuer iu" and new: "honest_key cr skn new nu" and cr: "crypto_ok cr"
    and r: "attr request ''new_identity'' = Inr (FObj new)" "attr request ''entity_binding'' = Inr eb"
      "attr request ''audience'' = Inr au" "attr request ''origin'' = Inr og"
    and e: "attr e ''expected_audience'' = Inr au" "attr e ''expected_origin'' = Inr og"
      "attr e ''require_fresh_auth_evidence'' = Inr FNone"
    and "py_strip j \<noteq> []" "j \<notin> set used" "kind \<in> set ISSUER_TYPES" "iu \<noteq> nu" "in_time m ''expires_at'' later"
    and "names_within m ''approved_domains'' request ''requested_domains''"
      "names_within m ''approved_identity_contexts'' request ''requested_identity_contexts''"
      "names_within m ''approved_scopes'' request ''requested_scopes''"
  shows "validate_approval cr frepr m request hash issuer e later used v = Inr ()"
proof -
  note a = approval_attrs [OF m]
  obtain p where p: "attr m ''proof'' = Inr (FObj p)" "attr p ''issuer_identity_uuid'' = text_val iu"
      "attr p ''issuer_type'' = text_val kind" "attr p ''algorithm'' = text_val ''EdDSA''"
      "attr p ''curve_type'' = text_val ''Curve25519''" "attr p ''signature'' = Inr (FVal (VBytes (ed_sign cr ski payload)))"
    using a(17) by blast
  have i: "attr issuer ''uuid'' = text_val iu" "attr issuer ''algorithm'' = text_val ''EdDSA''"
    "attr issuer ''curve_type'' = text_val ''Curve25519''" and n: "attr new ''uuid'' = text_val nu"
    and "length (ed_sign cr ski payload) = 64"
    using issuer new by (simp_all add: honest_key_def)
  then have s: "ed_sign cr ski payload \<noteq> []" by auto
  have pay: "model_payload frepr m = Inr payload"
    unfolding m by (rule trans [OF approval_payload [OF vals] assms(2)]) simp
  have ver: "proof_verifies cr frepr m (Inr issuer) = Inr True"
    using honest_signature [OF issuer cr, of payload] pay p by (simp add: proof_verifies_def path.simps)
  have keys: "same_key issuer new = Inr False"
    using i(1) n \<open>iu \<noteq> nu\<close> by (simp add: same_key_def both_def same_def)
  obtain b where b: "eb = FObj b" "instance_ok EntityBindingDescriptor b" using vals by (auto simp: approval_values_def)
  obtain t o' where t: "au = FVal (VStr t)" "og = FVal (VStr o')" using vals by (auto simp: approval_values_def)
  have performed: "has (Inr performed) = Inr True" using \<open>performed \<noteq> FNone\<close> by (simp add: has_def)
  have lacks: "lacks_signature m = Inr False" using p s by (simp add: lacks_signature_def path.simps)
  have sub: "subset_at m ''approved_domains'' request ''requested_domains'' = Inr ()"
    "subset_at m ''approved_identity_contexts'' request ''requested_identity_contexts'' = Inr ()"
    "subset_at m ''approved_scopes'' request ''requested_scopes'' = Inr ()"
    by (rule assms(20-22) [THEN subset_passes])+
  have ens: "ensure_not_expired expires later = Inr ()"
    using assms(19) a(13) by (auto simp: in_time_def ensure_not_expired_def)
  have vals_same: "same (text_val iu) (text_val nu) = Inr False" "same (Inr (FVal (VBool True))) (Inr (FVal (VBool True))) = Inr True"
    using \<open>iu \<noteq> nu\<close> by (simp_all add: same_def feq.simps)
  have obj: "obj_at request [''new_identity''] = Inr new" "obj_at m [''subject_identity''] = Inr new"
    by (simp_all add: obj_at1 r a)
  note rules = fails_Inr negate_False either_False any_of_False same_str same_bytes path.simps is_blank_def str_at_def
  show ?thesis
    unfolding validate_approval_def approval_checks_def checks_Inr list.set ball_simps
    using assms(15-18)
    by (intro conjI TrueI)
      (simp_all add: rules a p i n keys performed lacks ver honest_same_key [OF new] same_binding [OF b(2)] b(1) t r e sub
        ens vals_same obj check_evidence_def)
qed

lemma credential_passes:
  assumes m: "m = approval_object aid hash eb new ds cs ss iu kind au og created expires j performed evidence s"
    and c: "c = claim_object cid CREDENTIAL_TYPE (key_did cr ski) date (dset body ''id'' (VStr (key_did cr skn))) iu
      (ed_sign cr ski payload)"
    and "claim_bytes frepr (claim_object cid CREDENTIAL_TYPE (key_did cr ski) date (dset body ''id'' (VStr (key_did cr skn))) iu [])
      = Inr payload"
    and body: "to_wire (subject_object (key_did cr skn) eb new ds cs ss hash expires reference) = Inr body"
    and vals: "approval_values eb new [ds, cs, ss] names performed evidence" "reference = FNone \<or> (\<exists>s. reference = FVal (VStr s))"
    and issuer: "honest_key cr ski issuer iu" and new: "honest_key cr skn new nu" and cr: "crypto_ok cr"
    and r: "attr request ''new_identity'' = Inr (FObj new)" and t: "in_time m ''expires_at'' later"
  shows "validate_credential cr frepr c request m issuer hash later
    = Inr (subject_object (key_did cr skn) eb new ds cs ss hash expires reference)"
proof -
  let ?s = "subject_object (key_did cr skn) eb new ds cs ss hash expires reference"
  note a = approval_attrs [OF m] and ca = claim_attrs
  have sa: "attr ?s ''link_type'' = text_val ''same_entity''" "attr ?s ''id'' = text_val (key_did cr skn)"
    "attr ?s ''linked_identity'' = Inr (FObj new)" "attr ?s ''entity_binding'' = Inr eb"
    "attr ?s ''enrollment_request_hash'' = Inr (FVal (VBytes hash))" "attr ?s ''approved_domains'' = Inr ds"
    "attr ?s ''approved_identity_contexts'' = Inr cs" "attr ?s ''approved_scopes'' = Inr ss" "attr ?s ''valid_until'' = text_val expires"
    by (simp_all add: subject_object_def attr_def)
  have ver: "claim_verify cr frepr c issuer = Inr True" unfolding c by (rule claim_verifies [OF issuer cr assms(3)])
  have types: "strs_at c [''type''] = Inr [''VerifiableCredential'', CREDENTIAL_TYPE]" unfolding c by (rule strs_at_val) (rule ca)
  have cc: "checks (credential_checks cr frepr c issuer) = Inr ()"
    unfolding credential_checks_def using ver types honest_did [OF issuer]
    by (simp add: checks_Inr fails_Inr negate_False rbind_Inr_iff) (simp add: c ca)
  have read: "read_subject (FVal (VDict (dset body ''id'' (VStr (key_did cr skn))))) = Inr ?s"
    by (rule subject_reads_back [OF vals body])
  obtain b where b: "eb = FObj b" "instance_ok EntityBindingDescriptor b" using vals by (auto simp: approval_values_def)
  obtain xs ys zs where l: "ds = strs_val xs" "cs = strs_val ys" "ss = strs_val zs" using vals by (auto simp: approval_values_def)
  have "in_time ?s ''valid_until'' later" using t by (simp add: in_time_def a sa)
  note it = in_time_passes [OF this]
  have same: "same (Inr eb) (Inr eb) = Inr True" "same (Inr ds) (Inr ds) = Inr True" "same (Inr cs) (Inr cs) = Inr True"
    "same (Inr ss) (Inr ss) = Inr True"
    by (simp_all add: b(1) same_binding [OF b(2)] l same_strs)
  have sc: "checks (subject_checks ?s request m hash later) = Inr ()"
    unfolding subject_checks_def checks_Inr list.set ball_simps
    by (intro conjI TrueI)
      (simp_all add: fails_Inr any_of_False negate_False same_str same_bytes obj_at_def sa a r it
        honest_did [OF new] honest_same_key [OF new] same)
  show ?thesis unfolding validate_credential_def cc using read sc by (simp add: c ca)
qed

lemma presentation_passes:
  assumes m: "m = presentation_object pid PRESENTATION_TYPE (key_did cr skn) challenge d new [c] date nu (ed_sign cr skn payload)"
    and "presentation_bytes frepr (presentation_object pid PRESENTATION_TYPE (key_did cr skn) challenge d new [c] date nu []) = Inr payload"
    and new: "honest_key cr skn new nu" and cr: "crypto_ok cr" and c: "attr c ''id'' = text_val cid"
    and e: "attr e ''expected_presentation_challenge'' = Inr (FVal (VBytes challenge))"
      "attr e ''expected_presentation_domain'' = text_val d"
  shows "validate_presentation cr frepr m c new e = Inr ()"
proof -
  note a = presentation_attrs [of pid PRESENTATION_TYPE "key_did cr skn" challenge d new "[c]" date nu "ed_sign cr skn payload", folded m]
  have ver: "verify_holder_proof cr frepr m challenge d = Inr True"
    unfolding m by (rule holder_proof_verifies [OF new cr assms(2)])
  have types: "strs_at m [''type''] = Inr [''VerifiableCredential'', PRESENTATION_TYPE]" by (rule strs_at_val) (rule a)
  have holds: "holds_credential m c = Inr True"
    by (simp add: holds_credential_def a either_def same_def c)
  show ?thesis
    unfolding validate_presentation_def presentation_checks_def checks_Inr list.set ball_simps
    by (intro conjI TrueI)
      (simp_all add: fails_Inr any_of_False negate_False obj_at_def types holds a has_def honest_same_key [OF new]
        honest_did [OF new] e bytes_at_def str_at_def ver)
qed

lemma record_made:
  assumes m: "m = approval_object aid hash eb new ds cs ss iu kind au og created expires j performed evidence s"
    and "attr request ''new_identity'' = Inr (FObj new)" "honest_key cr ski issuer iu" "iso8601 later = Inr date"
  shows "\<exists>link. completed_record request m issuer (subject_object did eb new ds cs ss hash expires reference) later = Inr link"
proof -
  have "attr (subject_object did eb new ds cs ss hash expires reference) ''revocation_reference'' = Inr reference"
    by (simp add: subject_object_def attr_def)
  moreover have "attr issuer ''uuid'' = text_val iu" using assms(3) by (simp add: honest_key_def)
  ultimately show ?thesis
    using assms(2,4)
    by (simp add: completed_record_def keyword_args_def approval_attrs [OF m])
      (simp add: new_object_def IdentityLinkRecord_def need_def opt_def plain_value_def)
qed

subsection \<open>The honest run\<close>

text \<open>What the owner's cell is asked to complete, and what it expects.\<close>

definition completion_of ::
    "instance \<Rightarrow> instance \<Rightarrow> instance \<Rightarrow> instance \<Rightarrow> instance \<Rightarrow> fval \<Rightarrow> fval \<Rightarrow> bytes \<Rightarrow> string \<Rightarrow> instance" where
  "completion_of request approval credential presentation issuer audience origin challenge d =
     Instance IdentityLinkCompletionEnvelope
       [(''request'', FObj request), (''approval'', FObj approval), (''same_entity_credential'', FObj credential),
        (''presentation'', FObj presentation), (''issuer_identity'', FObj issuer), (''expected_audience'', audience),
        (''expected_origin'', origin), (''expected_presentation_challenge'', FVal (VBytes challenge)),
        (''expected_presentation_domain'', FVal (VStr d)), (''require_fresh_auth_evidence'', FNone)]"

lemma completion_attrs:
  fixes request approval credential presentation issuer audience origin challenge d
  defines "e \<equiv> completion_of request approval credential presentation issuer audience origin challenge d"
  shows "attr e ''request'' = Inr (FObj request)" "attr e ''approval'' = Inr (FObj approval)"
    "attr e ''same_entity_credential'' = Inr (FObj credential)" "attr e ''presentation'' = Inr (FObj presentation)"
    "attr e ''issuer_identity'' = Inr (FObj issuer)" "attr e ''expected_audience'' = Inr audience"
    "attr e ''expected_origin'' = Inr origin" "attr e ''expected_presentation_challenge'' = Inr (FVal (VBytes challenge))"
    "attr e ''expected_presentation_domain'' = text_val d" "attr e ''require_fresh_auth_evidence'' = Inr FNone"
  by (simp_all add: e_def completion_of_def attr_def)

text \<open>A validated request has one hash, at whatever time it is validated.\<close>

lemma same_hash:
  "validate_enrollment_request cr frepr request t1 = Inr h1 \<Longrightarrow> validate_enrollment_request cr frepr request t2 = Inr h2 \<Longrightarrow> h1 = h2"
  by (auto simp: validate_enrollment_request_def rbind_Inr_iff)

lemma honest_completion:
  assumes cr: "crypto_ok cr" and issuer: "honest_key cr ski issuer iu" and new: "honest_key cr skn new nu" and "iu \<noteq> nu"
    and env: "instance_ok IdentityLinkApprovalEnvelope env" "attr env ''request'' = Inr (FObj request)"
      "attr env ''fresh_auth_required'' = Inr (FVal (VBool True))" "attr env ''issuer_type'' = text_val kind" "kind \<in> set ISSUER_TYPES"
    and request: "attr request ''new_identity'' = Inr (FObj new)" "attr request ''audience'' = Inr au" "attr request ''origin'' = Inr og"
    and approved: "approve_enrollment cr frepr env issuer (ed_sign cr ski) now aid cuuid jti = Inr pkg"
      "attr pkg ''approval'' = Inr (FObj approval)" "attr pkg ''same_entity_credential'' = Inr (FObj credential)"
    and bound: "bind_and_sign frepr [credential] new (ed_sign cr skn) challenge d puuid bound_at PRESENTATION_TYPE = Inr presentation"
    and jti: "attr approval ''jti'' = text_val j" "py_strip j \<noteq> []" "j \<notin> set used"
    and time: "validate_enrollment_request cr frepr request later = Inr h" "in_time approval ''expires_at'' later" "iso8601 later = Inr date"
    and grants: "names_within approval ''approved_domains'' request ''requested_domains''"
      "names_within approval ''approved_identity_contexts'' request ''requested_identity_contexts''"
      "names_within approval ''approved_scopes'' request ''requested_scopes''"
  shows "\<exists>res. verify_completion cr frepr (completion_of request approval credential presentation issuer au og challenge d)
    later used v = Inr res"
proof -
  let ?e = "completion_of request approval credential presentation issuer au og challenge d"
  note e = completion_attrs [of request approval credential presentation issuer au og challenge d]
  have "declares IdentityLinkApprovalEnvelope ''request'' False (KModel IdentityEnrollmentRequest)"
    by (simp add: declares_def IdentityLinkApprovalEnvelope_def need_def opt_def)
  from a_obj [OF env(1) envelope_class this] env(2) have req: "instance_ok IdentityEnrollmentRequest request" by simp
  obtain hash payload eb ds cs ss au' og' created expires j' performed evidence reference body cid cdate cpayload where
    p: "validate_enrollment_request cr frepr request now = Inr hash"
      "approval_values eb new [ds, cs, ss] [au', og'] performed evidence"
      "attr request ''entity_binding'' = Inr eb" "attr request ''audience'' = Inr au'" "attr request ''origin'' = Inr og'"
      "performed \<noteq> FNone" "reference = FNone \<or> (\<exists>s. reference = FVal (VStr s))"
      "model_payload frepr (approval_object aid hash eb new ds cs ss iu kind au' og' created expires j' performed evidence FNone) = Inr payload"
      "attr pkg ''approval'' = Inr (FObj (approval_object aid hash eb new ds cs ss iu kind au' og' created expires j' performed evidence
        (FVal (VBytes (ed_sign cr ski payload)))))"
      "to_wire (subject_object (key_did cr skn) eb new ds cs ss hash expires reference) = Inr body"
      "claim_bytes frepr (claim_object cid CREDENTIAL_TYPE (key_did cr ski) cdate (dset body ''id'' (VStr (key_did cr skn))) iu [])
        = Inr cpayload"
      "attr pkg ''same_entity_credential'' = Inr (FObj (claim_object cid CREDENTIAL_TYPE (key_did cr ski) cdate
        (dset body ''id'' (VStr (key_did cr skn))) iu (ed_sign cr ski cpayload)))"
    using approved_package [OF approved(1) env(1) req issuer new env(2-4) request(1)] by blast
  have m: "approval = approval_object aid hash eb new ds cs ss iu kind au' og' created expires j' performed evidence
        (FVal (VBytes (ed_sign cr ski payload)))"
    and c: "credential = claim_object cid CREDENTIAL_TYPE (key_did cr ski) cdate (dset body ''id'' (VStr (key_did cr skn))) iu
        (ed_sign cr ski cpayload)"
    and au: "au' = au" "og' = og" and h: "h = hash"
    using p(4,5,9,12) approved(2,3) request(2,3) same_hash [OF time(1) p(1)] by simp_all
  have j: "j' = j" using jti(1) approval_attrs(8) [OF m] by simp
  note m = m [unfolded au j] and p = p [unfolded au j]
  obtain pdate ppayload where b: "presentation_bytes frepr (presentation_object (identity_url nu puuid) PRESENTATION_TYPE
        (key_did cr skn) challenge d new [credential] pdate nu []) = Inr ppayload"
    "presentation = presentation_object (identity_url nu puuid) PRESENTATION_TYPE (key_did cr skn) challenge d new [credential]
        pdate nu (ed_sign cr skn ppayload)"
    using bound_presentation [OF bound new] by blast
  have va: "validate_approval cr frepr approval request hash issuer ?e later used v = Inr ()"
    by (rule approval_passes [OF m p(8,2,6) issuer new cr request(1) p(3) request(2,3) e(6,7,10) jti(2,3) env(5) \<open>iu \<noteq> nu\<close>
          time(2) grants])
  have vc: "validate_credential cr frepr credential request approval issuer hash later
      = Inr (subject_object (key_did cr skn) eb new ds cs ss hash expires reference)"
    by (rule credential_passes [OF m c p(11,10,2,7) issuer new cr request(1) time(2)])
  have id: "attr credential ''id'' = text_val cid" unfolding c by (rule claim_attrs(1))
  have vp: "validate_presentation cr frepr presentation credential new ?e = Inr ()"
    by (rule presentation_passes [OF b(2,1) new cr id e(8,9)])
  obtain link where link: "completed_record request approval issuer (subject_object (key_did cr skn) eb new ds cs ss hash expires reference)
      later = Inr link"
    using record_made [OF m request(1) issuer time(3)] by blast
  have pid: "attr presentation ''id'' = text_val (identity_url nu puuid)" unfolding b(2) by (rule presentation_attrs(1))
  show ?thesis
    unfolding verify_completion_def
    by (simp add: obj_at_def str_at_def e request(1) time(1) h va vc vp link jti(1) id pid)
qed

text \<open>
  C40: what \<open>approve_enrollment\<close> and \<open>bind_and_sign\<close> make for two honest keys of different
  identities is accepted by \<open>verify_completion\<close>, if fresh authentication was required and the issuer
  type is a known one, the approval grants no more than the request asks, its identifier is not
  blank and not used, the request of the new key validates and the approval has not expired at the
  time of the completion. (An approval without fresh authentication, or one that grants more than
  was asked, is made as well, and refused.)
\<close>

theorem approved_extension_is_accepted:
  assumes cr: "crypto_ok cr" and issuer: "honest_key cr ski issuer iu" and new: "honest_key cr skn new nu" and "iu \<noteq> nu"
    and env: "instance_ok IdentityLinkApprovalEnvelope env" "attr env ''request'' = Inr (FObj request)"
      "attr env ''fresh_auth_required'' = Inr (FVal (VBool True))" "attr env ''issuer_type'' = text_val kind" "kind \<in> set ISSUER_TYPES"
    and request: "attr request ''new_identity'' = Inr (FObj new)" "attr request ''audience'' = Inr au" "attr request ''origin'' = Inr og"
    and approved: "approve_enrollment cr frepr env issuer (ed_sign cr ski) now aid cuuid jti = Inr pkg"
      "attr pkg ''approval'' = Inr (FObj approval)" "attr pkg ''same_entity_credential'' = Inr (FObj credential)"
    and bound: "bind_and_sign frepr [credential] new (ed_sign cr skn) challenge d puuid bound_at PRESENTATION_TYPE = Inr presentation"
    and jti: "attr approval ''jti'' = text_val j" "py_strip j \<noteq> []" "j \<notin> set used"
    and time: "validate_enrollment_request cr frepr request later = Inr h" "in_time approval ''expires_at'' later" "iso8601 later = Inr date"
    and grants: "names_within approval ''approved_domains'' request ''requested_domains''"
      "names_within approval ''approved_identity_contexts'' request ''requested_identity_contexts''"
      "names_within approval ''approved_scopes'' request ''requested_scopes''"
  shows "\<exists>res. verify_completion cr frepr (completion_of request approval credential presentation issuer au og challenge d)
    later used v = Inr res"
  by (rule honest_completion [OF assms])

end
