(* ===== verification/Link_Runs.thy ===== *)
theory Link_Runs
  imports Link_Honest Verify_Runs
begin

text \<open>
  One entity extension on concrete data: Ida, who has the entity, approves the new key of Bob, who
  presents the credential. It is the witness of the properties of \<open>verify_completion\<close>.
\<close>

subsection \<open>The request\<close>

definition join_binding :: "instance" where
  "join_binding = Instance EntityBindingDescriptor
     [(''mode'', FVal (VStr ''localEntityAnchor'')), (''entity_anchor_reference'', FNone), (''binding_id'', FNone), (''audience'', FNone)]"

definition join_nonce :: bytes where "join_nonce = replicate 16 7"

definition join_request :: "instance" where
  "join_request = Instance IdentityEnrollmentRequest
     [(''version'', FVal (VInt 1)), (''request_id'', FVal (VStr ''r'')), (''purpose'', FVal (VStr ''link_identity'')),
      (''entity_binding'', FObj join_binding), (''new_identity'', FObj (descriptor ''bob'' bob)),
      (''requested_domains'', strs_val [''d'']), (''requested_identity_contexts'', strs_val [''c'']),
      (''requested_scopes'', strs_val [''s'']), (''audience'', FVal (VStr ''a'')), (''origin'', FVal (VStr ''o'')),
      (''created_at'', FVal (VStr ''c'')), (''expires_at'', FVal (VStr ''1970-01-01T01:00:00Z'')),
      (''nonce'', FVal (VBytes join_nonce)), (''platform'', FNone), (''device_label'', FNone), (''proof'', FNone)]"

lemma join_request_ok: "instance_ok IdentityEnrollmentRequest join_request"
  by (simp add: class_defs join_request_def join_binding_def descriptor_def strs_val_def)

lemma join_binding_wire: "to_wire join_binding = Inr [(''mode'', VStr ''localEntityAnchor'')]"
  by (simp add: join_binding_def EntityBindingDescriptor_def need_def opt_def)

lemma join_request_wire: "\<exists>d. to_wire join_request = Inr d \<and> ascii_items d"
proof -
  have "ascii_items (descriptor_wire ''bob'' bob)" "is_ascii (b64encode join_nonce)"
    by (rule descriptor_ascii [OF ascii_texts(3)]) (rule b64encode_ascii)
  then show ?thesis
    by (simp add: IdentityEnrollmentRequest_def need_def opt_def join_request_def descriptor_wire join_binding_wire
        default_value_def plain_value_def feq.simps strs_val_def) (simp add: is_ascii_def)
qed

definition signed_request :: "instance" where
  "signed_request = run_sign SignatureProof bob ''bob'' join_request"

lemmas join_signed = run_sign [OF run_keys(2) ticket_signed_type(3) proof_of_types(3) join_request_ok join_request_wire,
    where u = "''bob''", folded signed_request_def]

lemma join_attrs:
  "attr join_request ''purpose'' = text_val ''link_identity''" "attr join_request ''entity_binding'' = Inr (FObj join_binding)"
  "attr join_request ''new_identity'' = Inr (FObj (descriptor ''bob'' bob))"
  "attr join_request ''requested_domains'' = Inr (strs_val [''d''])"
  "attr join_request ''requested_identity_contexts'' = Inr (strs_val [''c''])"
  "attr join_request ''requested_scopes'' = Inr (strs_val [''s''])" "attr join_request ''audience'' = text_val ''a''"
  "attr join_request ''origin'' = text_val ''o''" "attr join_request ''expires_at'' = text_val ''1970-01-01T01:00:00Z''"
  "attr join_request ''nonce'' = Inr (FVal (VBytes join_nonce))"
  by (simp_all add: attr_def join_request_def)

lemma request_attrs:
  "attr signed_request ''purpose'' = text_val ''link_identity''" "attr signed_request ''entity_binding'' = Inr (FObj join_binding)"
  "attr signed_request ''new_identity'' = Inr (FObj (descriptor ''bob'' bob))"
  "attr signed_request ''requested_domains'' = Inr (strs_val [''d''])"
  "attr signed_request ''requested_identity_contexts'' = Inr (strs_val [''c''])"
  "attr signed_request ''requested_scopes'' = Inr (strs_val [''s''])" "attr signed_request ''audience'' = text_val ''a''"
  "attr signed_request ''origin'' = text_val ''o''" "attr signed_request ''expires_at'' = text_val ''1970-01-01T01:00:00Z''"
  "attr signed_request ''nonce'' = Inr (FVal (VBytes join_nonce))"
  by (simp_all add: join_signed(3) join_attrs)

lemma request_dates: "parse_iso8601 ''1970-01-01T01:00:00Z'' = Inr (Some 3600)" "parse_iso8601 ''1970-01-01T00:05:00Z'' = Inr (Some 300)"
  by code_simp+

lemma request_validates:
  assumes "t \<le> 3600"
  shows "\<exists>h. validate_enrollment_request run_crypto run_repr signed_request t = Inr h"
proof -
  obtain s where s: "attr signed_request ''proof'' = Inr (FObj (new_proof SignatureProof ''bob'' s))" "s \<noteq> []"
    using join_signed(4) run_crypto_ok(3) [OF run_keys(2)] by (metis list.size(3) zero_neq_numeral)
  obtain p where p: "model_payload run_repr signed_request = Inr p"
    using join_signed(2) by (auto simp: valid_proof_def)
  have obj: "obj_at signed_request [''new_identity''] = Inr (descriptor ''bob'' bob)" by (simp add: obj_at1 request_attrs)
  have ver: "proof_verifies run_crypto run_repr signed_request (Inr (descriptor ''bob'' bob)) = Inr True"
    using join_signed(2) by (simp add: proof_verifies_True)
  have blank: "py_strip ''a'' \<noteq> []" "py_strip ''o'' \<noteq> []" by code_simp+
  have cs: "checks (request_checks run_crypto run_repr signed_request t) = Inr ()"
    unfolding request_checks_def checks_Inr list.set ball_simps
    using assms s(2) blank
    by (intro conjI TrueI)
      (simp_all add: fails_Inr negate_False any_of_False same_str path.simps request_attrs has_def bytes_at_def join_nonce_def
        is_blank_def str_at_def is_empty_list_def strs_at_val ensure_not_expired_def request_dates lacks_signature_def s(1)
        new_proof_attrs descriptor_attrs obj ver)
  then show ?thesis by (simp add: validate_enrollment_request_def p)
qed

subsection \<open>The approval\<close>

definition join_envelope :: "instance" where
  "join_envelope = Instance IdentityLinkApprovalEnvelope
     [(''request'', FObj signed_request), (''issuer_type'', FVal (VStr ''existingDevice'')), (''approved_domains'', FNone),
      (''approved_identity_contexts'', FNone), (''approved_scopes'', FNone), (''expires_at'', FNone), (''jti'', FNone),
      (''fresh_auth_required'', FVal (VBool True)), (''fresh_auth_performed_at'', FNone), (''fresh_auth_evidence'', FNone),
      (''revocation_reference'', FNone)]"

lemma join_envelope_ok: "instance_ok IdentityLinkApprovalEnvelope join_envelope"
  using join_signed(1) by (simp add: join_envelope_def IdentityLinkApprovalEnvelope_def need_def opt_def)

lemma join_envelope_attrs:
  "attr join_envelope ''request'' = Inr (FObj signed_request)" "attr join_envelope ''issuer_type'' = text_val ''existingDevice''"
  "attr join_envelope ''approved_domains'' = Inr FNone" "attr join_envelope ''approved_identity_contexts'' = Inr FNone"
  "attr join_envelope ''approved_scopes'' = Inr FNone" "attr join_envelope ''expires_at'' = Inr FNone"
  "attr join_envelope ''jti'' = Inr FNone" "attr join_envelope ''fresh_auth_required'' = Inr (FVal (VBool True))"
  "attr join_envelope ''fresh_auth_performed_at'' = Inr FNone" "attr join_envelope ''fresh_auth_evidence'' = Inr FNone"
  "attr join_envelope ''revocation_reference'' = Inr FNone"
  by (simp_all add: attr_def join_envelope_def)

abbreviation ida :: "instance" where "ida \<equiv> descriptor ''ida'' alice"
abbreviation bobs :: "instance" where "bobs \<equiv> descriptor ''bob'' bob"

lemma honest_descriptor: "length k = 32 \<Longrightarrow> honest_key run_crypto k (descriptor u k) u"
  using run_crypto_ok(3) by (simp add: honest_key_def descriptor_ok descriptor_attrs run_crypto_ok(2))

definition join_approval :: "bytes \<Rightarrow> fval \<Rightarrow> instance" where
  "join_approval h signature = approval_object ''ap'' h (FObj join_binding) bobs (strs_val [''d'']) (strs_val [''c''])
     (strs_val [''s'']) ''ida'' ''existingDevice'' (FVal (VStr ''a'')) (FVal (VStr ''o''))
     ''1970-01-01T00:00:00Z'' ''1970-01-01T00:05:00Z'' ''ap'' (FVal (VStr ''1970-01-01T00:00:00Z'')) FNone signature"

lemma run_moments: "iso8601 0 = Inr ''1970-01-01T00:00:00Z''" "iso8601 300 = Inr ''1970-01-01T00:05:00Z''"
  "iso8601 60 = Inr ''1970-01-01T00:01:00Z''" "round_double (0 + 300) = 300"
  by code_simp+

lemma join_unsigned:
  "unsigned_approval join_envelope signed_request h ida 0 ''ap'' None = Inr (join_approval h FNone)"
proof -
  have q: "approval_expiry join_envelope 0 = Inr 300"
    using run_moments(4) by (simp add: approval_expiry_def join_envelope_attrs)
  show ?thesis
    by (simp add: unsigned_approval_def keyword_args_def q auth_performed_def if_given_def join_envelope_attrs request_attrs
        run_moments descriptor_attrs first_jti_def join_approval_def approval_object_def)
      (simp add: new_object_def IdentityEnrollmentApproval_def IdentityEnrollmentApprovalProof_def need_def opt_def plain_value_def)
qed

lemma join_approval_payload: "\<exists>p. model_payload run_repr (join_approval h FNone) = Inr p"
proof -
  have "ascii_items (descriptor_wire ''bob'' bob)" "is_ascii (b64encode h)"
    by (rule descriptor_ascii [OF ascii_texts(3)]) (rule b64encode_ascii)
  then have "\<exists>d. to_wire (join_approval h FNone) = Inr d \<and> ascii_items d"
    by (simp add: join_approval_def approval_object_def IdentityEnrollmentApproval_def IdentityEnrollmentApprovalProof_def
        need_def opt_def descriptor_wire join_binding_wire feq.simps strs_val_def) (simp add: is_ascii_def)
  then show ?thesis using payload_ascii by blast
qed

definition join_subject :: "bytes \<Rightarrow> instance" where
  "join_subject h = subject_object (key_did run_crypto bob) (FObj join_binding) bobs (strs_val [''d'']) (strs_val [''c''])
     (strs_val [''s'']) h ''1970-01-01T00:05:00Z'' FNone"

lemma join_subject_made:
  "credential_subject_of join_envelope signed_request h (join_approval h s) 300 = Inr (join_subject h)"
proof -
  have o: "obj_at signed_request [''new_identity''] = Inr bobs" by (simp add: obj_at1 request_attrs)
  show ?thesis
    by (simp add: credential_subject_of_def keyword_args_def o request_attrs join_envelope_attrs run_moments
        approval_attrs [OF join_approval_def] honest_did [OF honest_descriptor [OF run_keys(2)]] join_subject_def subject_object_def)
      (simp add: new_object_def SameEntityIdentityLinkCredentialSubject_def need_def opt_def plain_value_def)
qed

lemma base58_ascii: "is_ascii (base58_encode bs)"
proof -
  have letter: "is_ascii [base58_alphabet ! (n mod 58)]" for n :: nat
  proof -
    have "length base58_alphabet = 58" "list_all (\<lambda>c. of_char c < (128 :: nat)) base58_alphabet" by code_simp+
    then show ?thesis by (simp add: is_ascii_def list_all_length)
  qed
  have "is_ascii (base58_loop n [])" for n
  proof (induction n rule: less_induct)
    case (less n)
    show ?case
    proof (cases "n = 0")
      case False
      then have "is_ascii (base58_loop (n div 58) [])" by (intro less) simp
      then show ?thesis using False letter [of n] by (subst base58_digits) (simp add: is_ascii_def)
    qed (simp add: base58_loop.simps is_ascii_def)
  qed
  then show ?thesis by (auto simp: base58_encode_def is_ascii_def)
qed

lemma did_ascii: "is_ascii (key_did cr sk)"
  using base58_ascii by (simp add: key_did_def is_ascii_def)

lemma join_subject_wire: "\<exists>body. to_wire (join_subject h) = Inr body \<and> ascii_items body"
proof -
  have "ascii_items (descriptor_wire ''bob'' bob)" "is_ascii (b64encode h)" "is_ascii (key_did run_crypto bob)"
    by (rule descriptor_ascii [OF ascii_texts(3)]) (rule b64encode_ascii did_ascii)+
  then show ?thesis
    by (simp add: join_subject_def subject_object_def SameEntityIdentityLinkCredentialSubject_def
        need_def opt_def descriptor_wire join_binding_wire feq.simps strs_val_def) (simp add: is_ascii_def)
qed

lemma join_values:
  "approval_values (FObj join_binding) bobs [strs_val [''d''], strs_val [''c''], strs_val [''s'']]
     [FVal (VStr ''a''), FVal (VStr ''o'')] (FVal (VStr ''1970-01-01T00:00:00Z'')) FNone"
proof -
  have "instance_ok EntityBindingDescriptor join_binding"
    by (simp add: join_binding_def EntityBindingDescriptor_def need_def opt_def)
  then show ?thesis by (auto simp: approval_values_def descriptor_ok)
qed

lemma join_subject_json: "to_wire (join_subject h) = Inr body \<Longrightarrow> is_json_items body"
  using wire_round_trip_lemma(1) [OF link_tables_ok(4) subject_ok [OF join_values disjI1 [OF refl],
      of "key_did run_crypto bob" h "''1970-01-01T00:05:00Z''"]]
  unfolding join_subject_def by auto

lemma vc_ascii: "ascii_items wire \<Longrightarrow> \<exists>p. vc_encode run_repr wire = Inr p"
  unfolding vc_encode_def by (rule canonical_ascii) simp_all

lemma ddel_ascii: "ascii_items d \<Longrightarrow> ascii_items (ddel d k)"
  by (induction d) auto

lemma dset_ascii: "ascii_items d \<Longrightarrow> is_ascii k \<Longrightarrow> ascii_val v \<Longrightarrow> ascii_items (dset d k v)"
  by (induction d) auto

definition run_id :: string where "run_id = ''cell:///identity/bob/claims/x''"

lemma run_id: "identity_url ''bob'' ''x'' = run_id"
  by (simp add: identity_url_def run_id_def)

lemma vc_ascii_texts: "is_ascii run_id" "is_ascii CREDENTIAL_TYPE" "is_ascii PRESENTATION_TYPE"
  "ascii_list (map VStr VC_CONTEXT)" "is_ascii ''1970-01-01T00:00:00Z''" "is_ascii ''VerifiableCredential''"
  by (simp_all add: run_id_def CREDENTIAL_TYPE_def PRESENTATION_TYPE_def VC_CONTEXT_def is_ascii_def)

lemma vc_proof_ascii: "is_ascii date \<Longrightarrow> is_ascii purpose \<Longrightarrow> is_ascii u \<Longrightarrow>
    \<exists>d. to_wire (vc_proof date purpose u s) = Inr d \<and> ascii_items d"
  by (simp add: vc_proof_def VCProof_def need_def b64encode_ascii) (simp add: is_ascii_def)

lemma claim_ascii:
  assumes "ascii_items body" "is_ascii did"
  shows "\<exists>d. to_wire (claim_object run_id CREDENTIAL_TYPE did ''1970-01-01T00:00:00Z'' body ''ida'' s) = Inr d \<and> ascii_items d"
proof -
  have "is_ascii ''assertionMethod''" by (simp add: is_ascii_def)
  then obtain p where p: "to_wire (vc_proof ''1970-01-01T00:00:00Z'' ''assertionMethod'' ''ida'' s) = Inr p" "ascii_items p"
    using vc_proof_ascii [OF vc_ascii_texts(5) _ ascii_texts(2)] by blast
  have "is_ascii ''@context''" "is_ascii ''id''" "is_ascii ''type''" "is_ascii ''issuer''" "is_ascii ''issuanceDate''"
    "is_ascii ''credentialSubject''" "is_ascii ''proof''"
    by (simp_all add: is_ascii_def)
  then show ?thesis using assms p vc_ascii_texts
    by (simp add: claim_object_def VCClaim_def need_def opt_def strs_val_def)
qed

lemma join_credential:
  assumes "ascii_items body"
  shows "\<exists>p. issue run_repr CREDENTIAL_TYPE ida bobs body (ed_sign run_crypto alice) ''x'' 0
      = Inr (claim_object run_id CREDENTIAL_TYPE (key_did run_crypto alice) ''1970-01-01T00:00:00Z''
          (dset body ''id'' (VStr (key_did run_crypto bob))) ''ida'' (ed_sign run_crypto alice p))"
proof -
  note keys = honest_descriptor [OF run_keys(1), of "''ida''"] honest_descriptor [OF run_keys(2), of "''bob''"]
  let ?body = "dset body ''id'' (VStr (key_did run_crypto bob))"
  let ?c = "claim_object run_id CREDENTIAL_TYPE (key_did run_crypto alice) ''1970-01-01T00:00:00Z'' ?body ''ida''"
  have "ascii_items ?body" using assms did_ascii by (intro dset_ascii) (simp_all, simp add: is_ascii_def)
  then obtain d where d: "to_wire (?c []) = Inr d" "ascii_items d" using claim_ascii [OF _ did_ascii] by blast
  obtain p where "vc_encode run_repr (ddel d ''proof'') = Inr p" using vc_ascii [OF ddel_ascii [OF d(2)]] by blast
  then have p: "claim_bytes run_repr (?c []) = Inr p" using d(1) by (simp add: claim_bytes_def)
  have n: "new_object VCClaim
     [(''context'', strs_val VC_CONTEXT), (''id'', FVal (VStr run_id)),
      (''type'', strs_val [''VerifiableCredential'', CREDENTIAL_TYPE]), (''issuer'', FVal (VStr (key_did run_crypto alice))),
      (''issuance_date'', FVal (VStr ''1970-01-01T00:00:00Z'')), (''credential_subject'', FVal (VDict ?body)),
      (''proof'', FObj (vc_proof ''1970-01-01T00:00:00Z'' ''assertionMethod'' ''ida'' []))] = Inr (?c [])"
    by (simp add: new_object_def claim_object_def VCClaim_def need_def opt_def)
  have s: "signed_vc sig (vc_proof ''1970-01-01T00:00:00Z'' ''assertionMethod'' ''ida'' []) (?c []) = ?c sig" for sig
    by (simp add: signed_vc_def claim_object_def replace_attr_def vc_proof_def)
  show ?thesis
    unfolding issue_def honest_proof_type [OF keys(1)] honest_did [OF keys(1)] honest_did [OF keys(2)]
    by (simp add: str_at_def descriptor_attrs run_moments new_vc_proof run_id n p s) blast
qed

lemma join_approved:
  "\<exists>h p body q pkg. validate_enrollment_request run_crypto run_repr signed_request 0 = Inr h
    \<and> ascii_items body \<and> is_json_items body
    \<and> approve_enrollment run_crypto run_repr join_envelope ida (ed_sign run_crypto alice) 0 ''ap'' ''x'' None = Inr pkg
    \<and> attr pkg ''approval'' = Inr (FObj (join_approval h (FVal (VBytes (ed_sign run_crypto alice p)))))
    \<and> attr pkg ''same_entity_credential'' = Inr (FObj (claim_object run_id CREDENTIAL_TYPE (key_did run_crypto alice)
        ''1970-01-01T00:00:00Z'' (dset body ''id'' (VStr (key_did run_crypto bob))) ''ida'' (ed_sign run_crypto alice q)))"
proof -
  obtain h where h: "validate_enrollment_request run_crypto run_repr signed_request 0 = Inr h"
    using request_validates [of 0] by auto
  obtain p where p: "model_payload run_repr (join_approval h FNone) = Inr p" using join_approval_payload by blast
  let ?a = "join_approval h (FVal (VBytes (ed_sign run_crypto alice p)))"
  obtain r where r: "attr (join_approval h FNone) ''proof'' = Inr (FObj r)"
    using approval_attrs(17) [OF join_approval_def] by blast
  have a: "replace_attr ''proof'' (FObj (replace_attr ''signature'' (FVal (VBytes (ed_sign run_crypto alice p))) r)) (join_approval h FNone) = ?a"
    using r by (auto simp: join_approval_def approval_object_def replace_attr_def attr_def)
  obtain body where body: "to_wire (join_subject h) = Inr body" "ascii_items body" using join_subject_wire by blast
  obtain q where q: "issue run_repr CREDENTIAL_TYPE ida bobs body (ed_sign run_crypto alice) ''x'' 0
      = Inr (claim_object run_id CREDENTIAL_TYPE (key_did run_crypto alice) ''1970-01-01T00:00:00Z''
          (dset body ''id'' (VStr (key_did run_crypto bob))) ''ida'' (ed_sign run_crypto alice q))"
    using join_credential [OF body(2)] by blast
  let ?c = "claim_object run_id CREDENTIAL_TYPE (key_did run_crypto alice) ''1970-01-01T00:00:00Z''
          (dset body ''id'' (VStr (key_did run_crypto bob))) ''ida'' (ed_sign run_crypto alice q)"
  let ?k = "Instance IdentityLinkApprovalPackage [(''approval'', FObj ?a), (''same_entity_credential'', FObj ?c), (''issuer_identity'', FObj ida)]"
  have k: "new_object IdentityLinkApprovalPackage [(''approval'', FObj ?a), (''same_entity_credential'', FObj ?c),
      (''issuer_identity'', FObj ida)] = Inr ?k"
    by (simp add: new_object_def IdentityLinkApprovalPackage_def need_def)
  have e: "approval_expiry join_envelope 0 = Inr 300"
    using run_moments(4) by (simp add: approval_expiry_def join_envelope_attrs)
  have o: "obj_at join_envelope [''request''] = Inr signed_request" "obj_at signed_request [''new_identity''] = Inr bobs"
    "obj_at (join_approval h FNone) [''proof''] = Inr r"
    by (simp_all add: obj_at1 join_envelope_attrs request_attrs r)
  have f: "fails (negate (has (attr signed_request ''entity_binding''))) ''missingEntityBinding'' = Inr ()"
    by (simp add: request_attrs has_def negate_def fails_def)
  have "approve_enrollment run_crypto run_repr join_envelope ida (ed_sign run_crypto alice) 0 ''ap'' ''x'' None = Inr ?k"
    unfolding approve_enrollment_def Let_def
    by (simp add: o h f join_unsigned p a e join_subject_made body(1) q k)
  moreover have "attr ?k ''approval'' = Inr (FObj ?a)" "attr ?k ''same_entity_credential'' = Inr (FObj ?c)"
    by (simp_all add: attr_def)
  moreover have "is_json_items body" using body(1) by (rule join_subject_json)
  ultimately show ?thesis using h body(2) by blast
qed

subsection \<open>The presentation\<close>

text \<open>What is typed and passes the checks of \<open>VCProof\<close> and \<open>VCClaim\<close> everywhere is read with them.\<close>

fun checked :: "(instance \<Rightarrow> unit res) \<Rightarrow> instance \<Rightarrow> bool"
and checked_val :: "(instance \<Rightarrow> unit res) \<Rightarrow> fval \<Rightarrow> bool" where
  "checked chk (Instance c fs) \<longleftrightarrow> chk (Instance c fs) = Inr () \<and> list_all (\<lambda>(a, v). checked_val chk v) fs"
| "checked_val chk (FObj m) \<longleftrightarrow> checked chk m"
| "checked_val chk (FObjs ms) \<longleftrightarrow> list_all (checked chk) ms"
| "checked_val chk (FVal v) \<longleftrightarrow> True"

lemma checked_read:
  "from_wire c w = Inr m \<Longrightarrow> checked chk m \<Longrightarrow> from_wire_with chk c w = Inr m"
  "read_specs sps d = Inr fs \<Longrightarrow> list_all (\<lambda>(a, v). checked_val chk v) fs \<Longrightarrow> read_specs_with chk sps d = Inr fs"
  "decode_field k w = Inr v \<Longrightarrow> checked_val chk v \<Longrightarrow> decode_field_with chk k w = Inr v"
proof (induction c and sps and k arbitrary: w m and d fs and w v rule: table_induct)
  case (3 a key k optional dflt omit sps)
  then show ?case by (cases "getn d key = VNull") (auto simp: rbind_Inr_iff)
next
  case (5 c)
  have "rmap (from_wire c) vs = Inr ms \<Longrightarrow> list_all (checked chk) ms \<Longrightarrow> rmap (from_wire_with chk c) vs = Inr ms" for vs ms
    using 5(1) by (induction vs arbitrary: ms) (auto simp: rbind_Inr_iff)
  with 5(2,3) show ?case by (auto simp: rbind_Inr_iff split: pyval.splits)
qed (auto simp: rbind_Inr_iff Let_def split: pyval.splits)

lemma join_presented:
  assumes "ascii_items body"
    and c: "c = claim_object run_id CREDENTIAL_TYPE (key_did run_crypto alice) ''1970-01-01T00:00:00Z''
      (dset body ''id'' (VStr (key_did run_crypto bob))) ''ida'' s"
  shows "\<exists>q. bind_and_sign run_repr [c] bobs (ed_sign run_crypto bob) ch ''d'' ''x'' 0 PRESENTATION_TYPE
    = Inr (presentation_object run_id PRESENTATION_TYPE (key_did run_crypto bob) ch ''d'' bobs [c] ''1970-01-01T00:00:00Z'' ''bob''
        (ed_sign run_crypto bob q))"
proof -
  note key = honest_descriptor [OF run_keys(2), of "''bob''"]
  let ?m = "presentation_object run_id PRESENTATION_TYPE (key_did run_crypto bob) ch ''d'' bobs [c] ''1970-01-01T00:00:00Z'' ''bob''"
  have n: "new_object VCPresentation
     [(''context'', strs_val VC_CONTEXT), (''id'', FVal (VStr run_id)),
      (''type'', strs_val [''VerifiableCredential'', PRESENTATION_TYPE]), (''holder'', FVal (VStr (key_did run_crypto bob))),
      (''challenge'', FVal (VBytes ch)), (''domain'', FVal (VStr ''d'')),
      (''holder_binding'', FObj bobs), (''verifiable_credential'', FObjs [c]),
      (''proof'', FObj (vc_proof ''1970-01-01T00:00:00Z'' ''authentication'' ''bob'' []))] = Inr (?m [])"
    by (simp add: new_object_def presentation_object_def VCPresentation_def need_def opt_def)
  have "ascii_items (dset body ''id'' (VStr (key_did run_crypto bob)))"
    using assms(1) did_ascii by (intro dset_ascii) (simp_all, simp add: is_ascii_def)
  then obtain w where w: "to_wire c = Inr w" "ascii_items w" using claim_ascii [OF _ did_ascii] unfolding c by blast
  have "is_ascii ''authentication''" by (simp add: is_ascii_def)
  then obtain p where p: "to_wire (vc_proof ''1970-01-01T00:00:00Z'' ''authentication'' ''bob'' []) = Inr p" "ascii_items p"
    using vc_proof_ascii [OF vc_ascii_texts(5) _ ascii_texts(3)] by blast
  have k: "is_ascii ''@context''" "is_ascii ''id''" "is_ascii ''type''" "is_ascii ''holder''" "is_ascii ''challenge''" "is_ascii ''domain''"
    "is_ascii ''holderBinding''" "is_ascii ''verifiableCredential''" "is_ascii ''proof''" "is_ascii ''d''"
    by (simp_all add: is_ascii_def)
  have "\<exists>d. presentation_wire (?m []) = Inr d \<and> ascii_items d"
    using w p k vc_ascii_texts did_ascii [of run_crypto bob] descriptor_ascii [OF ascii_texts(3), of bob] b64encode_ascii
    by (simp add: presentation_wire_def presentation_object_def VCPresentation_def need_def opt_def strs_val_def descriptor_wire)
  then obtain d where d: "presentation_wire (?m []) = Inr d" "ascii_items d" by blast
  obtain q where "vc_encode run_repr (ddel d ''proof'') = Inr q" using vc_ascii [OF ddel_ascii [OF d(2)]] by blast
  then have q: "presentation_bytes run_repr (?m []) = Inr q" using d(1) by (simp add: presentation_bytes_def)
  have s: "signed_vc sig (vc_proof ''1970-01-01T00:00:00Z'' ''authentication'' ''bob'' []) (?m []) = ?m sig" for sig
    by (simp add: signed_vc_def presentation_object_def replace_attr_def vc_proof_def)
  show ?thesis
    unfolding bind_and_sign_def honest_proof_type [OF key] honest_did [OF key]
    by (simp add: str_at_def descriptor_attrs run_moments new_vc_proof run_id n q s) blast
qed

subsection \<open>The whole run\<close>

lemma vc_proof_ok: "instance_ok VCProof (vc_proof date purpose u s)"
  by (simp add: vc_proof_def VCProof_def need_def)

lemma claim_ok: "is_json_items body \<Longrightarrow> instance_ok VCClaim (claim_object cid kind did date body u s)"
  using vc_proof_ok [of date "''assertionMethod''" u s]
  by (simp add: claim_object_def VCClaim_def need_def opt_def strs_val_def strs_ok)

lemma presentation_ok:
  "instance_ok VCClaim c \<Longrightarrow> instance_ok IdentityPublicKeyDescriptor holder \<Longrightarrow>
     instance_ok VCPresentation (presentation_object pid kind did challenge d holder [c] date u s)"
  using vc_proof_ok [of date "''authentication''" u s]
  by (simp add: presentation_object_def VCPresentation_def need_def opt_def strs_val_def strs_ok)

lemma completion_ok:
  assumes "instance_ok IdentityEnrollmentRequest r" "instance_ok IdentityEnrollmentApproval a" "instance_ok VCClaim c"
    "instance_ok VCPresentation p" "instance_ok IdentityPublicKeyDescriptor i"
  shows "instance_ok IdentityLinkCompletionEnvelope (completion_of r a c p i (FVal (VStr x)) (FVal (VStr y)) challenge d)"
  using assms by (simp add: completion_of_def IdentityLinkCompletionEnvelope_def need_def opt_def)

lemma vc_date: "parse_iso8601 ''1970-01-01T00:00:00Z'' = Inr (Some 0)"
  by code_simp

lemma not_checked: "class_name c \<notin> {''VCProof'', ''VCClaim''} \<Longrightarrow> vc_checks (Instance c fs) = Inr ()"
  by (simp add: vc_checks_def)

lemma class_names:
  "class_name IdentityEnrollmentRequest = ''IdentityEnrollmentRequest''" "class_name SignatureProof = ''SignatureProof''"
  "class_name IdentityEnrollmentApproval = ''IdentityEnrollmentApproval''"
  "class_name IdentityEnrollmentApprovalProof = ''IdentityEnrollmentApprovalProof''"
  "class_name EntityBindingDescriptor = ''EntityBindingDescriptor''"
  "class_name IdentityPublicKeyDescriptor = ''IdentityPublicKeyDescriptor''" "class_name VCPresentation = ''VCPresentation''"
  "class_name IdentityLinkCompletionEnvelope = ''IdentityLinkCompletionEnvelope''"
  by (simp_all add: IdentityEnrollmentRequest_def SignatureProof_def IdentityEnrollmentApproval_def
      IdentityEnrollmentApprovalProof_def EntityBindingDescriptor_def IdentityPublicKeyDescriptor_def VCPresentation_def
      IdentityLinkCompletionEnvelope_def)

lemma proof_checked: "checked vc_checks (vc_proof ''1970-01-01T00:00:00Z'' purpose u s)"
  by (simp add: vc_proof_def vc_checks_def VCProof_def str_at_def path.simps attr_def vc_date refuse_def endswith_def)

lemma claim_checked: "checked vc_checks (claim_object cid kind did ''1970-01-01T00:00:00Z'' body u s)"
proof -
  let ?c = "claim_object cid kind did ''1970-01-01T00:00:00Z'' body u s"
  have "class_name (inst_class ?c) = ''VCClaim''" by (simp add: claim_object_def VCClaim_def)
  moreover have "attr ?c ''issuance_date'' = text_val ''1970-01-01T00:00:00Z''" by (simp add: claim_object_def attr_def)
  ultimately have "vc_checks ?c = Inr ()"
    by (simp add: vc_checks_def claim_attrs str_at_def path.simps refuse_def vc_date)
  then show ?thesis using proof_checked by (simp add: claim_object_def strs_val_def)
qed

lemma parts_checked: "checked vc_checks (descriptor v k)" "checked vc_checks join_binding" "checked vc_checks signed_request"
  "checked vc_checks (join_approval h (FVal (VBytes p)))"
proof -
  show d: "checked vc_checks (descriptor v k)" for v k by (simp add: descriptor_def not_checked class_names)
  show b: "checked vc_checks join_binding" by (simp add: join_binding_def not_checked class_names)
  show "checked vc_checks signed_request"
    by (simp add: signed_request_def run_sign_def replace_attr_def join_request_def new_proof_def not_checked class_names d b strs_val_def)
  show "checked vc_checks (join_approval h (FVal (VBytes p)))"
    by (simp add: join_approval_def approval_object_def not_checked class_names d b strs_val_def)
qed

lemma completion_checked:
  "checked vc_checks (completion_of signed_request (join_approval h (FVal (VBytes p)))
     (claim_object run_id CREDENTIAL_TYPE did ''1970-01-01T00:00:00Z'' body ''ida'' s)
     (presentation_object run_id PRESENTATION_TYPE holder [1] ''d'' bobs
       [claim_object run_id CREDENTIAL_TYPE did ''1970-01-01T00:00:00Z'' body ''ida'' s] ''1970-01-01T00:00:00Z'' ''bob'' r)
     ida (FVal a) (FVal b) [1] ''d'')"
  by (simp add: completion_of_def presentation_object_def not_checked class_names parts_checked claim_checked proof_checked
      strs_val_def)

lemma joined:
  "\<exists>pkg approval credential presentation h'.
    approve_enrollment run_crypto run_repr join_envelope ida (ed_sign run_crypto alice) 0 ''ap'' ''x'' None = Inr pkg
    \<and> attr pkg ''approval'' = Inr (FObj approval) \<and> attr pkg ''same_entity_credential'' = Inr (FObj credential)
    \<and> bind_and_sign run_repr [credential] bobs (ed_sign run_crypto bob) [1] ''d'' ''x'' 0 PRESENTATION_TYPE = Inr presentation
    \<and> attr approval ''jti'' = text_val ''ap''
    \<and> validate_enrollment_request run_crypto run_repr signed_request 60 = Inr h'
    \<and> in_time approval ''expires_at'' 60
    \<and> names_within approval ''approved_domains'' signed_request ''requested_domains''
    \<and> names_within approval ''approved_identity_contexts'' signed_request ''requested_identity_contexts''
    \<and> names_within approval ''approved_scopes'' signed_request ''requested_scopes''
    \<and> instance_ok IdentityLinkCompletionEnvelope (completion_of signed_request approval credential presentation ida
        (FVal (VStr ''a'')) (FVal (VStr ''o'')) [1] ''d'')
    \<and> attr approval ''approval_id'' = text_val ''ap''
    \<and> checked vc_checks (completion_of signed_request approval credential presentation ida
        (FVal (VStr ''a'')) (FVal (VStr ''o'')) [1] ''d'')"
proof -
  obtain h p body q pkg where j: "ascii_items body" "is_json_items body"
    "approve_enrollment run_crypto run_repr join_envelope ida (ed_sign run_crypto alice) 0 ''ap'' ''x'' None = Inr pkg"
    "attr pkg ''approval'' = Inr (FObj (join_approval h (FVal (VBytes (ed_sign run_crypto alice p)))))"
    "attr pkg ''same_entity_credential'' = Inr (FObj (claim_object run_id CREDENTIAL_TYPE (key_did run_crypto alice)
        ''1970-01-01T00:00:00Z'' (dset body ''id'' (VStr (key_did run_crypto bob))) ''ida'' (ed_sign run_crypto alice q)))"
    using join_approved by blast
  let ?a = "join_approval h (FVal (VBytes (ed_sign run_crypto alice p)))"
  let ?c = "claim_object run_id CREDENTIAL_TYPE (key_did run_crypto alice)
        ''1970-01-01T00:00:00Z'' (dset body ''id'' (VStr (key_did run_crypto bob))) ''ida'' (ed_sign run_crypto alice q)"
  obtain x where x: "bind_and_sign run_repr [?c] bobs (ed_sign run_crypto bob) [1] ''d'' ''x'' 0 PRESENTATION_TYPE
      = Inr (presentation_object run_id PRESENTATION_TYPE (key_did run_crypto bob) [1] ''d'' bobs [?c] ''1970-01-01T00:00:00Z''
          ''bob'' (ed_sign run_crypto bob x))" (is "_ = Inr ?m")
    using join_presented [OF j(1) refl] by blast
  obtain h' where h': "validate_enrollment_request run_crypto run_repr signed_request 60 = Inr h'"
    using request_validates [of 60] by auto
  note a = approval_attrs [OF join_approval_def, of h "FVal (VBytes (ed_sign run_crypto alice p))"]
  have t: "in_time ?a ''expires_at'' 60" unfolding in_time_def a(13) by (simp add: request_dates)
  have w: "names_within ?a ''approved_domains'' signed_request ''requested_domains''"
    "names_within ?a ''approved_identity_contexts'' signed_request ''requested_identity_contexts''"
    "names_within ?a ''approved_scopes'' signed_request ''requested_scopes''"
    unfolding names_within_def a(14-16) request_attrs by blast+
  have c: "instance_ok VCClaim ?c" by (rule claim_ok [OF is_json_dset [OF j(2)]]) simp
  have "instance_ok VCPresentation ?m" by (rule presentation_ok [OF c descriptor_ok])
  moreover have "instance_ok IdentityEnrollmentApproval ?a"
    unfolding join_approval_def by (rule approval_object_ok [OF join_values]) simp
  ultimately have "instance_ok IdentityLinkCompletionEnvelope (completion_of signed_request ?a ?c ?m ida
        (FVal (VStr ''a'')) (FVal (VStr ''o'')) [1] ''d'')"
    using completion_ok [OF join_signed(1) _ c _ descriptor_ok] by blast
  moreover have "checked vc_checks (completion_of signed_request ?a ?c ?m ida (FVal (VStr ''a'')) (FVal (VStr ''o'')) [1] ''d'')"
    by (rule completion_checked)
  ultimately show ?thesis using j(3-5) x a(2,8) h' t w by blast
qed

lemma join_setting: "''existingDevice'' \<in> set ISSUER_TYPES" "py_strip ''ap'' \<noteq> []" "''ap'' \<notin> set []" "''ida'' \<noteq> ''bob''"
proof -
  show "py_strip ''ap'' \<noteq> []" by code_simp
qed (simp_all add: ISSUER_TYPES_def)

lemma approved_extension_is_accepted_witness:
  "\<exists>approval credential presentation res. verify_completion run_crypto run_repr
     (completion_of signed_request approval credential presentation ida (FVal (VStr ''a'')) (FVal (VStr ''o'')) [1] ''d'')
     60 [] None = Inr res"
proof -
  obtain pkg approval credential presentation h where j:
    "approve_enrollment run_crypto run_repr join_envelope ida (ed_sign run_crypto alice) 0 ''ap'' ''x'' None = Inr pkg"
    "attr pkg ''approval'' = Inr (FObj approval)" "attr pkg ''same_entity_credential'' = Inr (FObj credential)"
    "bind_and_sign run_repr [credential] bobs (ed_sign run_crypto bob) [1] ''d'' ''x'' 0 PRESENTATION_TYPE = Inr presentation"
    "attr approval ''jti'' = text_val ''ap''" "validate_enrollment_request run_crypto run_repr signed_request 60 = Inr h"
    "in_time approval ''expires_at'' 60"
    "names_within approval ''approved_domains'' signed_request ''requested_domains''"
    "names_within approval ''approved_identity_contexts'' signed_request ''requested_identity_contexts''"
    "names_within approval ''approved_scopes'' signed_request ''requested_scopes''"
    using joined by (elim exE conjE) (rule that; assumption)
  have "\<exists>res. verify_completion run_crypto run_repr (completion_of signed_request approval credential presentation ida
      (FVal (VStr ''a'')) (FVal (VStr ''o'')) [1] ''d'') 60 [] None = Inr res"
    by (rule approved_extension_is_accepted [OF run_crypto_ok(1) honest_descriptor [OF run_keys(1)] honest_descriptor [OF run_keys(2)]
      join_setting(4) join_envelope_ok join_envelope_attrs(1,8,2) join_setting(1) request_attrs(3,7,8) j(1-5) join_setting(2,3)
      j(6,7) run_moments(3) j(8-10)])
  then obtain res where "verify_completion run_crypto run_repr (completion_of signed_request approval credential presentation ida
      (FVal (VStr ''a'')) (FVal (VStr ''o'')) [1] ''d'') 60 [] None = Inr res" by (elim exE)
  then show ?thesis by (intro exI)
qed

lemma completion_is_signed_and_bounded_witness:
  "\<exists>e res request. verify_completion run_crypto run_repr e 60 [] None = Inr res
     \<and> attr e ''request'' = Inr (FObj request) \<and> valid_proof run_crypto run_repr request bobs"
proof -
  obtain pkg approval credential presentation h where j:
    "approve_enrollment run_crypto run_repr join_envelope ida (ed_sign run_crypto alice) 0 ''ap'' ''x'' None = Inr pkg"
    "attr pkg ''approval'' = Inr (FObj approval)" "attr pkg ''same_entity_credential'' = Inr (FObj credential)"
    "bind_and_sign run_repr [credential] bobs (ed_sign run_crypto bob) [1] ''d'' ''x'' 0 PRESENTATION_TYPE = Inr presentation"
    "attr approval ''jti'' = text_val ''ap''" "validate_enrollment_request run_crypto run_repr signed_request 60 = Inr h"
    "in_time approval ''expires_at'' 60"
    "names_within approval ''approved_domains'' signed_request ''requested_domains''"
    "names_within approval ''approved_identity_contexts'' signed_request ''requested_identity_contexts''"
    "names_within approval ''approved_scopes'' signed_request ''requested_scopes''"
    and ok: "instance_ok IdentityLinkCompletionEnvelope (completion_of signed_request approval credential presentation ida
        (FVal (VStr ''a'')) (FVal (VStr ''o'')) [1] ''d'')"
    using joined by (elim exE conjE) (rule that; assumption)
  let ?e = "completion_of signed_request approval credential presentation ida (FVal (VStr ''a'')) (FVal (VStr ''o'')) [1] ''d''"
  have "\<exists>res. verify_completion run_crypto run_repr ?e 60 [] None = Inr res"
    by (rule honest_completion [OF run_crypto_ok(1) honest_descriptor [OF run_keys(1)] honest_descriptor [OF run_keys(2)]
      join_setting(4) join_envelope_ok join_envelope_attrs(1,8,2) join_setting(1) request_attrs(3,7,8) j(1-5) join_setting(2,3)
      j(6,7) run_moments(3) j(8-10)])
  then obtain res where res: "verify_completion run_crypto run_repr ?e 60 [] None = Inr res" by (elim exE)
  obtain request new where "attr ?e ''request'' = Inr (FObj request)" "attr request ''new_identity'' = Inr (FObj new)"
      "valid_proof run_crypto run_repr request new"
    using completion_is_signed_and_bounded [OF ok res] by blast
  then have "attr ?e ''request'' = Inr (FObj request)" "valid_proof run_crypto run_repr request bobs"
    by (simp_all add: completion_attrs request_attrs)
  with res show ?thesis by blast
qed

end
