(* ===== verification/Entity_Anchor.thy ===== *)
theory Entity_Anchor
  imports Genesis General_Cell
begin

text \<open>
  \<open>cells/entity_anchor.py\<close>: the cell that holds an entity. It is a base cell whose handlers keep the
  entity's data in the storage, seal the anchor to its owner, approve and complete the extension of
  the entity by another key, and revoke links. The operations act on the base cell's state; the
  clock is that of the process, fresh identifiers come from the world.

  An approval and a seal are built twice, since building takes a signer that returns at once and an
  identity signs asynchronously: once to learn what is to be signed, and once with the signatures.
  The text of an exception is the argument \<open>describe\<close>.
\<close>

subsection \<open>State\<close>

definition ENTITY_ROOTS :: "string list" where
  "ENTITY_ROOTS = [''person'', ''purposes'', ''relations'', ''proofs'', ''signedAgreementEntity'',
     ''entityRepresentation'', ''agreements'', ''chronicle'', ''bindings'', ''identityLinks'']"

definition IDENTITY_LINK_ACTIONS :: "string list" where
  "IDENTITY_LINK_ACTIONS = [''identityLinks.genesis'', ''identityLinks.approveEnrollment'',
     ''identityLinks.completeEnrollment'', ''identityLinks.revoke'']"

text \<open>The handler 0 reads, or writes an entity's data; the handler 1 performs the actions.\<close>

definition new_anchor :: "identity option \<Rightarrow> string \<Rightarrow> string \<Rightarrow> string \<Rightarrow> (string \<Rightarrow> string) \<Rightarrow> cell" where
  "new_anchor owner name uuid template_uuid grant_uuid =
     (let c = new_cell owner name uuid template_uuid in
      c\<lparr>cl_storage := dset (map (\<lambda>r. (r, VDict [])) ENTITY_ROOTS) ''chronicle'' (VList []),
        cl_agreement_template :=
          fold (\<lambda>r. add_grant ''rw--'' r (grant_uuid r)) ENTITY_ROOTS (cl_agreement_template c),
        cl_get_handlers := fold (\<lambda>r hs. dset hs r 0) ENTITY_ROOTS (cl_get_handlers c),
        cl_set_handlers := fold (\<lambda>a hs. dset hs a 1) (IDENTITY_LINK_ACTIONS @ [''entity.batchPersist''])
          (fold (\<lambda>r hs. dset hs r 0) ENTITY_ROOTS (cl_set_handlers c))\<rparr>)"

definition descriptor_for :: "identity option \<Rightarrow> instance option res" where
  "descriptor_for requester =
     (case requester of None \<Rightarrow> Inr None | Some i \<Rightarrow>
        (case Option.bind (i_publicSecureKey i) b64decode_strict of None \<Rightarrow> Inr None | Some raw \<Rightarrow>
          rbind (new_object IdentityPublicKeyDescriptor
              [(''uuid'', FVal (VStr (i_uuid i))), (''public_key'', FVal (VBytes raw)),
               (''display_name'', FVal (VStr (i_displayName i)))]) (\<lambda>d. Inr (Some d))))"

subsection \<open>Signing\<close>

definition sign_message :: "identity \<Rightarrow> bytes \<Rightarrow> bytes cell_act" where
  "sign_message i message = (\<lambda>(c, w).
     let (r, s') = Identity_sign (w_outside w) i message (w_store w) in (r, (c, w\<lparr>w_store := s'\<rparr>)))"

fun sign_all :: "identity \<Rightarrow> bytes list \<Rightarrow> (bytes \<times> bytes) list cell_act" where
  "sign_all i [] = aret []"
| "sign_all i (p # ps) = abind (sign_message i p) (\<lambda>s. abind (sign_all i ps) (\<lambda>sigs. aret ((p, s) # sigs)))"

text \<open>
  \<open>asked\<close> gives what the first run asked to have signed: the payloads of the pieces it built, which
  leave their proofs out.
\<close>

definition with_identity_signer ::
    "identity \<Rightarrow> ('a \<Rightarrow> bytes list) \<Rightarrow> ((bytes \<Rightarrow> bytes) \<Rightarrow> 'a res) \<Rightarrow> 'a cell_act" where
  "with_identity_signer i asked build =
     abind (alift (build (\<lambda>_. replicate 64 0))) (\<lambda>draft.
     abind (sign_all i (asked draft)) (\<lambda>sigs.
       alift (build (\<lambda>payload. the (map_of (rev sigs) payload)))))"

definition payloads :: "bytes res list \<Rightarrow> bytes list" where
  "payloads rs = List.map_filter (\<lambda>r. case r of Inr p \<Rightarrow> Some p | Inl e \<Rightarrow> None) rs"

definition asked_for_seal :: "(rat \<Rightarrow> string) \<Rightarrow> instance \<times> instance \<Rightarrow> bytes list" where
  "asked_for_seal frepr = (\<lambda>(seal, r). payloads [model_payload frepr seal])"

definition asked_for_approval :: "(rat \<Rightarrow> string) \<Rightarrow> instance \<Rightarrow> bytes list" where
  "asked_for_approval frepr package =
     payloads [rbind (obj_at package [''approval'']) (model_payload frepr),
               rbind (obj_at package [''same_entity_credential'']) (claim_bytes frepr)]"

subsection \<open>Reads and plain writes\<close>

text \<open>\<open>self._storage.setdefault("identityLinks", {})\<close>, which is then read as a dict.\<close>

definition links :: "pyval dict cell_act" where
  "links =
     abind (mod_cell (\<lambda>c. if dget (cl_storage c) ''identityLinks'' = None
       then c\<lparr>cl_storage := dset (cl_storage c) ''identityLinks'' (VDict [])\<rparr> else c)) (\<lambda>_.
     abind (the_cell (\<lambda>c. getn (cl_storage c) ''identityLinks'')) (\<lambda>v.
       case v of VDict d \<Rightarrow> aret d | _ \<Rightarrow> athrow AttributeError))"

definition read_seal :: "pyval \<Rightarrow> instance option res" where
  "read_seal v =
     (case v of
        VDict d \<Rightarrow> (case from_wire EntityGenesisSeal v of
            Inr m \<Rightarrow> Inr (Some m)
          | Inl e \<Rightarrow> if is_value_error e \<or> e = TypeError then Inr None else Inl e)
      | _ \<Rightarrow> Inr None)"

definition genesis_seal :: "instance option cell_act" where
  "genesis_seal = abind links (\<lambda>d. alift (read_seal (getn d ''genesis'')))"

definition get_entity :: "string \<Rightarrow> identity option \<Rightarrow> pyval cell_act" where
  "get_entity keypath requester =
     (if keypath \<in> {''identityLinks'', ''identityLinks.state''} then
        abind links (\<lambda>d. abind genesis_seal (\<lambda>seal. aret (VDict
          [(''status'', VStr ''ready''), (''sealed'', VBool (seal \<noteq> None)), (''genesis'', getn d ''genesis''),
           (''records'', getd d ''records'' (VDict [])), (''usedApprovalJTIs'', getd d ''usedApprovalJTIs'' (VDict [])),
           (''summary'', VStr ''EntityAnchor identityLinks er klar for approveEnrollment, completeEnrollment og revoke.'')])))
      else abind (the_cell (\<lambda>c. get_keypath (VDict (cl_storage c)) keypath)) alift)"

definition push_entity_event :: "string \<Rightarrow> pyval \<Rightarrow> string \<Rightarrow> unit cell_act" where
  "push_entity_event keypath v topic =
     abind fresh_uuid (\<lambda>u. abind (the_cell cl_uuid) (\<lambda>origin.
       push_flow_element
         \<lparr>f_title = (if topic = ''entity.identityLinks'' then ''Identity link update'' else ''PDS update''),
          f_content = VDict [(''keypath'', VStr keypath), (''data'', v), (''status'', VStr ''persisted'')],
          f_properties = VDict [(''type'', VStr ''content''), (''contentType'', VStr ''object'')],
          f_topic = Some topic, f_origin = Some origin, f_id = u\<rparr>))"

definition link_error :: "string \<Rightarrow> string \<Rightarrow> string option \<Rightarrow> pyval" where
  "link_error keypath code detail = VDict
     ([(''status'', VStr ''error''), (''keypath'', VStr keypath), (''code'', VStr code), (''message'', VStr code)]
      @ (case detail of Some (ch # s) \<Rightarrow> [(''detail'', VStr (ch # s))] | _ \<Rightarrow> []))"

text \<open>The keypath of the record that goes with a seal.\<close>

definition is_seal_record :: "instance option \<Rightarrow> string \<Rightarrow> bool res" where
  "is_seal_record seal keypath =
     (case seal of
        None \<Rightarrow> Inr False
      | Some m \<Rightarrow> if \<not> startswith keypath (RECORDS_KEYPATH @ ''.'') then Inr False
                  else rbind (str_at m [''link_id'']) (\<lambda>l. Inr (keypath = record_keypath l)))"

definition set_entity :: "string \<Rightarrow> pyval \<Rightarrow> identity option \<Rightarrow> pyval cell_act" where
  "set_entity keypath v requester =
     (if is_immutable_genesis_keypath keypath then aret (link_error keypath ''genesisKeypathIsImmutable'' None)
      else abind genesis_seal (\<lambda>seal. abind (alift (is_seal_record seal keypath)) (\<lambda>protected.
        if protected then aret (link_error keypath ''genesisKeypathIsImmutable'' None)
        else abind (set_storage keypath v) (\<lambda>_.
          abind (push_entity_event keypath v
            (if startswith keypath ''identityLinks'' then ''entity.identityLinks'' else ''entity'')) (\<lambda>_.
            aret (VDict [(''status'', VStr ''stored''), (''keypath'', VStr keypath)]))))))"

subsection \<open>Genesis\<close>

definition wire_of :: "instance \<Rightarrow> pyval cell_act" where
  "wire_of m = alift (rbind (to_wire m) (\<lambda>d. Inr (VDict d)))"

text \<open>A seal is built and signed, and then stored with the record that goes with it.\<close>

definition build_genesis :: "(rat \<Rightarrow> string) \<Rightarrow> identity option \<Rightarrow> string \<Rightarrow> (instance \<times> instance) cell_act" where
  "build_genesis frepr requester trigger =
     abind (alift (descriptor_for requester)) (\<lambda>d. case d of
         None \<Rightarrow> athrow (LinkFailure ''initiatorHasNoSigningKey'')
       | Some initiator \<Rightarrow>
     abind now (\<lambda>t. abind (the_cell id) (\<lambda>c.
       with_identity_signer (the requester) (asked_for_seal frepr) (\<lambda>sign.
         seal_genesis frepr (cl_uuid c) initiator sign
           (case cl_identity_domain c of Some (ch # s) \<Rightarrow> ch # s | _ \<Rightarrow> ''private'') trigger t))))"

definition store_genesis :: "instance \<Rightarrow> instance \<Rightarrow> unit cell_act" where
  "store_genesis seal r =
     abind (wire_of seal) (\<lambda>seal_wire. abind (wire_of r) (\<lambda>record_wire.
     abind (alift (str_at r [''link_id''])) (\<lambda>link_id.
     abind (set_storage SEAL_KEYPATH seal_wire) (\<lambda>_.
     abind (set_storage (record_keypath link_id) record_wire) (\<lambda>_.
     abind (set_storage (''proofs.identityLinks.'' @ safe_record_key link_id)
       (VDict [(''record'', record_wire), (''seal'', seal_wire)])) (\<lambda>_.
       push_entity_event SEAL_KEYPATH seal_wire ''entity.identityLinks''))))))"

definition perform_genesis :: "(rat \<Rightarrow> string) \<Rightarrow> identity option \<Rightarrow> string \<Rightarrow> (instance \<times> instance) cell_act" where
  "perform_genesis frepr requester trigger =
     abind genesis_seal (\<lambda>existing. if existing \<noteq> None then athrow (LinkFailure ''alreadySealed'') else
     abind (build_genesis frepr requester trigger) (\<lambda>(seal, r).
     abind (store_genesis seal r) (\<lambda>_. aret (seal, r))))"

definition genesis_trigger :: "pyval \<Rightarrow> string" where
  "genesis_trigger payload =
     (case (case payload of VDict d \<Rightarrow> getn d ''trigger'' | _ \<Rightarrow> payload) of
        VStr s \<Rightarrow> (if s \<in> set GENESIS_TRIGGERS then s else ''firstPersist'')
      | _ \<Rightarrow> ''firstPersist'')"

definition genesis :: "(rat \<Rightarrow> string) \<Rightarrow> pyval \<Rightarrow> identity option \<Rightarrow> pyval cell_act" where
  "genesis frepr payload requester =
     abind genesis_seal (\<lambda>existing. if existing \<noteq> None then athrow (LinkFailure ''alreadySealed'') else
     abind (the_cell cl_owner) (\<lambda>owner. abind (prove requester owner) (\<lambda>proven.
     if \<not> proven then athrow (LinkFailure ''initiatorIsNotOwner'') else
     abind (perform_genesis frepr requester (genesis_trigger payload)) (\<lambda>(seal, r).
     abind (wire_of seal) (\<lambda>seal_wire. abind (wire_of r) (\<lambda>record_wire.
       aret (VDict [(''status'', VStr ''sealed''), (''seal'', seal_wire), (''record'', record_wire)])))))))"

subsection \<open>Batches\<close>

definition failed :: "string \<Rightarrow> pyval" where
  "failed e = VDict [(''status'', VStr ''failed''), (''error'', VStr e)]"

definition mutation_of :: "pyval \<Rightarrow> (string \<times> pyval) option" where
  "mutation_of m =
     (case m of
        VDict d \<Rightarrow> (case (getn d ''keypath'', dget d ''value'') of (VStr k, Some v) \<Rightarrow> Some (k, v) | _ \<Rightarrow> None)
      | _ \<Rightarrow> None)"

text \<open>The paths written, or the answer that ends the batch after what was written before it.\<close>

fun persist_mutations :: "pyval list \<Rightarrow> (pyval + string list) cell_act" where
  "persist_mutations [] = aret (Inr [])"
| "persist_mutations (m # ms) =
     (case mutation_of m of
        None \<Rightarrow> aret (Inl (failed ''invalid mutation''))
      | Some (k, v) \<Rightarrow>
          if is_immutable_genesis_keypath k then aret (Inl (failed ''genesisKeypathIsImmutable''))
          else abind (set_storage k v) (\<lambda>_. abind (persist_mutations ms) (\<lambda>r. aret (map_sum id ((#) k) r))))"

definition batch_persist :: "(rat \<Rightarrow> string) \<Rightarrow> pyval \<Rightarrow> identity option \<Rightarrow> pyval cell_act" where
  "batch_persist frepr payload requester =
     (case (case payload of VDict d \<Rightarrow> (getn d ''schema'', getn d ''mutations'') | _ \<Rightarrow> (VNull, VNull)) of
        (VStr schema, VList ms) \<Rightarrow>
          abind (the_cell cl_owner) (\<lambda>owner.
          abind (if owner \<noteq> None then prove requester owner else aret True) (\<lambda>owner_proven.
          if \<not> owner_proven then aret (failed ''requesterMismatch'') else
          abind (if owner = None then aret () else
              abind genesis_seal (\<lambda>seal. if seal \<noteq> None then aret ()
                else abind (perform_genesis frepr requester ''firstPersist'') (\<lambda>_. aret ()))) (\<lambda>_.
          abind (persist_mutations ms) (\<lambda>r. case r of
              Inl answer \<Rightarrow> aret answer
            | Inr paths \<Rightarrow>
                let response = VDict [(''status'', VStr ''persisted''), (''schema'', VStr schema),
                                      (''persistedPaths'', VList (map VStr paths))]
                in abind (push_entity_event ''entity.batchPersist'' response ''entity'') (\<lambda>_. aret response)))))
      | _ \<Rightarrow> aret (failed ''invalid entity.batchPersist envelope''))"

subsection \<open>Enrollment\<close>

definition approve :: "(rat \<Rightarrow> string) \<Rightarrow> pyval \<Rightarrow> identity option \<Rightarrow> pyval cell_act" where
  "approve frepr payload requester =
     abind (alift (read_link IdentityLinkApprovalEnvelope payload)) (\<lambda>envelope.
     abind (alift (descriptor_for requester)) (\<lambda>d. case d of
         None \<Rightarrow> athrow (LinkFailure ''missingRequiredContext'')
       | Some issuer \<Rightarrow>
     abind now (\<lambda>t. abind fresh_uuid (\<lambda>approval_id. abind fresh_uuid (\<lambda>credential_uuid.
     abind (aget (\<lambda>(c, w). o_crypto (w_outside w))) (\<lambda>cr.
     abind (with_identity_signer (the requester) (asked_for_approval frepr) (\<lambda>sign.
         approve_enrollment cr frepr envelope issuer sign t approval_id credential_uuid None)) (\<lambda>package.
     abind (wire_of package) (\<lambda>package_wire.
     abind (alift (str_at package [''approval'', ''approval_id''])) (\<lambda>aid.
     let keypath = ''identityLinks.approvals.'' @ safe_record_key aid in
     abind (set_storage keypath package_wire) (\<lambda>_.
     abind (push_entity_event keypath package_wire ''entity.identityLinks'') (\<lambda>_.
       aret (VDict [(''status'', VStr ''approved''), (''approvalID'', VStr aid),
                    (''approvalPackage'', package_wire)]))))))))))))"

text \<open>\<open>{value if isinstance(value, str) else key for key, value in used.items()}\<close>\<close>

definition jtis_of :: "pyval \<Rightarrow> string list" where
  "jtis_of v =
     (case v of VDict d \<Rightarrow> map (\<lambda>(k, x). case x of VStr s \<Rightarrow> s | _ \<Rightarrow> k) d | _ \<Rightarrow> [])"

definition used_approval_jtis :: "string list cell_act" where
  "used_approval_jtis = abind links (\<lambda>d. aret (jtis_of (getd d ''usedApprovalJTIs'' (VDict []))))"

text \<open>A completion: what is checked, and what is then recorded.\<close>

definition check_completion :: "(rat \<Rightarrow> string) \<Rightarrow> pyval \<Rightarrow> CompletionResult cell_act" where
  "check_completion frepr payload =
     abind (alift (read_link IdentityLinkCompletionEnvelope payload)) (\<lambda>envelope.
     abind now (\<lambda>t. abind used_approval_jtis (\<lambda>used.
     abind (aget (\<lambda>(c, w). o_crypto (w_outside w))) (\<lambda>cr.
       alift (verify_completion cr frepr envelope t used None)))))"

definition record_completion :: "CompletionResult \<Rightarrow> pyval cell_act" where
  "record_completion result =
     abind (wire_of (link_record result)) (\<lambda>record_wire.
     abind (alift (str_at (link_record result) [''link_id''])) (\<lambda>link_id.
     abind (alift (str_at (link_record result) [''linked_at''])) (\<lambda>linked_at.
     let record_key = safe_record_key link_id;
         record_path = ''identityLinks.records.'' @ record_key;
         proof_path = ''proofs.identityLinks.'' @ record_key in
     abind (set_storage record_path record_wire) (\<lambda>_.
     abind (set_storage proof_path (VDict
       [(''record'', record_wire), (''requestHash'', VStr (b64encode (link_request_hash result))),
        (''approvalJTI'', VStr (approval_jti result)), (''credentialID'', VStr (credential_id result)),
        (''presentationID'', VStr (presentation_id result)), (''completedAt'', VStr linked_at)])) (\<lambda>_.
     abind (set_storage (''identityLinks.usedApprovalJTIs.'' @ safe_record_key (approval_jti result))
       (VStr (approval_jti result))) (\<lambda>_.
     abind (push_entity_event record_path record_wire ''entity.identityLinks'') (\<lambda>_.
       aret (VDict [(''status'', VStr ''completed''), (''record'', record_wire), (''recordKeypath'', VStr record_path),
                    (''proofKeypath'', VStr proof_path), (''approvalJTI'', VStr (approval_jti result))]))))))))"

definition complete :: "(rat \<Rightarrow> string) \<Rightarrow> pyval \<Rightarrow> identity option \<Rightarrow> pyval cell_act" where
  "complete frepr payload requester = abind (check_completion frepr payload) record_completion"

text \<open>The link a revocation names: the payload, or its \<open>linkID\<close>.\<close>

definition revoked_link_id :: "pyval \<Rightarrow> string res" where
  "revoked_link_id payload =
     (case (case payload of VDict d \<Rightarrow> getn d ''linkID'' | _ \<Rightarrow> payload) of
        VStr s \<Rightarrow> Inr s
      | _ \<Rightarrow> Inl (LinkFailure ''missingRequiredContext''))"

text \<open>The record of a stored link marked as revoked.\<close>

definition revoked_record :: "pyval \<Rightarrow> rat \<Rightarrow> instance res" where
  "revoked_record stored t =
     (case stored of
        VDict d \<Rightarrow> rbind (from_wire IdentityLinkRecord stored) (\<lambda>link. rbind (iso8601 t) (\<lambda>date.
          Inr (replace_attr ''revoked_at'' (FVal (VStr date))
                (replace_attr ''status'' (FVal (VStr ''revoked'')) link))))
      | _ \<Rightarrow> Inl (LinkFailure ''recordNotFound''))"

definition revoke :: "pyval \<Rightarrow> identity option \<Rightarrow> pyval cell_act" where
  "revoke payload requester =
     abind (alift (revoked_link_id payload)) (\<lambda>link_id.
     if is_genesis_link link_id then athrow (LinkFailure ''cannotRevokeGenesisLink'') else
     let record_key = safe_record_key link_id; record_path = ''identityLinks.records.'' @ record_key in
     abind (the_cell (\<lambda>c. get_keypath (VDict (cl_storage c)) record_path)) (\<lambda>r. abind (alift r) (\<lambda>stored.
     abind now (\<lambda>t. abind (alift (revoked_record stored t)) (\<lambda>link. abind (wire_of link) (\<lambda>record_wire.
     abind (set_storage record_path record_wire) (\<lambda>_.
     abind (set_storage (''proofs.identityLinks.'' @ record_key @ ''.record'') record_wire) (\<lambda>_.
     abind (push_entity_event record_path record_wire ''entity.identityLinks'') (\<lambda>_.
       aret (VDict [(''status'', VStr ''revoked''), (''record'', record_wire),
                    (''recordKeypath'', VStr record_path)]))))))))))"

subsection \<open>The handlers\<close>

text \<open>What the handler answers to an exception of an action; the others are not caught.\<close>

definition answer_failure :: "(exc \<Rightarrow> string) \<Rightarrow> string \<Rightarrow> exc \<Rightarrow> pyval cell_act" where
  "answer_failure describe keypath e =
     (case e of
        LinkFailure code \<Rightarrow> aret (link_error keypath code None)
      | VerificationFailure code \<Rightarrow> aret (link_error keypath code None)
      | _ \<Rightarrow> if is_value_error e \<or> e \<in> {TypeError, KeyError, KeyPathError}
             then aret (link_error keypath ''bad_payload'' (Some (describe e))) else athrow e)"

definition set_entity_action ::
    "(rat \<Rightarrow> string) \<Rightarrow> (exc \<Rightarrow> string) \<Rightarrow> string \<Rightarrow> pyval \<Rightarrow> identity option \<Rightarrow> pyval cell_act" where
  "set_entity_action frepr describe keypath v requester =
     (if keypath \<notin> set IDENTITY_LINK_ACTIONS \<and> keypath \<noteq> ''entity.batchPersist'' then set_entity keypath v requester
      else abind (alift (from_json_value v)) (\<lambda>payload.
        if keypath = ''entity.batchPersist'' then batch_persist frepr payload requester
        else acatch
          (if keypath = ''identityLinks.genesis'' then genesis frepr payload requester
           else if keypath = ''identityLinks.approveEnrollment'' then approve frepr payload requester
           else if keypath = ''identityLinks.completeEnrollment'' then complete frepr payload requester
           else revoke payload requester)
          (answer_failure describe keypath)))"

definition anchor_handlers :: "(rat \<Rightarrow> string) \<Rightarrow> (exc \<Rightarrow> string) \<Rightarrow> handlers" where
  "anchor_handlers frepr describe =
     \<lparr>h_get = (\<lambda>n. get_entity),
      h_set = (\<lambda>n. if n = 0 then set_entity else set_entity_action frepr describe)\<rparr>"

end
