(* ===== verification/Anchor_Safety.thy ===== *)
theory Anchor_Safety
  imports Entity_Anchor Link_Safety
begin

text \<open>
  What an entity anchor keeps: a write leaves what diverging keypaths read as it was, so no action
  and no plain write below another keypath changes the genesis seal, and a completed approval stays
  among the used ones.
\<close>

subsection \<open>Keypaths of keys\<close>

definition key_tokens :: "string list \<Rightarrow> token list" where
  "key_tokens ks = map TKey ks"

definition dotted :: "string list \<Rightarrow> string" where
  "dotted ks = join_with ''.'' ks"

lemma render_keys: "render (key_tokens ks) = concat (map ((#) CHR ''.'') ks)"
  by (induction ks) (simp_all add: render_def key_tokens_def)

lemma dotted_render: "dotted (k # ks) = k @ render (key_tokens ks)"
  by (induction ks arbitrary: k) (simp_all add: dotted_def render_keys)

lemma parse_from_key:
  assumes "key_ok k" "\<forall>t \<in> set ts. token_ok t"
  shows "parse_keypath (k @ render ts) = Inr (TKey k # ts)"
proof -
  have k: "k \<noteq> []" "\<forall>c \<in> set k. c \<noteq> CHR ''.'' \<and> c \<noteq> CHR ''[''" "\<forall>c \<in> set k. solid c"
    using assms(1) by (auto simp: key_ok_def)
  have "parse_loop [] (k @ render ts) = Inr (TKey k # ts)"
    using parse_loop_flush [OF token_start_render [OF assms(2)], of k] parse_loop_segment [OF k(2), of "[]" "render ts"]
      parse_render_loop [OF assms(2)] k(1)
    by (simp add: flush_def)
  moreover have "py_strip (k @ render ts) = k @ render ts"
  proof (cases ts rule: rev_cases)
    case Nil
    then show ?thesis using k by (simp add: py_strip_id render_def)
  next
    case (snoc us u)
    have "render ts \<noteq> [] \<and> solid (last (render ts))"
      using render_token_ends [of u] snoc assms(2) by (auto simp: render_def)
    then show ?thesis using k by (simp add: py_strip_id)
  qed
  ultimately show ?thesis by (simp add: parse_keypath_def)
qed

lemma parse_dotted:
  assumes "ks \<noteq> []" "\<forall>k \<in> set ks. key_ok k"
  shows "parse_keypath (dotted ks) = Inr (key_tokens ks)"
proof -
  obtain k ks' where ks: "ks = k # ks'" using assms(1) by (cases ks) auto
  have "\<forall>t \<in> set (key_tokens ks'). token_ok t" using assms(2) ks by (auto simp: key_tokens_def)
  from parse_from_key [OF _ this, of k] show ?thesis
    using assms(2) unfolding ks dotted_render by (simp add: key_tokens_def)
qed

lemma key_char_ok: "key_char c \<Longrightarrow> c \<noteq> CHR ''.'' \<and> c \<noteq> CHR ''['' \<and> solid c"
  by (auto simp: key_char_def solid_def Let_def is_space_def)

lemma safe_key_ok: "safe_record_key l \<noteq> [] \<Longrightarrow> key_ok (safe_record_key l)"
  using safe_record_key_safe [of l] key_char_ok by (auto simp: key_ok_def list_all_iff)

text \<open>The keypaths the actions write, whose last key may be empty.\<close>

definition last_key :: "string \<Rightarrow> token list" where
  "last_key k = (if k = [] then [] else [TKey k])"

lemma parse_under:
  assumes "key_ok a" "key_ok b"
  shows "parse_keypath (a @ ''.'' @ b @ ''.'' @ safe_record_key l) = Inr (TKey a # TKey b # last_key (safe_record_key l))"
    "parse_keypath (a @ ''.'' @ b @ ''.'' @ safe_record_key l @ ''.record'')
      = Inr (TKey a # TKey b # last_key (safe_record_key l) @ [TKey ''record''])"
proof -
  let ?k = "safe_record_key l"
  have rk: "key_ok ''record''" by (simp add: key_ok_def solid_def is_space_def)
  have a: "a \<noteq> []" "\<forall>c \<in> set a. c \<noteq> CHR ''.'' \<and> c \<noteq> CHR ''['' \<and> solid c"
    and b: "b \<noteq> []" "\<forall>c \<in> set b. c \<noteq> CHR ''.'' \<and> c \<noteq> CHR ''['' \<and> solid c"
    using assms by (auto simp: key_ok_def)
  have seg: "parse_loop [] (a @ CHR ''.'' # s) = rbind (parse_loop [] s) (\<lambda>ts. Inr (TKey a # ts))" if "a \<noteq> []"
    "\<forall>c \<in> set a. c \<noteq> CHR ''.'' \<and> c \<noteq> CHR ''['' \<and> solid c" for a s
    using parse_loop_segment [of a "[]" "CHR ''.'' # s"] that by (auto simp: flush_def)
  have strip: "py_strip (a @ s) = a @ s" if "s \<noteq> [] \<Longrightarrow> solid (last s)" for s
    by (rule py_strip_id) (use a that in \<open>auto simp: last_append\<close>)
  show "parse_keypath (a @ ''.'' @ b @ ''.'' @ ?k) = Inr (TKey a # TKey b # last_key ?k)"
  proof (cases "?k = []")
    case True
    have "py_strip (a @ ''.'' @ b @ ''.'') = a @ ''.'' @ b @ ''.''"
      by (rule strip) (simp add: solid_def is_space_def)
    then show ?thesis using seg [OF a, of "b @ ''.''"] seg [OF b, of "[]"] True
      by (simp add: parse_keypath_def last_key_def flush_def)
  next
    case False
    with parse_dotted [of "[a, b, ?k]"] assms safe_key_ok [OF False] show ?thesis
      by (simp add: dotted_def key_tokens_def last_key_def)
  qed
  show "parse_keypath (a @ ''.'' @ b @ ''.'' @ ?k @ ''.record'') = Inr (TKey a # TKey b # last_key ?k @ [TKey ''record''])"
  proof (cases "?k = []")
    case True
    have "py_strip (a @ ''.'' @ b @ ''..record'') = a @ ''.'' @ b @ ''..record''"
      by (rule strip) (simp add: solid_def is_space_def)
    moreover have "parse_loop [] ''.record'' = Inr [TKey ''record'']" by code_simp
    ultimately show ?thesis using seg [OF a, of "b @ ''..record''"] seg [OF b, of "''.record''"] True
      by (simp add: parse_keypath_def last_key_def)
  next
    case False
    with parse_dotted [of "[a, b, ?k, ''record'']"] assms safe_key_ok [OF False] rk show ?thesis
      by (simp add: dotted_def key_tokens_def last_key_def)
  qed
qed

lemma anchor_keys_ok:
  "key_ok ''identityLinks''" "key_ok ''records''" "key_ok ''proofs''" "key_ok ''approvals''" "key_ok ''usedApprovalJTIs''"
  "key_ok ''genesis''"
  by (simp_all add: key_ok_def solid_def is_space_def)

lemma anchor_paths:
  "parse_keypath SEAL_KEYPATH = Inr [TKey ''identityLinks'', TKey ''genesis'']"
  "parse_keypath (record_keypath l) = Inr (TKey ''identityLinks'' # TKey ''records'' # last_key (safe_record_key l))"
  "parse_keypath (''identityLinks.records.'' @ safe_record_key l)
    = Inr (TKey ''identityLinks'' # TKey ''records'' # last_key (safe_record_key l))"
  "parse_keypath (''identityLinks.approvals.'' @ safe_record_key l)
    = Inr (TKey ''identityLinks'' # TKey ''approvals'' # last_key (safe_record_key l))"
  "parse_keypath (''identityLinks.usedApprovalJTIs.'' @ safe_record_key l)
    = Inr (TKey ''identityLinks'' # TKey ''usedApprovalJTIs'' # last_key (safe_record_key l))"
  "parse_keypath (''proofs.identityLinks.'' @ safe_record_key l)
    = Inr (TKey ''proofs'' # TKey ''identityLinks'' # last_key (safe_record_key l))"
  "parse_keypath (''proofs.identityLinks.'' @ safe_record_key l @ ''.record'')
    = Inr (TKey ''proofs'' # TKey ''identityLinks'' # last_key (safe_record_key l) @ [TKey ''record''])"
  using parse_dotted [of "[''identityLinks'', ''genesis'']"]
    parse_under [of "''identityLinks''" "''records''" l] parse_under [of "''identityLinks''" "''approvals''" l]
    parse_under [of "''identityLinks''" "''usedApprovalJTIs''" l] parse_under [of "''proofs''" "''identityLinks''" l]
  by (simp_all add: anchor_keys_ok dotted_def key_tokens_def SEAL_KEYPATH_def record_keypath_def RECORDS_KEYPATH_def)

subsection \<open>What a write leaves as it was\<close>

definition holds_at :: "token list \<Rightarrow> pyval \<Rightarrow> cell \<times> world \<Rightarrow> bool" where
  "holds_at ts v = (\<lambda>(c, w). get_tokens (VDict (cl_storage c)) ts = Inr v)"

lemma set_tokens_dict: "fst (set_tokens (VDict d) ts v) = VDict (dict_of (fst (set_tokens (VDict d) ts v)))"
  by (cases ts; cases "tl ts"; cases "hd ts") (auto simp: dict_of_def split: sum.splits prod.splits)

lemma set_keypath_dict: "fst (set_keypath (VDict d) p v) = VDict (dict_of (fst (set_keypath (VDict d) p v)))"
  using set_tokens_dict [of d _ v]
  by (auto simp: set_keypath_def dict_of_def split: sum.splits list.splits prod.splits option.splits) (metis fst_conv)+

lemma set_storage_run: "set_storage p v (c, w) =
    (map_sum id (\<lambda>_. ()) (snd (set_keypath (VDict (cl_storage c)) p v)),
     (c\<lparr>cl_storage := dict_of (fst (set_keypath (VDict (cl_storage c)) p v))\<rparr>, w))"
  by (simp add: set_storage_def act_simps alift_def abind_def aret_def split: prod.splits sum.splits)

lemma set_keypath_tokens:
  "parse_keypath p = Inr (s # ss) \<Longrightarrow> fst (set_keypath cur p v) = fst (set_tokens cur (s # ss) v)"
  by (simp add: set_keypath_def split: prod.splits option.splits)

lemma keeps_write:
  assumes "parse_keypath p = Inr ss" "diverge ss ts" "\<forall>t \<in> set ss \<union> set ts. plain t"
  shows "keeps_prop (holds_at ts x) (set_storage p v)"
proof -
  obtain s ss' where ss: "ss = s # ss'" using diverge_nonempty [OF assms(2)] by (cases ss) auto
  have "get_tokens (fst (set_keypath (VDict d) p v)) ts = Inr x" if "get_tokens (VDict d) ts = Inr x" for d
    using set_tokens_frame [OF assms(2,3) that] set_keypath_tokens [OF assms(1) [unfolded ss], of "VDict d" v] ss by simp
  then show ?thesis using set_keypath_dict [of _ p v]
    by (auto simp: keeps_prop_def holds_at_def set_storage_run)
qed

text \<open>Operations that do not write to the storage, and \<open>links\<close>, which only adds what was missing.\<close>

lemma keeps_quiet [act_keeps]:
  "keeps_prop (holds_at ts x) (push_entity_event keypath v topic)" "keeps_prop (holds_at ts x) (prove requester expected)"
  "keeps_prop (holds_at ts x) (sign_message i message)" "keeps_prop (holds_at ts x) fresh_uuid"
  "keeps_prop (holds_at ts x) now" "keeps_prop (holds_at ts x) (the_cell f)" "keeps_prop (holds_at ts x) (wire_of m)"
  by (auto simp: keeps_prop_def holds_at_def push_entity_event_def prove_def sign_message_def fresh_uuid_run
      push_flow_element_def act_simps abind_def wire_of_def alift_def the_cell_run mod_cell_run now_run
      split: prod.splits sum.splits)

lemma keeps_sign_all [act_keeps]: "keeps_prop (holds_at ts x) (sign_all i ps)"
  by (induction ps) (auto intro!: act_keeps)

lemma keeps_signer [act_keeps]: "keeps_prop (holds_at ts x) (with_identity_signer i asked build)"
  unfolding with_identity_signer_def by (intro act_keeps)

text \<open>While something is read below \<open>identityLinks\<close>, it is there and is a dict.\<close>

abbreviation at_links :: "string \<Rightarrow> string list \<Rightarrow> token list" where
  "at_links k ks \<equiv> TKey ''identityLinks'' # TKey k # map TKey ks"

lemma holds_links:
  assumes "holds_at (at_links k ks) x (c, w)"
  shows "\<exists>d. links (c, w) = (Inr d, (c, w)) \<and> get_tokens (VDict d) (TKey k # map TKey ks) = Inr x"
  using assms
  by (auto simp: holds_at_def links_def abind_def act_simps the_cell_run mod_cell_run getn_def rbind_Inr_iff
      split: option.splits pyval.splits)

lemma keeps_links [act_keeps]: "keeps_prop (holds_at (at_links k ks) x) links"
  unfolding keeps_prop_def using holds_links by fastforce

lemma keeps_seal [act_keeps]: "keeps_prop (holds_at (at_links k ks) x) genesis_seal"
  unfolding genesis_seal_def by (intro act_keeps)

lemma keeps_if: "keeps_prop P f \<Longrightarrow> keeps_prop P g \<Longrightarrow> keeps_prop P (if b then f else g)"
  by simp

lemma keeps_option:
  "keeps_prop P f \<Longrightarrow> (\<And>x. keeps_prop P (g x)) \<Longrightarrow> keeps_prop P (case z of None \<Rightarrow> f | Some x \<Rightarrow> g x)"
  by (cases z) simp_all

lemma keeps_pair: "(\<And>x y. keeps_prop P (g x y)) \<Longrightarrow> keeps_prop P (case z of (x, y) \<Rightarrow> g x y)"
  by (cases z) simp

lemma keeps_sum:
  "(\<And>x. keeps_prop P (f x)) \<Longrightarrow> (\<And>x. keeps_prop P (g x)) \<Longrightarrow> keeps_prop P (case z of Inl x \<Rightarrow> f x | Inr x \<Rightarrow> g x)"
  by (cases z) simp_all

lemmas keeps_cases = keeps_if keeps_option keeps_pair keeps_sum

subsection \<open>What each action leaves as it was\<close>

lemma plain_keys: "\<forall>t \<in> set (map TKey ks). plain t" "\<forall>t \<in> set (last_key k). plain t"
  by (auto simp: last_key_def)

lemma keeps_own_writes:
  "k \<noteq> ''genesis'' \<Longrightarrow> keeps_prop (holds_at (at_links k ks) x) (set_storage SEAL_KEYPATH v)"
  "k \<noteq> ''records'' \<Longrightarrow> keeps_prop (holds_at (at_links k ks) x) (set_storage (record_keypath l) v)"
  "k \<noteq> ''records'' \<Longrightarrow> keeps_prop (holds_at (at_links k ks) x) (set_storage (''identityLinks.records.'' @ safe_record_key l) v)"
  "k \<noteq> ''approvals'' \<Longrightarrow> keeps_prop (holds_at (at_links k ks) x) (set_storage (''identityLinks.approvals.'' @ safe_record_key l) v)"
  "k \<noteq> ''usedApprovalJTIs'' \<Longrightarrow>
     keeps_prop (holds_at (at_links k ks) x) (set_storage (''identityLinks.usedApprovalJTIs.'' @ safe_record_key l) v)"
  "keeps_prop (holds_at (at_links k ks) x) (set_storage (''proofs.identityLinks.'' @ safe_record_key l) v)"
  "keeps_prop (holds_at (at_links k ks) x) (set_storage (''proofs.identityLinks.'' @ safe_record_key l @ ''.record'') v)"
  by (rule keeps_write, rule anchor_paths; auto simp: last_key_def)+

lemma keeps_perform_genesis:
  "k \<notin> {''genesis'', ''records''} \<Longrightarrow> keeps_prop (holds_at (at_links k ks) x) (perform_genesis frepr requester trigger)"
  unfolding perform_genesis_def build_genesis_def store_genesis_def by (intro act_keeps keeps_cases keeps_own_writes) simp_all

lemma keeps_approve:
  "k \<noteq> ''approvals'' \<Longrightarrow> keeps_prop (holds_at (at_links k ks) x) (approve frepr payload requester)"
  unfolding approve_def Let_def by (intro act_keeps keeps_cases keeps_own_writes) simp_all

lemma keeps_revoke:
  "k \<noteq> ''records'' \<Longrightarrow> keeps_prop (holds_at (at_links k ks) x) (revoke payload requester)"
  unfolding revoke_def Let_def by (intro act_keeps keeps_cases keeps_own_writes) simp_all

lemma keeps_genesis:
  "k \<notin> {''genesis'', ''records''} \<Longrightarrow> keeps_prop (holds_at (at_links k ks) x) (genesis frepr payload requester)"
  unfolding genesis_def by (intro act_keeps keeps_cases keeps_perform_genesis)

lemma keeps_check: "keeps_prop (holds_at (at_links k ks) x) (check_completion frepr payload)"
  unfolding check_completion_def used_approval_jtis_def by (intro act_keeps)

lemma keeps_record:
  "k \<notin> {''records'', ''usedApprovalJTIs''} \<Longrightarrow> keeps_prop (holds_at (at_links k ks) x) (record_completion result)"
  unfolding record_completion_def Let_def by (intro act_keeps keeps_own_writes) simp_all

subsection \<open>Calls\<close>

text \<open>
  The calls an anchor's handlers get, each in its own world: reads, the actions, plain writes and
  batches. \<open>may_write\<close> says at which keypaths is written, \<open>may_complete\<close> what is completed.
\<close>

definition batch_paths :: "pyval \<Rightarrow> string list" where
  "batch_paths payload =
     (case payload of
        VDict d \<Rightarrow> (case getn d ''mutations'' of
            VList ms \<Rightarrow> map fst (List.map_filter mutation_of ms) | _ \<Rightarrow> [])
      | _ \<Rightarrow> [])"

inductive anchor_step ::
    "(rat \<Rightarrow> string) \<Rightarrow> (exc \<Rightarrow> string) \<Rightarrow> (string \<Rightarrow> bool) \<Rightarrow> (pyval \<Rightarrow> bool) \<Rightarrow> cell \<Rightarrow> cell \<Rightarrow> bool"
  for frepr describe may_write may_complete where
  anchor_read: "anchor_step frepr describe may_write may_complete c (fst (snd (get_entity keypath r (c, w))))"
| anchor_action: "keypath \<in> set IDENTITY_LINK_ACTIONS \<Longrightarrow> keypath = ''identityLinks.completeEnrollment'' \<longrightarrow> may_complete v \<Longrightarrow>
    anchor_step frepr describe may_write may_complete c (fst (snd (set_entity_action frepr describe keypath v r (c, w))))"
| anchor_write: "may_write keypath \<Longrightarrow>
    anchor_step frepr describe may_write may_complete c (fst (snd (set_entity keypath v r (c, w))))"
| anchor_batch: "\<forall>k \<in> set (batch_paths v). may_write k \<Longrightarrow>
    anchor_step frepr describe may_write may_complete c (fst (snd (set_entity_action frepr describe ''entity.batchPersist'' v r (c, w))))"

lemma keeps_step:
  "keeps_prop (holds_at ts x) m \<Longrightarrow> holds_at ts x (c, w0) \<Longrightarrow> holds_at ts x (fst (snd (m (c, w))), w')"
  unfolding keeps_prop_def holds_at_def by (drule spec [of _ "(c, w)"]) (auto split: prod.splits)

lemma keeps_get_entity: "keeps_prop (holds_at (at_links k ks) x) (get_entity keypath r)"
  unfolding get_entity_def by (intro act_keeps keeps_cases)

lemma keeps_set_entity:
  "(\<not> is_immutable_genesis_keypath keypath \<Longrightarrow> keeps_prop (holds_at (at_links k ks) x) (set_storage keypath v)) \<Longrightarrow>
     keeps_prop (holds_at (at_links k ks) x) (set_entity keypath v r)"
  by (cases "is_immutable_genesis_keypath keypath") (auto simp: set_entity_def intro!: act_keeps keeps_cases)

lemma keeps_mutations:
  "(\<And>m k' v. m \<in> set ms \<Longrightarrow> mutation_of m = Some (k', v) \<Longrightarrow> \<not> is_immutable_genesis_keypath k' \<Longrightarrow>
      keeps_prop P (set_storage k' v)) \<Longrightarrow> keeps_prop P (persist_mutations ms)"
  by (induction ms) (auto split: option.splits intro!: act_keeps keeps_cases)

lemma keeps_answer_failure: "keeps_prop P (answer_failure describe keypath e)"
  unfolding answer_failure_def by (cases e) (auto intro: act_keeps)

lemma keeps_from_json:
  "(\<And>v'. from_json_value v = Inr v' \<Longrightarrow> keeps_prop P (f v')) \<Longrightarrow> keeps_prop P (abind (alift (from_json_value v)) f)"
  by (cases "from_json_value v") (auto simp: keeps_prop_def abind_def act_simps)

lemma keeps_action:
  assumes "keypath \<in> set IDENTITY_LINK_ACTIONS"
    and "\<And>p. keeps_prop P (genesis frepr p r)" "\<And>p. keeps_prop P (approve frepr p r)"
    and "keypath = ''identityLinks.completeEnrollment'' \<Longrightarrow> keeps_prop P (complete frepr v r)"
    and "\<And>p. keeps_prop P (revoke p r)"
  shows "keeps_prop P (set_entity_action frepr describe keypath v r)"
  using assms(1) unfolding set_entity_action_def
  by (auto simp: IDENTITY_LINK_ACTIONS_def from_json_value_iff from_json_id
      intro!: keeps_from_json act_keeps keeps_answer_failure assms(2,3,5) assms(4))

lemma keeps_batch:
  assumes "\<And>k v'. k \<in> set (batch_paths v) \<Longrightarrow> \<not> is_immutable_genesis_keypath k \<Longrightarrow> keeps_prop (holds_at (at_links key keys) x) (set_storage k v')"
    and "keeps_prop (holds_at (at_links key keys) x) (abind genesis_seal (\<lambda>seal. if seal \<noteq> None then aret ()
                else abind (perform_genesis frepr r ''firstPersist'') (\<lambda>_. aret ())))"
  shows "keeps_prop (holds_at (at_links key keys) x) (set_entity_action frepr describe ''entity.batchPersist'' v r)"
proof -
  have mutations: "keeps_prop (holds_at (at_links key keys) x) (persist_mutations ms)" if "v = VDict d" "getn d ''mutations'' = VList ms" for d ms
  proof (rule keeps_mutations)
    fix m k v' assume "m \<in> set ms" "mutation_of m = Some (k, v')" and free: "\<not> is_immutable_genesis_keypath k"
    then have "(k, v') \<in> set (List.map_filter mutation_of ms)" by (force simp: List.map_filter_def)
    then have "k \<in> set (batch_paths v)" using that by (force simp: batch_paths_def)
    with free assms(1) show "keeps_prop (holds_at (at_links key keys) x) (set_storage k v')" by blast
  qed
  have "keeps_prop (holds_at (at_links key keys) x) (batch_persist frepr v r)"
    unfolding batch_persist_def
    by (cases v)
      (auto simp: Let_def split: pyval.splits intro!: act_keeps keeps_cases mutations assms(2))
  then show ?thesis unfolding set_entity_action_def
    by (auto simp: IDENTITY_LINK_ACTIONS_def from_json_value_iff from_json_id intro!: keeps_from_json)
qed

subsection \<open>An approval completes once\<close>

definition completes_jti :: "pyval \<Rightarrow> string option" where
  "completes_jti payload =
     (case read_link IdentityLinkCompletionEnvelope payload of
        Inr e \<Rightarrow> (case path e [''approval'', ''jti''] of Inr (FVal (VStr j)) \<Rightarrow> Some j | _ \<Rightarrow> None)
      | Inl e \<Rightarrow> None)"

text \<open>A completion that does not take the key of \<open>j\<close> among the used approvals for another approval.\<close>

definition spares :: "string \<Rightarrow> pyval \<Rightarrow> bool" where
  "spares j payload \<longleftrightarrow>
     (case completes_jti payload of Some i \<Rightarrow> i = j \<or> safe_record_key i \<noteq> safe_record_key j | None \<Rightarrow> True)"

definition leaves :: "token list \<Rightarrow> string \<Rightarrow> bool" where
  "leaves ts keypath \<longleftrightarrow>
     (case parse_keypath keypath of Inr ss \<Rightarrow> diverge ss ts \<and> list_all plain ss | Inl e \<Rightarrow> False)"

abbreviation used_at :: "string \<Rightarrow> token list" where
  "used_at j \<equiv> at_links ''usedApprovalJTIs'' [safe_record_key j]"

lemma keeps_leaves: "leaves ts keypath \<Longrightarrow> \<forall>t \<in> set ts. plain t \<Longrightarrow> keeps_prop (holds_at ts x) (set_storage keypath v)"
  by (auto simp: leaves_def list_all_iff split: sum.splits intro: keeps_write)

lemma completion_jti:
  assumes "verify_completion cr frepr e t used v = Inr res"
  shows "path e [''approval'', ''jti''] = text_val (approval_jti res) \<and> approval_jti res \<notin> set used
    \<and> py_strip (approval_jti res) \<noteq> []"
proof -
  obtain request approval hash issuer u jti where
    a: "attr e ''approval'' = Inr (FObj approval)"
    and v: "validate_approval cr frepr approval request hash issuer e t used v = Inr u"
      "str_at approval [''jti''] = Inr jti" "approval_jti res = jti"
    using assms unfolding verify_completion_def rbind_Inr_iff obj_at1
    by (elim exE conjE) (rule that; fastforce)
  note cs = checks_nth [OF v(1) [unfolded validate_approval_def]]
  have j: "attr approval ''jti'' = text_val jti" using v(2) by (simp add: str_at1)
  have "jti \<notin> set used" using cs [of 7] j by (auto simp: approval_checks_def fails_Inr rbind_Inr_iff str_at1)
  moreover have "py_strip jti \<noteq> []"
    using cs [of 6] j by (auto simp: approval_checks_def fails_Inr is_blank_def rbind_Inr_iff str_at1)
  ultimately show ?thesis using a j v(3) unfolding path2 by simp
qed

lemma safe_key_nonempty: "py_strip j \<noteq> [] \<Longrightarrow> safe_record_key j \<noteq> []"
  by (cases j) (auto simp: safe_record_key_def)

lemma check_completion_run:
  assumes "check_completion frepr payload s = (Inr result, s')"
  shows "completes_jti payload = Some (approval_jti result) \<and> safe_record_key (approval_jti result) \<noteq> []
    \<and> (\<exists>used. used_approval_jtis s = (Inr used, s') \<and> approval_jti result \<notin> set used)"
proof -
  obtain c w where s: "s = (c, w)" by fastforce
  obtain e t used u cr where "read_link IdentityLinkCompletionEnvelope payload = Inr e"
      "used_approval_jtis (c, w) = (Inr used, u)" "verify_completion cr frepr e t used None = Inr result" "s' = u"
    using assms unfolding check_completion_def s abind_Inr
    by (auto simp: alift_def now_run aget_def)
  with completion_jti [OF this(3)] safe_key_nonempty show ?thesis
    by (simp add: completes_jti_def s del: path.simps)
qed

lemma used_jtis_hold:
  assumes "holds_at (used_at j) (VStr j) s"
  shows "\<exists>used. used_approval_jtis s = (Inr used, s) \<and> j \<in> set used"
proof -
  obtain c w where s: "s = (c, w)" by fastforce
  obtain d where d: "links (c, w) = (Inr d, (c, w))"
    "get_tokens (VDict d) [TKey ''usedApprovalJTIs'', TKey (safe_record_key j)] = Inr (VStr j)"
    using holds_links assms unfolding s by fastforce
  then obtain m where m: "dget d ''usedApprovalJTIs'' = Some (VDict m)" "dget m (safe_record_key j) = Some (VStr j)"
    by (auto simp: rbind_Inr_iff from_json_value_iff split: option.splits pyval.splits)
  then have "(safe_record_key j, VStr j) \<in> set m" by (auto dest: map_of_SomeD)
  then have "j \<in> set (jtis_of (VDict m))" by (force simp: jtis_of_def)
  with d(1) m(1) show ?thesis by (simp add: used_approval_jtis_def s abind_def aret_def getd_def)
qed

lemma completed_is_refused:
  assumes "holds_at (used_at j) (VStr j) s" "completes_jti payload = Some j"
  shows "\<exists>e. complete frepr payload r s = (Inl e, s)"
proof -
  obtain used where u: "used_approval_jtis s = (Inr used, s)" "j \<in> set used" using used_jtis_hold [OF assms(1)] by blast
  obtain res s' where c: "check_completion frepr payload s = (res, s')" by (cases "check_completion frepr payload s")
  show ?thesis
  proof (cases res)
    case (Inl e)
    have "s' = s" using c u(1) unfolding Inl check_completion_def
      by (auto simp: abind_def alift_def now_def aget_def split: prod.splits sum.splits)
    with c Inl show ?thesis by (auto simp: complete_def abind_def)
  next
    case (Inr result)
    from check_completion_run [OF c [unfolded Inr]] assms(2) u show ?thesis by auto
  qed
qed

lemma readable_fits: "get_tokens cur ts = Inr x \<Longrightarrow> \<forall>t \<in> set ts. plain t \<Longrightarrow> fits cur ts"
  by (induction cur ts rule: fits.induct) (auto simp: rbind_Inr_iff split: pyval.splits option.splits if_splits)

lemma write_holds:
  assumes "parse_keypath p = Inr ts" "ts \<noteq> []" "\<forall>t \<in> set ts. plain t" "is_json v" "fits (VDict (cl_storage c)) ts"
  shows "holds_at ts v (snd (set_storage p v (c, w)))"
proof -
  obtain t ts' where ts: "ts = t # ts'" using assms(2) by (cases ts) auto
  from set_tokens_fits [OF assms(2,3,5,4)]
  have "get_tokens (fst (set_keypath (VDict (cl_storage c)) p v)) ts = Inr v"
    using set_keypath_tokens [OF assms(1) [unfolded ts], of "VDict (cl_storage c)" v] ts by auto
  then show ?thesis using set_keypath_dict [of "cl_storage c" p v] by (simp add: holds_at_def set_storage_run)
qed

lemma written_fits:
  assumes "set_storage p v (c, w) = (Inr u, s)" "parse_keypath p = Inr ts" "ts \<noteq> []" "\<forall>t \<in> set ts. plain t"
  shows "fits (VDict (cl_storage c)) ts"
proof (rule set_tokens_only_fits [OF assms(3,4)])
  obtain t ts' where ts: "ts = t # ts'" using assms(3) by (cases ts) auto
  show "snd (set_tokens (VDict (cl_storage c)) ts v) = None"
    using assms(1,2) unfolding ts set_storage_run
    by (cases "set_tokens (VDict (cl_storage c)) (t # ts') v") (auto simp: set_keypath_def split: option.splits)
qed

lemma used_path:
  "safe_record_key j \<noteq> [] \<Longrightarrow>
     parse_keypath (''identityLinks.usedApprovalJTIs.'' @ safe_record_key j) = Inr (used_at j)"
  by (simp only: anchor_paths last_key_def list.map if_False)

text \<open>What holds whenever an operation returns.\<close>

definition ensures :: "(cell \<times> world \<Rightarrow> bool) \<Rightarrow> 'a cell_act \<Rightarrow> bool" where
  "ensures Q m \<longleftrightarrow> (\<forall>s x t. m s = (Inr x, t) \<longrightarrow> Q t)"

lemma ensures_bind: "(\<And>x. ensures Q (f x)) \<Longrightarrow> ensures Q (abind m f)"
  by (auto simp: ensures_def abind_Inr)

lemma ensures_then: "ensures Q m \<Longrightarrow> (\<And>x. keeps_prop Q (f x)) \<Longrightarrow> ensures Q (abind m f)"
  by (fastforce simp: ensures_def abind_Inr dest: keeps_propD)

lemma ensures_write:
  assumes "parse_keypath p = Inr ts" "ts \<noteq> []" "\<forall>t \<in> set ts. plain t" "is_json v"
  shows "ensures (holds_at ts v) (set_storage p v)"
  unfolding ensures_def
proof (intro allI impI)
  fix s x t assume w: "set_storage p v s = (Inr x, t)"
  obtain c e where s: "s = (c, e)" by fastforce
  from write_holds [OF assms written_fits [OF w [unfolded s] assms(1-3)]] w s
  show "holds_at ts v t" by (metis snd_conv)
qed

lemma keeps_own_jti:
  "safe_record_key j \<noteq> [] \<Longrightarrow> keeps_prop (holds_at (used_at j) (VStr j))
     (set_storage (''identityLinks.usedApprovalJTIs.'' @ safe_record_key j) (VStr j))"
  using write_holds [OF used_path] readable_fits unfolding keeps_prop_def
  by (fastforce simp: holds_at_def simp del: fits.simps get_tokens.simps)

lemma keeps_completion:
  assumes "spares j payload"
  shows "keeps_prop (holds_at (used_at j) (VStr j)) (complete frepr payload r)"
  unfolding keeps_prop_def
proof (intro allI impI)
  fix s assume h: "holds_at (used_at j) (VStr j) s"
  obtain res s' where c: "check_completion frepr payload s = (res, s')" by (cases "check_completion frepr payload s")
  have h': "holds_at (used_at j) (VStr j) s'" using keeps_propD [OF keeps_check h c] .
  show "holds_at (used_at j) (VStr j) (snd (complete frepr payload r s))"
  proof (cases res)
    case (Inr result)
    let ?i = "approval_jti result"
    have i: "?i = j \<or> safe_record_key ?i \<noteq> safe_record_key j" "safe_record_key ?i \<noteq> []"
      using check_completion_run [OF c [unfolded Inr]] assms by (auto simp: spares_def)
    have u: "keeps_prop (holds_at (used_at j) (VStr j))
        (set_storage (''identityLinks.usedApprovalJTIs.'' @ safe_record_key ?i) (VStr ?i))"
    proof (cases "?i = j")
      case False
      with i show ?thesis by (intro keeps_write [OF used_path]) auto
    qed (use keeps_own_jti i in simp)
    have "keeps_prop (holds_at (used_at j) (VStr j)) (record_completion result)"
      unfolding record_completion_def Let_def by (intro act_keeps u keeps_own_writes(3,6)) simp_all
    then have "holds_at (used_at j) (VStr j) (snd (record_completion result s'))"
      using h' unfolding keeps_prop_def by blast
    then show ?thesis using c Inr by (simp add: complete_def abind_def del: list.map)
  qed (use c h' in \<open>simp add: complete_def abind_def\<close>)
qed

lemma completion_holds:
  assumes "complete frepr payload r s = (Inr answer, t)" "completes_jti payload = Some j"
  shows "holds_at (used_at j) (VStr j) t"
proof -
  obtain result s1 where c: "check_completion frepr payload s = (Inr result, s1)" "record_completion result s1 = (Inr answer, t)"
    using assms(1) by (auto simp: complete_def abind_Inr)
  have j: "approval_jti result = j" "safe_record_key j \<noteq> []" using check_completion_run [OF c(1)] assms(2) by auto
  have w: "ensures (holds_at (used_at j) (VStr j))
      (set_storage (''identityLinks.usedApprovalJTIs.'' @ safe_record_key j) (VStr j))"
    by (rule ensures_write [OF used_path [OF j(2)]]) auto
  have "ensures (holds_at (used_at j) (VStr j)) (record_completion result)"
    unfolding record_completion_def Let_def j(1)
    by (rule ensures_bind, rule ensures_bind, rule ensures_bind, rule ensures_bind, rule ensures_bind,
        rule ensures_then [OF w], intro act_keeps)
  with c(2) show ?thesis unfolding ensures_def by blast
qed

lemma holds_any_world: "holds_at ts x (c, w) \<Longrightarrow> holds_at ts x (c, w')"
  by (simp add: holds_at_def)

lemma used_keys: "\<forall>t \<in> set (used_at j). plain t" by simp

lemma used_step:
  assumes "anchor_step frepr describe (leaves (used_at j)) (spares j) c c'" "holds_at (used_at j) (VStr j) (c, w)"
  shows "holds_at (used_at j) (VStr j) (c', w')"
  using assms(1)
proof cases
  case (anchor_action keypath v r w0)
  have "keeps_prop (holds_at (used_at j) (VStr j)) (set_entity_action frepr describe keypath v r)"
    by (intro keeps_action [OF anchor_action(2)] keeps_genesis keeps_approve keeps_revoke keeps_completion)
      (simp_all add: anchor_action(3))
  from keeps_step [OF this assms(2)] show ?thesis unfolding anchor_action(1) .
next
  case (anchor_batch v r w0)
  have "keeps_prop (holds_at (used_at j) (VStr j)) (set_entity_action frepr describe ''entity.batchPersist'' v r)"
  proof (rule keeps_batch)
    show "keeps_prop (holds_at (used_at j) (VStr j)) (set_storage k v')" if "k \<in> set (batch_paths v)" for k v'
      by (rule keeps_leaves [OF bspec [OF anchor_batch(2) that] used_keys])
  qed (intro act_keeps keeps_cases keeps_perform_genesis, simp)
  from keeps_step [OF this assms(2)] show ?thesis unfolding anchor_batch(1) .
next
  case (anchor_write keypath v r w0)
  show ?thesis unfolding anchor_write(1)
    by (rule keeps_step [OF keeps_set_entity [OF keeps_leaves [OF anchor_write(2) used_keys]] assms(2)])
next
  case (anchor_read keypath r w0)
  show ?thesis unfolding anchor_read by (rule keeps_step [OF keeps_get_entity assms(2)])
qed

text \<open>
  C5: an approval that completed once is refused, with nothing changed, if it is completed again,
  after any run of reads, actions, completions, plain writes and batches, by whoever and in whatever
  world. The keypaths that plain writes and batches name must be plain and diverge from the entry of
  the used approval (\<open>leaves\<close>), and the other completions must not use an identifier that is stored
  under the same key (\<open>spares\<close>): without that it fails (\<open>used_keys_collide\<close>).
\<close>

theorem approval_completes_once:
  assumes "complete frepr payload requester (c, w) = (Inr answer, (c1, w1))"
    and "(anchor_step frepr describe (leaves (used_at j)) (spares j))\<^sup>*\<^sup>* c1 c2"
    and "completes_jti payload = Some j" "completes_jti payload' = Some j"
  shows "\<exists>e. complete frepr payload' requester' (c2, w2) = (Inl e, (c2, w2))"
proof -
  have "holds_at (used_at j) (VStr j) (c2, w2)"
    using assms(2)
  proof (induction arbitrary: w2)
    case base
    show ?case by (rule holds_any_world [OF completion_holds [OF assms(1,3)]])
  next
    case (step y z)
    show ?case by (rule used_step [OF step.hyps(2) step.IH])
  qed
  then show ?thesis using completed_is_refused assms(4) by blast
qed

text \<open>
  The hypothesis on the other completions is needed: identifiers that differ in an unsafe character only
  are stored under one key, and the later one replaces the earlier.
\<close>

lemma used_keys_collide:
  "safe_record_key ''a.b'' = safe_record_key ''a_b''"
  "jtis_of (VDict (dset [(safe_record_key ''a.b'', VStr ''a.b'')] (safe_record_key ''a_b'') (VStr ''a_b''))) = [''a_b'']"
  by code_simp+

subsection \<open>The genesis seal stays\<close>

text \<open>A keypath written the ordinary way: non-empty keys with a dot between them.\<close>

fun key_of :: "token \<Rightarrow> string option" where
  "key_of (TKey k) = Some k"
| "key_of _ = None"

definition ordinary :: "string \<Rightarrow> bool" where
  "ordinary keypath \<longleftrightarrow>
     (case parse_keypath keypath of
        Inr ts \<Rightarrow> ts \<noteq> [] \<and> (let ks = List.map_filter key_of ts in ts = key_tokens ks \<and> keypath = dotted ks)
      | Inl e \<Rightarrow> False)"

definition seal_safe :: "string \<Rightarrow> bool" where
  "seal_safe keypath \<longleftrightarrow> ordinary keypath \<and> keypath \<noteq> ''identityLinks''"

abbreviation seal_at :: "token list" where
  "seal_at \<equiv> at_links ''genesis'' []"

lemma seal_safe_leaves:
  assumes "seal_safe keypath" "\<not> is_immutable_genesis_keypath keypath"
  shows "leaves seal_at keypath"
proof -
  obtain ts where ts: "parse_keypath keypath = Inr ts" "ts \<noteq> []" "ts = key_tokens (List.map_filter key_of ts)"
      "keypath = dotted (List.map_filter key_of ts)"
    using assms(1) by (auto simp: seal_safe_def ordinary_def Let_def split: sum.splits)
  define ks where "ks = List.map_filter key_of ts"
  have ks: "parse_keypath keypath = Inr (key_tokens ks)" "ks \<noteq> []" "keypath = dotted ks"
    using ts by (auto simp: ks_def key_tokens_def)
  have "diverge (key_tokens ks) seal_at"
  proof (cases ks)
    case (Cons k ks')
    show ?thesis
    proof (cases ks')
      case Nil
      then show ?thesis using assms(1) ks(3) Cons by (auto simp: key_tokens_def seal_safe_def dotted_def)
    next
      case (Cons k' ks'')
      have "\<not> (k = ''identityLinks'' \<and> k' = ''genesis'')"
        using assms(2) unfolding ks(3) \<open>ks = k # ks'\<close> Cons
        by (cases ks'') (auto simp: is_immutable_genesis_keypath_def SEAL_KEYPATH_def dotted_def startswith_def)
      then show ?thesis using \<open>ks = k # ks'\<close> Cons by (auto simp: key_tokens_def)
    qed
  qed (use ks in simp)
  then show ?thesis using ks(1) by (auto simp: leaves_def key_tokens_def list_all_iff)
qed

lemma sealed_seal:
  assumes "holds_at seal_at x s" "read_seal x = Inr (Some seal)"
  shows "genesis_seal s = (Inr (Some seal), s)"
proof -
  obtain c w where s: "s = (c, w)" by fastforce
  obtain d where "links (c, w) = (Inr d, (c, w))" "get_tokens (VDict d) [TKey ''genesis''] = Inr x"
    using holds_links assms(1) unfolding s by fastforce
  then show ?thesis using assms(2)
    by (auto simp: s genesis_seal_def abind_def alift_def rbind_Inr_iff from_json_value_iff getn_def split: option.splits)
qed

lemma seal_sealed:
  assumes "genesis_seal (c, w) = (Inr (Some seal), (c, w))" "is_json (VDict (cl_storage c))"
  shows "\<exists>x. holds_at seal_at x (c, w) \<and> read_seal x = Inr (Some seal)"
proof -
  obtain d where d: "links (c, w) = (Inr d, (c, w))" "read_seal (getn d ''genesis'') = Inr (Some seal)"
    using assms(1) by (auto simp: genesis_seal_def abind_Inr alift_def)
  have l: "dget (cl_storage c) ''identityLinks'' = Some (VDict d)"
    using d(1) by (cases "dget (cl_storage c) ''identityLinks''")
      (auto simp: links_def abind_def act_simps the_cell_run mod_cell_run getn_def split: pyval.splits
        dest!: arg_cong [of _ c "\<lambda>b. dget (cl_storage b) ''identityLinks''"])
  have json: "is_json_items e \<Longrightarrow> dget e k = Some v \<Longrightarrow> is_json v" for e k v
    by (auto simp: is_json_items_iff dest!: map_of_SomeD)
  have j: "is_json_items d" using json [OF _ l] assms(2) by simp
  obtain x where x: "dget d ''genesis'' = Some x" using d(2) by (cases "dget d ''genesis''") (auto simp: getn_def read_seal_def)
  then have "is_json x" by (rule json [OF j])
  then have "holds_at seal_at x (c, w)" using l x by (simp add: holds_at_def from_json_id)
  with d(2) x show ?thesis by (auto simp: getn_def)
qed

lemma sealed_genesis:
  assumes "read_seal x = Inr (Some seal)"
  shows "keeps_prop (holds_at seal_at x) (genesis frepr payload r)"
    "keeps_prop (holds_at seal_at x) (abind genesis_seal (\<lambda>existing. if existing \<noteq> None then aret () else m))"
  using sealed_seal [OF _ assms] by (auto simp: keeps_prop_def genesis_def abind_def athrow_def aret_def)

lemma seal_step:
  assumes "anchor_step frepr describe seal_safe (\<lambda>_. True) c c'" "holds_at seal_at x (c, w)" "read_seal x = Inr (Some seal)"
  shows "holds_at seal_at x (c', w')"
  using assms(1)
proof cases
  case (anchor_action keypath v r w0)
  have "keeps_prop (holds_at seal_at x) (complete frepr v r)"
    unfolding complete_def by (intro act_keeps keeps_check keeps_record) simp
  then have "keeps_prop (holds_at seal_at x) (set_entity_action frepr describe keypath v r)"
    by (intro keeps_action [OF anchor_action(2)] sealed_genesis [OF assms(3)] keeps_approve keeps_revoke) simp_all
  from keeps_step [OF this assms(2)] show ?thesis unfolding anchor_action(1) .
next
  case (anchor_batch v r w0)
  have "keeps_prop (holds_at seal_at x) (set_entity_action frepr describe ''entity.batchPersist'' v r)"
  proof (rule keeps_batch [OF _ sealed_genesis(2) [OF assms(3)]])
    show "keeps_prop (holds_at seal_at x) (set_storage k v')"
      if "k \<in> set (batch_paths v)" "\<not> is_immutable_genesis_keypath k" for k v'
      by (rule keeps_leaves [OF seal_safe_leaves [OF bspec [OF anchor_batch(2) that(1)] that(2)]]) simp
  qed
  from keeps_step [OF this assms(2)] show ?thesis unfolding anchor_batch(1) .
next
  case (anchor_write keypath v r w0)
  have "keeps_prop (holds_at seal_at x) (set_entity keypath v r)"
    by (rule keeps_set_entity, rule keeps_leaves [OF seal_safe_leaves [OF anchor_write(2)]]) simp_all
  from keeps_step [OF this assms(2)] show ?thesis unfolding anchor_write(1) .
next
  case (anchor_read keypath r w0)
  show ?thesis unfolding anchor_read by (rule keeps_step [OF keeps_get_entity assms(2)])
qed

text \<open>
  C7: the seal of an anchor stays: reads, actions of every kind, batches and plain writes, by whoever
  and in whatever world, leave a sealed anchor sealed with the same seal, as long as every keypath
  that a plain write or a batch names is written the ordinary way (as the keys it parses to) and is
  not \<open>identityLinks\<close> as a whole (\<open>seal_safe\<close>). Other keypaths can replace the seal
  (\<open>seal_guard_compares_text\<close>).
\<close>

theorem genesis_seal_stays:
  assumes "(anchor_step frepr describe seal_safe (\<lambda>_. True))\<^sup>*\<^sup>* c c'" "is_json (VDict (cl_storage c))"
    and "genesis_seal (c, w) = (Inr (Some seal), (c, w))"
  shows "genesis_seal (c', w') = (Inr (Some seal), (c', w'))"
proof -
  obtain x where x: "holds_at seal_at x (c, w)" "read_seal x = Inr (Some seal)" using seal_sealed [OF assms(3,2)] by blast
  have "holds_at seal_at x (c', w')"
    using assms(1)
  proof (induction arbitrary: w')
    case base
    show ?case by (rule holds_any_world [OF x(1)])
  next
    case (step y z)
    show ?case by (rule seal_step [OF step.hyps(2) step.IH x(2)])
  qed
  then show ?thesis by (rule sealed_seal [OF _ x(2)])
qed

text \<open>The guard compares texts: another text of the seal's keypath passes it, and replaces the seal.\<close>

lemma seal_guard_compares_text:
  "\<not> is_immutable_genesis_keypath ''identityLinks..genesis''"
  "parse_keypath ''identityLinks..genesis'' = parse_keypath SEAL_KEYPATH"
  by code_simp+

end
