(* ===== verification/Anchor_Genesis.thy ===== *)
theory Anchor_Genesis
  imports Anchor_Safety
begin

text \<open>
  Sealing an anchor: only the proven owner seals it, and what is stored then verifies.
\<close>

subsection \<open>Signing with a key of a memory vault\<close>

text \<open>An identity that proved control signs with the key that is published for it.\<close>

lemma controlled_signs:
  assumes "proves_identity_control out rand requester expected s = (True, s')" "store_inv (o_crypto out) s"
  shows "\<exists>i e sk. requester = Some i \<and> expected = Some e \<and> i_uuid i = i_uuid e \<and> i_publicSecureKey i = i_publicSecureKey e
    \<and> s' = s \<and> (\<exists>n. dget (v_private_signing_keys (get_vault s n)) (i_uuid i) = Some sk)
    \<and> i_publicSecureKey i = Some (b64encode (ed_public (o_crypto out) sk))
    \<and> (\<forall>m. Identity_sign out i m s = (Inr (ed_sign (o_crypto out) sk m), s))"
proof -
  from assms obtain i e where ie: "requester = Some i" "expected = Some e"
    and same: "i_uuid i = i_uuid e" "i_publicSecureKey i = i_publicSecureKey e"
    by (auto simp: proves_identity_control_def same_identity_reference_def split: if_splits option.splits)
  obtain n where n: "i_identityVault i = Some (MemoryVault n)"
    using assms(1) ie
    by (cases "i_identityVault i"; cases "the (i_identityVault i)")
      (auto simp: proves_identity_control_def Identity_sign_def bridge_vault_refuses split: if_splits)
  have same_ref: "same_identity_reference (Some i) (Some e)"
    using assms(1) ie by (simp add: proves_identity_control_def split: if_splits)
  then have sign: "(\<exists>sig. memory_sign (o_crypto out) n i (control_challenge rand) s = Inr sig) \<and> s' = s"
    using assms(1) unfolding proves_identity_control_def ie
    by (simp add: n Identity_sign_def split: sum.splits)
  then have s': "s' = s" by blast
  obtain sk where sk: "dget (v_private_signing_keys (get_vault s n)) (i_uuid i) = Some sk"
      "same_identity_reference (Some i) (Option.bind (dget (v_identities (get_vault s n)) (i_uuid i)) (get_object s))"
    using sign by (auto simp: memory_sign_def Let_def split: option.splits if_splits)
  have "Option.bind (dget (v_identities (get_vault s n)) (i_uuid i)) (get_object s) \<noteq> None" (is "?b \<noteq> None")
    using sk(2) by (intro notI) (simp add: same_identity_reference_def)
  then obtain o' where b: "?b = Some o'" by blast
  have o': "?b = Some o'" "same_identity_reference (Some i) (Some o')"
    using b sk(2) unfolding b by simp_all
  from b obtain r where ref: "dget (v_identities (get_vault s n)) (i_uuid i) = Some r" "get_object s r = Some o'"
    by (auto simp: bind_eq_Some_conv)
  have "vault_inv (o_crypto out) s n" using assms(2) by (simp add: store_inv_def)
  then have "i_publicSecureKey o' = Some (b64encode (ed_public (o_crypto out) sk))"
    using sk(1) ref(1,2) unfolding vault_inv_def by fastforce
  then have k: "i_publicSecureKey i = Some (b64encode (ed_public (o_crypto out) sk))"
    using o'(2) by (simp add: same_identity_reference_def)
  have "Identity_sign out i m s = (Inr (ed_sign (o_crypto out) sk m), s)" for m
    using n sk o' by (simp add: Identity_sign_def memory_sign_def Let_def)
  then show ?thesis using ie same s' k sk(1) by blast
qed

lemma memory_signs:
  assumes "\<forall>m. Identity_sign (w_outside w) i m (w_store w) = (Inr (f m), w_store w)"
  shows "sign_all i ps (c, w) = (Inr (map (\<lambda>p. (p, f p)) ps), (c, w))"
proof (induction ps)
  case (Cons p ps)
  have "sign_message i p (c, w) = (Inr (f p), (c, w))" using assms by (simp add: sign_message_def)
  with Cons show ?case by (simp add: abind_def aret_def)
qed (simp add: aret_def)

lemma seal_genesis_explicit:
  assumes "attr initiator ''uuid'' = text_val uuid" "attr initiator ''algorithm'' = text_val ''EdDSA''"
    and "attr initiator ''curve_type'' = text_val ''Curve25519''"
  shows "seal_genesis frepr anchor_id initiator f identity_domain trigger t =
    (if trigger \<notin> set GENESIS_TRIGGERS then Inl (LinkFailure ''invalidTrigger'')
     else rbind (iso8601 t) (\<lambda>d. rbind (model_payload frepr (seal_object anchor_id d trigger uuid FNone)) (\<lambda>p.
       rbind (genesis_record anchor_id initiator identity_domain d) (\<lambda>r.
         Inr (seal_object anchor_id d trigger uuid (FVal (VBytes (f p))), r)))))"
proof (cases "trigger \<in> set GENESIS_TRIGGERS")
  case True
  show ?thesis
  proof (cases "iso8601 t")
    case (Inr d)
    let ?u = "seal_object anchor_id d trigger uuid FNone"
    have u: "unsigned_genesis_seal anchor_id initiator trigger t = Inr ?u"
      using True Inr assms
      by (simp add: unsigned_genesis_seal_def str_at_def seal_object_def new_object_def plain_value_def
          EntityGenesisSeal_def IdentityEnrollmentApprovalProof_def need_def opt_def)
    obtain q where q: "obj_at ?u [''proof''] = Inr q" "\<And>v. replace_attr ''proof'' (FObj (replace_attr ''signature'' v q)) ?u
        = seal_object anchor_id d trigger uuid v"
      unfolding obj_at1 by (simp add: seal_object_def attr_def replace_attr_def)
    have s: "str_at (seal_object anchor_id d trigger uuid v) [''sealed_at''] = Inr d" for v
      by (simp add: str_at1) (simp add: seal_object_def attr_def)
    show ?thesis using True Inr by (simp add: seal_genesis_def u q s Let_def)
  qed (simp add: True seal_genesis_def unsigned_genesis_seal_def)
qed (simp add: seal_genesis_def unsigned_genesis_seal_def)

text \<open>Both runs of the builder build the same thing.\<close>

lemma signer_builds_seal:
  assumes "with_identity_signer i (asked_for_seal frepr) (\<lambda>sign. seal_genesis frepr anchor_id initiator sign identity_domain trigger t)
      (c, w) = (Inr (seal, r), s)"
    and "\<forall>m. Identity_sign (w_outside w) i m (w_store w) = (Inr (f m), w_store w)"
    and a: "attr initiator ''uuid'' = text_val uuid" "attr initiator ''algorithm'' = text_val ''EdDSA''"
      "attr initiator ''curve_type'' = text_val ''Curve25519''"
  shows "s = (c, w) \<and> seal_genesis frepr anchor_id initiator f identity_domain trigger t = Inr (seal, r)"
proof -
  note explicit = seal_genesis_explicit [OF a]
  obtain d p r' where d: "trigger \<in> set GENESIS_TRIGGERS" "iso8601 t = Inr d"
      "model_payload frepr (seal_object anchor_id d trigger uuid FNone) = Inr p"
      "genesis_record anchor_id initiator identity_domain d = Inr r'"
    using assms(1) unfolding with_identity_signer_def abind_Inr explicit
    by (auto simp: alift_def rbind_Inr_iff split: if_splits)
  have asked: "asked_for_seal frepr (seal_object anchor_id d trigger uuid (FVal (VBytes x)), r') = [p]" for x
    using seal_payload [of "FVal (VBytes x)" frepr anchor_id d trigger uuid] d(3)
    by (simp add: asked_for_seal_def payloads_def List.map_filter_def)
  have build: "seal_genesis frepr anchor_id initiator g identity_domain trigger t
      = Inr (seal_object anchor_id d trigger uuid (FVal (VBytes (g p))), r')" for g
    using d by (simp add: explicit)
  show ?thesis
    using assms(1) unfolding with_identity_signer_def abind_Inr build alift_def
    by (auto simp: asked memory_signs [OF assms(2)])
qed

subsection \<open>What is stored\<close>

lemma abind_aret: "abind (aret x) f = f x"
  by (rule ext) (simp add: act_simps)

lemma genesis_key: "safe_record_key (genesis_link_id a) \<noteq> []"
  by (simp add: safe_record_key_def genesis_link_id_def GENESIS_LINK_PREFIX_def)

lemma record_path: "safe_record_key l \<noteq> [] \<Longrightarrow> parse_keypath (record_keypath l) = Inr (at_links ''records'' [safe_record_key l])"
  by (simp only: anchor_paths last_key_def list.map if_False)

lemma stored_genesis:
  assumes "store_genesis seal r s = (Inr u, t)" "instance_ok EntityGenesisSeal seal" "instance_ok IdentityLinkRecord r"
    and "attr r ''link_id'' = text_val l" "safe_record_key l \<noteq> []"
  shows "\<exists>x y. holds_at seal_at x t \<and> read_seal x = Inr (Some seal)
    \<and> holds_at (at_links ''records'' [safe_record_key l]) y t \<and> from_wire IdentityLinkRecord y = Inr r"
proof -
  obtain sw rw where sw: "to_wire seal = Inr sw" "is_json_items sw" "from_wire EntityGenesisSeal (VDict sw) = Inr seal"
    and rw: "to_wire r = Inr rw" "is_json_items rw" "from_wire IdentityLinkRecord (VDict rw) = Inr r"
    using wire_round_trip_lemma(1) [OF link_tables_ok(7) assms(2)] wire_round_trip_lemma(1) [OF link_tables_ok(5) assms(3)]
    by blast
  have w: "wire_of seal = aret (VDict sw)" "wire_of r = aret (VDict rw)" "alift (str_at r [''link_id'']) = aret l"
    using sw rw assms(4) by (auto simp: wire_of_def alift_def aret_def str_at1)
  have 1: "ensures (holds_at seal_at (VDict sw)) (set_storage SEAL_KEYPATH (VDict sw))"
    by (rule ensures_write) (use sw anchor_paths(1) in simp_all)
  have 2: "ensures (holds_at (at_links ''records'' [safe_record_key l]) (VDict rw)) (set_storage (record_keypath l) (VDict rw))"
    by (rule ensures_write [OF record_path [OF assms(5)]]) (use rw in simp_all)
  have "ensures (holds_at seal_at (VDict sw)) (store_genesis seal r)"
    unfolding store_genesis_def w abind_aret
    by (rule ensures_then [OF 1], intro act_keeps keeps_own_writes(2,6)) simp
  then have h: "holds_at seal_at (VDict sw) t" using assms(1) unfolding ensures_def by blast
  have "ensures (holds_at (at_links ''records'' [safe_record_key l]) (VDict rw)) (store_genesis seal r)"
    unfolding store_genesis_def w abind_aret
    by (rule ensures_bind, rule ensures_then [OF 2], intro act_keeps keeps_own_writes(6))
  then have "holds_at (at_links ''records'' [safe_record_key l]) (VDict rw) t" using assms(1) unfolding ensures_def by blast
  moreover have "read_seal (VDict sw) = Inr (Some seal)" by (simp add: read_seal_def sw(3))
  ultimately show ?thesis using h rw(3) by blast
qed

lemma holds_record:
  assumes "holds_at (at_links ''records'' [safe_record_key l]) y s" "safe_record_key l \<noteq> []"
  shows "get_keypath (VDict (cl_storage (fst s))) (record_keypath l) = Inr y"
  using assms(1) unfolding get_keypath_def record_path [OF assms(2)] holds_at_def by (cases s) simp

definition record_object :: "string \<Rightarrow> instance \<Rightarrow> string \<Rightarrow> string \<Rightarrow> string \<Rightarrow> instance" where
  "record_object a initiator uuid identity_domain d = Instance IdentityLinkRecord
     [(''link_id'', FVal (VStr (genesis_link_id a))),
      (''entity_binding'', FObj (Instance EntityBindingDescriptor
         [(''mode'', FVal (VStr ''localEntityAnchor'')), (''entity_anchor_reference'', FVal (VStr ANCHOR_REFERENCE)),
          (''binding_id'', FNone), (''audience'', FNone)])),
      (''linked_identity'', FObj initiator), (''approved_domains'', strs_val [identity_domain]),
      (''approved_identity_contexts'', strs_val []), (''approved_scopes'', strs_val [SAME_ENTITY_SCOPE]),
      (''issuer_identity_uuid'', FVal (VStr uuid)), (''issuer_type'', FVal (VStr ''existingDevice'')),
      (''status'', FVal (VStr ''active'')), (''linked_at'', FVal (VStr d)), (''last_used_at'', FNone),
      (''revoked_at'', FNone), (''revocation_reference'', FNone)]"

lemma genesis_record_object:
  assumes "attr initiator ''uuid'' = text_val uuid"
  shows "genesis_record a initiator identity_domain d = Inr (record_object a initiator uuid identity_domain d)"
proof -
  have "str_at initiator [''uuid''] = Inr uuid" by (simp add: str_at1 assms)
  then show ?thesis
    by (simp add: genesis_record_def record_object_def new_object_def IdentityLinkRecord_def EntityBindingDescriptor_def
        need_def opt_def plain_value_def)
qed

lemma record_object_ok:
  "instance_ok IdentityPublicKeyDescriptor initiator \<Longrightarrow>
     instance_ok IdentityLinkRecord (record_object a initiator uuid identity_domain d)"
  by (simp add: record_object_def IdentityLinkRecord_def EntityBindingDescriptor_def need_def opt_def strs_val_def)

subsection \<open>Sealing\<close>

lemma links_run:
  "links (c, w) = (x, s) \<Longrightarrow> snd s = w \<and> cl_owner (fst s) = cl_owner c \<and> cl_uuid (fst s) = cl_uuid c"
  by (auto simp: links_def abind_def act_simps the_cell_run mod_cell_run aret_def athrow_def split: if_splits pyval.splits)

lemma seal_run:
  "genesis_seal (c, w) = (x, s) \<Longrightarrow> snd s = w \<and> cl_owner (fst s) = cl_owner c \<and> cl_uuid (fst s) = cl_uuid c"
  by (cases "links (c, w)") (auto simp: genesis_seal_def abind_def alift_def dest: links_run split: sum.splits)

lemma signing_descriptor:
  assumes "i_publicSecureKey i = Some (b64encode key)"
  shows "\<exists>d. descriptor_for (Some i) = Inr (Some d) \<and> instance_ok IdentityPublicKeyDescriptor d
    \<and> attr d ''uuid'' = text_val (i_uuid i) \<and> attr d ''algorithm'' = text_val ''EdDSA''
    \<and> attr d ''curve_type'' = text_val ''Curve25519'' \<and> attr d ''public_key'' = Inr (FVal (VBytes key))"
  using assms
  by (simp add: descriptor_for_def b64decode_encode new_object_def IdentityPublicKeyDescriptor_def need_def opt_def
      plain_value_def attr_def)

text \<open>The keys the vaults of a process hold are Ed25519 keys.\<close>

definition keys_sized :: "crypto \<Rightarrow> store \<Rightarrow> bool" where
  "keys_sized cr s \<longleftrightarrow> (\<forall>n u sk. dget (v_private_signing_keys (get_vault s n)) u = Some sk \<longrightarrow>
     length (ed_public cr sk) = 32 \<and> (\<forall>x. length (ed_sign cr sk x) = 64))"

text \<open>The two ways to a seal: the action, and the first batch of the owner of an anchor without one.\<close>

lemma genesis_run:
  assumes "genesis frepr payload requester (c, w) = (Inr answer, t)"
  shows "\<exists>c2 st seal r. proves_identity_control (w_outside w) (w_random w (w_tick w)) requester (cl_owner c) (w_store w) = (True, st)
    \<and> cl_uuid c2 = cl_uuid c
    \<and> perform_genesis frepr requester (genesis_trigger payload) (c2, w\<lparr>w_store := st, w_tick := Suc (w_tick w)\<rparr>) = (Inr (seal, r), t)"
proof -
  obtain e s1 where s1: "genesis_seal (c, w) = (Inr e, s1)"
      "(if e \<noteq> None then athrow (LinkFailure ''alreadySealed'') else
     abind (the_cell cl_owner) (\<lambda>owner. abind (prove requester owner) (\<lambda>proven.
     if \<not> proven then athrow (LinkFailure ''initiatorIsNotOwner'') else
     abind (perform_genesis frepr requester (genesis_trigger payload)) (\<lambda>(seal, r).
     abind (wire_of seal) (\<lambda>seal_wire. abind (wire_of r) (\<lambda>record_wire.
       aret (VDict [(''status'', VStr ''sealed''), (''seal'', seal_wire), (''record'', record_wire)]))))))) s1 = (Inr answer, t)"
    using assms unfolding genesis_def abind_Inr by blast
  obtain c1 where c1: "s1 = (c1, w)" "cl_owner c1 = cl_owner c" "cl_uuid c1 = cl_uuid c"
    using seal_run [OF s1(1)] by (cases s1) auto
  obtain st where st: "proves_identity_control (w_outside w) (w_random w (w_tick w)) requester (cl_owner c) (w_store w) = (True, st)"
    and p: "abind (perform_genesis frepr requester (genesis_trigger payload)) (\<lambda>(seal, r).
     abind (wire_of seal) (\<lambda>seal_wire. abind (wire_of r) (\<lambda>record_wire.
       aret (VDict [(''status'', VStr ''sealed''), (''seal'', seal_wire), (''record'', record_wire)]))))
       (c1, w\<lparr>w_store := st, w_tick := Suc (w_tick w)\<rparr>) = (Inr answer, t)"
    using s1(2) c1 by (auto simp: abind_Inr the_cell_run prove_def athrow_def split: if_splits prod.splits)
  then show ?thesis using c1(3)
    by (auto simp: abind_Inr wire_of_def alift_def aret_def split: prod.splits)
qed

definition persisted :: "pyval \<Rightarrow> bool" where
  "persisted answer \<longleftrightarrow> getn (dict_of answer) ''status'' = VStr ''persisted''"

lemma not_persisted [simp]: "\<not> persisted (failed e)"
  by (simp add: persisted_def failed_def dict_of_def getn_def)

lemma mutations_answer: "persist_mutations ms s = (Inr (Inl answer), t) \<Longrightarrow> \<not> persisted answer"
proof (induction ms arbitrary: s)
  case (Cons m ms)
  then show ?case
    by (cases "mutation_of m")
      (auto simp: aret_def abind_Inr map_sum_def split: if_splits sum.splits prod.splits, metis sumE)
qed (simp add: aret_def)

lemma seal_of_cell: "fst (genesis_seal (c, w)) = fst (genesis_seal (c, w'))"
  by (simp add: genesis_seal_def links_def abind_def act_simps the_cell_run mod_cell_run aret_def athrow_def alift_def
      split: pyval.split sum.split)

lemma abind_step: "m s = (Inr x, u) \<Longrightarrow> abind m f s = f x u"
  by (simp add: abind_def)

lemma abind_the_cell: "abind (the_cell g) f (c, w) = f (g c) (c, w)"
  by (simp add: abind_def the_cell_run)

lemma batch_run:
  assumes "batch_persist frepr payload requester (c, w) = (Inr answer, t)" "persisted answer"
    and "cl_owner c \<noteq> None" "fst (genesis_seal (c, w)) = Inr None"
  shows "\<exists>c2 st seal r s d ms paths s1 q.
    proves_identity_control (w_outside w) (w_random w (w_tick w)) requester (cl_owner c) (w_store w) = (True, st)
    \<and> cl_uuid c2 = cl_uuid c
    \<and> perform_genesis frepr requester ''firstPersist'' (c2, w\<lparr>w_store := st, w_tick := Suc (w_tick w)\<rparr>) = (Inr (seal, r), s)
    \<and> payload = VDict d \<and> getn d ''mutations'' = VList ms
    \<and> persist_mutations ms s = (Inr (Inr paths), s1) \<and> push_entity_event ''entity.batchPersist'' q ''entity'' s1 = (Inr (), t)"
proof -
  obtain d schema ms where d: "payload = VDict d" "getn d ''schema'' = VStr schema" "getn d ''mutations'' = VList ms"
    using assms(1,2) unfolding batch_persist_def by (auto simp: aret_def split: pyval.splits)
  obtain own where own: "cl_owner c = Some own" using assms(3) by blast
  obtain p st where st: "proves_identity_control (w_outside w) (w_random w (w_tick w)) requester (cl_owner c) (w_store w) = (p, st)"
    by fastforce
  let ?w = "w\<lparr>w_store := st, w_tick := Suc (w_tick w)\<rparr>"
  have p: "p"
    using assms(1,2) st unfolding batch_persist_def d own
    by (auto simp: d abind_def the_cell_run own prove_def aret_def split: if_splits)
  have prove: "prove requester (Some own) (c, w) = (Inr True, (c, ?w))"
    using st p own by (simp add: prove_def)
  have none: "fst (genesis_seal (c, ?w)) = Inr None" using seal_of_cell [of c ?w w] assms(4) by simp
  obtain x s0 where s0: "genesis_seal (c, ?w) = (x, s0)" by (cases "genesis_seal (c, ?w)") (rule that)
  then have x: "x = Inr None" using none by simp
  obtain c2 where c2: "s0 = (c2, ?w)" "cl_uuid c2 = cl_uuid c" using seal_run [OF s0] by (cases s0) auto
  have "abind (perform_genesis frepr requester ''firstPersist'') (\<lambda>_. abind (persist_mutations ms) (\<lambda>r. case r of
              Inl answer \<Rightarrow> aret answer
            | Inr paths \<Rightarrow>
                let response = VDict [(''status'', VStr ''persisted''), (''schema'', VStr schema),
                                      (''persistedPaths'', VList (map VStr paths))]
                in abind (push_entity_event ''entity.batchPersist'' response ''entity'') (\<lambda>_. aret response)))
      (c2, ?w) = (Inr answer, t)"
    using assms(1) unfolding batch_persist_def d(1)
    by (simp add: d(2,3) abind_the_cell own abind_step [of "prove requester (Some own)", OF prove] abind_assoc
        abind_step [of genesis_seal, OF s0 [unfolded x c2(1)]] abind_aret)
  then obtain sr s r s1 where g: "perform_genesis frepr requester ''firstPersist'' (c2, ?w) = (Inr sr, s)"
    and m: "persist_mutations ms s = (Inr r, s1)"
    and e: "(case r of Inl answer \<Rightarrow> aret answer
            | Inr paths \<Rightarrow>
                let response = VDict [(''status'', VStr ''persisted''), (''schema'', VStr schema),
                                      (''persistedPaths'', VList (map VStr paths))]
                in abind (push_entity_event ''entity.batchPersist'' response ''entity'') (\<lambda>_. aret response)) s1 = (Inr answer, t)"
    unfolding abind_Inr by blast
  obtain paths where r: "r = Inr paths"
    using e m mutations_answer assms(2) by (cases r) (auto simp: aret_def)
  then obtain q where "push_entity_event ''entity.batchPersist'' q ''entity'' s1 = (Inr (), t)"
    using e by (auto simp: Let_def abind_Inr aret_def)
  moreover have "proves_identity_control (w_outside w) (w_random w (w_tick w)) requester (cl_owner c) (w_store w) = (True, st)"
    using st p by simp
  moreover obtain seal sealed where "sr = (seal, sealed)" by (cases sr)
  ultimately show ?thesis using c2(2) g d(1,3) m r by blast
qed

text \<open>What a seal that the proven owner made and stored amounts to.\<close>

lemma performed_genesis:
  assumes p: "proves_identity_control (w_outside w) (w_random w (w_tick w)) requester (cl_owner c) (w_store w) = (True, st)"
    and "cl_uuid c1 = cl_uuid c"
    and run: "perform_genesis frepr requester trigger (c1, w\<lparr>w_store := st, w_tick := Suc (w_tick w)\<rparr>) = (Inr sr, t)"
    and cr: "crypto_ok (o_crypto (w_outside w))" "store_inv (o_crypto (w_outside w)) (w_store w)"
      "keys_sized (o_crypto (w_outside w)) (w_store w)"
  shows "\<exists>i e seal r x y. requester = Some i \<and> cl_owner c = Some e \<and> st = w_store w
    \<and> i_uuid i = i_uuid e \<and> i_publicSecureKey i = i_publicSecureKey e
    \<and> holds_at seal_at x t \<and> read_seal x = Inr (Some seal)
    \<and> holds_at (at_links ''records'' [safe_record_key (genesis_link_id (cl_uuid c))]) y t
    \<and> from_wire IdentityLinkRecord y = Inr r
    \<and> verify_genesis (o_crypto (w_outside w)) frepr seal r = Inr ()
    \<and> path r [''linked_identity'', ''uuid''] = text_val (i_uuid e)"
proof -
  let ?cr = "o_crypto (w_outside w)"
  let ?w0 = "w\<lparr>w_store := st, w_tick := Suc (w_tick w)\<rparr>"
  obtain e' s2 where s2: "genesis_seal (c1, ?w0) = (Inr e', s2)"
      "(if e' \<noteq> None then athrow (LinkFailure ''alreadySealed'') else
     abind (build_genesis frepr requester trigger) (\<lambda>(seal, r).
     abind (store_genesis seal r) (\<lambda>_. aret (seal, r)))) s2 = (Inr sr, t)"
    using run unfolding perform_genesis_def abind_Inr by blast
  obtain c2 where c2: "s2 = (c2, ?w0)" "cl_uuid c2 = cl_uuid c"
    using seal_run [OF s2(1)] assms(2) by (cases s2) auto
  obtain seal r s where g: "build_genesis frepr requester trigger (c2, ?w0) = (Inr (seal, r), s)"
    "store_genesis seal r s = (Inr (), t)"
    using s2(2) c2 by (auto simp: abind_Inr athrow_def aret_def split: if_splits)
  obtain i e sk n where i: "requester = Some i" "cl_owner c = Some e" "i_uuid i = i_uuid e"
    "i_publicSecureKey i = i_publicSecureKey e" "st = w_store w"
    "dget (v_private_signing_keys (get_vault (w_store w) n)) (i_uuid i) = Some sk"
    "i_publicSecureKey i = Some (b64encode (ed_public ?cr sk))"
    "\<forall>m. Identity_sign (w_outside w) i m (w_store w) = (Inr (ed_sign ?cr sk m), w_store w)"
    using controlled_signs [OF p cr(2)] by blast
  obtain d where d: "descriptor_for (Some i) = Inr (Some d)" "instance_ok IdentityPublicKeyDescriptor d"
    "attr d ''uuid'' = text_val (i_uuid i)" "attr d ''algorithm'' = text_val ''EdDSA''"
    "attr d ''curve_type'' = text_val ''Curve25519''" "attr d ''public_key'' = Inr (FVal (VBytes (ed_public ?cr sk)))"
    using signing_descriptor [OF i(7)] by blast
  let ?w = "w\<lparr>w_tick := Suc (w_tick w)\<rparr>"
  obtain idom where b: "with_identity_signer i (asked_for_seal frepr) (\<lambda>sign.
         seal_genesis frepr (cl_uuid c) d sign idom trigger (o_now (w_outside w))) (c2, ?w) = (Inr (seal, r), s)"
    using c2(2) g(1) unfolding build_genesis_def i(1,5) d(1) abind_Inr
    by (auto simp: alift_def d(1) i(1) now_run the_cell_run abind_Inr)
  have sign: "\<forall>m. Identity_sign (w_outside ?w) i m (w_store ?w) = (Inr (ed_sign ?cr sk m), w_store ?w)" using i(8) by simp
  have made: "s = (c2, ?w)" "seal_genesis frepr (cl_uuid c) d (ed_sign ?cr sk) idom trigger (o_now (w_outside w))
      = Inr (seal, r)"
    using signer_builds_seal [OF b sign d(3-5)] by blast+
  have size: "length (ed_public ?cr sk) = 32" "\<forall>x. length (ed_sign ?cr sk x) = 64"
    using cr(3) i(6) unfolding keys_sized_def by blast+
  have ver: "verify_genesis ?cr frepr seal r = Inr ()" "attr r ''linked_identity'' = Inr (FObj d)"
      "attr r ''link_id'' = text_val (genesis_link_id (cl_uuid c))"
    using sealed_genesis_verifies [OF made(2) cr(1) size d(3-6)]
    by (simp_all add: genesis_link_id_def GENESIS_LINK_PREFIX_def)
  obtain date q where o: "seal = seal_object (cl_uuid c) date trigger (i_uuid i) (FVal (VBytes q))"
      "genesis_record (cl_uuid c) d idom date = Inr r"
    using sealed [OF made(2) d(3-5)] by blast
  have ok: "instance_ok EntityGenesisSeal seal" "instance_ok IdentityLinkRecord r"
    using seal_object_ok record_object_ok [OF d(2)] o genesis_record_object [OF d(3)] by auto
  have "path r [''linked_identity'', ''uuid''] = text_val (i_uuid e)" unfolding path2 using ver(2) d(3) i(3) by simp
  with stored_genesis [OF g(2) ok ver(3) genesis_key] ver(1) i(1-5) show ?thesis by blast
qed

text \<open>Mutations that touch neither leave the seal and its record.\<close>

definition genesis_record_at :: "cell \<Rightarrow> token list" where
  "genesis_record_at c = at_links ''records'' [safe_record_key (genesis_link_id (cl_uuid c))]"

lemma keeps_paths:
  assumes "\<forall>k \<in> set (batch_paths (VDict d)). leaves ts k" "getn d ''mutations'' = VList ms" "\<forall>t \<in> set ts. plain t"
  shows "keeps_prop (holds_at ts x) (persist_mutations ms)"
proof (rule keeps_mutations)
  fix m k v' assume "m \<in> set ms" "mutation_of m = Some (k, v')"
  then have "(k, v') \<in> set (List.map_filter mutation_of ms)" by (force simp: List.map_filter_def)
  then have "k \<in> set (batch_paths (VDict d))" using assms(2) by (force simp: batch_paths_def)
  with assms(1,3) show "keeps_prop (holds_at ts x) (set_storage k v')" using keeps_leaves by blast
qed

text \<open>
  C6: the genesis action seals an anchor only for a requester who proves control of the owner's key
  with a fresh challenge, and so does a batch that is persisted in an anchor with an owner and
  without a seal. After the action, and after such a batch when no keypath it writes touches the seal
  or its record, the anchor is sealed, and the seal verifies against the record stored with it, which
  names the owner's identity. (A plain write of \<open>identityLinks\<close> as a whole stores whatever it is given,
  a seal too; it is not a genesis.)
\<close>

theorem sealed_anchor_verifies:
  assumes "genesis frepr payload requester (c, w) = (Inr answer, (c', w'))
    \<or> batch_persist frepr payload requester (c, w) = (Inr answer, (c', w')) \<and> persisted answer
      \<and> cl_owner c \<noteq> None \<and> fst (genesis_seal (c, w)) = Inr None
      \<and> (\<forall>k \<in> set (batch_paths payload). leaves seal_at k \<and> leaves (genesis_record_at c) k)"
    and "crypto_ok (o_crypto (w_outside w))" "store_inv (o_crypto (w_outside w)) (w_store w)"
    and "keys_sized (o_crypto (w_outside w)) (w_store w)"
  shows "\<exists>i e seal r. requester = Some i \<and> cl_owner c = Some e
    \<and> proves_identity_control (w_outside w) (w_random w (w_tick w)) requester (cl_owner c) (w_store w) = (True, w_store w)
    \<and> i_uuid i = i_uuid e \<and> i_publicSecureKey i = i_publicSecureKey e
    \<and> genesis_seal (c', w') = (Inr (Some seal), (c', w'))
    \<and> rbind (get_keypath (VDict (cl_storage c')) (record_keypath (genesis_link_id (cl_uuid c)))) (from_wire IdentityLinkRecord) = Inr r
    \<and> verify_genesis (o_crypto (w_outside w)) frepr seal r = Inr ()
    \<and> path r [''linked_identity'', ''uuid''] = text_val (i_uuid e)"
proof -
  obtain i e seal r x y where g:
    "proves_identity_control (w_outside w) (w_random w (w_tick w)) requester (cl_owner c) (w_store w) = (True, w_store w)"
    "requester = Some i" "cl_owner c = Some e" "i_uuid i = i_uuid e" "i_publicSecureKey i = i_publicSecureKey e"
    "read_seal x = Inr (Some seal)" "from_wire IdentityLinkRecord y = Inr r"
    "verify_genesis (o_crypto (w_outside w)) frepr seal r = Inr ()" "path r [''linked_identity'', ''uuid''] = text_val (i_uuid e)"
    "holds_at seal_at x (c', w')" "holds_at (genesis_record_at c) y (c', w')"
    using assms(1)
  proof (elim disjE conjE)
    assume "genesis frepr payload requester (c, w) = (Inr answer, (c', w'))"
    then obtain c2 st seal r where r:
      "proves_identity_control (w_outside w) (w_random w (w_tick w)) requester (cl_owner c) (w_store w) = (True, st)"
      "cl_uuid c2 = cl_uuid c"
      "perform_genesis frepr requester (genesis_trigger payload) (c2, w\<lparr>w_store := st, w_tick := Suc (w_tick w)\<rparr>)
        = (Inr (seal, r), (c', w'))"
      using genesis_run by blast
    from performed_genesis [OF r assms(2-4)] r(1) that show ?thesis
      unfolding genesis_record_at_def by blast
  next
    assume b: "batch_persist frepr payload requester (c, w) = (Inr answer, (c', w'))" "persisted answer"
      "cl_owner c \<noteq> None" "fst (genesis_seal (c, w)) = Inr None"
      and ks: "\<forall>k \<in> set (batch_paths payload). leaves seal_at k \<and> leaves (genesis_record_at c) k"
    obtain c2 st sr s d ms paths s1 q where r:
      "proves_identity_control (w_outside w) (w_random w (w_tick w)) requester (cl_owner c) (w_store w) = (True, st)"
      "cl_uuid c2 = cl_uuid c"
      "perform_genesis frepr requester ''firstPersist'' (c2, w\<lparr>w_store := st, w_tick := Suc (w_tick w)\<rparr>) = (Inr sr, s)"
      "payload = VDict d" "getn d ''mutations'' = VList ms" "persist_mutations ms s = (Inr (Inr paths), s1)"
      "push_entity_event ''entity.batchPersist'' q ''entity'' s1 = (Inr (), (c', w'))"
      using batch_run [OF b] by (elim exE conjE) (rule that; assumption)
    have stays: "holds_at ts z (c', w')" if "holds_at ts z s" "ts \<in> {seal_at, genesis_record_at c}" for ts z
    proof -
      have "keeps_prop (holds_at ts z) (persist_mutations ms)"
        by (rule keeps_paths [OF _ r(5)]) (use ks that(2) r(4) in \<open>auto simp: genesis_record_at_def\<close>)
      from keeps_propD [OF this that(1) r(6)] have "holds_at ts z s1" .
      from keeps_propD [OF keeps_quiet(1) this r(7)] show ?thesis .
    qed
    from performed_genesis [OF r(1-3) assms(2-4)] r(1) that stays show ?thesis
      unfolding genesis_record_at_def by blast
  qed
  then show ?thesis
    using sealed_seal [OF g(10,6)] holds_record [OF g(11) [unfolded genesis_record_at_def] genesis_key] by auto
qed

end
