(* ===== verification/Anchor_Runs.thy ===== *)
theory Anchor_Runs
  imports Anchor_Genesis Link_Runs
begin

text \<open>
  Concrete anchors for the properties of \<open>Anchor_Safety\<close> and \<open>Anchor_Genesis\<close>: an owner with a key in
  a memory vault seals an anchor, and an anchor completes an extension once.
\<close>

subsection \<open>An owner and an anchor\<close>

definition run_owner :: identity where
  "run_owner = (new_identity ''Alice'' ''ida'')\<lparr>i_publicSecureKey := Some (b64encode alice),
     i_identityVault := Some (MemoryVault 0)\<rparr>"

definition run_store :: store where
  "run_store = \<lparr>s_objects = [(7, run_owner)],
     s_vaults = [(0, \<lparr>v_contexts = [], v_identities = [(''ida'', 7)], v_private_signing_keys = [(''ida'', alice)], v_tag_keys = []\<rparr>)],
     s_used = []\<rparr>"

definition run_world :: "rat \<Rightarrow> world" where
  "run_world t = \<lparr>w_outside = \<lparr>o_crypto = run_crypto, o_now = t, o_bridge_sign = (\<lambda>n i m. Inl RuntimeError),
       o_scope_validator = (\<lambda>n. None)\<rparr>,
     w_store = run_store, w_random = (\<lambda>n. []), w_uuid = (\<lambda>n. ''x''), w_tick = 0\<rparr>"

definition run_anchor :: cell where
  "run_anchor = new_anchor (Some run_owner) ''EntityAnchor'' ''a'' ''t'' (\<lambda>r. ''g'')"

definition run_storage :: "pyval dict \<Rightarrow> pyval dict \<Rightarrow> pyval dict" where
  "run_storage proofs ls =
    [(''person'', VDict []), (''purposes'', VDict []), (''relations'', VDict []), (''proofs'', VDict proofs),
     (''signedAgreementEntity'', VDict []), (''entityRepresentation'', VDict []), (''agreements'', VDict []),
     (''chronicle'', VList []), (''bindings'', VDict []), (''identityLinks'', VDict ls)]"

lemma run_anchor_fields: "cl_storage run_anchor = run_storage [] []" "cl_owner run_anchor = Some run_owner"
  "cl_uuid run_anchor = ''a''" "cl_identity_domain run_anchor = None"
  by (simp_all add: run_anchor_def new_anchor_def new_cell_def run_storage_def ENTITY_ROOTS_def Let_def)

lemma run_world_fields: "w_outside (run_world t) = \<lparr>o_crypto = run_crypto, o_now = t, o_bridge_sign = (\<lambda>n i m. Inl RuntimeError),
       o_scope_validator = (\<lambda>n. None)\<rparr>" "w_store (run_world t) = run_store"
  by (simp_all add: run_world_def)

lemma run_vault: "get_vault run_store n = (if n = 0 then \<lparr>v_contexts = [], v_identities = [(''ida'', 7)],
    v_private_signing_keys = [(''ida'', alice)], v_tag_keys = []\<rparr> else new_memory_vault)"
  by (simp add: get_vault_def run_store_def)

lemma run_owner_fields: "i_uuid run_owner = ''ida''" "i_publicSecureKey run_owner = Some (b64encode alice)"
  "i_identityVault run_owner = Some (MemoryVault 0)"
  by (simp_all add: run_owner_def new_identity_def)

lemma run_object: "get_object run_store 7 = Some run_owner"
  by (simp add: get_object_def run_store_def)

lemma run_store_inv: "store_inv run_crypto run_store" "keys_sized run_crypto run_store"
  using run_keys run_crypto_ok(3)
  by (auto simp: store_inv_def vault_inv_def keys_sized_def run_vault new_memory_vault_def run_object
      run_owner_fields run_crypto_ok(2) split: if_splits)

lemma run_signs: "o_crypto out = run_crypto \<Longrightarrow> Identity_sign out run_owner m run_store = (Inr (ed_sign run_crypto alice m), run_store)"
  by (simp add: Identity_sign_def run_owner_fields memory_sign_def run_vault Let_def run_object same_identity_reference_def)

lemma run_control:
  "o_crypto out = run_crypto \<Longrightarrow> proves_identity_control out rand (Some run_owner) (Some run_owner) run_store = (True, run_store)"
  using run_crypto_ok(1)
  by (simp add: proves_identity_control_def run_signs same_identity_reference_def run_owner_fields
      verify_identity_signature_def b64decode_encode crypto_ok_def run_crypto_ok(2))

subsection \<open>Writes\<close>

lemma set_storage_ok:
  assumes "parse_keypath p = Inr ts" "ts \<noteq> []" "set_tokens (VDict (cl_storage c)) ts v = (VDict d, None)"
  shows "set_storage p v (c, w) = (Inr (), (c\<lparr>cl_storage := d\<rparr>, w))"
  using assms by (cases ts) (simp_all add: set_storage_run set_keypath_def dict_of_def)

definition inner :: "pyval dict \<Rightarrow> string \<Rightarrow> pyval dict" where
  "inner d k = (case dget d k of Some v \<Rightarrow> dict_of v | None \<Rightarrow> [])"

definition open_at :: "pyval dict \<Rightarrow> string \<Rightarrow> bool" where
  "open_at d k \<longleftrightarrow> (case dget d k of None \<Rightarrow> True | Some (VDict e) \<Rightarrow> True | _ \<Rightarrow> False)"

lemma write_below:
  "open_at d k \<Longrightarrow> is_json v \<Longrightarrow>
     set_tokens (VDict d) [TKey k, TKey key] v = (VDict (dset d k (VDict (dset (inner d k) key v))), None)"
  by (auto simp: key_slot_plain inner_def open_at_def dict_of_def from_json_id split: option.splits pyval.splits)

lemma run_writes:
  assumes "cl_storage c = run_storage ps ls" "is_json v"
  shows "set_storage SEAL_KEYPATH v (c, w) = (Inr (), (c\<lparr>cl_storage := run_storage ps (dset ls ''genesis'' v)\<rparr>, w))"
    "open_at ls ''records'' \<Longrightarrow> safe_record_key l \<noteq> [] \<Longrightarrow> set_storage (record_keypath l) v (c, w) = (Inr (),
       (c\<lparr>cl_storage := run_storage ps (dset ls ''records'' (VDict (dset (inner ls ''records'') (safe_record_key l) v)))\<rparr>, w))"
    "open_at ls ''usedApprovalJTIs'' \<Longrightarrow> safe_record_key l \<noteq> [] \<Longrightarrow>
       set_storage (''identityLinks.usedApprovalJTIs.'' @ safe_record_key l) v (c, w) = (Inr (),
       (c\<lparr>cl_storage := run_storage ps (dset ls ''usedApprovalJTIs''
          (VDict (dset (inner ls ''usedApprovalJTIs'') (safe_record_key l) v)))\<rparr>, w))"
    "open_at ps ''identityLinks'' \<Longrightarrow> safe_record_key l \<noteq> [] \<Longrightarrow>
       set_storage (''proofs.identityLinks.'' @ safe_record_key l) v (c, w) = (Inr (),
       (c\<lparr>cl_storage := run_storage (dset ps ''identityLinks''
          (VDict (dset (inner ps ''identityLinks'') (safe_record_key l) v))) ls\<rparr>, w))"
proof -
  have links: "set_tokens (VDict (cl_storage c)) (TKey ''identityLinks'' # t # ts) v = (VDict (run_storage ps e), None)"
    if "set_tokens (VDict ls) (t # ts) v = (VDict e, None)" "plain t" for t ts e
    using that by (simp add: assms(1) run_storage_def key_slot_plain)
  have proofs: "set_tokens (VDict (cl_storage c)) (TKey ''proofs'' # t # ts) v = (VDict (run_storage e ls), None)"
    if "set_tokens (VDict ps) (t # ts) v = (VDict e, None)" "plain t" for t ts e
    using that by (simp add: assms(1) run_storage_def key_slot_plain)
  show "set_storage SEAL_KEYPATH v (c, w) = (Inr (), (c\<lparr>cl_storage := run_storage ps (dset ls ''genesis'' v)\<rparr>, w))"
    by (rule set_storage_ok [OF anchor_paths(1) _ links]) (simp_all add: assms(2) from_json_id)
  show "set_storage (record_keypath l) v (c, w) = (Inr (),
       (c\<lparr>cl_storage := run_storage ps (dset ls ''records'' (VDict (dset (inner ls ''records'') (safe_record_key l) v)))\<rparr>, w))"
    if "open_at ls ''records''" "safe_record_key l \<noteq> []"
    by (rule set_storage_ok [OF record_path [OF that(2)] _ links])
      (simp_all only: list.map write_below [OF that(1) assms(2)], simp_all)
  show "set_storage (''identityLinks.usedApprovalJTIs.'' @ safe_record_key l) v (c, w) = (Inr (),
       (c\<lparr>cl_storage := run_storage ps (dset ls ''usedApprovalJTIs''
          (VDict (dset (inner ls ''usedApprovalJTIs'') (safe_record_key l) v)))\<rparr>, w))"
    if "open_at ls ''usedApprovalJTIs''" "safe_record_key l \<noteq> []"
    by (rule set_storage_ok [OF used_path [OF that(2)] _ links])
      (simp_all only: list.map write_below [OF that(1) assms(2)], simp_all)
  show "set_storage (''proofs.identityLinks.'' @ safe_record_key l) v (c, w) = (Inr (),
       (c\<lparr>cl_storage := run_storage (dset ps ''identityLinks''
          (VDict (dset (inner ps ''identityLinks'') (safe_record_key l) v))) ls\<rparr>, w))"
    if "open_at ps ''identityLinks''" "safe_record_key l \<noteq> []"
  proof -
    have "parse_keypath (''proofs.identityLinks.'' @ safe_record_key l) = Inr [TKey ''proofs'', TKey ''identityLinks'', TKey (safe_record_key l)]"
      using that(2) by (simp only: anchor_paths last_key_def if_False)
    from set_storage_ok [OF this _ proofs [OF write_below [OF that(1) assms(2)]]] show ?thesis by simp
  qed
qed

lemma pushed: "\<exists>q w'. push_entity_event keypath v topic (c, w) = (Inr (), (c\<lparr>cl_flow_queue := q\<rparr>, w')) \<and> w_outside w' = w_outside w"
  by (simp add: push_entity_event_def push_flow_element_def act_simps fresh_uuid_run abind_def the_cell_run mod_cell_run)
    (intro conjI impI; rule exI; rule refl)

subsection \<open>Sealing\<close>

lemma unsealed:
  assumes "cl_storage c = run_storage ps []"
  shows "genesis_seal (c, w) = (Inr None, (c, w))"
proof -
  have "links (c, w) = (Inr [], (c, w))"
    by (simp add: links_def abind_def act_simps the_cell_run mod_cell_run assms run_storage_def getn_def)
  then show ?thesis by (simp add: genesis_seal_def abind_def alift_def read_seal_def getn_def)
qed

lemma run_build:
  assumes "w_store w = run_store" "o_crypto (w_outside w) = run_crypto" "o_now (w_outside w) = 0"
  shows "\<exists>seal r. build_genesis run_repr (Some run_owner) ''onboarding'' (run_anchor, w) = (Inr (seal, r), (run_anchor, w))
    \<and> instance_ok EntityGenesisSeal seal \<and> instance_ok IdentityLinkRecord r \<and> attr r ''link_id'' = text_val (genesis_link_id ''a'')"
proof -
  obtain d where d: "descriptor_for (Some run_owner) = Inr (Some d)" "instance_ok IdentityPublicKeyDescriptor d"
    "attr d ''uuid'' = text_val ''ida''" "attr d ''algorithm'' = text_val ''EdDSA''" "attr d ''curve_type'' = text_val ''Curve25519''"
    using signing_descriptor [OF run_owner_fields(2)] by (auto simp: run_owner_fields)
  obtain p where p: "model_payload run_repr (seal_object ''a'' ''1970-01-01T00:00:00Z'' ''onboarding'' ''ida'' FNone) = Inr p"
    using run_seal_payload by blast
  let ?s = "\<lambda>x. seal_object ''a'' ''1970-01-01T00:00:00Z'' ''onboarding'' ''ida'' (FVal (VBytes x))"
  let ?r = "record_object ''a'' d ''ida'' ''private'' ''1970-01-01T00:00:00Z''"
  have "''onboarding'' \<in> set GENESIS_TRIGGERS" by (simp add: GENESIS_TRIGGERS_def)
  then have build: "seal_genesis run_repr ''a'' d f ''private'' ''onboarding'' 0 = Inr (?s (f p), ?r)" for f
    using run_moments(1) p by (simp add: seal_genesis_explicit [OF d(3-5)] genesis_record_object [OF d(3)])
  have asked: "asked_for_seal run_repr (?s x, ?r) = [p]" for x
    using seal_payload [of "FVal (VBytes x)" run_repr] p by (simp add: asked_for_seal_def payloads_def List.map_filter_def)
  have "\<forall>m. Identity_sign (w_outside w) run_owner m (w_store w) = (Inr (ed_sign run_crypto alice m), w_store w)"
    using run_signs assms by simp
  note signs = memory_signs [OF this, of "[p]" run_anchor]
  have "build_genesis run_repr (Some run_owner) ''onboarding'' (run_anchor, w) = (Inr (?s (ed_sign run_crypto alice p), ?r), (run_anchor, w))"
    by (simp add: build_genesis_def d(1) abind_def alift_def now_run the_cell_run assms(3) run_anchor_fields
        with_identity_signer_def build asked signs del: sign_all.simps)
  moreover have "attr ?r ''link_id'' = text_val (genesis_link_id ''a'')" by (simp add: record_object_def attr_def)
  ultimately show ?thesis using seal_object_ok record_object_ok [OF d(2)] by blast
qed

lemma run_sealed:
  "\<exists>answer c1 w1 seal. genesis run_repr (VStr ''onboarding'') (Some run_owner) (run_anchor, run_world 0) = (Inr answer, (c1, w1))
    \<and> is_json (VDict (cl_storage c1)) \<and> genesis_seal (c1, w1) = (Inr (Some seal), (c1, w1))"
proof -
  let ?w = "(run_world 0)\<lparr>w_store := run_store, w_tick := Suc (w_tick (run_world 0))\<rparr>"
  have prove: "prove (Some run_owner) (Some run_owner) (run_anchor, run_world 0) = (Inr True, (run_anchor, ?w))"
    by (simp add: prove_def run_world_fields run_control)
  obtain seal r where b: "build_genesis run_repr (Some run_owner) ''onboarding'' (run_anchor, ?w) = (Inr (seal, r), (run_anchor, ?w))"
    "instance_ok EntityGenesisSeal seal" "instance_ok IdentityLinkRecord r" "attr r ''link_id'' = text_val (genesis_link_id ''a'')"
    using run_build [of ?w] by (auto simp: run_world_fields)
  obtain sw rw where sw: "to_wire seal = Inr sw" "is_json_items sw" and rw: "to_wire r = Inr rw" "is_json_items rw"
    using wire_round_trip_lemma(1) [OF link_tables_ok(7) b(2)] wire_round_trip_lemma(1) [OF link_tables_ok(5) b(3)] by blast
  have w: "wire_of seal = aret (VDict sw)" "wire_of r = aret (VDict rw)" "alift (str_at r [''link_id'']) = aret (genesis_link_id ''a'')"
    using sw rw b(4) by (auto simp: wire_of_def alift_def aret_def str_at1)
  let ?k = "safe_record_key (genesis_link_id ''a'')"
  let ?ls = "[(''genesis'', VDict sw), (''records'', VDict [(?k, VDict rw)])]"
  let ?p = "VDict [(''record'', VDict rw), (''seal'', VDict sw)]"
  let ?c = "\<lambda>c. c\<lparr>cl_storage := run_storage [(''identityLinks'', VDict [(?k, ?p)])] ?ls\<rparr>"
  have 1: "set_storage SEAL_KEYPATH (VDict sw) (run_anchor, ?w)
      = (Inr (), (run_anchor\<lparr>cl_storage := run_storage [] [(''genesis'', VDict sw)]\<rparr>, ?w))"
    using run_writes(1) [OF run_anchor_fields(1)] sw(2) by simp
  have 2: "set_storage (record_keypath (genesis_link_id ''a'')) (VDict rw)
      (run_anchor\<lparr>cl_storage := run_storage [] [(''genesis'', VDict sw)]\<rparr>, ?w)
      = (Inr (), (run_anchor\<lparr>cl_storage := run_storage [] ?ls\<rparr>, ?w))"
    using run_writes(2) [of "run_anchor\<lparr>cl_storage := run_storage [] [(''genesis'', VDict sw)]\<rparr>" "[]" "[(''genesis'', VDict sw)]",
        OF _ _ _ genesis_key] rw(2)
    by (simp add: open_at_def inner_def)
  have 3: "set_storage (''proofs.identityLinks.'' @ ?k) ?p (run_anchor\<lparr>cl_storage := run_storage [] ?ls\<rparr>, ?w) = (Inr (), (?c run_anchor, ?w))"
    using run_writes(4) [of "run_anchor\<lparr>cl_storage := run_storage [] ?ls\<rparr>" "[]" ?ls ?p, OF _ _ _ genesis_key] sw(2) rw(2)
    by (simp add: open_at_def inner_def)
  obtain q w' where 4: "push_entity_event SEAL_KEYPATH (VDict sw) ''entity.identityLinks'' (?c run_anchor, ?w)
      = (Inr (), ((?c run_anchor)\<lparr>cl_flow_queue := q\<rparr>, w'))"
    using pushed by blast
  have stored: "store_genesis seal r (run_anchor, ?w) = (Inr (), ((?c run_anchor)\<lparr>cl_flow_queue := q\<rparr>, w'))"
    unfolding store_genesis_def w abind_aret
    by (simp only: abind_def [of "set_storage _ _"] 1 2 3 4 prod.case sum.case)
  from stored have "perform_genesis run_repr (Some run_owner) ''onboarding'' (run_anchor, ?w) = (Inr (seal, r), ((?c run_anchor)\<lparr>cl_flow_queue := q\<rparr>, w'))"
    by (simp add: perform_genesis_def abind_def unsealed [OF run_anchor_fields(1)] b(1) aret_def)
  moreover have "genesis_trigger (VStr ''onboarding'') = ''onboarding''"
    by (simp add: genesis_trigger_def GENESIS_TRIGGERS_def)
  ultimately have "genesis run_repr (VStr ''onboarding'') (Some run_owner) (run_anchor, run_world 0) =
      (Inr (VDict [(''status'', VStr ''sealed''), (''seal'', VDict sw), (''record'', VDict rw)]), ((?c run_anchor)\<lparr>cl_flow_queue := q\<rparr>, w'))"
    by (simp add: genesis_def abind_def unsealed [OF run_anchor_fields(1)] the_cell_run run_anchor_fields prove w aret_def)
  moreover have "is_json (VDict (cl_storage ((?c run_anchor)\<lparr>cl_flow_queue := q\<rparr>)))"
    using sw(2) rw(2) by (simp add: run_storage_def)
  moreover obtain y where "holds_at seal_at y ((?c run_anchor)\<lparr>cl_flow_queue := q\<rparr>, w')" "read_seal y = Inr (Some seal)"
    using stored_genesis [OF stored b(2-4) genesis_key] by blast
  ultimately show ?thesis using sealed_seal by blast
qed

lemma sealed_anchor_verifies_witness:
  "\<exists>answer c1 w1 seal r. genesis run_repr (VStr ''onboarding'') (Some run_owner) (run_anchor, run_world 0) = (Inr answer, (c1, w1))
    \<and> genesis_seal (c1, w1) = (Inr (Some seal), (c1, w1)) \<and> verify_genesis run_crypto run_repr seal r = Inr ()"
proof -
  obtain answer c1 w1 where g: "genesis run_repr (VStr ''onboarding'') (Some run_owner) (run_anchor, run_world 0) = (Inr answer, (c1, w1))"
    using run_sealed by blast
  have "o_crypto (w_outside (run_world 0)) = run_crypto" by (simp add: run_world_fields)
  with sealed_anchor_verifies [OF disjI1 [OF g]] run_crypto_ok(1) run_store_inv run_world_fields(2) g show ?thesis by auto
qed

subsection \<open>Completing an extension\<close>

lemma approval_link_declares:
  "declares IdentityEnrollmentApproval ''entity_binding'' False (KModel EntityBindingDescriptor)"
  "declares IdentityEnrollmentApproval ''approval_id'' False KStr" "declares IdentityEnrollmentApproval ''issuer_type'' False KStr"
  "declares SameEntityIdentityLinkCredentialSubject ''revocation_reference'' True KStr"
  "declares VCClaim ''credential_subject'' False KRaw"
  by (simp_all add: declares_def IdentityEnrollmentApproval_def SameEntityIdentityLinkCredentialSubject_def VCClaim_def need_def opt_def)

text \<open>A completed record is well typed, and names the approval.\<close>

lemma completed_record_typed:
  assumes "completed_record request approval issuer subject t = Inr link"
    and "instance_ok IdentityEnrollmentRequest request" "instance_ok IdentityEnrollmentApproval approval"
    and "instance_ok IdentityPublicKeyDescriptor issuer" "instance_ok SameEntityIdentityLinkCredentialSubject subject"
  shows "instance_ok IdentityLinkRecord link \<and> attr link ''link_id'' = attr approval ''approval_id''
    \<and> (\<exists>d. attr link ''linked_at'' = text_val d)"
proof -
  note a = a_str [OF assms(3) tables_ok(8)] and s = a_strs [OF assms(3) tables_ok(8)]
  obtain aid kind uuid d where t: "attr approval ''approval_id'' = text_val aid" "attr approval ''issuer_type'' = text_val kind"
      "attr issuer ''uuid'' = text_val uuid" "iso8601 t = Inr d"
    using a [OF approval_link_declares(2)] a [OF approval_link_declares(3)] a_str [OF assms(4) tables_ok(1) descriptor_declares(1)]
      assms(1) by (auto simp: completed_record_def keyword_args_def rbind_Inr_iff)
  obtain eb new where o: "attr approval ''entity_binding'' = Inr (FObj eb)" "instance_ok EntityBindingDescriptor eb"
      "attr request ''new_identity'' = Inr (FObj new)" "instance_ok IdentityPublicKeyDescriptor new"
    using a_obj [OF assms(3) tables_ok(8) approval_link_declares(1)] a_obj [OF assms(2) tables_ok(5) request_declares(1)] by blast
  obtain ds cs ss where l: "attr approval ''approved_domains'' = Inr (strs_val ds)"
      "attr approval ''approved_identity_contexts'' = Inr (strs_val cs)" "attr approval ''approved_scopes'' = Inr (strs_val ss)"
    using s [OF approval_declares(2)] s [OF approval_declares(3)] s [OF approval_declares(4)] by blast
  obtain r where r: "attr subject ''revocation_reference'' = Inr r" "r = FNone \<or> (\<exists>x. r = FVal (VStr x))"
    using declared [OF assms(5) link_tables_ok(4) approval_link_declares(4)]
    by (auto split: if_splits fval.splits elim: is_str.elims)
  have l0: "link = Instance IdentityLinkRecord
      [(''link_id'', FVal (VStr aid)), (''entity_binding'', FObj eb), (''linked_identity'', FObj new), (''approved_domains'', strs_val ds),
       (''approved_identity_contexts'', strs_val cs), (''approved_scopes'', strs_val ss), (''issuer_identity_uuid'', FVal (VStr uuid)),
       (''issuer_type'', FVal (VStr kind)), (''status'', FVal (VStr ''active'')), (''linked_at'', FVal (VStr d)),
       (''last_used_at'', FNone), (''revoked_at'', FNone), (''revocation_reference'', r)]"
    using assms(1)
    by (simp add: completed_record_def keyword_args_def t o l r(1))
      (simp add: new_object_def IdentityLinkRecord_def need_def opt_def plain_value_def)
  have "attr link ''link_id'' = text_val aid" "attr link ''linked_at'' = text_val d"
    unfolding l0 by (simp_all add: attr_def)
  moreover have "instance_ok IdentityLinkRecord link"
    using o(2,4) r(2) unfolding l0 by (elim disjE exE) (simp_all add: IdentityLinkRecord_def need_def opt_def strs_val_def strs_ok)
  ultimately show ?thesis using t(1) by auto
qed

lemma completion_typed:
  assumes "verify_completion cr frepr e t used v = Inr res" "instance_ok IdentityLinkCompletionEnvelope e"
  shows "instance_ok IdentityLinkRecord (link_record res) \<and> attr (link_record res) ''link_id'' = path e [''approval'', ''approval_id'']
    \<and> (\<exists>d. attr (link_record res) ''linked_at'' = text_val d)"
proof -
  obtain request approval hash issuer credential subject link where
    a: "attr e ''request'' = Inr (FObj request)" "attr e ''approval'' = Inr (FObj approval)"
      "attr e ''issuer_identity'' = Inr (FObj issuer)" "attr e ''same_entity_credential'' = Inr (FObj credential)"
    and v: "validate_credential cr frepr credential request approval issuer hash t = Inr subject"
      "completed_record request approval issuer subject t = Inr link" "link_record res = link"
    using assms(1) unfolding verify_completion_def rbind_Inr_iff obj_at1
    by (elim exE conjE) (rule that; fastforce)
  note o = a_obj [OF assms(2) link_tables_ok(6)]
  have ok: "instance_ok IdentityEnrollmentRequest request" "instance_ok IdentityEnrollmentApproval approval"
    "instance_ok IdentityPublicKeyDescriptor issuer" "instance_ok VCClaim credential"
    using o [OF envelope_declares(1)] o [OF envelope_declares(2)] o [OF envelope_declares(5)] o [OF envelope_declares(3)] a
    by simp_all
  obtain body where body: "attr credential ''credential_subject'' = Inr body" "read_subject body = Inr subject"
    using credential_accepted [OF v(1)] by blast
  obtain w where w: "body = FVal w" "is_json w"
    using declared [OF ok(4) link_tables_ok(2) approval_link_declares(5)] body
    by (cases body) (auto simp: read_subject_def split: if_splits)
  have "instance_ok SameEntityIdentityLinkCredentialSubject subject"
    using body(2) w from_wire_ok(1) [OF link_tables_ok(4) w(2)]
    by (auto simp: read_subject_def split: sum.splits if_splits)
  from completed_record_typed [OF v(2) ok(1-3) this] show ?thesis unfolding v(3) by (simp add: path.simps a(2))
qed

lemma run_recorded:
  assumes "instance_ok IdentityLinkRecord (link_record res)" "attr (link_record res) ''link_id'' = text_val ''ap''"
    and "attr (link_record res) ''linked_at'' = text_val d" "approval_jti res = ''ap''"
  shows "\<exists>answer t. record_completion res (run_anchor, w) = (Inr answer, t)"
proof -
  obtain rw where rw: "to_wire (link_record res) = Inr rw" "is_json_items rw"
    using wire_round_trip_lemma(1) [OF link_tables_ok(5) assms(1)] by blast
  have k: "safe_record_key ''ap'' = ''ap''" by code_simp
  have wr: "wire_of (link_record res) = aret (VDict rw)" "alift (str_at (link_record res) [''link_id'']) = aret ''ap''"
    "alift (str_at (link_record res) [''linked_at'']) = aret d"
    using rw assms(2,3) by (auto simp: wire_of_def alift_def aret_def str_at1)
  let ?p = "VDict [(''record'', VDict rw), (''requestHash'', VStr (b64encode (link_request_hash res))), (''approvalJTI'', VStr ''ap''),
    (''credentialID'', VStr (credential_id res)), (''presentationID'', VStr (presentation_id res)), (''completedAt'', VStr d)]"
  let ?c = "\<lambda>ps ls. run_anchor\<lparr>cl_storage := run_storage ps ls\<rparr>"
  let ?rs = "(''records'', VDict [(''ap'', VDict rw)])" and ?ps = "[(''identityLinks'', VDict [(''ap'', ?p)])]"
  have 1: "set_storage (''identityLinks.records.'' @ ''ap'') (VDict rw) (run_anchor, w) = (Inr (), (?c [] [?rs], w))"
    using run_writes(2) [of run_anchor "[]" "[]" "VDict rw" "''ap''"] rw(2) run_anchor_fields(1)
    by (simp add: k open_at_def inner_def record_keypath_def RECORDS_KEYPATH_def)
  have 2: "set_storage (''proofs.identityLinks.'' @ ''ap'') ?p (?c [] [?rs], w) = (Inr (), (?c ?ps [?rs], w))"
    using run_writes(4) [of "?c [] [?rs]" "[]" "[?rs]" ?p "''ap''"] rw(2) by (simp add: k open_at_def inner_def)
  have 3: "set_storage (''identityLinks.usedApprovalJTIs.'' @ ''ap'') (VStr ''ap'') (?c ?ps [?rs], w)
      = (Inr (), (?c ?ps [?rs, (''usedApprovalJTIs'', VDict [(''ap'', VStr ''ap'')])], w))"
    using run_writes(3) [of "?c ?ps [?rs]" ?ps "[?rs]" "VStr ''ap''" "''ap''"] by (simp add: k open_at_def inner_def)
  obtain q w' where 4: "push_entity_event (''identityLinks.records.'' @ ''ap'') (VDict rw) ''entity.identityLinks''
      (?c ?ps [?rs, (''usedApprovalJTIs'', VDict [(''ap'', VStr ''ap'')])], w)
    = (Inr (), ((?c ?ps [?rs, (''usedApprovalJTIs'', VDict [(''ap'', VStr ''ap'')])])\<lparr>cl_flow_queue := q\<rparr>, w'))"
    using pushed by blast
  show ?thesis
    unfolding record_completion_def wr abind_aret Let_def k assms(4)
    by (simp only: abind_def [of "set_storage _ _"] abind_def [of "push_entity_event _ _ _"] 1 2 3 4 prod.case sum.case aret_def) (intro exI, rule refl)
qed

lemma run_links: "links (run_anchor, w) = (Inr [], (run_anchor, w))"
  by (simp add: links_def abind_def act_simps the_cell_run mod_cell_run run_anchor_fields run_storage_def getn_def)

lemma run_completed:
  "\<exists>payload answer t. complete run_repr payload None (run_anchor, run_world 60) = (Inr answer, t)
    \<and> completes_jti payload = Some ''ap''"
proof -
  obtain pkg approval credential presentation h where j:
    "approve_enrollment run_crypto run_repr join_envelope ida (ed_sign run_crypto alice) 0 ''ap'' ''x'' None = Inr pkg"
    "attr pkg ''approval'' = Inr (FObj approval)" "attr pkg ''same_entity_credential'' = Inr (FObj credential)"
    "bind_and_sign run_repr [credential] bobs (ed_sign run_crypto bob) [1] ''d'' ''x'' 0 PRESENTATION_TYPE = Inr presentation"
    "attr approval ''jti'' = text_val ''ap''" "validate_enrollment_request run_crypto run_repr signed_request 60 = Inr h"
    "in_time approval ''expires_at'' 60"
    "names_within approval ''approved_domains'' signed_request ''requested_domains''"
    "names_within approval ''approved_identity_contexts'' signed_request ''requested_identity_contexts''"
    "names_within approval ''approved_scopes'' signed_request ''requested_scopes''"
    and ok: "instance_ok IdentityLinkCompletionEnvelope (completion_of signed_request approval credential presentation ida
        (FVal (VStr ''a'')) (FVal (VStr ''o'')) [1] ''d'')"
    and aid: "attr approval ''approval_id'' = text_val ''ap''"
    and chk: "checked vc_checks (completion_of signed_request approval credential presentation ida
        (FVal (VStr ''a'')) (FVal (VStr ''o'')) [1] ''d'')"
    using joined by (elim exE conjE) (rule that; assumption)
  let ?e = "completion_of signed_request approval credential presentation ida (FVal (VStr ''a'')) (FVal (VStr ''o'')) [1] ''d''"
  have "\<exists>res. verify_completion run_crypto run_repr ?e 60 [] None = Inr res"
    by (rule honest_completion [OF run_crypto_ok(1) honest_descriptor [OF run_keys(1)] honest_descriptor [OF run_keys(2)]
      join_setting(4) join_envelope_ok join_envelope_attrs(1,8,2) join_setting(1) request_attrs(3,7,8) j(1-5) join_setting(2,3)
      j(6,7) run_moments(3) j(8-10)])
  then obtain res where res: "verify_completion run_crypto run_repr ?e 60 [] None = Inr res" by (elim exE)
  obtain d where d: "to_wire ?e = Inr d" "from_wire IdentityLinkCompletionEnvelope (VDict d) = Inr ?e"
    using wire_round_trip_lemma(1) [OF link_tables_ok(6) ok] by (elim exE conjE)
  have read: "read_link IdentityLinkCompletionEnvelope (VDict d) = Inr ?e"
    unfolding read_link_def by (rule checked_read(1) [OF d(2) chk])
  have at: "attr ?e ''approval'' = Inr (FObj approval)" by (rule completion_attrs)
  have jti: "path ?e [''approval'', ''jti''] = text_val ''ap''" "path ?e [''approval'', ''approval_id''] = text_val ''ap''"
    using at j(5) aid by (simp_all add: path.simps)
  have "check_completion run_repr (VDict d) (run_anchor, run_world 60) = (Inr res, (run_anchor, run_world 60))"
    using res
    by (simp add: check_completion_def read abind_def alift_def now_run used_approval_jtis_def run_links aret_def jtis_of_def
        getd_def aget_def run_world_fields)
  moreover have "approval_jti res = ''ap''" using completion_jti [OF res] jti(1) by simp
  moreover from this obtain linked where typed: "instance_ok IdentityLinkRecord (link_record res)"
      "attr (link_record res) ''link_id'' = text_val ''ap''" "attr (link_record res) ''linked_at'' = text_val linked"
    using completion_typed [OF res ok] jti(2) by auto
  ultimately obtain answer t where "complete run_repr (VDict d) None (run_anchor, run_world 60) = (Inr answer, t)"
    using run_recorded [OF typed, of "run_world 60"] by (auto simp: complete_def abind_def)
  moreover have "completes_jti (VDict d) = Some ''ap''" by (simp add: completes_jti_def read jti(1) del: path.simps)
  ultimately show ?thesis by blast
qed

text \<open>Where the records of unusual links are stored, and what revoking an unknown link answers.\<close>

lemma record_keys:
  "parse_keypath (record_keypath []) = Inr [TKey ''identityLinks'', TKey ''records'']"
  "record_keypath (''genesis-'' @ a) = record_keypath (genesis_link_id a)"
  by (code_simp, simp add: genesis_link_id_def GENESIS_LINK_PREFIX_def)

lemma revoke_unknown_link:
  "set_entity_action run_repr describe ''identityLinks.revoke'' (VStr ''nope'') None (run_anchor, w)
    = (Inr (link_error ''identityLinks.revoke'' ''bad_payload'' (Some (describe KeyPathError))), (run_anchor, w))"
proof -
  have "parse_keypath (''identityLinks.records.'' @ safe_record_key ''nope'')
      = Inr [TKey ''identityLinks'', TKey ''records'', TKey ''nope'']"
    by code_simp
  then have "get_keypath (VDict (cl_storage run_anchor)) (''identityLinks.records.'' @ safe_record_key ''nope'') = Inl KeyPathError"
    unfolding get_keypath_def run_anchor_fields by (simp add: run_storage_def)
  moreover have "\<not> is_genesis_link ''nope''" by code_simp
  ultimately have "revoke (VStr ''nope'') None (run_anchor, w) = (Inl KeyPathError, (run_anchor, w))"
    unfolding revoke_def Let_def revoked_link_id_def by (simp only: abind_def alift_def the_cell_run prod.case sum.case pyval.case if_False)
  then show ?thesis
    by (simp add: set_entity_action_def IDENTITY_LINK_ACTIONS_def abind_def alift_def acatch_def answer_failure_def aret_def)
qed

lemma approval_completes_once_witness:
  "\<exists>payload answer c1 w1 e. complete run_repr payload None (run_anchor, run_world 60) = (Inr answer, (c1, w1))
    \<and> complete run_repr payload None (c1, run_world 120) = (Inl e, (c1, run_world 120))"
proof -
  obtain payload answer c1 w1 where r: "complete run_repr payload None (run_anchor, run_world 60) = (Inr answer, (c1, w1))"
      "completes_jti payload = Some ''ap''"
    using run_completed by auto
  from approval_completes_once [OF r(1) rtranclp.rtrancl_refl r(2) r(2)] r(1) show ?thesis by blast
qed

lemma genesis_seal_stays_witness:
  "\<exists>c1 c2 w1 seal. genesis_seal (c1, w1) = (Inr (Some seal), (c1, w1))
    \<and> c2 = fst (snd (set_entity ''person.displayName'' (VStr ''Ida'') None (c1, run_world 60)))
    \<and> genesis_seal (c2, run_world 60) = (Inr (Some seal), (c2, run_world 60))"
proof -
  obtain c1 w1 seal where s: "is_json (VDict (cl_storage c1))" "genesis_seal (c1, w1) = (Inr (Some seal), (c1, w1))"
    using run_sealed by blast
  let ?c = "fst (snd (set_entity ''person.displayName'' (VStr ''Ida'') None (c1, run_world 60)))"
  have "seal_safe ''person.displayName''" by code_simp
  then have "(anchor_step run_repr (\<lambda>e. []) seal_safe (\<lambda>_. True))\<^sup>*\<^sup>* c1 ?c"
    by (intro r_into_rtranclp anchor_write)
  from genesis_seal_stays [OF this s] s(2) show ?thesis by blast
qed

end
