(* ===== verification/Spec2Isabelle.thy ===== *)
theory Spec2Isabelle
  imports Value Keypath Canonical Act Identity Agreement General_Cell Verify_Runs Channel_Runs Url
    Vault_Cell Graph_Cell Configuration Graph_Profile Genesis Link_Runs Anchor_Runs
begin

text \<open>
  A model of the Python implementation of the cell protocol, \<open>src/src/cellprotocol\<close>, with the
  properties that make its parts correct.

  \<^bold>\<open>The program.\<close> A cell is an object with storage and handlers that other parties reach by keypaths.
  Every value that crosses a boundary is a JSON value (\<open>value.py\<close>), read and written at a keypath
  (\<open>keypath.py\<close>). A party is an identity whose private key a vault holds (\<open>identity.py\<close>); a vault may
  be delegated over a bridge, where it signs only challenges of a session. A cell decides each request
  by its owner and by the agreements it has signed with others (\<open>agreement.py\<close>, \<open>general_cell.py\<close>).
  Two processes talk over a channel that both ends admit by a signed challenge (\<open>interop/channel.py\<close>).
  Envelopes that travel outside a channel (invitations, chat invitations, entity extensions) are wire
  models (\<open>interop/models.py\<close>) signed over canonical bytes (\<open>interop/canonical.py\<close>) and checked by
  \<open>interop/verify.py\<close> and \<open>interop/identity_link.py\<close>. The cells under \<open>cells/\<close> use all this.

  \<^bold>\<open>Conventions.\<close> A string of the program is its UTF-8 text as a HOL \<open>string\<close>, bytes are \<open>8 word list\<close>,
  integers of Python are unbounded, a float is a rational (or an infinity or NaN): \<open>float()\<close> and the
  JSON reader round text and integers to the nearest double, subnormals and overflow included, and the
  rounding of arithmetic is written out where the code does it (\<open>Double\<close>); the seconds of \<open>Verify\<close>'s date
  checks and a contract's issue time are exact. White space and digits are those of Unicode
  (\<open>Unicode\<close>); \<open>str.lower\<close> and \<open>str.casefold\<close> are arguments, but \<open>urlsplit\<close> lowers ASCII only. A dict is an association list in
  insertion order, an object of a mutable class a record passed along and returned, shared objects a
  store with addresses (\<open>Identity\<close>, \<open>General_Cell\<close>). An exception is a value of \<open>exc\<close>; a computation that
  may raise is \<open>exc + 'a\<close>, one that also changes state is an act (\<open>Act\<close>), whose state is returned on
  failure too, as the code leaves it. Clocks, random bytes and fresh identifiers are arguments.
  Ed25519 is the record \<open>crypto\<close>, and \<open>crypto_ok\<close> the documented fact that an honest
  signature verifies; the text of a float (\<open>repr\<close>) is a function argument, of which theorems ask what
  Python documents: that it is read back as the same double. JSON parsing,
  SHA-256, base 64, base 58, ISO dates and URL splitting are modelled, not assumed.

  \<^bold>\<open>Theories and files.\<close>
  \<^item> \<open>Prelude\<close>, \<open>Unicode\<close>, \<open>Double\<close>, \<open>Py_Numbers\<close>, \<open>Py_Objects\<close>, \<open>Act\<close>, \<open>Base64\<close>, \<open>Sha256\<close>, \<open>Iso_Date\<close>: the library of
    the development: results, dictionaries, text, character classes, numbers, rounding, encodings and what of the standard library the code uses.
  \<^item> \<open>Value\<close>, \<open>Keypath\<close>: \<open>value.py\<close> and \<open>keypath.py\<close>. A write at a path is read back, leaves what
    diverging paths read as it was, and raises only what the code documents.
  \<^item> \<open>Json_Text\<close>, \<open>Canonical\<close>: \<open>json.loads\<close> and \<open>interop/canonical.py\<close>. Foundation's comparison
    is a strict total order of ASCII keys, and no order beyond (\<open>compare_keys_cyclic\<close>), so the writer's
    Foundation order is the code's for objects with ASCII keys only; for those, and in the encoder's
    order for all, two values have the same canonical bytes exactly when they have the same canonical form, so
    a signature covers the whole value.
  \<^item> \<open>Identity\<close>: \<open>identity.py\<close>. Memory and bridge vaults with their store; a proof of control is sound,
    a delegated vault signs only what it was authorised for and no challenge twice.
  \<^item> \<open>Agreement\<close>, \<open>General_Cell\<close>: \<open>agreement.py\<close> and \<open>general_cell.py\<close>. Access is decided only by owner or
    contract, contracts stay within template and policy, the lock excludes.
  \<^item> \<open>Models\<close>, \<open>Verify\<close>, \<open>Verify_Runs\<close>: \<open>interop/models.py\<close> and \<open>interop/verify.py\<close>. Tables of fields with one generic
    reader and writer: reading is typed, writing is read back, the payload determines everything but the
    proof; each verifier accepts exactly, or only, what its description says. The locale
    \<open>signed_envelope\<close> is the contract of a verifier and is interpreted for each of them.
  \<^item> \<open>Base58\<close>, \<open>Link_Dates\<close>, \<open>Link_Models\<close>, \<open>Credentials\<close>, \<open>Identity_Link\<close>, \<open>Genesis\<close>: \<open>interop/identity_link.py\<close>, from the
    \<open>did:key\<close> text to the four checks of an entity extension and the genesis seal of an anchor.
  \<^item> \<open>Entity_Anchor\<close>, \<open>Anchor_Safety\<close>, \<open>Anchor_Genesis\<close>, \<open>Anchor_Runs\<close>: \<open>cells/entity_anchor.py\<close>, the cell that seals an
    entity to its owner and records links. Its calls are a step relation, each call in a world of its own:
    an approval completes once and a seal stays, under calls whose keypaths and identifiers do not
    collide with them, and genesis and first batches seal only for the proven owner, with a seal that verifies.
  \<^item> \<open>Url\<close>, \<open>Channel_Wire\<close>, \<open>Channel\<close>, \<open>Channel_Runs\<close>, \<open>Channel_Honest\<close>: \<open>interop/channel.py\<close>. The server refines an abstract
    admission protocol, an admitted channel is proven, a client signs one own challenge, and an honest
    attempt, in time and within the limits, is admitted at both ends.
  \<^item> \<open>Vault_Cell\<close>, \<open>Graph_Cell\<close>, \<open>Configuration\<close>, \<open>Profile\<close>, \<open>Graph_Profile\<close>: \<open>cells/vault.py\<close>, \<open>cells/graph.py\<close>,
    \<open>configuration.py\<close>, \<open>cells/structural_value_profile.py\<close>, and the last two cells composed.

  \<^bold>\<open>Bounds and termination.\<close> Every function of the model is total. The component search of \<open>Profile\<close> is a
  \<open>while_option\<close> and its ending is a property; the JSON parser and the writers recurse on their input.
  Python's recursion limit, memory and integer text limit are not modelled.

  \<^bold>\<open>Not modelled.\<close> \<open>bridge.py\<close> and the asyncio parts of the cells (tasks, futures, timeouts over a
  socket); the HTTP landing pages, command line and FastAPI wiring of the scaffold; files on disk; the
  numerics of \<open>structural_value_profile.py\<close> that rest on \<open>math\<close>, \<open>zlib\<close> and the Mersenne Twister, and
  \<open>graph_metrics_compare.py\<close>; \<open>stable_json_dumps\<close>; the chat, invitation and entity extension cells, whose
  envelopes and checks are modelled; the resolver. PROJECT.json lists every part with its reason.
\<close>

end
